(* ===== verification/Go_Channel.thy ===== *)
theory Go_Channel
  imports Prelude
begin

text \<open>
  Go's buffered channels: a bounded FIFO with a closed flag. A send on a closed channel
  panics, a send on a full one blocks; a receive drains the buffer first, then reports
  the closed channel, and blocks otherwise. Used by the container pool
  (\<open>langPool.idle\<close>) and by the pending synchronous calls of the WebSocket server.
\<close>

record 'a chan =
  buf :: "'a list"
  cap :: nat
  chanClosed :: bool

datatype 'a send_result = Sent "'a chan" | SendBlocks | SendPanics

datatype 'a recv_result = Received 'a "'a chan" | RecvClosed | RecvBlocks

definition make_chan :: "nat \<Rightarrow> 'a chan" where
  "make_chan n = \<lparr>buf = [], cap = n, chanClosed = False\<rparr>"

definition chan_send :: "'a chan \<Rightarrow> 'a \<Rightarrow> 'a send_result" where
  "chan_send c x =
     (if chanClosed c then SendPanics
      else if length (buf c) < cap c then Sent (c\<lparr>buf := buf c @ [x]\<rparr>)
      else SendBlocks)"

definition chan_recv :: "'a chan \<Rightarrow> 'a recv_result" where
  "chan_recv c =
     (case buf c of
        x # xs \<Rightarrow> Received x (c\<lparr>buf := xs\<rparr>)
      | [] \<Rightarrow> if chanClosed c then RecvClosed else RecvBlocks)"

definition chan_close :: "'a chan \<Rightarrow> 'a chan option" where
  \<comment> \<open>None: closing a closed channel panics\<close>
  "chan_close c = (if chanClosed c then None else Some (c\<lparr>chanClosed := True\<rparr>))"

definition chan_ok :: "'a chan \<Rightarrow> bool" where
  "chan_ok c \<longleftrightarrow> length (buf c) \<le> cap c"

lemma make_chan_simps [simp]:
  "buf (make_chan n) = []" "cap (make_chan n) = n" "\<not> chanClosed (make_chan n)"
  by (simp_all add: make_chan_def)

lemma chan_ok_make [keep_inv]: "chan_ok (make_chan n)"
  by (simp add: chan_ok_def)

lemma chan_send_SentD:
  "chan_send c x = Sent c' \<Longrightarrow>
     c' = c\<lparr>buf := buf c @ [x]\<rparr> \<and> \<not> chanClosed c \<and> length (buf c) < cap c"
  by (auto simp: chan_send_def split: if_splits)

lemma chan_ok_send [keep_inv]: "chan_send c x = Sent c' \<Longrightarrow> chan_ok c'"
  by (auto simp: chan_send_def chan_ok_def split: if_splits)

lemma chan_recv_ReceivedD:
  "chan_recv c = Received x c' \<Longrightarrow> buf c = x # buf c' \<and> cap c' = cap c \<and> chanClosed c' = chanClosed c"
  by (auto simp: chan_recv_def split: list.splits if_splits)

lemma chan_ok_recv [keep_inv]: "chan_ok c \<Longrightarrow> chan_recv c = Received x c' \<Longrightarrow> chan_ok c'"
  by (auto simp: chan_ok_def dest: chan_recv_ReceivedD)

lemma chan_recv_closed_iff: "chan_recv c = RecvClosed \<longleftrightarrow> buf c = [] \<and> chanClosed c"
  by (auto simp: chan_recv_def split: list.splits)

lemma chan_recv_blocks_iff: "chan_recv c = RecvBlocks \<longleftrightarrow> buf c = [] \<and> \<not> chanClosed c"
  by (auto simp: chan_recv_def split: list.splits)

subsection \<open>Channels as FIFO queues\<close>

text \<open>
  The contract a client of a channel relies on, as a locale over the three operations: what
  goes in comes out once and in order, and a channel below its capacity accepts a value.
\<close>

locale fifo_channel =
  fixes contents :: "'c \<Rightarrow> 'a list"
    and limit :: "'c \<Rightarrow> nat"
    and shut :: "'c \<Rightarrow> bool"
    and put :: "'c \<Rightarrow> 'a \<Rightarrow> 'c option"
    and take_one :: "'c \<Rightarrow> ('a \<times> 'c) option"
  assumes put_ok: "\<not> shut c \<Longrightarrow> length (contents c) < limit c \<Longrightarrow>
      \<exists>c'. put c x = Some c' \<and> contents c' = contents c @ [x] \<and> limit c' = limit c \<and> \<not> shut c'"
    and put_shut: "shut c \<Longrightarrow> put c x = None"
    and put_full: "limit c \<le> length (contents c) \<Longrightarrow> put c x = None"
    and take_empty: "contents c = [] \<Longrightarrow> take_one c = None"
    and take_Cons: "contents c = y # ys \<Longrightarrow>
      \<exists>c'. take_one c = Some (y, c') \<and> contents c' = ys \<and> limit c' = limit c \<and> shut c' = shut c"
begin

lemma put_contents: "put c x = Some c' \<Longrightarrow> contents c' = contents c @ [x] \<and> limit c' = limit c"
  using put_ok [of c x] put_shut [of c x] put_full [of c x]
  by (metis linorder_not_less option.distinct(1) option.inject)

lemma put_within: "put c x = Some c' \<Longrightarrow> length (contents c') \<le> limit c'"
  using put_contents [of c x c'] put_full [of c x] by (simp add: Suc_le_eq not_le [symmetric]) fastforce

lemma put_take_empty:
  assumes "contents c = []" and "put c x = Some c'"
  shows "\<exists>c''. take_one c' = Some (x, c'') \<and> contents c'' = []"
proof -
  from assms have "contents c' = x # []" using put_contents by fastforce
  then show ?thesis using take_Cons by blast
qed

lemma capacity_one_put_twice: "limit c = 1 \<Longrightarrow> put c x = Some c' \<Longrightarrow> put c' y = None"
  using put_contents [of c x c'] put_full [of c' y] by simp

end

definition chan_put :: "'a chan \<Rightarrow> 'a \<Rightarrow> 'a chan option" where
  "chan_put c x = (case chan_send c x of Sent c' \<Rightarrow> Some c' | _ \<Rightarrow> None)"

definition chan_take :: "'a chan \<Rightarrow> ('a \<times> 'a chan) option" where
  "chan_take c = (case chan_recv c of Received x c' \<Rightarrow> Some (x, c') | _ \<Rightarrow> None)"

interpretation gochan: fifo_channel buf cap chanClosed chan_put chan_take
  by unfold_locales
    (auto simp: chan_put_def chan_take_def chan_send_def chan_recv_def split: list.splits)

end
