(* ===== verification/Go_Strings.thy ===== *)
theory Go_Strings
  imports Prelude
begin

text \<open>
  The part of Go's standard library on strings that the program uses. A Go string is a
  sequence of bytes; it is modelled as \<open>string\<close>, whose characters are bytes. UTF-8 is
  handled at the byte level: \<open>TrimSpace\<close> removes the encodings of the Unicode white
  space runes, \<open>runes\<close> cuts a string where Go's \<open>[]rune(s)\<close> does, an invalid byte being
  one rune. Also here: \<open>HasPrefix\<close>, \<open>TrimSuffix\<close>, \<open>Split\<close>, \<open>Contains\<close>,
  \<open>html.EscapeString\<close> and \<open>Sprintf\<close>'s \<open>%d\<close>.
\<close>

abbreviation byte :: "char \<Rightarrow> nat" where
  "byte c \<equiv> of_char c"

subsection \<open>Prefixes and suffixes\<close>

fun strip_prefix :: "string \<Rightarrow> string \<Rightarrow> string option" where
  "strip_prefix [] s = Some s"
| "strip_prefix (p # ps) [] = None"
| "strip_prefix (p # ps) (c # cs) = (if p = c then strip_prefix ps cs else None)"

definition HasPrefix :: "string \<Rightarrow> string \<Rightarrow> bool" where
  "HasPrefix s p = (strip_prefix p s \<noteq> None)"

definition HasSuffix :: "string \<Rightarrow> string \<Rightarrow> bool" where
  "HasSuffix s p = HasPrefix (rev s) (rev p)"

definition TrimSuffix :: "string \<Rightarrow> string \<Rightarrow> string" where
  "TrimSuffix s p = (case strip_prefix (rev p) (rev s) of None \<Rightarrow> s | Some r \<Rightarrow> rev r)"

lemma strip_prefix_Some_iff: "strip_prefix p s = Some r \<longleftrightarrow> s = p @ r"
  by (induction p s rule: strip_prefix.induct) auto

lemma strip_prefix_append [simp]: "strip_prefix p (p @ s) = Some s"
  by (simp add: strip_prefix_Some_iff)

lemma HasPrefix_iff: "HasPrefix s p \<longleftrightarrow> (\<exists>r. s = p @ r)"
  by (auto simp: HasPrefix_def strip_prefix_Some_iff)

lemma HasSuffix_iff: "HasSuffix s p \<longleftrightarrow> (\<exists>r. s = r @ p)"
proof -
  have "HasSuffix s p \<longleftrightarrow> (\<exists>r. rev s = rev p @ r)"
    by (simp add: HasSuffix_def HasPrefix_iff)
  also have "\<dots> \<longleftrightarrow> (\<exists>r. s = r @ p)"
    by (metis rev_append rev_rev_ident)
  finally show ?thesis .
qed

lemma TrimSuffix_append [simp]: "TrimSuffix (s @ p) p = s"
  by (simp add: TrimSuffix_def)

fun Contains_char :: "char \<Rightarrow> string \<Rightarrow> bool" where
  "Contains_char c s = (c \<in> set s)"

text \<open>\<open>strings.Split(s, sep)\<close> for a one-byte separator.\<close>

fun Split :: "char \<Rightarrow> string \<Rightarrow> string list" where
  "Split sep [] = [[]]"
| "Split sep (c # cs) =
     (if c = sep then [] # Split sep cs
      else case Split sep cs of [] \<Rightarrow> [[c]] | w # ws \<Rightarrow> (c # w) # ws)"

lemma Split_not_Nil [simp]: "Split sep s \<noteq> []"
  by (induction s) (auto split: list.splits)

lemma Split_no_sep: "sep \<notin> set s \<Longrightarrow> Split sep s = [s]"
  by (induction s) auto

lemma Split_append_sep: "sep \<notin> set a \<Longrightarrow> Split sep (a @ sep # b) = a # Split sep b"
  by (induction a) auto

lemma Split_one: "Split sep s = [a] \<Longrightarrow> s = a"
  by (induction s arbitrary: a) (auto split: if_splits list.splits)

lemma Split_two: "Split sep s = [a, b] \<Longrightarrow> s = a @ sep # b"
  by (induction s arbitrary: a) (auto split: if_splits list.splits dest: Split_one)

lemma Split_no_sep_in: "w \<in> set (Split sep s) \<Longrightarrow> sep \<notin> set w"
proof (induction s arbitrary: w)
  case Nil
  then show ?case by simp
next
  case (Cons c s)
  show ?case
  proof (cases "Split sep s")
    case Nil
    then show ?thesis by simp
  next
    case (Cons v vs)
    with Cons.IH Cons.prems show ?thesis by (auto split: if_splits)
  qed
qed

subsection \<open>TrimSpace\<close>

text \<open>
  The UTF-8 encodings of the runes \<open>unicode.IsSpace\<close> accepts: the ASCII white space, U+0085,
  U+00A0, U+1680, U+2000 to U+200A, U+2028, U+2029, U+202F, U+205F and U+3000. A byte string
  starts (ends) with a white space rune, as Go decodes it, exactly when it starts (ends) with
  one of these encodings.
\<close>

definition space_encodings :: "string list" where
  "space_encodings =
     [[CHR 0x20], [CHR 0x09], [CHR 0x0A], [CHR 0x0B], [CHR 0x0C], [CHR 0x0D],
      [CHR 0xC2, CHR 0x85], [CHR 0xC2, CHR 0xA0], [CHR 0xE1, CHR 0x9A, CHR 0x80],
      [CHR 0xE2, CHR 0x80, CHR 0x80], [CHR 0xE2, CHR 0x80, CHR 0x81], [CHR 0xE2, CHR 0x80, CHR 0x82],
      [CHR 0xE2, CHR 0x80, CHR 0x83], [CHR 0xE2, CHR 0x80, CHR 0x84], [CHR 0xE2, CHR 0x80, CHR 0x85],
      [CHR 0xE2, CHR 0x80, CHR 0x86], [CHR 0xE2, CHR 0x80, CHR 0x87], [CHR 0xE2, CHR 0x80, CHR 0x88],
      [CHR 0xE2, CHR 0x80, CHR 0x89], [CHR 0xE2, CHR 0x80, CHR 0x8A], [CHR 0xE2, CHR 0x80, CHR 0xA8],
      [CHR 0xE2, CHR 0x80, CHR 0xA9], [CHR 0xE2, CHR 0x80, CHR 0xAF], [CHR 0xE2, CHR 0x81, CHR 0x9F],
      [CHR 0xE3, CHR 0x80, CHR 0x80]]"

fun strip_any :: "string list \<Rightarrow> string \<Rightarrow> string option" where
  "strip_any [] s = None"
| "strip_any (p # ps) s = (case strip_prefix p s of Some r \<Rightarrow> Some r | None \<Rightarrow> strip_any ps s)"

lemma strip_any_SomeD: "strip_any ps s = Some r \<Longrightarrow> \<exists>p \<in> set ps. s = p @ r"
  by (induction ps) (auto simp: strip_prefix_Some_iff split: option.splits)

lemma strip_any_None_iff: "strip_any ps s = None \<longleftrightarrow> (\<forall>p \<in> set ps. strip_prefix p s = None)"
  by (induction ps) (auto split: option.splits)

text \<open>Removing prefixes drawn from a list as long as one applies; each removal shortens the string.\<close>

function drop_all :: "string list \<Rightarrow> string \<Rightarrow> string" where
  "drop_all ps s =
     (case strip_any ps s of
        None \<Rightarrow> s
      | Some r \<Rightarrow> if length r < length s then drop_all ps r else s)"
  by pat_completeness auto
termination
  by (relation "measure (\<lambda>(ps, s). length s)") auto

declare drop_all.simps [simp del]

lemma drop_all_suffix: "\<exists>p. s = p @ drop_all ps s"
proof (induction ps s rule: drop_all.induct)
  case (1 ps s)
  show ?case
  proof (cases "strip_any ps s")
    case None
    then show ?thesis by (simp add: drop_all.simps [of ps s])
  next
    case (Some r)
    then obtain p where p: "s = p @ r" using strip_any_SomeD by blast
    show ?thesis
    proof (cases "length r < length s")
      case True
      then obtain q where "r = q @ drop_all ps r" using "1.IH" Some by blast
      moreover have "drop_all ps s = drop_all ps r"
        using Some True by (simp add: drop_all.simps [of ps s])
      ultimately have "s = (p @ q) @ drop_all ps s" using p by simp
      then show ?thesis by blast
    next
      case False
      then show ?thesis using Some by (simp add: drop_all.simps [of ps s])
    qed
  qed
qed

lemma drop_all_split: "\<exists>qs. set qs \<subseteq> set ps \<and> s = concat qs @ drop_all ps s"
proof (induction ps s rule: drop_all.induct)
  case (1 ps s)
  show ?case
  proof (cases "\<exists>r. strip_any ps s = Some r \<and> length r < length s")
    case True
    then obtain r where r: "strip_any ps s = Some r" "length r < length s" by blast
    then obtain p where p: "p \<in> set ps" "s = p @ r" using strip_any_SomeD by blast
    from "1.IH" r obtain qs where "set qs \<subseteq> set ps" "r = concat qs @ drop_all ps r" by blast
    moreover have "drop_all ps s = drop_all ps r" using r by (simp add: drop_all.simps [of ps s])
    ultimately have "set (p # qs) \<subseteq> set ps \<and> s = concat (p # qs) @ drop_all ps s" using p by simp
    then show ?thesis by blast
  next
    case False
    then show ?thesis by (intro exI [of _ "[]"]) (auto simp: drop_all.simps [of ps s] split: option.splits)
  qed
qed

lemma drop_all_stops:
  "[] \<notin> set ps \<Longrightarrow> strip_any ps (drop_all ps s) = None"
proof (induction ps s rule: drop_all.induct)
  case (1 ps s)
  show ?case
  proof (cases "strip_any ps s")
    case None
    then show ?thesis by (simp add: drop_all.simps [of ps s])
  next
    case (Some r)
    then obtain p where "p \<in> set ps" "s = p @ r" using strip_any_SomeD by blast
    then have "length r < length s" using "1.prems" by auto
    then show ?thesis using "1.IH" "1.prems" Some by (simp add: drop_all.simps [of ps s])
  qed
qed

lemma drop_all_id: "strip_any ps s = None \<Longrightarrow> drop_all ps s = s"
  by (simp add: drop_all.simps [of ps s])

lemma drop_all_Nil [simp]: "drop_all ps [] = []"
  using drop_all_suffix [of "[]" ps] by auto

lemma drop_all_idem: "[] \<notin> set ps \<Longrightarrow> drop_all ps (drop_all ps s) = drop_all ps s"
  by (simp add: drop_all_id drop_all_stops)

definition TrimLeftSpace :: "string \<Rightarrow> string" where
  "TrimLeftSpace s = drop_all space_encodings s"

definition TrimRightSpace :: "string \<Rightarrow> string" where
  "TrimRightSpace s = rev (drop_all (map rev space_encodings) (rev s))"

definition TrimSpace :: "string \<Rightarrow> string" where
  "TrimSpace s = TrimRightSpace (TrimLeftSpace s)"

lemma space_encodings_nonempty [simp]: "[] \<notin> set space_encodings" "[] \<notin> rev ` set space_encodings"
  by (simp_all add: space_encodings_def)

lemma TrimSpace_infix: "\<exists>p q. s = p @ TrimSpace s @ q"
proof -
  obtain p where p: "s = p @ TrimLeftSpace s"
    using drop_all_suffix [of s space_encodings] by (auto simp: TrimLeftSpace_def)
  obtain q where "rev (TrimLeftSpace s) = q @ drop_all (map rev space_encodings) (rev (TrimLeftSpace s))"
    using drop_all_suffix by blast
  then have "TrimLeftSpace s = TrimSpace s @ rev q"
    by (metis TrimRightSpace_def TrimSpace_def rev_append rev_rev_ident)
  with p show ?thesis by metis
qed

text \<open>What trimming removes consists of white space encodings; none of them contains a printable ASCII byte.\<close>

lemma TrimSpace_split:
  "\<exists>p q. s = p @ TrimSpace s @ q \<and> set p \<union> set q \<subseteq> \<Union> (set ` set space_encodings)"
proof -
  obtain ps where p: "set ps \<subseteq> set space_encodings" "s = concat ps @ TrimLeftSpace s"
    using drop_all_split [of space_encodings s] by (auto simp: TrimLeftSpace_def)
  obtain qs where q: "set qs \<subseteq> set (map rev space_encodings)"
    "rev (TrimLeftSpace s) = concat qs @ drop_all (map rev space_encodings) (rev (TrimLeftSpace s))"
    using drop_all_split by blast
  then have "TrimLeftSpace s = TrimSpace s @ rev (concat qs)"
    by (metis TrimRightSpace_def TrimSpace_def rev_append rev_rev_ident)
  with p have "s = concat ps @ TrimSpace s @ rev (concat qs)" by metis
  moreover have "set (concat ps) \<union> set (rev (concat qs)) \<subseteq> \<Union> (set ` set space_encodings)"
    using p(1) q(1) by fastforce
  ultimately show ?thesis by blast
qed

lemma space_encodings_printable:
  "33 \<le> byte c \<Longrightarrow> byte c < 128 \<Longrightarrow> c \<notin> \<Union> (set ` set space_encodings)"
  by (auto simp: space_encodings_def)

lemma TrimSpace_Nil [simp]: "TrimSpace [] = []"
  by (simp add: TrimSpace_def TrimLeftSpace_def TrimRightSpace_def)

lemma TrimSpace_set: "set (TrimSpace s) \<subseteq> set s"
  using TrimSpace_infix [of s] by (metis Un_iff set_append subsetI)

lemma TrimSpace_length: "length (TrimSpace s) \<le> length s"
proof -
  obtain p q where "s = p @ TrimSpace s @ q" using TrimSpace_infix by blast
  then have "length s = length p + (length (TrimSpace s) + length q)" by (metis length_append)
  then show ?thesis by simp
qed

text \<open>
  A trimmed string has no white space rune at either end (\<open>TrimSpace_idem\<close> below needs both ends).
\<close>

definition no_space_ends :: "string \<Rightarrow> bool" where
  "no_space_ends s \<longleftrightarrow>
     (\<forall>p \<in> set space_encodings. \<not> HasPrefix s p \<and> \<not> HasSuffix s p)"

lemma TrimSpace_no_space_suffix: "p \<in> set space_encodings \<Longrightarrow> \<not> HasSuffix (TrimSpace s) p"
  using drop_all_stops [of "map rev space_encodings" "rev (TrimLeftSpace s)"]
  by (auto simp: HasSuffix_def HasPrefix_def TrimSpace_def TrimRightSpace_def strip_any_None_iff)

lemma TrimSpace_no_space_prefix:
  assumes "p \<in> set space_encodings"
  shows "\<not> HasPrefix (TrimSpace s) p"
proof
  assume "HasPrefix (TrimSpace s) p"
  then obtain r where r: "TrimSpace s = p @ r" by (auto simp: HasPrefix_iff)
  obtain q where "rev (TrimLeftSpace s) = q @ drop_all (map rev space_encodings) (rev (TrimLeftSpace s))"
    using drop_all_suffix by blast
  then have "TrimLeftSpace s = TrimSpace s @ rev q"
    by (metis TrimRightSpace_def TrimSpace_def rev_append rev_rev_ident)
  with r have "strip_prefix p (TrimLeftSpace s) = Some (r @ rev q)"
    by (simp add: strip_prefix_Some_iff)
  moreover have "strip_any space_encodings (TrimLeftSpace s) = None"
    by (simp add: TrimLeftSpace_def drop_all_stops)
  ultimately show False using assms by (simp add: strip_any_None_iff)
qed

lemma TrimSpace_no_space_ends: "no_space_ends (TrimSpace s)"
  by (simp add: no_space_ends_def TrimSpace_no_space_prefix TrimSpace_no_space_suffix)

lemma TrimSpace_id: "no_space_ends s \<Longrightarrow> TrimSpace s = s"
proof -
  assume n: "no_space_ends s"
  then have "strip_any space_encodings s = None"
    by (auto simp: no_space_ends_def HasPrefix_def strip_any_None_iff)
  then have l: "TrimLeftSpace s = s" by (simp add: TrimLeftSpace_def drop_all_id)
  from n have "strip_any (map rev space_encodings) (rev s) = None"
    by (auto simp: no_space_ends_def HasSuffix_def HasPrefix_def strip_any_None_iff)
  then show ?thesis by (simp add: TrimSpace_def l TrimRightSpace_def drop_all_id)
qed

lemma TrimSpace_idem: "TrimSpace (TrimSpace s) = TrimSpace s"
  by (simp add: TrimSpace_id TrimSpace_no_space_ends)

subsection \<open>Runes\<close>

text \<open>
  \<open>rune_width\<close> is the number of bytes \<open>utf8.DecodeRune\<close> consumes: the width of a valid
  encoding, and 1 for an invalid byte (which decodes to U+FFFD).
\<close>

definition next_in :: "nat \<Rightarrow> nat \<Rightarrow> nat \<Rightarrow> string \<Rightarrow> bool" where
  "next_in i lo hi cs = (i < length cs \<and> lo \<le> byte (cs ! i) \<and> byte (cs ! i) \<le> hi)"

fun rune_width :: "string \<Rightarrow> nat" where
  "rune_width [] = 0"
| "rune_width (c # cs) =
     (let b = byte c in
      if b < 0x80 then 1
      else if 0xC2 \<le> b \<and> b \<le> 0xDF then (if next_in 0 0x80 0xBF cs then 2 else 1)
      else if 0xE0 \<le> b \<and> b \<le> 0xEF then
        (let lo = (if b = 0xE0 then 0xA0 else 0x80); hi = (if b = 0xED then 0x9F else 0xBF)
         in if next_in 0 lo hi cs \<and> next_in 1 0x80 0xBF cs then 3 else 1)
      else if 0xF0 \<le> b \<and> b \<le> 0xF4 then
        (let lo = (if b = 0xF0 then 0x90 else 0x80); hi = (if b = 0xF4 then 0x8F else 0xBF)
         in if next_in 0 lo hi cs \<and> next_in 1 0x80 0xBF cs \<and> next_in 2 0x80 0xBF cs then 4 else 1)
      else 1)"

lemma rune_width_pos: "0 < rune_width (c # cs)"
  by (simp add: Let_def)

text \<open>The byte ranges of the elements of \<open>[]rune(s)\<close>.\<close>

function rune_chunks :: "string \<Rightarrow> string list" where
  "rune_chunks s =
     (if s = [] then [] else take (rune_width s) s # rune_chunks (drop (rune_width s) s))"
  by pat_completeness auto
termination
proof (relation "measure length")
  fix s :: string
  assume "s \<noteq> []"
  then have "0 < rune_width s" by (cases s) (simp_all add: rune_width_pos del: rune_width.simps)
  then show "(drop (rune_width s) s, s) \<in> measure length" using \<open>s \<noteq> []\<close> by simp
qed simp

declare rune_chunks.simps [simp del]

lemma rune_chunks_Nil [simp]: "rune_chunks [] = []"
  by (simp add: rune_chunks.simps)

lemma concat_rune_chunks: "concat (rune_chunks s) = s"
proof (induction s rule: rune_chunks.induct)
  case (1 s)
  then show ?case by (cases "s = []") (simp_all add: rune_chunks.simps [of s])
qed

lemma rune_chunks_nonempty: "c \<in> set (rune_chunks s) \<Longrightarrow> c \<noteq> []"
proof (induction s rule: rune_chunks.induct)
  case (1 s)
  show ?case
  proof (cases s)
    case Nil
    with "1.prems" show ?thesis by simp
  next
    case (Cons a as)
    then have "take (rune_width s) s \<noteq> []"
      using rune_width_pos [of a as] by (simp del: rune_width.simps)
    moreover have "rune_chunks s = take (rune_width s) s # rune_chunks (drop (rune_width s) s)"
      by (subst rune_chunks.simps) (simp add: Cons del: rune_width.simps)
    ultimately show ?thesis
      using "1.IH" "1.prems" Cons by (auto simp del: rune_width.simps)
  qed
qed

text \<open>\<open>len([]rune(s))\<close>\<close>

definition rune_count :: "string \<Rightarrow> nat" where
  "rune_count s = length (rune_chunks s)"

lemma length_le_concat: "\<forall>c \<in> set cs. c \<noteq> [] \<Longrightarrow> length cs \<le> length (concat cs)"
proof (induction cs)
  case Nil
  then show ?case by simp
next
  case (Cons c cs)
  then have "1 \<le> length c" by (cases c) simp_all
  with Cons show ?case by simp
qed

lemma rune_count_le: "rune_count s \<le> length s"
  using length_le_concat [of "rune_chunks s"] rune_chunks_nonempty
  by (auto simp: rune_count_def concat_rune_chunks)

definition ascii :: "string \<Rightarrow> bool" where
  "ascii s \<longleftrightarrow> (\<forall>c \<in> set s. byte c < 0x80)"

lemma rune_count_ascii: "ascii s \<Longrightarrow> rune_count s = length s"
proof (induction s)
  case Nil
  then show ?case by (simp add: rune_count_def)
next
  case (Cons c s)
  then have "rune_width (c # s) = 1" by (simp add: ascii_def)
  with Cons show ?case
    by (simp add: rune_count_def rune_chunks.simps [of "c # s"] ascii_def del: rune_width.simps)
qed

text \<open>\<open>string([]rune{r})\<close> of a chunk: an invalid byte comes back as the encoding of U+FFFD.\<close>

definition reencode :: "string \<Rightarrow> string" where
  "reencode c = (case c of
     [b] \<Rightarrow> if byte b < 0x80 then [b] else [CHR 0xEF, CHR 0xBF, CHR 0xBD]
   | _ \<Rightarrow> c)"

subsection \<open>html.EscapeString\<close>

definition escape_char :: "char \<Rightarrow> string" where
  "escape_char c =
     (if c = CHR 0x26 then ''&amp;''
      else if c = CHR 0x27 then ''&#39;''
      else if c = CHR 0x3C then ''&lt;''
      else if c = CHR 0x3E then ''&gt;''
      else if c = CHR 0x22 then ''&#34;''
      else [c])"

definition EscapeString :: "string \<Rightarrow> string" where
  "EscapeString s = concat (map escape_char s)"

lemma escape_char_safe: "set (escape_char c) \<inter> {CHR 0x3C, CHR 0x3E, CHR 0x22, CHR 0x27} = {}"
  by (auto simp: escape_char_def)

lemma EscapeString_safe: "c \<in> {CHR 0x3C, CHR 0x3E, CHR 0x22, CHR 0x27} \<Longrightarrow> c \<notin> set (EscapeString s)"
  using escape_char_safe by (fastforce simp: EscapeString_def)

subsection \<open>Decimal numbers\<close>

fun nat_str :: "nat \<Rightarrow> string" where
  "nat_str n = (if n < 10 then [char_of (48 + n)] else nat_str (n div 10) @ [char_of (48 + n mod 10)])"

declare nat_str.simps [simp del]

definition Itoa :: "int \<Rightarrow> string" where
  "Itoa n = (if n < 0 then CHR 0x2D # nat_str (nat (- n)) else nat_str (nat n))"

text \<open>Reading the digits back, which makes the printing injective.\<close>

definition str_nat :: "string \<Rightarrow> nat" where
  "str_nat s = foldl (\<lambda>v c. v * 10 + (byte c - 48)) 0 s"

definition hex_digit :: "nat \<Rightarrow> char" where
  "hex_digit n = (if n < 10 then char_of (48 + n) else char_of (87 + n))"

definition hex_byte :: "nat \<Rightarrow> string" where
  "hex_byte n = [hex_digit (n div 16), hex_digit (n mod 16)]"

lemma byte_char_of: "n < 256 \<Longrightarrow> byte (char_of n) = n"
  by simp

lemma str_nat_nat_str: "str_nat (nat_str n) = n"
proof (induction n rule: nat_str.induct)
  case (1 n)
  show ?case
  proof (cases "n < 10")
    case True
    then show ?thesis by (simp add: str_nat_def nat_str.simps [of n])
  next
    case False
    then have "str_nat (nat_str (n div 10)) = n div 10" using "1" by simp
    moreover have "byte (char_of (48 + n mod 10)) = 48 + n mod 10" by simp
    ultimately show ?thesis using False
      by (simp add: str_nat_def nat_str.simps [of n] del: of_char_of)
  qed
qed

lemma nat_str_inj: "nat_str m = nat_str n \<longleftrightarrow> m = n"
  by (metis str_nat_nat_str)

lemma nat_str_digits: "c \<in> set (nat_str n) \<Longrightarrow> 48 \<le> byte c \<and> byte c \<le> 57"
proof (induction n rule: nat_str.induct)
  case (1 n)
  then show ?case
    by (cases "n < 10") (auto simp: nat_str.simps [of n])
qed

lemma nat_str_nonempty [simp]: "nat_str n \<noteq> []"
  by (simp add: nat_str.simps [of n])

lemma Itoa_inj: "Itoa m = Itoa n \<longleftrightarrow> m = n"
proof -
  have minus: "CHR 0x2D # s \<noteq> nat_str k" for s k
  proof
    assume "CHR 0x2D # s = nat_str k"
    then have "CHR 0x2D \<in> set (nat_str k)" by (metis list.set_intros(1))
    then have "48 \<le> byte (CHR 0x2D)" by (simp only: nat_str_digits)
    then show False by simp
  qed
  show ?thesis
    by (auto simp: Itoa_def nat_str_inj minus minus [symmetric])
qed

end
