(* ===== verification/Go_Errors.thy ===== *)
theory Go_Errors
  imports Go_Strings
begin

text \<open>
  The error values of the execution path as a datatype: the sentinels of
  \<open>internal/infrastructure/common/errors\<close>, the \<open>fmt.Errorf\<close> values of the container
  runner and of the WebSocket layer (the constructor's argument is the formatted operand), and
  \<open>ErrForeign\<close> for an error handed up by a library or the operating system.
  \<open>err_text\<close> is the \<open>Error()\<close> method, byte for byte.
\<close>

datatype go_error =
    NotFoundEffectiveServer
  | ResultSendFail
  | MaxRetryAttemptsReached
  | ClientClosed
  | ErrContainerExecTimeout
  | ErrContainerPoolExhausted string
  | ErrContainerPoolClosed
  | ErrUnsupportedLanguage string
  | ErrNoExtension
  | ErrNoCommand string
  | ErrInnerServer
  | ErrExecTimeout
  | ErrExecCreate string
  | ErrExecAttach string
  | ErrExecInspect string
  | ErrSendSyncTimeout string
  | ErrUnmarshalSync string
  | ErrForeign string

fun err_text :: "go_error \<Rightarrow> string" where
  "err_text NotFoundEffectiveServer = [CHR 0xE6, CHR 0x9C, CHR 0xAA, CHR 0xE6, CHR 0x89, CHR 0xBE,
      CHR 0xE5, CHR 0x88, CHR 0xB0, CHR 0xE5, CHR 0x8F, CHR 0xAF, CHR 0xE7, CHR 0x94, CHR 0xA8,
      CHR 0xE7, CHR 0x9A, CHR 0x84, CHR 0xE6, CHR 0x9C, CHR 0x8D, CHR 0xE5, CHR 0x8A, CHR 0xA1,
      CHR 0xE5, CHR 0x99, CHR 0xA8]"
| "err_text ResultSendFail = [CHR 0xE8, CHR 0xBF, CHR 0x90, CHR 0xE8, CHR 0xA1, CHR 0x8C, CHR 0xE7,
      CHR 0xBB, CHR 0x93, CHR 0xE6, CHR 0x9E, CHR 0x9C, CHR 0xE5, CHR 0x8F, CHR 0x91, CHR 0xE9,
      CHR 0x80, CHR 0x81, CHR 0xE5, CHR 0xA4, CHR 0xB1, CHR 0xE8, CHR 0xB4, CHR 0xA5]"
| "err_text MaxRetryAttemptsReached = [CHR 0xE5, CHR 0xB7, CHR 0xB2, CHR 0xE8, CHR 0xB6, CHR 0x85,
      CHR 0xE8, CHR 0xBF, CHR 0x87, CHR 0xE6, CHR 0x9C, CHR 0x80, CHR 0xE5, CHR 0xA4, CHR 0xA7,
      CHR 0xE9, CHR 0x87, CHR 0x8D, CHR 0xE8, CHR 0xBF, CHR 0x9E, CHR 0xE6, CHR 0xAC, CHR 0xA1,
      CHR 0xE6, CHR 0x95, CHR 0xB0]"
| "err_text ClientClosed = ''websocket client closed''"
| "err_text ErrContainerExecTimeout = [CHR 0xE5, CHR 0xAE, CHR 0xB9, CHR 0xE5, CHR 0x99, CHR 0xA8,
      CHR 0xE6, CHR 0x89, CHR 0xA7, CHR 0xE8, CHR 0xA1, CHR 0x8C, CHR 0xE8, CHR 0xB6, CHR 0x85,
      CHR 0xE6, CHR 0x97, CHR 0xB6]"
| "err_text (ErrContainerPoolExhausted lang) = [CHR 0xE5, CHR 0xAE, CHR 0xB9, CHR 0xE5, CHR 0x99,
      CHR 0xA8, CHR 0xE6, CHR 0xB1, CHR 0xA0, CHR 0xE8, CHR 0xB5, CHR 0x84, CHR 0xE6, CHR 0xBA,
      CHR 0x90, CHR 0xE8, CHR 0x80, CHR 0x97, CHR 0xE5, CHR 0xB0, CHR 0xBD] @ '': '' @ [CHR 0xE8,
      CHR 0xAF, CHR 0xAD, CHR 0xE8, CHR 0xA8, CHR 0x80] @ ''='' @ lang"
| "err_text ErrContainerPoolClosed = [CHR 0xE5, CHR 0xAE, CHR 0xB9, CHR 0xE5, CHR 0x99, CHR 0xA8,
      CHR 0xE6, CHR 0xB1, CHR 0xA0, CHR 0xE5, CHR 0xB7, CHR 0xB2, CHR 0xE5, CHR 0x85, CHR 0xB3,
      CHR 0xE9, CHR 0x97, CHR 0xAD]"
| "err_text (ErrUnsupportedLanguage lang) = [CHR 0xE4, CHR 0xB8, CHR 0x8D, CHR 0xE6, CHR 0x94, CHR
      0xAF, CHR 0xE6, CHR 0x8C, CHR 0x81, CHR 0xE7, CHR 0x9A, CHR 0x84, CHR 0xE8, CHR 0xAF, CHR
      0xAD, CHR 0xE8, CHR 0xA8, CHR 0x80] @ '': '' @ lang"
| "err_text ErrNoExtension = [CHR 0xE5, CHR 0xBD, CHR 0x93, CHR 0xE5, CHR 0x89, CHR 0x8D, CHR 0xE6,
      CHR 0x9C, CHR 0x8D, CHR 0xE5, CHR 0x8A, CHR 0xA1, CHR 0xE4, CHR 0xB8, CHR 0x8D, CHR 0xE6,
      CHR 0x94, CHR 0xAF, CHR 0xE6, CHR 0x8C, CHR 0x81, CHR 0xE6, CHR 0xAD, CHR 0xA4, CHR 0xE7,
      CHR 0xB1, CHR 0xBB, CHR 0xE5, CHR 0x9E, CHR 0x8B]"
| "err_text (ErrNoCommand lang) = [CHR 0xE4, CHR 0xB8, CHR 0x8D, CHR 0xE6, CHR 0x94, CHR 0xAF, CHR
      0xE6, CHR 0x8C, CHR 0x81, CHR 0xE7, CHR 0x9A, CHR 0x84, CHR 0xE8, CHR 0xAF, CHR 0xAD, CHR
      0xE8, CHR 0xA8, CHR 0x80, CHR 0xE7, CHR 0xB1, CHR 0xBB, CHR 0xE5, CHR 0x9E, CHR 0x8B] @ '':
      '' @ lang"
| "err_text ErrInnerServer = [CHR 0xE5, CHR 0x86, CHR 0x85, CHR 0xE7, CHR 0xBD, CHR 0x91, CHR 0xE6,
      CHR 0x9C, CHR 0x8D, CHR 0xE5, CHR 0x8A, CHR 0xA1, CHR 0xE5, CHR 0x99, CHR 0xA8, CHR 0xE5,
      CHR 0x87, CHR 0xBA, CHR 0xE9, CHR 0x94, CHR 0x99]"
| "err_text ErrExecTimeout = [CHR 0xE5, CHR 0x91, CHR 0xBD, CHR 0xE4, CHR 0xBB, CHR 0xA4, CHR 0xE6,
      CHR 0x89, CHR 0xA7, CHR 0xE8, CHR 0xA1, CHR 0x8C, CHR 0xE8, CHR 0xB6, CHR 0x85, CHR 0xE6,
      CHR 0x97, CHR 0xB6]"
| "err_text (ErrExecCreate e) = [CHR 0xE5, CHR 0x88, CHR 0x9B, CHR 0xE5, CHR 0xBB, CHR 0xBA] @
      ''exec'' @ [CHR 0xE5, CHR 0xA4, CHR 0xB1, CHR 0xE8, CHR 0xB4, CHR 0xA5] @ '': '' @ e"
| "err_text (ErrExecAttach e) = [CHR 0xE5, CHR 0x90, CHR 0xAF, CHR 0xE5, CHR 0x8A, CHR 0xA8] @
      ''exec'' @ [CHR 0xE5, CHR 0xA4, CHR 0xB1, CHR 0xE8, CHR 0xB4, CHR 0xA5] @ '': '' @ e"
| "err_text (ErrExecInspect e) = [CHR 0xE8, CHR 0x8E, CHR 0xB7, CHR 0xE5, CHR 0x8F, CHR 0x96, CHR
      0xE9, CHR 0x80, CHR 0x80, CHR 0xE5, CHR 0x87, CHR 0xBA, CHR 0xE7, CHR 0x8A, CHR 0xB6, CHR
      0xE6, CHR 0x80, CHR 0x81, CHR 0xE5, CHR 0xA4, CHR 0xB1, CHR 0xE8, CHR 0xB4, CHR 0xA5] @ '':
      '' @ e"
| "err_text (ErrSendSyncTimeout e) = ''SendSync timeout for request '' @ e"
| "err_text (ErrUnmarshalSync e) = ''unmarshal sync result: '' @ e"
| "err_text (ErrForeign e) = e"

text \<open>
  \<open>errors.Is(err, sentinel)\<close>: the exhausted and the unsupported-language errors wrap their
  sentinel with \<open>%w\<close>; the other errors of this layer are compared as they are.
\<close>

definition is_exec_timeout :: "go_error \<Rightarrow> bool" where
  "is_exec_timeout e = (e = ErrContainerExecTimeout)"

end
