(* ===== verification/App_Config.thy ===== *)
theory App_Config
  imports Prelude
begin

text \<open>
  Configuration values the components take, with the defaults the code fills in:
  \<open>ContainerPoolConfig.ToPoolSizes\<close> (\<open>internal/infrastructure/config/initConfig.go\<close>).
\<close>

record ContainerPoolConfig =
  Golang :: int
  Python :: int
  JavaScript :: int
  Java :: int
  C_lang :: int

text \<open>
  \<open>ToPoolSizes\<close>: the map as an association list, the value of a missing or
  non-positive entry replaced by 1.
\<close>

definition rawPoolSizes :: "ContainerPoolConfig \<Rightarrow> (string \<times> int) list" where
  "rawPoolSizes c =
     [(''golang'', Golang c), (''python'', Python c), (''javascript'', JavaScript c),
      (''java'', Java c), (''c'', C_lang c)]"

definition ToPoolSizes :: "ContainerPoolConfig \<Rightarrow> (string \<times> int) list" where
  "ToPoolSizes c = map (\<lambda>(k, v). if v \<le> 0 then (k, 1) else (k, v)) (rawPoolSizes c)"

lemma ToPoolSizes_positive: "(k, v) \<in> set (ToPoolSizes c) \<Longrightarrow> 1 \<le> v"
  by (auto simp: ToPoolSizes_def split: if_splits)

lemma ToPoolSizes_keys: "map fst (ToPoolSizes c) = [''golang'', ''python'', ''javascript'', ''java'', ''c'']"
  by (simp add: ToPoolSizes_def rawPoolSizes_def split: if_splits)

end
