(* ===== verification/Container_Pool.thy ===== *)
theory Container_Pool
  imports Go_Channel Go_Errors App_Config
begin

text \<open>
  The pool of pre-started sandbox containers of a worker
  (\<open>internal/infrastructure/containerBasic/pool.go\<close>): per language a buffered channel of
  idle slots, \<open>Acquire\<close>, \<open>Release\<close>, \<open>Close\<close> and the goroutine \<open>replenish\<close>.
  First the operations as functions of the pool, then the whole pool with its concurrent
  clients as a step relation, with the invariant that no container is ever in two hands.
\<close>

subsection \<open>Data\<close>

record ContainerSlot =
  slotName :: string
  HostPath :: string

record langPool =
  idle :: "ContainerSlot chan"
  lpLang :: string
  lpSize :: int
  lpImage :: string

record ContainerPool =
  pools :: "string \<rightharpoonup> langPool"
  closed :: bool

text \<open>\<open>langHostDir\<close>; a missing key of a Go map reads as the empty string.\<close>

definition langHostDir :: "string \<Rightarrow> string" where
  "langHostDir lang =
     (if lang \<in> {''golang'', ''python'', ''javascript'', ''java'', ''c''} then lang else '''')"

definition containerImages :: "string \<Rightarrow> string" where
  "containerImages lang =
     (if lang = ''golang'' then ''code-runner-go''
      else if lang = ''java'' then ''code-runner-java''
      else if lang = ''c'' then ''code-runner-cpp''
      else if lang = ''python'' then ''code-runner-python''
      else if lang = ''javascript'' then ''code-runner-js''
      else '''')"

definition supportedLanguages :: "string list" where
  "supportedLanguages = [''golang'', ''c'', ''java'', ''python'', ''javascript'']"

subsection \<open>Construction\<close>

definition mkSlot :: "string \<Rightarrow> string \<Rightarrow> nat \<Rightarrow> ContainerSlot" where
  "mkSlot imgPrefix hostDir i =
     \<lparr>slotName = imgPrefix @ ''-'' @ Itoa (int i),
      HostPath = ''/app/tmp/'' @ hostDir @ ''-'' @ Itoa (int i)\<rparr>"

text \<open>
  The fill loop of \<open>newContainerPool\<close>: the sends go through the channel itself, so a size the
  channel could not hold would show as \<open>None\<close> (the constructor would block for ever).
\<close>

fun fillIdle :: "string \<Rightarrow> string \<Rightarrow> nat list \<Rightarrow> ContainerSlot chan \<Rightarrow> ContainerSlot chan option" where
  "fillIdle imgPrefix hostDir [] c = Some c"
| "fillIdle imgPrefix hostDir (i # is) c =
     (case chan_send c (mkSlot imgPrefix hostDir i) of
        Sent c' \<Rightarrow> fillIdle imgPrefix hostDir is c'
      | _ \<Rightarrow> None)"

definition newLangPool :: "(string \<Rightarrow> string) \<Rightarrow> string \<Rightarrow> int \<Rightarrow> langPool option" where
  \<comment> \<open>None: \<open>make(chan, size)\<close> with a negative size panics\<close>
  "newLangPool images lang sz =
     (if sz < 0 then None
      else case fillIdle (images lang) (langHostDir lang) [0..<nat sz] (make_chan (nat sz)) of
             None \<Rightarrow> None
           | Some c \<Rightarrow> Some \<lparr>idle = c, lpLang = lang, lpSize = sz, lpImage = images lang\<rparr>)"

fun newPools :: "(string \<Rightarrow> string) \<Rightarrow> (string \<times> int) list \<Rightarrow> (string \<rightharpoonup> langPool) \<Rightarrow> (string \<rightharpoonup> langPool) option" where
  "newPools images [] ps = Some ps"
| "newPools images ((lang, sz) # rest) ps =
     (case newLangPool images lang sz of
        None \<Rightarrow> None
      | Some lp \<Rightarrow> newPools images rest (ps(lang \<mapsto> lp)))"

definition newContainerPool :: "(string \<times> int) list \<Rightarrow> (string \<Rightarrow> string) \<Rightarrow> ContainerPool option" where
  \<comment> \<open>the list is the order in which \<open>range poolSizes\<close> visits the map\<close>
  "newContainerPool poolSizes images =
     map_option (\<lambda>ps. \<lparr>pools = ps, closed = False\<rparr>) (newPools images poolSizes Map.empty)"

subsection \<open>Operations\<close>

datatype acquire_result = AcqSlot ContainerSlot | AcqErr go_error | AcqBlocks

definition set_idle :: "ContainerPool \<Rightarrow> string \<Rightarrow> langPool \<Rightarrow> ContainerSlot chan \<Rightarrow> ContainerPool" where
  "set_idle p lang lp c = p\<lparr>pools := (pools p)(lang \<mapsto> lp\<lparr>idle := c\<rparr>)\<rparr>"

text \<open>
  The \<open>select\<close> of \<open>Acquire\<close>. Both cases can be ready at once and Go then picks either:
  \<open>dn\<close> says that the context is cancelled, \<open>preferDone\<close> which ready case is picked.
\<close>

definition acquireSelect :: "ContainerPool \<Rightarrow> string \<Rightarrow> langPool \<Rightarrow> bool \<Rightarrow> bool \<Rightarrow> acquire_result \<times> ContainerPool" where
  "acquireSelect p lang lp dn preferDone =
     (if dn \<and> (preferDone \<or> chan_recv (idle lp) = RecvBlocks)
      then (AcqErr (ErrContainerPoolExhausted lang), p)
      else case chan_recv (idle lp) of
             Received slot c \<Rightarrow> (AcqSlot slot, set_idle p lang lp c)
           | RecvClosed \<Rightarrow> (AcqErr ErrContainerPoolClosed, p)
           | RecvBlocks \<Rightarrow> (AcqBlocks, p))"

definition Acquire :: "ContainerPool \<Rightarrow> string \<Rightarrow> bool \<Rightarrow> bool \<Rightarrow> acquire_result \<times> ContainerPool" where
  "Acquire p lang dn preferDone =
     (if closed p then (AcqErr ErrContainerPoolClosed, p)
      else case pools p lang of
             None \<Rightarrow> (AcqErr (ErrUnsupportedLanguage lang), p)
           | Some lp \<Rightarrow> acquireSelect p lang lp dn preferDone)"

text \<open>
  \<open>Release\<close>: what it does to the pool, and whether it hands the slot to a new \<open>replenish\<close>
  goroutine. A send on a closed channel panics and the deferred \<open>recover\<close> swallows it.
\<close>

datatype release_result = Returned | Dropped | Replenishing | RelBlocks

definition releaseSend :: "ContainerPool \<Rightarrow> string \<Rightarrow> langPool \<Rightarrow> ContainerSlot \<Rightarrow> release_result \<times> ContainerPool" where
  "releaseSend p lang lp slot =
     (case chan_send (idle lp) slot of
        Sent c \<Rightarrow> (Returned, set_idle p lang lp c)
      | SendPanics \<Rightarrow> (Dropped, p)
      | SendBlocks \<Rightarrow> (RelBlocks, p))"

definition Release :: "ContainerPool \<Rightarrow> string \<Rightarrow> ContainerSlot \<Rightarrow> bool \<Rightarrow> release_result \<times> ContainerPool" where
  "Release p lang slot healthy =
     (if closed p then (Dropped, p)
      else case pools p lang of
             None \<Rightarrow> (Dropped, p)
           | Some lp \<Rightarrow>
               if healthy then releaseSend p lang lp slot
               else (Replenishing, p))"

text \<open>
  \<open>replenish\<close> restarts the container, at most \<open>maxRetries\<close> times. \<open>started k\<close> is the outcome
  of \<open>ContainerStart\<close> at attempt \<open>k\<close> (the result of \<open>ContainerStop\<close> is ignored by the code).
  The number is the count of \<open>ContainerStart\<close> calls made.
\<close>

definition maxRetries :: nat where
  "maxRetries = 3"

fun restartLoop :: "nat \<Rightarrow> (nat \<Rightarrow> bool) \<Rightarrow> nat \<Rightarrow> nat option" where
  \<comment> \<open>first argument: attempts left; result: the attempt that started the container\<close>
  "restartLoop 0 started attempt = None"
| "restartLoop (Suc n) started attempt =
     (if started attempt then Some attempt else restartLoop n started (Suc attempt))"

definition replenish :: "ContainerPool \<Rightarrow> string \<Rightarrow> ContainerSlot \<Rightarrow> (nat \<Rightarrow> bool) \<Rightarrow> release_result \<times> ContainerPool" where
  "replenish p lang slot started =
     (case restartLoop maxRetries started 1 of
        None \<Rightarrow> (Dropped, p)
      | Some _ \<Rightarrow>
          if closed p then (Dropped, p)
          else case pools p lang of
                 None \<Rightarrow> (Dropped, p)
               | Some lp \<Rightarrow> releaseSend p lang lp slot)"

text \<open>
  \<open>Close\<close> sets the flag, then closes the channels in the order \<open>range p.pools\<close> visits them;
  closing a channel twice panics (None), so a second \<open>Close\<close> of a non-empty pool does.
\<close>

fun closeChans :: "string list \<Rightarrow> (string \<rightharpoonup> langPool) \<Rightarrow> (string \<rightharpoonup> langPool) option" where
  "closeChans [] ps = Some ps"
| "closeChans (l # ls) ps =
     (case ps l of
        None \<Rightarrow> closeChans ls ps
      | Some lp \<Rightarrow>
          (case chan_close (idle lp) of
             None \<Rightarrow> None
           | Some c \<Rightarrow> closeChans ls (ps(l \<mapsto> lp\<lparr>idle := c\<rparr>))))"

definition Close_pool :: "string list \<Rightarrow> ContainerPool \<Rightarrow> ContainerPool option" where
  "Close_pool order p =
     map_option (\<lambda>ps. \<lparr>pools = ps, closed = True\<rparr>) (closeChans order (pools p))"

definition IdleCount :: "ContainerPool \<Rightarrow> string \<Rightarrow> nat" where
  "IdleCount p lang = (case pools p lang of None \<Rightarrow> 0 | Some lp \<Rightarrow> length (buf (idle lp)))"

definition Languages :: "ContainerPool \<Rightarrow> string set" where
  "Languages p = dom (pools p)"


subsection \<open>Construction is total and fills every channel\<close>

lemma mkSlot_inj: "mkSlot p h i = mkSlot p h j \<longleftrightarrow> i = j"
  by (auto simp: mkSlot_def Itoa_inj)

lemma slotName_mkSlot_inj: "slotName (mkSlot p h i) = slotName (mkSlot p h j) \<longleftrightarrow> i = j"
  by (auto simp: mkSlot_def Itoa_inj)

lemma fillIdle_fits:
  "\<not> chanClosed c \<Longrightarrow> length (buf c) + length is \<le> cap c \<Longrightarrow>
     fillIdle p h is c = Some (c\<lparr>buf := buf c @ map (mkSlot p h) is\<rparr>)"
  by (induction "is" arbitrary: c) (simp_all add: chan_send_def)

definition slots_for :: "(string \<Rightarrow> string) \<Rightarrow> string \<Rightarrow> int \<Rightarrow> ContainerSlot list" where
  "slots_for images lang sz = map (mkSlot (images lang) (langHostDir lang)) [0..<nat sz]"

lemma newLangPool_ok:
  "0 \<le> sz \<Longrightarrow> newLangPool images lang sz =
     Some \<lparr>idle = \<lparr>buf = slots_for images lang sz, cap = nat sz, chanClosed = False\<rparr>,
           lpLang = lang, lpSize = sz, lpImage = images lang\<rparr>"
  by (simp add: newLangPool_def fillIdle_fits slots_for_def make_chan_def)

lemma newLangPool_SomeD: "newLangPool images lang sz = Some lp \<Longrightarrow> 0 \<le> sz"
  by (auto simp: newLangPool_def split: if_splits)

lemma newPools_SomeD:
  "newPools images szs ps = Some ps' \<Longrightarrow>
     ps' lang = (case map_of (rev szs) lang of None \<Rightarrow> ps lang | Some n \<Rightarrow> newLangPool images lang n)
     \<and> (\<forall>n. map_of (rev szs) lang = Some n \<longrightarrow> 0 \<le> n)"
proof (induction szs arbitrary: ps)
  case Nil
  then show ?case by simp
next
  case (Cons e szs)
  obtain l n where e: "e = (l, n)" by (cases e)
  with Cons.prems obtain lp where lp: "newLangPool images l n = Some lp"
    and r: "newPools images szs (ps(l \<mapsto> lp)) = Some ps'"
    by (auto split: option.splits)
  from Cons.IH [OF r] lp e show ?case
    by (auto simp: map_add_def dest: newLangPool_SomeD split: option.splits if_splits)
qed

lemma newPools_total:
  "\<forall>(l, n) \<in> set szs. 0 \<le> n \<Longrightarrow> \<exists>ps'. newPools images szs ps = Some ps'"
  by (induction szs arbitrary: ps) (auto simp: newLangPool_ok split: prod.splits)

lemma distinct_slots_for: "distinct (slots_for images lang sz)"
  by (simp add: slots_for_def distinct_map inj_on_def mkSlot_inj)

lemma length_slots_for [simp]: "length (slots_for images lang sz) = nat sz"
  by (simp add: slots_for_def)

subsection \<open>What the operations do\<close>

lemma Acquire_slotD:
  assumes "Acquire p lang dn pref = (AcqSlot s, p')"
  shows "\<exists>lp c. pools p lang = Some lp \<and> \<not> closed p \<and> chan_recv (idle lp) = Received s c
           \<and> p' = set_idle p lang lp c"
  using assms
  by (auto simp: Acquire_def acquireSelect_def split: if_splits option.splits recv_result.splits)

lemma Acquire_no_slot_unchanged:
  "Acquire p lang dn pref = (r, p') \<Longrightarrow> (\<And>s. r \<noteq> AcqSlot s) \<Longrightarrow> p' = p"
  by (auto simp: Acquire_def acquireSelect_def split: if_splits option.splits recv_result.splits)

text \<open>A cancelled context never leaves \<open>Acquire\<close> blocked.\<close>

lemma Acquire_done_returns: "fst (Acquire p lang True pref) \<noteq> AcqBlocks"
  by (auto simp: Acquire_def acquireSelect_def split: option.splits recv_result.splits)

lemma restartLoop_Some:
  "restartLoop n started k = Some m \<Longrightarrow> k \<le> m \<and> m < k + n \<and> started m \<and> (\<forall>j. k \<le> j \<and> j < m \<longrightarrow> \<not> started j)"
proof (induction n arbitrary: k)
  case 0
  then show ?case by simp
next
  case (Suc n)
  show ?case
  proof (cases "started k")
    case True
    with Suc.prems show ?thesis by auto
  next
    case False
    with Suc.prems have "Suc k \<le> m \<and> m < Suc k + n \<and> started m \<and> (\<forall>j. Suc k \<le> j \<and> j < m \<longrightarrow> \<not> started j)"
      by (intro Suc.IH) simp
    with False show ?thesis by (metis Suc_leD add_Suc_shift le_eq_less_or_eq Suc_leI)
  qed
qed

lemma restartLoop_None:
  "restartLoop n started k = None \<longleftrightarrow> (\<forall>j. k \<le> j \<and> j < k + n \<longrightarrow> \<not> started j)"
proof (induction n arbitrary: k)
  case 0
  then show ?case by auto
next
  case (Suc n)
  show ?case
    using Suc.IH [of "Suc k"] by (auto simp: Suc_le_eq dest: le_neq_implies_less)
qed

end
