(* ===== verification/Pool_Concurrency.thy ===== *)
theory Pool_Concurrency
  imports Container_Pool
begin

text \<open>
  The container pool with its concurrent goroutines. A goroutine inside \<open>Acquire\<close>,
  \<open>Release\<close> or \<open>replenish\<close> is a value of \<open>pool_proc\<close> that says how far it has come; the
  steps are the points where the code touches shared state, so the test of \<open>closed\<close> and the
  channel operation that follows it are two steps, and \<open>Close\<close> may come in between.
\<close>

datatype pool_proc =
    AcqSelect string                       \<comment> \<open>Acquire, past the closed and the language check\<close>
  | Holding string ContainerSlot           \<comment> \<open>a run that owns the slot\<close>
  | RelSend string ContainerSlot           \<comment> \<open>Release with healthy, past the closed check\<close>
  | Restarting string ContainerSlot nat    \<comment> \<open>replenish, before attempt k\<close>
  | ReplSend string ContainerSlot          \<comment> \<open>replenish, restarted and past the closed check\<close>

record pool_sys =
  sPool :: ContainerPool
  procs :: "pool_proc multiset"

inductive pool_step :: "pool_sys \<Rightarrow> pool_sys \<Rightarrow> bool" where
  acq_start: "\<not> closed p \<Longrightarrow> pools p lang \<noteq> None \<Longrightarrow>
    pool_step \<lparr>sPool = p, procs = M\<rparr> \<lparr>sPool = p, procs = add_mset (AcqSelect lang) M\<rparr>"
| acq_slot: "pools p lang = Some lp \<Longrightarrow> acquireSelect p lang lp dn pref = (AcqSlot s, p') \<Longrightarrow>
    pool_step \<lparr>sPool = p, procs = add_mset (AcqSelect lang) M\<rparr>
              \<lparr>sPool = p', procs = add_mset (Holding lang s) M\<rparr>"
| acq_error: "pools p lang = Some lp \<Longrightarrow> acquireSelect p lang lp dn pref = (AcqErr e, p') \<Longrightarrow>
    pool_step \<lparr>sPool = p, procs = add_mset (AcqSelect lang) M\<rparr> \<lparr>sPool = p', procs = M\<rparr>"
| rel_closed: "closed p \<Longrightarrow>
    pool_step \<lparr>sPool = p, procs = add_mset (Holding lang s) M\<rparr> \<lparr>sPool = p, procs = M\<rparr>"
| rel_healthy: "\<not> closed p \<Longrightarrow>
    pool_step \<lparr>sPool = p, procs = add_mset (Holding lang s) M\<rparr>
              \<lparr>sPool = p, procs = add_mset (RelSend lang s) M\<rparr>"
| rel_send: "pools p lang = Some lp \<Longrightarrow> releaseSend p lang lp s = (r, p') \<Longrightarrow> r \<noteq> RelBlocks \<Longrightarrow>
    pool_step \<lparr>sPool = p, procs = add_mset (RelSend lang s) M\<rparr> \<lparr>sPool = p', procs = M\<rparr>"
| rel_unhealthy: "\<not> closed p \<Longrightarrow>
    pool_step \<lparr>sPool = p, procs = add_mset (Holding lang s) M\<rparr>
              \<lparr>sPool = p, procs = add_mset (Restarting lang s 1) M\<rparr>"
| restart_retry: "k < maxRetries \<Longrightarrow>
    pool_step \<lparr>sPool = p, procs = add_mset (Restarting lang s k) M\<rparr>
              \<lparr>sPool = p, procs = add_mset (Restarting lang s (Suc k)) M\<rparr>"
| restart_giveup:
   "pool_step \<lparr>sPool = p, procs = add_mset (Restarting lang s maxRetries) M\<rparr> \<lparr>sPool = p, procs = M\<rparr>"
| restart_closed: "closed p \<Longrightarrow>
    pool_step \<lparr>sPool = p, procs = add_mset (Restarting lang s k) M\<rparr> \<lparr>sPool = p, procs = M\<rparr>"
| restart_ok: "\<not> closed p \<Longrightarrow>
    pool_step \<lparr>sPool = p, procs = add_mset (Restarting lang s k) M\<rparr>
              \<lparr>sPool = p, procs = add_mset (ReplSend lang s) M\<rparr>"
| repl_send: "pools p lang = Some lp \<Longrightarrow> releaseSend p lang lp s = (r, p') \<Longrightarrow> r \<noteq> RelBlocks \<Longrightarrow>
    pool_step \<lparr>sPool = p, procs = add_mset (ReplSend lang s) M\<rparr> \<lparr>sPool = p', procs = M\<rparr>"
| close_flag:
   "pool_step \<lparr>sPool = p, procs = M\<rparr> \<lparr>sPool = p\<lparr>closed := True\<rparr>, procs = M\<rparr>"
| close_chan: "closed p \<Longrightarrow> pools p lang = Some lp \<Longrightarrow> chan_close (idle lp) = Some c \<Longrightarrow>
    pool_step \<lparr>sPool = p, procs = M\<rparr> \<lparr>sPool = set_idle p lang lp c, procs = M\<rparr>"

text \<open>The start: a freshly constructed pool and no goroutine in it.\<close>

definition pool_start :: "(string \<times> int) list \<Rightarrow> (string \<Rightarrow> string) \<Rightarrow> pool_sys \<Rightarrow> bool" where
  "pool_start szs images s \<longleftrightarrow>
     newContainerPool szs images = Some (sPool s) \<and> procs s = {#}"

definition pool_reachable :: "(string \<times> int) list \<Rightarrow> (string \<Rightarrow> string) \<Rightarrow> pool_sys \<Rightarrow> bool" where
  "pool_reachable szs images s \<longleftrightarrow> (\<exists>s0. pool_start szs images s0 \<and> pool_step\<^sup>*\<^sup>* s0 s)"

subsection \<open>Where the slots are\<close>

fun proc_slots :: "string \<Rightarrow> pool_proc \<Rightarrow> ContainerSlot multiset" where
  "proc_slots lang (AcqSelect l) = {#}"
| "proc_slots lang (Holding l s) = (if l = lang then {#s#} else {#})"
| "proc_slots lang (RelSend l s) = (if l = lang then {#s#} else {#})"
| "proc_slots lang (Restarting l s k) = (if l = lang then {#s#} else {#})"
| "proc_slots lang (ReplSend l s) = (if l = lang then {#s#} else {#})"

definition idle_slots :: "ContainerPool \<Rightarrow> string \<Rightarrow> ContainerSlot multiset" where
  "idle_slots p lang = (case pools p lang of None \<Rightarrow> {#} | Some lp \<Rightarrow> mset (buf (idle lp)))"

definition slots_at :: "pool_sys \<Rightarrow> string \<Rightarrow> ContainerSlot multiset" where
  "slots_at s lang = idle_slots (sPool s) lang + (\<Sum>q\<in>#procs s. proc_slots lang q)"

definition caps :: "ContainerPool \<Rightarrow> string \<Rightarrow> nat option" where
  "caps p lang = map_option (\<lambda>lp. cap (idle lp)) (pools p lang)"

lemma set_idle_simps [simp]:
  "closed (set_idle p lang lp c) = closed p"
  "pools (set_idle p lang lp c) = (pools p)(lang \<mapsto> lp\<lparr>idle := c\<rparr>)"
  by (simp_all add: set_idle_def)

lemma idle_slots_set_idle:
  "idle_slots (set_idle p lang lp c) l = (if l = lang then mset (buf c) else idle_slots p l)"
  by (simp add: idle_slots_def)

lemma idle_slots_closed [simp]: "idle_slots (p\<lparr>closed := b\<rparr>) l = idle_slots p l"
  by (simp add: idle_slots_def)

lemma caps_closed [simp]: "caps (p\<lparr>closed := b\<rparr>) l = caps p l"
  by (simp add: caps_def)

lemma acquireSelect_slot:
  "pools p lang = Some lp \<Longrightarrow> acquireSelect p lang lp dn pref = (AcqSlot s, p') \<Longrightarrow>
     idle_slots p l = (if l = lang then add_mset s (idle_slots p' l) else idle_slots p' l)
     \<and> caps p' = caps p"
  by (auto simp: acquireSelect_def idle_slots_def caps_def fun_eq_iff
      split: if_splits recv_result.splits dest!: chan_recv_ReceivedD)

lemma acquireSelect_error:
  "acquireSelect p lang lp dn pref = (AcqErr e, p') \<Longrightarrow> p' = p"
  by (auto simp: acquireSelect_def split: if_splits recv_result.splits)

lemma releaseSend_slots:
  "pools p lang = Some lp \<Longrightarrow> releaseSend p lang lp s = (r, p') \<Longrightarrow>
     idle_slots p' l \<subseteq># idle_slots p l + (if lang = l then {#s#} else {#})
     \<and> caps p' = caps p"
  by (auto simp: releaseSend_def idle_slots_def caps_def fun_eq_iff
      split: send_result.splits dest!: chan_send_SentD)

lemma chan_close_slots:
  "pools p lang = Some lp \<Longrightarrow> chan_close (idle lp) = Some c \<Longrightarrow>
     idle_slots (set_idle p lang lp c) l = idle_slots p l \<and> caps (set_idle p lang lp c) = caps p"
  by (auto simp: chan_close_def idle_slots_def caps_def fun_eq_iff split: if_splits)

text \<open>No step creates a slot, and no step changes the capacity of a channel.\<close>

lemma pool_step_slots: "pool_step s t \<Longrightarrow> slots_at t lang \<subseteq># slots_at s lang"
proof (induction rule: pool_step.induct)
  case (acq_slot p l lp dn pref s p' M)
  then show ?case using acquireSelect_slot [OF acq_slot, of lang] by (simp add: slots_at_def)
next
  case (acq_error p l lp dn pref e p' M)
  then show ?case using acquireSelect_error by (fastforce simp: slots_at_def)
next
  case (rel_send p l lp s r p' M)
  then have "idle_slots p' lang \<subseteq># idle_slots p lang + proc_slots lang (RelSend l s)"
    using releaseSend_slots by simp
  then have "idle_slots p' lang + (\<Sum>q\<in>#M. proc_slots lang q)
      \<subseteq># idle_slots p lang + proc_slots lang (RelSend l s) + (\<Sum>q\<in>#M. proc_slots lang q)"
    by (rule subset_mset.add_right_mono)
  then show ?case by (simp add: slots_at_def add.assoc)
next
  case (repl_send p l lp s r p' M)
  then have "idle_slots p' lang \<subseteq># idle_slots p lang + proc_slots lang (ReplSend l s)"
    using releaseSend_slots by simp
  then have "idle_slots p' lang + (\<Sum>q\<in>#M. proc_slots lang q)
      \<subseteq># idle_slots p lang + proc_slots lang (ReplSend l s) + (\<Sum>q\<in>#M. proc_slots lang q)"
    by (rule subset_mset.add_right_mono)
  then show ?case by (simp add: slots_at_def add.assoc)
next
  case (close_chan p l lp c M)
  then show ?case using chan_close_slots [OF close_chan(2,3), of lang] by (simp add: slots_at_def)
qed (simp_all add: slots_at_def)

lemma pool_step_caps: "pool_step s t \<Longrightarrow> caps (sPool t) = caps (sPool s)"
proof (induction rule: pool_step.induct)
  case (acq_slot p l lp dn pref s p' M)
  then show ?case using acquireSelect_slot [OF acq_slot] by simp
next
  case (acq_error p l lp dn pref e p' M)
  then show ?case using acquireSelect_error by fastforce
next
  case (rel_send p l lp s r p' M)
  then show ?case using releaseSend_slots [OF rel_send(1,2)] by simp
next
  case (repl_send p l lp s r p' M)
  then show ?case using releaseSend_slots [OF repl_send(1,2)] by simp
next
  case (close_chan p l lp c M)
  then show ?case using chan_close_slots [OF close_chan(2,3)] by simp
qed (simp_all add: fun_eq_iff)

lemma pool_steps_slots: "pool_step\<^sup>*\<^sup>* s t \<Longrightarrow> slots_at t lang \<subseteq># slots_at s lang"
  by (induction rule: rtranclp_induct) (auto intro: subset_mset.trans pool_step_slots)

lemma pool_steps_caps: "pool_step\<^sup>*\<^sup>* s t \<Longrightarrow> caps (sPool t) = caps (sPool s)"
  by (induction rule: rtranclp_induct) (auto simp: pool_step_caps)

subsection \<open>Reachable states\<close>

definition start_slots :: "(string \<times> int) list \<Rightarrow> (string \<Rightarrow> string) \<Rightarrow> string \<Rightarrow> ContainerSlot list" where
  "start_slots szs images lang =
     (case map_of (rev szs) lang of None \<Rightarrow> [] | Some n \<Rightarrow> slots_for images lang n)"

lemma pool_start_pools:
  assumes "pool_start szs images s"
  shows "procs s = {#} \<and> \<not> closed (sPool s) \<and>
    (case map_of (rev szs) lang of
       None \<Rightarrow> pools (sPool s) lang = None
     | Some n \<Rightarrow> pools (sPool s) lang =
         Some \<lparr>idle = \<lparr>buf = slots_for images lang n, cap = nat n, chanClosed = False\<rparr>,
               lpLang = lang, lpSize = n, lpImage = images lang\<rparr>)"
proof -
  from assms obtain ps where ps: "newPools images szs Map.empty = Some ps"
    and "sPool s = \<lparr>pools = ps, closed = False\<rparr>" "procs s = {#}"
    by (auto simp: pool_start_def newContainerPool_def)
  with newPools_SomeD [OF ps, of lang] newLangPool_ok show ?thesis
    by (auto split: option.splits)
qed

lemma pool_start_slots: "pool_start szs images s \<Longrightarrow> slots_at s lang = mset (start_slots szs images lang)"
  using pool_start_pools [of szs images s lang]
  by (auto simp: slots_at_def idle_slots_def start_slots_def split: option.splits)

lemma pool_start_caps:
  "pool_start szs images s \<Longrightarrow> caps (sPool s) lang = map_option nat (map_of (rev szs) lang)"
  using pool_start_pools [of szs images s lang] by (auto simp: caps_def split: option.splits)

lemma reachable_slots:
  "pool_reachable szs images s \<Longrightarrow> slots_at s lang \<subseteq># mset (start_slots szs images lang)"
  using pool_start_slots pool_steps_slots by (fastforce simp: pool_reachable_def)

lemma reachable_caps:
  "pool_reachable szs images s \<Longrightarrow> caps (sPool s) lang = map_option nat (map_of (rev szs) lang)"
  using pool_start_caps pool_steps_caps by (fastforce simp: pool_reachable_def)

lemma pool_reachable_step: "pool_reachable szs images s \<Longrightarrow> pool_step s t \<Longrightarrow> pool_reachable szs images t"
  by (auto simp: pool_reachable_def intro: rtranclp.rtrancl_into_rtrancl)

text \<open>Container names are unique, within a language and across the languages.\<close>

lemma split_at_last:
  assumes "a @ c # x = b @ c # y" and "c \<notin> set x" and "c \<notin> set y"
  shows "a = b \<and> x = y"
proof -
  have t: "takeWhile (\<lambda>d. d \<noteq> c) (rev (a @ c # x)) = rev x" if "c \<notin> set x" for a x
    using that by (auto simp: takeWhile_tail)
  have "rev x = rev y" using t [of x a] t [of y b] assms by simp
  with assms(1) show ?thesis by simp
qed

lemma no_minus_Itoa: "CHR 0x2D \<notin> set (Itoa (int i))"
  using nat_str_digits [of "CHR 0x2D"] by (auto simp: Itoa_def)

lemma mkSlot_name_eq: "slotName (mkSlot p h i) = slotName (mkSlot p' h' j) \<Longrightarrow> p = p' \<and> i = j"
  using split_at_last [of p "CHR 0x2D" "Itoa (int i)" p' "Itoa (int j)"]
  by (simp add: mkSlot_def no_minus_Itoa Itoa_inj)

lemma containerImages_inj:
  "l \<in> set supportedLanguages \<Longrightarrow> m \<in> set supportedLanguages \<Longrightarrow>
     containerImages l = containerImages m \<Longrightarrow> l = m"
  by (auto simp: supportedLanguages_def containerImages_def split: if_splits)

lemma start_slots_names: "distinct (map slotName (start_slots szs images lang))"
  by (auto simp: start_slots_def slots_for_def distinct_map inj_on_def mkSlot_inj dest: mkSlot_name_eq
      split: option.splits)

lemma start_slots_key: "a \<in> set (start_slots szs images l) \<Longrightarrow> l \<in> fst ` set szs"
proof -
  assume "a \<in> set (start_slots szs images l)"
  then obtain n where "map_of (rev szs) l = Some n"
    by (cases "map_of (rev szs) l") (auto simp: start_slots_def)
  then have "(l, n) \<in> set szs" by (auto dest: map_of_SomeD)
  then show ?thesis by force
qed

lemma start_slots_name_lang:
  assumes "fst ` set szs \<subseteq> set supportedLanguages"
    and "a \<in> set (start_slots szs containerImages l)" and "b \<in> set (start_slots szs containerImages m)"
    and "slotName a = slotName b"
  shows "l = m"
proof -
  from assms(2) have "l \<in> fst ` set szs" by (rule start_slots_key)
  moreover from assms(3) have "m \<in> fst ` set szs" by (rule start_slots_key)
  moreover have "containerImages l = containerImages m"
    using assms(2-4) by (auto simp: start_slots_def slots_for_def split: option.splits dest: mkSlot_name_eq)
  ultimately show ?thesis using assms(1) containerImages_inj by blast
qed

lemma ToPoolSizes_supported: "fst ` set (ToPoolSizes cfg) \<subseteq> set supportedLanguages"
proof -
  have "fst ` set (ToPoolSizes cfg) = set (map fst (ToPoolSizes cfg))" by simp
  then show ?thesis by (simp only: ToPoolSizes_keys) (simp add: supportedLanguages_def)
qed

text \<open>A place of the system where a slot is: idle, or carried by a goroutine.\<close>

lemma two_slots_distinct:
  assumes reach: "pool_reachable szs containerImages s"
    and keys: "fst ` set szs \<subseteq> set supportedLanguages"
    and a: "if l = m then {#a, b#} \<subseteq># slots_at s l else a \<in># slots_at s l \<and> b \<in># slots_at s m"
  shows "slotName a \<noteq> slotName b"
proof (cases "l = m")
  case True
  with a reachable_slots [OF reach] have "{#a, b#} \<subseteq># mset (start_slots szs containerImages l)"
    by (metis subset_mset.trans)
  then have "image_mset slotName {#a, b#} \<subseteq># mset (map slotName (start_slots szs containerImages l))"
    unfolding mset_map by (rule image_mset_subseteq_mono)
  then have "count {#slotName a, slotName b#} (slotName a)
      \<le> count (mset (map slotName (start_slots szs containerImages l))) (slotName a)"
    unfolding image_mset_add_mset image_mset_empty by (rule mset_subset_eq_count)
  also have "\<dots> \<le> 1" by (rule distinct_count_le_1 [OF start_slots_names])
  finally show ?thesis by (auto split: if_splits)
next
  case False
  with a reachable_slots [OF reach, of l] reachable_slots [OF reach, of m]
  have "a \<in> set (start_slots szs containerImages l)" "b \<in> set (start_slots szs containerImages m)"
    by (auto dest: mset_subset_eqD)
  with False start_slots_name_lang [OF keys] show ?thesis by blast
qed

fun proc_slot :: "pool_proc \<Rightarrow> (string \<times> ContainerSlot) option" where
  "proc_slot (AcqSelect l) = None"
| "proc_slot (Holding l s) = Some (l, s)"
| "proc_slot (RelSend l s) = Some (l, s)"
| "proc_slot (Restarting l s k) = Some (l, s)"
| "proc_slot (ReplSend l s) = Some (l, s)"

lemma proc_slots_Some: "proc_slot q = Some (l, a) \<Longrightarrow> proc_slots m q = (if l = m then {#a#} else {#})"
  by (cases q) auto

lemma proc_in_slots_at: "q \<in># procs s \<Longrightarrow> proc_slot q = Some (l, a) \<Longrightarrow> a \<in># slots_at s l"
  by (auto simp: slots_at_def proc_slots_Some intro!: bexI [of _ q])

lemma two_procs_slots_at:
  assumes "{#q, r#} \<subseteq># procs s" and "proc_slot q = Some (l, a)" and "proc_slot r = Some (l, b)"
  shows "{#a, b#} \<subseteq># slots_at s l"
proof -
  from assms(1) obtain M where "procs s = {#q, r#} + M" by (metis mset_subset_eq_exists_conv)
  with assms(2,3) show ?thesis by (simp add: slots_at_def proc_slots_Some)
qed

lemma idle_proc_slots_at:
  assumes "q \<in># procs s" and "proc_slot q = Some (l, a)" and "b \<in># idle_slots (sPool s) l"
  shows "{#a, b#} \<subseteq># slots_at s l"
proof -
  from assms(1) obtain M where "procs s = add_mset q M" by (metis insert_DiffM)
  moreover from assms(3) obtain N where "idle_slots (sPool s) l = add_mset b N" by (metis insert_DiffM)
  ultimately show ?thesis using assms(2) by (simp add: slots_at_def proc_slots_Some)
qed

subsection \<open>The sequential operations are runs of the step relation\<close>

lemma Acquire_simulates:
  assumes "Acquire p lang dn pref = (AcqSlot a, p')"
  shows "pool_step\<^sup>*\<^sup>* \<lparr>sPool = p, procs = M\<rparr> \<lparr>sPool = p', procs = add_mset (Holding lang a) M\<rparr>"
proof -
  from assms obtain lp where lp: "\<not> closed p" "pools p lang = Some lp"
    "acquireSelect p lang lp dn pref = (AcqSlot a, p')"
    by (auto simp: Acquire_def split: if_splits option.splits)
  have "pool_step\<^sup>*\<^sup>* \<lparr>sPool = p, procs = M\<rparr> \<lparr>sPool = p, procs = add_mset (AcqSelect lang) M\<rparr>"
    using lp by (intro r_into_rtranclp acq_start) auto
  also have "pool_step \<lparr>sPool = p, procs = add_mset (AcqSelect lang) M\<rparr>
      \<lparr>sPool = p', procs = add_mset (Holding lang a) M\<rparr>"
    using lp by (intro acq_slot)
  finally show ?thesis .
qed

lemma Release_simulates:
  assumes "Release p lang a healthy = (r, p')" and "r \<noteq> RelBlocks" and "pools p lang \<noteq> None"
  shows "pool_step\<^sup>*\<^sup>* \<lparr>sPool = p, procs = add_mset (Holding lang a) M\<rparr>
    \<lparr>sPool = p', procs = (if r = Replenishing then add_mset (Restarting lang a 1) M else M)\<rparr>"
proof (cases "closed p")
  case True
  with assms have "r = Dropped" "p' = p" by (auto simp: Release_def)
  with True show ?thesis by (auto intro: rel_closed)
next
  case False
  from assms(3) obtain lp where lp: "pools p lang = Some lp" by blast
  show ?thesis
  proof (cases healthy)
    case True
    with False lp assms(1) have send: "releaseSend p lang lp a = (r, p')" by (simp add: Release_def)
    then have "r \<noteq> Replenishing" by (auto simp: releaseSend_def split: send_result.splits)
    moreover have "pool_step \<lparr>sPool = p, procs = add_mset (Holding lang a) M\<rparr>
        \<lparr>sPool = p, procs = add_mset (RelSend lang a) M\<rparr>"
      using False by (rule rel_healthy)
    moreover have "pool_step \<lparr>sPool = p, procs = add_mset (RelSend lang a) M\<rparr> \<lparr>sPool = p', procs = M\<rparr>"
      using lp send assms(2) by (rule rel_send)
    ultimately show ?thesis by auto
  next
    case False
    with \<open>\<not> closed p\<close> lp assms(1) have "r = Replenishing" "p' = p" by (auto simp: Release_def)
    with r_into_rtranclp [of pool_step, OF rel_unhealthy [OF \<open>\<not> closed p\<close>, of lang a M]]
    show ?thesis by simp
  qed
qed

lemma restarts_run:
  "k \<le> m \<Longrightarrow> m \<le> maxRetries \<Longrightarrow>
     pool_step\<^sup>*\<^sup>* \<lparr>sPool = p, procs = add_mset (Restarting lang a k) M\<rparr>
                \<lparr>sPool = p, procs = add_mset (Restarting lang a m) M\<rparr>"
proof (induction m rule: dec_induct)
  case base
  show ?case by simp
next
  case (step n)
  then have "pool_step \<lparr>sPool = p, procs = add_mset (Restarting lang a n) M\<rparr>
      \<lparr>sPool = p, procs = add_mset (Restarting lang a (Suc n)) M\<rparr>"
    by (intro restart_retry) simp
  with step show ?case by (auto intro: rtranclp.rtrancl_into_rtrancl)
qed

lemma replenish_simulates:
  assumes "replenish p lang a started = (r, p')" and "r \<noteq> RelBlocks" and "pools p lang \<noteq> None"
  shows "pool_step\<^sup>*\<^sup>* \<lparr>sPool = p, procs = add_mset (Restarting lang a 1) M\<rparr> \<lparr>sPool = p', procs = M\<rparr>"
proof (cases "restartLoop maxRetries started 1")
  case None
  with assms(1) have "p' = p" by (simp add: replenish_def)
  moreover have "pool_step\<^sup>*\<^sup>* \<lparr>sPool = p, procs = add_mset (Restarting lang a 1) M\<rparr>
      \<lparr>sPool = p, procs = add_mset (Restarting lang a maxRetries) M\<rparr>"
    by (rule restarts_run) (simp_all add: maxRetries_def)
  ultimately show ?thesis by (auto intro: rtranclp.rtrancl_into_rtrancl restart_giveup)
next
  case (Some m)
  then have "1 \<le> m" "m \<le> maxRetries" by (auto dest!: restartLoop_Some)
  then have run: "pool_step\<^sup>*\<^sup>* \<lparr>sPool = p, procs = add_mset (Restarting lang a 1) M\<rparr>
      \<lparr>sPool = p, procs = add_mset (Restarting lang a m) M\<rparr>"
    by (rule restarts_run)
  show ?thesis
  proof (cases "closed p")
    case True
    with Some assms(1) have "p' = p" by (simp add: replenish_def)
    with True run show ?thesis by (auto intro: rtranclp.rtrancl_into_rtrancl restart_closed)
  next
    case False
    from assms(3) obtain lp where lp: "pools p lang = Some lp" by blast
    with Some False assms(1) have send: "releaseSend p lang lp a = (r, p')" by (simp add: replenish_def)
    note run
    also have "pool_step \<lparr>sPool = p, procs = add_mset (Restarting lang a m) M\<rparr>
        \<lparr>sPool = p, procs = add_mset (ReplSend lang a) M\<rparr>"
      using False by (rule restart_ok)
    also have "pool_step \<lparr>sPool = p, procs = add_mset (ReplSend lang a) M\<rparr> \<lparr>sPool = p', procs = M\<rparr>"
      using lp send assms(2) by (rule repl_send)
    finally show ?thesis by simp
  qed
qed

subsection \<open>Properties\<close>

lemma slots_at_procD: "q \<in># procs s \<Longrightarrow> proc_slot q = Some (l, a) \<Longrightarrow> b \<in># idle_slots (sPool s) m \<Longrightarrow>
    if l = m then {#a, b#} \<subseteq># slots_at s l else a \<in># slots_at s l \<and> b \<in># slots_at s m"
  using idle_proc_slots_at [of q s l a b] proc_in_slots_at [of q s l a]
  by (auto simp: slots_at_def)

text \<open>
  C10. Container exclusivity. In every state the pool of a worker can reach, whatever the
  interleaving of concurrent runs, health replacements and shutdown, two goroutines that carry
  a slot carry containers of different names, and no carried container is idle in any channel:
  a sandbox container is never shared by two executions.
\<close>

theorem pool_slots_exclusive:
  assumes "pool_reachable (ToPoolSizes cfg) containerImages s"
    and "{#q, r#} \<subseteq># procs s"
    and "proc_slot q = Some (l, a)" and "proc_slot r = Some (m, b)"
  shows "slotName a \<noteq> slotName b
    \<and> (\<forall>n c. c \<in># idle_slots (sPool s) n \<longrightarrow> slotName c \<noteq> slotName a)"
proof
  have q: "q \<in># procs s" and r: "r \<in># procs s"
    using mset_subset_eqD [OF assms(2), of q] mset_subset_eqD [OF assms(2), of r] by simp_all
  have "if l = m then {#a, b#} \<subseteq># slots_at s l else a \<in># slots_at s l \<and> b \<in># slots_at s m"
    using two_procs_slots_at [OF assms(2,3)] proc_in_slots_at [OF q assms(3)]
      proc_in_slots_at [OF r assms(4)] assms(4) by auto
  then show "slotName a \<noteq> slotName b"
    by (rule two_slots_distinct [OF assms(1) ToPoolSizes_supported])
  show "\<forall>n c. c \<in># idle_slots (sPool s) n \<longrightarrow> slotName c \<noteq> slotName a"
    using two_slots_distinct [OF assms(1) ToPoolSizes_supported] slots_at_procD [OF q assms(3)]
    by metis
qed

text \<open>
  C23. Returning a container never blocks. In every reachable state, the channel send of a
  \<open>Release\<close> or of a finished \<open>replenish\<close> either goes through or hits the closed channel
  (whose panic is recovered); it never waits on a full channel, because the slots of a language
  never exceed the capacity its channel was made with.
\<close>

theorem pool_release_never_blocks:
  assumes "pool_reachable szs images s"
    and "q \<in># procs s" and "q = RelSend l a \<or> q = ReplSend l a"
    and "pools (sPool s) l = Some lp"
  shows "fst (releaseSend (sPool s) l lp a) \<noteq> RelBlocks"
proof -
  obtain M where M: "procs s = add_mset q M" using assms(2) by (metis insert_DiffM)
  have q: "proc_slot q = Some (l, a)" using assms(3) by auto
  from reachable_slots [OF assms(1), of l]
  have "size (slots_at s l) \<le> length (start_slots szs images l)"
    by (metis size_mset size_mset_mono)
  moreover have "length (buf (idle lp)) < size (slots_at s l)"
    using M q assms(4) by (simp add: slots_at_def idle_slots_def proc_slots_Some)
  moreover have "length (start_slots szs images l) = cap (idle lp)"
    using reachable_caps [OF assms(1), of l] assms(4)
    by (auto simp: caps_def start_slots_def split: option.splits)
  ultimately show ?thesis by (auto simp: releaseSend_def chan_send_def)
qed

subsection \<open>Witnesses: a run of two concurrent executions\<close>

definition small_cfg :: ContainerPoolConfig where
  "small_cfg = \<lparr>Golang = 2, Python = 0, JavaScript = 0, Java = 0, C_lang = 0\<rparr>"

definition small_pool :: ContainerPool where
  "small_pool = (case newContainerPool (ToPoolSizes small_cfg) containerImages of Some p \<Rightarrow> p)"

lemma small_pool_start: "pool_start (ToPoolSizes small_cfg) containerImages \<lparr>sPool = small_pool, procs = {#}\<rparr>"
proof -
  obtain ps where "newPools containerImages (ToPoolSizes small_cfg) Map.empty = Some ps"
    using newPools_total [of "ToPoolSizes small_cfg"] ToPoolSizes_positive [of _ _ small_cfg] by fastforce
  then show ?thesis by (simp add: pool_start_def small_pool_def newContainerPool_def)
qed

lemma small_pool_golang:
  "\<not> closed small_pool"
  "pools small_pool ''golang'' =
     Some \<lparr>idle = \<lparr>buf = slots_for containerImages ''golang'' 2, cap = 2, chanClosed = False\<rparr>,
           lpLang = ''golang'', lpSize = 2, lpImage = ''code-runner-go''\<rparr>"
  using pool_start_pools [OF small_pool_start, of "''golang''"] small_pool_start
  by (auto simp: pool_start_def newContainerPool_def ToPoolSizes_def rawPoolSizes_def small_cfg_def
      containerImages_def)

definition go_slot :: "nat \<Rightarrow> ContainerSlot" where
  "go_slot i = mkSlot ''code-runner-go'' ''golang'' i"

lemma small_slots: "slots_for containerImages ''golang'' 2 = [go_slot 0, go_slot 1]"
  by (simp add: slots_for_def go_slot_def containerImages_def langHostDir_def numeral_2_eq_2)

lemma two_runs_reachable:
  "\<exists>p. pool_reachable (ToPoolSizes small_cfg) containerImages
     \<lparr>sPool = p, procs = {#Holding ''golang'' (go_slot 1), Holding ''golang'' (go_slot 0)#}\<rparr>
     \<and> \<not> closed p \<and> pools p ''golang'' \<noteq> None"
proof -
  obtain p1 where p1: "Acquire small_pool ''golang'' False False = (AcqSlot (go_slot 0), p1)"
    "\<not> closed p1" "\<exists>lp. pools p1 ''golang'' = Some lp \<and> buf (idle lp) = [go_slot 1]"
    by (simp add: Acquire_def acquireSelect_def small_pool_golang chan_recv_def small_slots set_idle_def)
  then obtain p2 where p2: "Acquire p1 ''golang'' False False = (AcqSlot (go_slot 1), p2)"
    "\<not> closed p2" "pools p2 ''golang'' \<noteq> None"
    by (auto simp: Acquire_def acquireSelect_def chan_recv_def set_idle_def)
  have "pool_step\<^sup>*\<^sup>* \<lparr>sPool = small_pool, procs = {#}\<rparr>
      \<lparr>sPool = p2, procs = {#Holding ''golang'' (go_slot 1), Holding ''golang'' (go_slot 0)#}\<rparr>"
    using Acquire_simulates [OF p1(1), of "{#}"]
      Acquire_simulates [OF p2(1), of "{#Holding ''golang'' (go_slot 0)#}"] by auto
  with p2 small_pool_start show ?thesis unfolding pool_reachable_def by blast
qed

theorem pool_slots_exclusive_witness: "slotName (go_slot 1) \<noteq> slotName (go_slot 0)"
proof -
  obtain p where "pool_reachable (ToPoolSizes small_cfg) containerImages
     \<lparr>sPool = p, procs = {#Holding ''golang'' (go_slot 1), Holding ''golang'' (go_slot 0)#}\<rparr>"
    using two_runs_reachable by blast
  from pool_slots_exclusive [OF this, of "Holding ''golang'' (go_slot 1)" "Holding ''golang'' (go_slot 0)"]
  show ?thesis by simp
qed

theorem pool_release_never_blocks_witness:
  "\<exists>p lp. pool_reachable (ToPoolSizes small_cfg) containerImages
       \<lparr>sPool = p, procs = {#RelSend ''golang'' (go_slot 1), Holding ''golang'' (go_slot 0)#}\<rparr>
     \<and> pools p ''golang'' = Some lp
     \<and> fst (releaseSend p ''golang'' lp (go_slot 1)) \<noteq> RelBlocks"
proof -
  obtain p lp where r: "pool_reachable (ToPoolSizes small_cfg) containerImages
     \<lparr>sPool = p, procs = {#Holding ''golang'' (go_slot 1), Holding ''golang'' (go_slot 0)#}\<rparr>"
    and p: "\<not> closed p" "pools p ''golang'' = Some lp"
    using two_runs_reachable by blast
  have "pool_reachable (ToPoolSizes small_cfg) containerImages
       \<lparr>sPool = p, procs = {#RelSend ''golang'' (go_slot 1), Holding ''golang'' (go_slot 0)#}\<rparr>"
    by (rule pool_reachable_step [OF r rel_healthy [OF p(1)]])
  with pool_release_never_blocks [OF this, of "RelSend ''golang'' (go_slot 1)" "''golang''" "go_slot 1"] p
  show ?thesis by auto
qed

end
