(* ===== verification/P2C_Balance.thy ===== *)
theory P2C_Balance
  imports Go_Errors
begin

text \<open>
  The adaptive load balancer of the server, power of two choices over EWMA-tracked nodes
  (\<open>internal/infrastructure/balanceStrategy/p2cBalance\<close>), and the interface
  \<open>LoadBalancer\<close> the client manager uses it through.

  Go's \<open>float64\<close> arithmetic is a parameter: \<open>frnd\<close> rounds the exact result of an addition,
  subtraction, multiplication, division or square root, as IEEE 754 prescribes, and \<open>fexp\<close> is
  \<open>math.Exp\<close>. Statements that depend on the rounding say so; \<open>exact_float\<close> is the instance
  without rounding. Clock readings and random draws are inputs.
\<close>

subsection \<open>Floating point\<close>

record float64_ops =
  frnd :: "real \<Rightarrow> real"
  fexp :: "real \<Rightarrow> real"

definition exact_float :: float64_ops where
  "exact_float = \<lparr>frnd = id, fexp = exp\<rparr>"

definition trunc64 :: "real \<Rightarrow> int" where
  \<comment> \<open>\<open>int64(x)\<close>: towards zero\<close>
  "trunc64 x = (if x < 0 then \<lceil>x\<rceil> else \<lfloor>x\<rfloor>)"

definition float_ok :: "float64_ops \<Rightarrow> bool" where
  "float_ok F \<longleftrightarrow> mono (frnd F) \<and> (\<forall>n :: int. \<bar>n\<bar> \<le> 2 ^ 53 \<longrightarrow> frnd F (of_int n) = of_int n)
     \<and> mono (fexp F) \<and> fexp F 0 = 1 \<and> (\<forall>x. 0 \<le> fexp F x)"

lemma float_ok_exact: "float_ok exact_float"
  by (simp add: float_ok_def exact_float_def mono_def)

lemma frnd_0 [simp]: "float_ok F \<Longrightarrow> frnd F 0 = 0"
  unfolding float_ok_def by (metis abs_zero of_int_0 zero_le_numeral zero_le_power)

lemma frnd_mono: "float_ok F \<Longrightarrow> x \<le> y \<Longrightarrow> frnd F x \<le> frnd F y"
  by (simp add: float_ok_def mono_def)

lemma frnd_nonneg: "float_ok F \<Longrightarrow> 0 \<le> x \<Longrightarrow> 0 \<le> frnd F x"
  using frnd_mono [of F 0 x] by simp

lemma frnd_le_1: "float_ok F \<Longrightarrow> x \<le> 1 \<Longrightarrow> frnd F x \<le> 1"
proof -
  assume ok: "float_ok F" and "x \<le> 1"
  then have "frnd F x \<le> frnd F (of_int 1)" by (simp add: frnd_mono)
  also have "frnd F (of_int 1) = of_int 1" using ok by (auto simp: float_ok_def dest!: spec [of _ "1 :: int"])
  finally show ?thesis by simp
qed

lemma fexp_le_1: "float_ok F \<Longrightarrow> x \<le> 0 \<Longrightarrow> 0 \<le> fexp F x \<and> fexp F x \<le> 1"
  unfolding float_ok_def mono_def by metis

subsection \<open>Nodes\<close>

definition decayTime :: int where "decayTime = 10 * 10 ^ 9"
definition forcePickTimeout :: int where "forcePickTimeout = 10 ^ 9"
definition initSuccess :: real where "initSuccess = 1000"
definition throttleSuccess :: real where "throttleSuccess = 500"
definition penalty :: int where "penalty = 2147483647"

record P2CNode =
  serverId :: string
  weight :: int
  lag :: real
  inflight :: int
  success :: real
  requests :: int
  lastPick :: int
  stamp :: int

definition newP2CNode :: "string \<Rightarrow> int \<Rightarrow> int \<Rightarrow> P2CNode" where
  "newP2CNode i w now =
     \<lparr>serverId = i, weight = w, lag = 0, inflight = 0, success = initSuccess,
      requests = 0, lastPick = 0, stamp = now\<rparr>"

definition load :: "float64_ops \<Rightarrow> P2CNode \<Rightarrow> int" where
  "load F n =
     (let lg = frnd F (sqrt (frnd F (lag n + 1)));
          infl = frnd F (of_int (i64 (inflight n + 1)));
          w = (if weight n \<le> 0 then 1 else weight n)
      in if success n < throttleSuccess then penalty
         else trunc64 (frnd F (frnd F (lg * infl) / frnd F (of_int w))))"

subsection \<open>The balancer\<close>

type_synonym P2CBalancer = "P2CNode list"

text \<open>What one \<open>Get\<close> reads from the outside: two draws, and the clock in \<open>choose\<close> and \<open>pick\<close>.\<close>

record get_in =
  drawA :: nat
  drawB :: nat
  nowChoose :: int
  nowPick :: int

definition Intn :: "nat \<Rightarrow> nat \<Rightarrow> nat" where
  \<comment> \<open>\<open>rand.Intn(n)\<close> on a source that yields d\<close>
  "Intn n d = d mod n"

definition NewP2CBalancer :: P2CBalancer where
  \<comment> \<open>the random source of the new balancer is in what each \<open>Get\<close> reads\<close>
  "NewP2CBalancer = []"

definition findNode :: "string \<Rightarrow> P2CBalancer \<Rightarrow> P2CNode option" where
  "findNode i ns = find (\<lambda>n. serverId n = i) ns"

definition P2C_Add :: "string \<Rightarrow> int \<Rightarrow> int \<Rightarrow> P2CBalancer \<Rightarrow> P2CBalancer" where
  "P2C_Add i w now ns =
     (if \<exists>n \<in> set ns. serverId n = i then ns else ns @ [newP2CNode i w now])"

definition P2C_Remove :: "string \<Rightarrow> P2CBalancer \<Rightarrow> P2CBalancer" where
  "P2C_Remove i ns = remove_first (\<lambda>n. serverId n = i) ns"

text \<open>
  \<open>choose\<close>: the node of lower load, unless the other one was not picked for more than a second.
  The compare-and-swap cannot fail: \<open>lastPick\<close> is written under the balancer's mutex only, which
  \<open>Get\<close> holds. The swapped-in time is overwritten by the \<open>pick\<close> that follows.
\<close>

definition chooseNode :: "float64_ops \<Rightarrow> int \<Rightarrow> P2CNode \<Rightarrow> P2CNode \<Rightarrow> P2CNode" where
  "chooseNode F now a b =
     (let (c1, c2) = (if load F a > load F b then (b, a) else (a, b))
      in if i64 (now - lastPick c2) > forcePickTimeout then c2 else c1)"

definition pick :: "int \<Rightarrow> P2CNode \<Rightarrow> P2CNode" where
  "pick now n = n\<lparr>inflight := i64 (inflight n + 1), requests := i64 (requests n + 1), lastPick := now\<rparr>"

definition pick_id :: "int \<Rightarrow> string \<Rightarrow> P2CBalancer \<Rightarrow> P2CBalancer" where
  \<comment> \<open>\<open>pick\<close> through the pointer of the node with that id\<close>
  "pick_id now i ns = update_first (\<lambda>n. serverId n = i) (pick now) ns"

definition two_indices :: "nat \<Rightarrow> get_in \<Rightarrow> nat \<times> nat" where
  "two_indices n inp =
     (let a = Intn n (drawA inp); b = Intn (n - 1) (drawB inp)
      in (a, if b \<ge> a then b + 1 else b))"

definition P2C_Get :: "float64_ops \<Rightarrow> get_in \<Rightarrow> P2CBalancer \<Rightarrow> (go_error, string) result \<times> P2CBalancer" where
  "P2C_Get F inp ns =
     (if length ns = 0 then (Inl NotFoundEffectiveServer, ns)
      else let i = (if length ns = 1 then serverId (ns ! 0)
                    else case two_indices (length ns) inp of (a, b) \<Rightarrow>
                           serverId (chooseNode F (nowChoose inp) (ns ! a) (ns ! b)))
           in (Inr i, pick_id (nowPick inp) i ns))"

text \<open>\<open>Done\<close>: EWMA of latency and success with weight \<open>exp (- elapsed / 10 s)\<close>, one request less in flight.\<close>

definition ewma :: "float64_ops \<Rightarrow> real \<Rightarrow> real \<Rightarrow> real \<Rightarrow> real" where
  "ewma F w old new = frnd F (frnd F (old * w) + frnd F (new * frnd F (1 - w)))"

definition decayWeight :: "float64_ops \<Rightarrow> int \<Rightarrow> real" where
  "decayWeight F elapsed = fexp F (frnd F (- frnd F (of_int elapsed) / frnd F (of_int decayTime)))"

definition doneNode :: "float64_ops \<Rightarrow> int \<Rightarrow> bool \<Rightarrow> int \<Rightarrow> P2CNode \<Rightarrow> P2CNode" where
  "doneNode F duration failed now n =
     (let w = decayWeight F (now - stamp n);
          successVal = (if failed then 0 else initSuccess)
      in n\<lparr>stamp := now,
           lag := ewma F w (lag n) (frnd F (of_int duration)),
           success := ewma F w (success n) successVal,
           inflight := i64 (inflight n - 1)\<rparr>)"

definition P2C_Done :: "float64_ops \<Rightarrow> string \<Rightarrow> int \<Rightarrow> bool \<Rightarrow> int \<Rightarrow> P2CBalancer \<Rightarrow> P2CBalancer" where
  "P2C_Done F i duration failed now ns =
     (case findNode i ns of
        None \<Rightarrow> ns
      | Some node \<Rightarrow> update_first (\<lambda>n. serverId n = i) (doneNode F duration failed now) ns)"

lemma P2C_Done_eq: "P2C_Done F i d failed now ns = update_first (\<lambda>n. serverId n = i) (doneNode F d failed now) ns"
  using find_None_iff [of "\<lambda>n. serverId n = i" ns]
  by (auto simp: P2C_Done_def findNode_def update_first_none split: option.splits)

subsection \<open>Basic laws\<close>

definition node_ids :: "P2CBalancer \<Rightarrow> string list" where
  "node_ids ns = map serverId ns"

definition inflight_of :: "string \<Rightarrow> P2CBalancer \<Rightarrow> int" where
  "inflight_of i ns = (case find (\<lambda>n. serverId n = i) ns of None \<Rightarrow> 0 | Some n \<Rightarrow> inflight n)"

lemma serverId_pick [simp]: "serverId (pick now n) = serverId n"
  by (simp add: pick_def)

lemma serverId_doneNode [simp]: "serverId (doneNode F d f now n) = serverId n"
  by (simp add: doneNode_def Let_def)

lemma node_ids_pick [simp]: "node_ids (pick_id now i ns) = node_ids ns"
  by (simp add: node_ids_def pick_id_def map_update_first)

lemma node_ids_Done [simp]: "node_ids (P2C_Done F i d f now ns) = node_ids ns"
  by (simp add: node_ids_def P2C_Done_eq map_update_first)

lemma node_ids_Add:
  "node_ids (P2C_Add i w now ns) = (if i \<in> set (node_ids ns) then node_ids ns else node_ids ns @ [i])"
  by (auto simp: node_ids_def P2C_Add_def newP2CNode_def)

lemma node_ids_Remove: "node_ids (P2C_Remove i ns) = remove1 i (node_ids ns)"
  using map_remove_first [of ns "\<lambda>n. serverId n = i" "\<lambda>x. x = i" serverId]
  by (simp add: node_ids_def P2C_Remove_def remove_first_eq_remove1)

lemma two_indices_valid:
  assumes "2 \<le> n" and "two_indices n inp = (a, b)"
  shows "a < n \<and> b < n \<and> a \<noteq> b"
proof -
  have "Intn n (drawA inp) < n" "Intn (n - 1) (drawB inp) < n - 1"
    using assms(1) by (simp_all add: Intn_def)
  with assms(2) show ?thesis by (auto simp: two_indices_def Let_def split: if_splits)
qed

text \<open>Every ordered pair of distinct nodes can be drawn.\<close>

lemma two_indices_onto:
  assumes "a < n" "b < n" "a \<noteq> b"
  shows "\<exists>inp. two_indices n inp = (a, b)"
proof -
  let ?b = "if a < b then b - 1 else b"
  have "two_indices n \<lparr>drawA = a, drawB = ?b, nowChoose = 0, nowPick = 0\<rparr> = (a, b)"
    using assms by (auto simp: two_indices_def Intn_def Let_def)
  then show ?thesis by blast
qed

lemma chooseNode_cases: "chooseNode F now a b = a \<or> chooseNode F now a b = b"
  by (auto simp: chooseNode_def Let_def)

lemma P2C_Get_Nil: "P2C_Get F inp [] = (Inl NotFoundEffectiveServer, [])"
  by (simp add: P2C_Get_def)

lemma P2C_Get_nonempty:
  assumes "ns \<noteq> []"
  shows "\<exists>i. P2C_Get F inp ns = (Inr i, pick_id (nowPick inp) i ns) \<and> i \<in> set (node_ids ns)"
proof (cases "length ns = 1")
  case True
  then show ?thesis by (cases ns) (auto simp: P2C_Get_def node_ids_def Let_def)
next
  case False
  with assms have n: "2 \<le> length ns" by (cases ns) (auto simp: Suc_le_eq)
  obtain a b where ab: "two_indices (length ns) inp = (a, b)" by fastforce
  then have "a < length ns" "b < length ns" using two_indices_valid [OF n] by auto
  then have "serverId (chooseNode F (nowChoose inp) (ns ! a) (ns ! b)) \<in> set (node_ids ns)"
    using chooseNode_cases [of F "nowChoose inp" "ns ! a" "ns ! b"] by (auto simp: node_ids_def)
  with False assms ab show ?thesis by (simp add: P2C_Get_def Let_def)
qed

lemma find_update_first_same:
  "(\<And>n. serverId (f n) = serverId n) \<Longrightarrow>
     find (\<lambda>n. serverId n = i) (update_first (\<lambda>n. serverId n = i) f ns)
       = map_option f (find (\<lambda>n. serverId n = i) ns)"
  by (induction ns) auto

lemma find_update_first_other:
  "i \<noteq> j \<Longrightarrow> (\<And>n. serverId (f n) = serverId n) \<Longrightarrow>
     find (\<lambda>n. serverId n = j) (update_first (\<lambda>n. serverId n = i) f ns)
       = find (\<lambda>n. serverId n = j) ns"
  by (induction ns) auto

lemma find_serverId_None: "find (\<lambda>n. serverId n = i) ns = None \<longleftrightarrow> i \<notin> set (node_ids ns)"
  by (auto simp: find_None_all node_ids_def)

lemma inflight_pick_id:
  "i \<in> set (node_ids ns) \<Longrightarrow>
     inflight_of j (pick_id now i ns) = (if j = i then i64 (inflight_of i ns + 1) else inflight_of j ns)"
  using find_serverId_None [of i ns]
  by (auto simp: inflight_of_def pick_id_def find_update_first_same find_update_first_other pick_def
      split: option.splits)

lemma inflight_Done:
  "i \<in> set (node_ids ns) \<Longrightarrow>
     inflight_of j (P2C_Done F i d f now ns) = (if j = i then i64 (inflight_of i ns - 1) else inflight_of j ns)"
  using find_serverId_None [of i ns]
  by (auto simp: inflight_of_def P2C_Done_eq find_update_first_same find_update_first_other
      doneNode_def Let_def split: option.splits)

lemma P2C_Done_absent: "i \<notin> set (node_ids ns) \<Longrightarrow> P2C_Done F i d f now ns = ns"
  by (auto simp: P2C_Done_eq node_ids_def intro!: update_first_none)

lemma find_remove_first_other:
  "i \<noteq> j \<Longrightarrow> find (\<lambda>n. serverId n = j) (remove_first (\<lambda>n. serverId n = i) ns) = find (\<lambda>n. serverId n = j) ns"
  by (induction ns) auto

lemma inflight_Remove_other: "i \<noteq> j \<Longrightarrow> inflight_of j (P2C_Remove i ns) = inflight_of j ns"
  by (simp add: inflight_of_def P2C_Remove_def find_remove_first_other)

lemma inflight_newP2CNode [simp]: "inflight (newP2CNode i w now) = 0"
  by (simp add: newP2CNode_def)

lemma inflight_Add: "inflight_of j (P2C_Add i w now ns) = inflight_of j ns"
proof -
  have f: "find (\<lambda>n. serverId n = j) (ns @ [newP2CNode i w now]) =
      (case find (\<lambda>n. serverId n = j) ns of Some m \<Rightarrow> Some m
       | None \<Rightarrow> if i = j then Some (newP2CNode i w now) else None)"
    by (induction ns) (auto simp: newP2CNode_def)
  show ?thesis
    by (simp add: inflight_of_def P2C_Add_def f split: option.splits)
qed

lemma inflight_absent: "i \<notin> set (node_ids ns) \<Longrightarrow> inflight_of i ns = 0"
  using find_serverId_None [of i ns] by (simp add: inflight_of_def)


subsection \<open>The interface of the client manager\<close>

text \<open>
  \<open>service.LoadBalancer\<close> as a table of operations. \<open>'t\<close> is what \<open>Get\<close> reads from outside (clock
  and randomness); \<open>Add\<close> and \<open>Done\<close> read the clock.
\<close>

record ('b, 't) LoadBalancer =
  lbAdd :: "string \<Rightarrow> int \<Rightarrow> int \<Rightarrow> 'b \<Rightarrow> 'b"
  lbRemove :: "string \<Rightarrow> 'b \<Rightarrow> 'b"
  lbGet :: "'t \<Rightarrow> 'b \<Rightarrow> (go_error, string) result \<times> 'b"
  lbDone :: "string \<Rightarrow> int \<Rightarrow> bool \<Rightarrow> int \<Rightarrow> 'b \<Rightarrow> 'b"

definition p2c_lb :: "float64_ops \<Rightarrow> (P2CBalancer, get_in) LoadBalancer" where
  "p2c_lb F = \<lparr>lbAdd = P2C_Add, lbRemove = P2C_Remove, lbGet = P2C_Get F, lbDone = P2C_Done F\<rparr>"

text \<open>What a picker of registered nodes promises: it picks a member and changes no membership.\<close>

locale node_picker =
  fixes remove :: "string \<Rightarrow> 'b \<Rightarrow> 'b"
    and get :: "'t \<Rightarrow> 'b \<Rightarrow> (go_error, string) result \<times> 'b"
    and ids :: "'b \<Rightarrow> string set"
    and wf :: "'b \<Rightarrow> bool"
  assumes remove_ids: "wf b \<Longrightarrow> ids (remove i b) = ids b - {i}"
    and remove_wf: "wf b \<Longrightarrow> wf (remove i b)"
    and get_Inr: "get t b = (Inr i, b') \<Longrightarrow> i \<in> ids b"
    and get_Inl: "get t b = (Inl e, b') \<Longrightarrow> ids b = {} \<and> e = NotFoundEffectiveServer"
    and get_ids: "ids (snd (get t b)) = ids b"
    and get_wf: "wf b \<Longrightarrow> wf (snd (get t b))"
begin

lemma get_cases:
  obtains (none) "ids b = {}" "fst (get t b) = Inl NotFoundEffectiveServer"
  | (some) i where "i \<in> ids b" "fst (get t b) = Inr i"
proof -
  obtain r b' where r: "get t b = (r, b')" by fastforce
  show thesis
  proof (cases r)
    case (Inl e)
    with r get_Inl [of t b e b'] show ?thesis by (intro none) simp_all
  next
    case (Inr i)
    with r get_Inr [of t b i b'] show ?thesis by (intro some) simp_all
  qed
qed

lemma get_after_remove:
  "wf b \<Longrightarrow> fst (get t (remove i b)) \<noteq> Inr i"
  using remove_ids [of b i] by (cases "get t (remove i b)") (auto dest: get_Inr)

lemma get_fails_iff: "fst (get t b) = Inl e \<longleftrightarrow> ids b = {} \<and> e = NotFoundEffectiveServer"
  by (cases rule: get_cases [of b t]) auto

end

text \<open>The full balancer also registers nodes and counts the requests in flight on each of them.\<close>

locale load_balancer = node_picker remove get ids wf
  for remove :: "string \<Rightarrow> 'b \<Rightarrow> 'b"
    and get :: "'t \<Rightarrow> 'b \<Rightarrow> (go_error, string) result \<times> 'b"
    and ids :: "'b \<Rightarrow> string set"
    and wf :: "'b \<Rightarrow> bool" +
  fixes add :: "string \<Rightarrow> int \<Rightarrow> int \<Rightarrow> 'b \<Rightarrow> 'b"
    and finish :: "string \<Rightarrow> int \<Rightarrow> bool \<Rightarrow> int \<Rightarrow> 'b \<Rightarrow> 'b"
    and infl :: "string \<Rightarrow> 'b \<Rightarrow> int"
  assumes add_ids: "ids (add i w now b) = insert i (ids b)"
    and add_wf: "wf b \<Longrightarrow> wf (add i w now b)"
    and add_infl: "infl j (add i w now b) = infl j b"
    and finish_ids: "ids (finish i d failed now b) = ids b"
    and finish_wf: "wf b \<Longrightarrow> wf (finish i d failed now b)"
    and finish_infl: "i \<in> ids b \<Longrightarrow>
          infl j (finish i d failed now b) = (if j = i then i64 (infl i b - 1) else infl j b)"
    and get_infl: "get t b = (Inr i, b') \<Longrightarrow>
          infl j b' = (if j = i then i64 (infl i b + 1) else infl j b)"
    and remove_infl: "i \<noteq> j \<Longrightarrow> infl j (remove i b) = infl j b"
begin

text \<open>A request that is picked and later reported done leaves every in-flight count as it was.\<close>

lemma get_finish_infl:
  assumes "get t b = (Inr i, b')" and "in_i64 (infl i b)"
  shows "infl j (finish i d failed now b') = infl j b"
proof -
  have "i \<in> ids b'" using assms(1) get_Inr get_ids [of t b] by fastforce
  moreover have "i64 (i64 (infl i b + 1) - 1) = infl i b"
  proof -
    have "(i64 (infl i b + 1) - 1 - infl i b) mod 2 ^ 64 = 0"
      using i64_mod [of "infl i b + 1"] by (simp add: mod_eq_dvd_iff dvd_eq_mod_eq_0 diff_diff_eq add.commute)
    then have "i64 (i64 (infl i b + 1) - 1) = i64 (infl i b)" by (rule i64_cong)
    with assms(2) show ?thesis by simp
  qed
  ultimately show ?thesis using assms(1) by (simp add: finish_infl get_infl)
qed

end


lemma P2C_Get_Inr: "P2C_Get F t ns = (Inr i, ns') \<Longrightarrow> i \<in> set (node_ids ns) \<and> ns' = pick_id (nowPick t) i ns"
  using P2C_Get_nonempty [of ns F t] P2C_Get_Nil [of F t] by (cases "ns = []") auto

lemma P2C_Get_Inl: "P2C_Get F t ns = (Inl e, ns') \<Longrightarrow> ns = [] \<and> e = NotFoundEffectiveServer"
  using P2C_Get_nonempty [of ns F t] P2C_Get_Nil [of F t] by (cases "ns = []") auto

lemma P2C_Get_ids: "node_ids (snd (P2C_Get F t ns)) = node_ids ns"
  using P2C_Get_nonempty [of ns F t] P2C_Get_Nil [of F t] by (cases "ns = []") auto

interpretation p2c: load_balancer P2C_Remove "P2C_Get F" "\<lambda>ns. set (node_ids ns)"
    "\<lambda>ns. distinct (node_ids ns)" P2C_Add "P2C_Done F" inflight_of for F
proof unfold_locales
  fix b :: P2CBalancer and i j e t b' w now d failed
  show "distinct (node_ids b) \<Longrightarrow> set (node_ids (P2C_Remove i b)) = set (node_ids b) - {i}"
    by (simp add: node_ids_Remove)
  show "distinct (node_ids b) \<Longrightarrow> distinct (node_ids (P2C_Remove i b))"
    by (simp add: node_ids_Remove)
  show "P2C_Get F t b = (Inr i, b') \<Longrightarrow> i \<in> set (node_ids b)"
    by (simp add: P2C_Get_Inr)
  show "P2C_Get F t b = (Inl e, b') \<Longrightarrow> set (node_ids b) = {} \<and> e = NotFoundEffectiveServer"
    using P2C_Get_Inl by (fastforce simp: node_ids_def)
  show "set (node_ids (snd (P2C_Get F t b))) = set (node_ids b)"
    by (simp add: P2C_Get_ids)
  show "distinct (node_ids b) \<Longrightarrow> distinct (node_ids (snd (P2C_Get F t b)))"
    by (simp add: P2C_Get_ids)
  show "set (node_ids (P2C_Add i w now b)) = insert i (set (node_ids b))"
    by (auto simp: node_ids_Add)
  show "distinct (node_ids b) \<Longrightarrow> distinct (node_ids (P2C_Add i w now b))"
    by (simp add: node_ids_Add)
  show "inflight_of j (P2C_Add i w now b) = inflight_of j b"
    by (rule inflight_Add)
  show "set (node_ids (P2C_Done F i d failed now b)) = set (node_ids b)"
    by simp
  show "distinct (node_ids b) \<Longrightarrow> distinct (node_ids (P2C_Done F i d failed now b))"
    by simp
  show "i \<in> set (node_ids b) \<Longrightarrow>
      inflight_of j (P2C_Done F i d failed now b) = (if j = i then i64 (inflight_of i b - 1) else inflight_of j b)"
    by (rule inflight_Done)
  show "P2C_Get F t b = (Inr i, b') \<Longrightarrow>
      inflight_of j b' = (if j = i then i64 (inflight_of i b + 1) else inflight_of j b)"
    using P2C_Get_Inr [of F t b i b'] inflight_pick_id [of i b j "nowPick t"] by simp
  show "i \<noteq> j \<Longrightarrow> inflight_of j (P2C_Remove i b) = inflight_of j b"
    by (rule inflight_Remove_other)
qed

subsection \<open>Properties\<close>

text \<open>
  \<open>Get\<close> fails only on an empty balancer, with NotFoundEffectiveServer. Otherwise it names a
  registered node, charges that node (and no other) one request in flight, and keeps the
  registered nodes.
\<close>

theorem p2c_get_spec:
  "(fst (P2C_Get F t ns) = Inl e \<longleftrightarrow> ns = [] \<and> e = NotFoundEffectiveServer)
   \<and> (\<forall>i ns'. P2C_Get F t ns = (Inr i, ns') \<longrightarrow>
        i \<in> set (node_ids ns) \<and> node_ids ns' = node_ids ns
        \<and> (\<forall>j. inflight_of j ns' = (if j = i then i64 (inflight_of i ns + 1) else inflight_of j ns)))"
proof (intro conjI allI impI)
  show "fst (P2C_Get F t ns) = Inl e \<longleftrightarrow> ns = [] \<and> e = NotFoundEffectiveServer"
    using p2c.get_fails_iff [of F t ns e] by (simp add: node_ids_def)
next
  fix i ns' assume g: "P2C_Get F t ns = (Inr i, ns')"
  show "i \<in> set (node_ids ns)" using g by (rule p2c.get_Inr)
  show "node_ids ns' = node_ids ns" using g P2C_Get_ids [of F t ns] by simp
  show "inflight_of j ns' = (if j = i then i64 (inflight_of i ns + 1) else inflight_of j ns)" for j
    using g by (rule p2c.get_infl)
qed

theorem p2c_get_spec_witness:
  "fst (P2C_Get exact_float \<lparr>drawA = 0, drawB = 0, nowChoose = 0, nowPick = 1\<rparr> []) = Inl NotFoundEffectiveServer
     \<and> inflight_of ''a'' (snd (P2C_Get exact_float \<lparr>drawA = 0, drawB = 0, nowChoose = 0, nowPick = 1\<rparr> [newP2CNode ''a'' 1 3])) = 1"
proof -
  have "P2C_Get exact_float \<lparr>drawA = 0, drawB = 0, nowChoose = 0, nowPick = 1\<rparr> [newP2CNode ''a'' 1 3]
      = (Inr ''a'', snd (P2C_Get exact_float \<lparr>drawA = 0, drawB = 0, nowChoose = 0, nowPick = 1\<rparr> [newP2CNode ''a'' 1 3]))"
    by (simp add: P2C_Get_def Let_def newP2CNode_def)
  with p2c_get_spec [of exact_float "\<lparr>drawA = 0, drawB = 0, nowChoose = 0, nowPick = 1\<rparr>" "[newP2CNode ''a'' 1 3]" NotFoundEffectiveServer, THEN conjunct2]
  have "inflight_of ''a'' (snd (P2C_Get exact_float \<lparr>drawA = 0, drawB = 0, nowChoose = 0, nowPick = 1\<rparr> [newP2CNode ''a'' 1 3]))
      = i64 (inflight_of ''a'' [newP2CNode ''a'' 1 3] + 1)" by metis
  also have "\<dots> = 1" by (simp add: inflight_of_def newP2CNode_def in_i64_def)
  finally show ?thesis using p2c_get_spec [of exact_float "\<lparr>drawA = 0, drawB = 0, nowChoose = 0, nowPick = 1\<rparr>" "[]" NotFoundEffectiveServer] by simp
qed

lemma chooseNode_outcome:
  fixes a b :: P2CNode and F now
  defines "c \<equiv> chooseNode F now a b"
  shows "\<exists>d. {c, d} = {a, b} \<and> (load F c \<le> load F d \<or> i64 (now - lastPick c) > forcePickTimeout)
     \<and> (load F c < load F d \<longrightarrow> i64 (now - lastPick d) \<le> forcePickTimeout)"
proof (intro exI [of _ "if (load F a > load F b) = (i64 (now - lastPick (if load F a > load F b then a else b)) > forcePickTimeout)
      then b else a"] conjI)
qed (auto simp: c_def chooseNode_def Let_def split: if_splits)

text \<open>
  C26. With two or more nodes, \<open>Get\<close> compares two distinct nodes c and d and returns c, where c has
  the load of d or less unless c was not picked for over a second; and a node of higher load loses
  only when it was picked within the last second. Every pair of distinct nodes can be drawn.
\<close>

theorem p2c_get_choice:
  assumes "2 \<le> length ns"
  shows "(\<exists>a b c d. a < length ns \<and> b < length ns \<and> a \<noteq> b \<and> {c, d} = {ns ! a, ns ! b}
            \<and> fst (P2C_Get F t ns) = Inr (serverId c)
            \<and> (load F c \<le> load F d \<or> i64 (nowChoose t - lastPick c) > 10 ^ 9)
            \<and> (load F c < load F d \<longrightarrow> i64 (nowChoose t - lastPick d) \<le> 10 ^ 9))
         \<and> (\<forall>a < length ns. \<forall>b < length ns. a \<noteq> b \<longrightarrow>
              (\<exists>t'. fst (P2C_Get F t' ns) = Inr (serverId (chooseNode F (nowChoose t') (ns ! a) (ns ! b)))))"
proof (intro conjI allI impI)
  have ne: "ns \<noteq> []" "length ns \<noteq> Suc 0" using assms by auto
  obtain a b where ab: "two_indices (length ns) t = (a, b)" by fastforce
  have v: "a < length ns \<and> b < length ns \<and> a \<noteq> b" by (rule two_indices_valid [OF assms ab])
  obtain d where d: "{chooseNode F (nowChoose t) (ns ! a) (ns ! b), d} = {ns ! a, ns ! b}"
    "load F (chooseNode F (nowChoose t) (ns ! a) (ns ! b)) \<le> load F d
       \<or> i64 (nowChoose t - lastPick (chooseNode F (nowChoose t) (ns ! a) (ns ! b))) > forcePickTimeout"
    "load F (chooseNode F (nowChoose t) (ns ! a) (ns ! b)) < load F d
       \<longrightarrow> i64 (nowChoose t - lastPick d) \<le> forcePickTimeout"
    using chooseNode_outcome [of F "nowChoose t" "ns ! a" "ns ! b"] by blast
  have "fst (P2C_Get F t ns) = Inr (serverId (chooseNode F (nowChoose t) (ns ! a) (ns ! b)))"
    using ne by (simp add: P2C_Get_def ab Let_def)
  with v d show "\<exists>a b c d. a < length ns \<and> b < length ns \<and> a \<noteq> b \<and> {c, d} = {ns ! a, ns ! b}
            \<and> fst (P2C_Get F t ns) = Inr (serverId c)
            \<and> (load F c \<le> load F d \<or> i64 (nowChoose t - lastPick c) > 10 ^ 9)
            \<and> (load F c < load F d \<longrightarrow> i64 (nowChoose t - lastPick d) \<le> 10 ^ 9)"
    unfolding forcePickTimeout_def by blast
next
  fix a b assume "a < length ns" "b < length ns" "a \<noteq> b"
  then obtain t' where t': "two_indices (length ns) t' = (a, b)" using two_indices_onto by blast
  have "ns \<noteq> []" "length ns \<noteq> Suc 0" using assms by auto
  then show "\<exists>t'. fst (P2C_Get F t' ns) = Inr (serverId (chooseNode F (nowChoose t') (ns ! a) (ns ! b)))"
    by (intro exI [of _ t']) (simp add: P2C_Get_def t' Let_def)
qed


theorem p2c_get_choice_witness:
  "\<exists>t. fst (P2C_Get exact_float t [newP2CNode ''a'' 1 0, newP2CNode ''b'' 1 0])
     = Inr (serverId (chooseNode exact_float (nowChoose t) (newP2CNode ''b'' 1 0) (newP2CNode ''a'' 1 0)))"
proof -
  let ?ns = "[newP2CNode ''a'' 1 0, newP2CNode ''b'' 1 0]"
  have "2 \<le> length ?ns" by simp
  note all_pairs = p2c_get_choice [OF this, of exact_float undefined, THEN conjunct2]
  show ?thesis using all_pairs [rule_format, of 1 0] by simp
qed

lemma load_unhealthy: "success n < throttleSuccess \<Longrightarrow> load F n = penalty"
  by (simp add: load_def)

text \<open>
  Of an unhealthy node (success below 500) that was picked within the last second and a node
  whose load is below the penalty value, the choice is the latter, in either order of drawing.
\<close>

theorem p2c_avoids_unhealthy:
  assumes "success u < throttleSuccess" and "i64 (now - lastPick u) \<le> forcePickTimeout"
    and "load F h < penalty"
  shows "chooseNode F now u h = h \<and> chooseNode F now h u = h"
  using assms by (simp add: chooseNode_def load_unhealthy)

theorem p2c_avoids_unhealthy_witness:
  "chooseNode exact_float 100 ((newP2CNode ''u'' 1 0)\<lparr>success := 10, lastPick := 99\<rparr>) (newP2CNode ''h'' 1 0)
     = newP2CNode ''h'' 1 0"
proof -
  have "load exact_float (newP2CNode ''h'' 1 0) < penalty"
    by (simp add: load_def newP2CNode_def exact_float_def initSuccess_def throttleSuccess_def
        penalty_def trunc64_def in_i64_def)
  then show ?thesis
    using p2c_avoids_unhealthy [of "(newP2CNode ''u'' 1 0)\<lparr>success := 10, lastPick := 99\<rparr>" 100
        exact_float "newP2CNode ''h'' 1 0"]
    by (simp add: throttleSuccess_def forcePickTimeout_def in_i64_def)
qed

text \<open>
  The bound of the averages. \<open>success\<close> and \<open>lag\<close> never become negative under any rounding that is
  monotone and exact on small integers, as long as the clock does not run backwards.
\<close>

definition averages_ok :: "P2CNode \<Rightarrow> bool" where
  "averages_ok n \<longleftrightarrow> 0 \<le> lag n \<and> 0 \<le> success n"

lemma decayWeight_range:
  assumes "float_ok F" "0 \<le> elapsed"
  shows "0 \<le> decayWeight F elapsed \<and> decayWeight F elapsed \<le> 1"
proof -
  have "0 \<le> frnd F (of_int elapsed)" "0 \<le> frnd F (of_int decayTime)"
    using assms by (simp_all add: frnd_nonneg decayTime_def)
  then have "- frnd F (of_int elapsed) / frnd F (of_int decayTime) \<le> 0" by (simp add: divide_le_0_iff)
  then have "frnd F (- frnd F (of_int elapsed) / frnd F (of_int decayTime)) \<le> 0"
    using frnd_mono [OF assms(1)] assms(1) frnd_0 by metis
  with assms(1) show ?thesis unfolding decayWeight_def by (intro fexp_le_1)
qed

lemma ewma_nonneg:
  "float_ok F \<Longrightarrow> 0 \<le> w \<Longrightarrow> w \<le> 1 \<Longrightarrow> 0 \<le> a \<Longrightarrow> 0 \<le> b \<Longrightarrow> 0 \<le> ewma F w a b"
  by (simp add: ewma_def frnd_nonneg)

lemma averages_ok_new: "averages_ok (newP2CNode i w now)"
  by (simp add: averages_ok_def newP2CNode_def initSuccess_def)

lemma averages_ok_pick: "averages_ok n \<Longrightarrow> averages_ok (pick now n)"
  by (simp add: averages_ok_def pick_def)

lemma averages_ok_done:
  "float_ok F \<Longrightarrow> stamp n \<le> now \<Longrightarrow> 0 \<le> d \<Longrightarrow> averages_ok n \<Longrightarrow> averages_ok (doneNode F d failed now n)"
  using decayWeight_range [of F "now - stamp n"]
  by (auto simp: averages_ok_def doneNode_def Let_def initSuccess_def intro!: ewma_nonneg frnd_nonneg)

text \<open>
  Whatever the rounding, the averages of every node stay non-negative under every operation of
  the balancer, so the square root in \<open>load\<close> is always of a number of at least 1, when durations
  are not negative and the clock does not run backwards.
\<close>

theorem p2c_averages_inv:
  assumes "float_ok F" and "\<forall>n \<in> set ns. averages_ok n"
    and "\<forall>n \<in> set ns. stamp n \<le> now" and "0 \<le> d"
  shows "(\<forall>n \<in> set (P2C_Add i w now ns). averages_ok n)
     \<and> (\<forall>n \<in> set (P2C_Remove i ns). averages_ok n)
     \<and> (\<forall>n \<in> set (snd (P2C_Get F t ns)). averages_ok n)
     \<and> (\<forall>n \<in> set (P2C_Done F i d failed now ns). averages_ok n)"
proof (intro conjI)
  show "\<forall>n \<in> set (P2C_Add i w now ns). averages_ok n"
    using assms(2) averages_ok_new by (auto simp: P2C_Add_def)
  show "\<forall>n \<in> set (P2C_Remove i ns). averages_ok n"
    using assms(2) remove_first_subset by (fastforce simp: P2C_Remove_def)
  have "\<forall>n \<in> set (pick_id k j ns). averages_ok n" for k j
    using assms(2) averages_ok_pick by (auto simp: pick_id_def dest!: set_update_first)
  then show "\<forall>n \<in> set (snd (P2C_Get F t ns)). averages_ok n"
    using assms(2) by (auto simp: P2C_Get_def Let_def)
  show "\<forall>n \<in> set (P2C_Done F i d failed now ns). averages_ok n"
  proof
    fix n assume "n \<in> set (P2C_Done F i d failed now ns)"
    then consider "n \<in> set ns" | m where "m \<in> set ns" "n = doneNode F d failed now m"
      unfolding P2C_Done_eq using set_update_first by metis
    then show "averages_ok n" using assms by cases (simp_all add: averages_ok_done)
  qed
qed

theorem p2c_averages_inv_witness:
  "averages_ok (hd (P2C_Done exact_float ''a'' 7 True 20 [newP2CNode ''a'' 1 3]))"
proof -
  let ?ns = "[newP2CNode ''a'' 1 3]"
  have s: "\<forall>n \<in> set ?ns. stamp n \<le> 20" by (simp add: newP2CNode_def)
  have a: "\<forall>n \<in> set ?ns. averages_ok n" using averages_ok_new by simp
  have d: "(0 :: int) \<le> 7" by simp
  have "P2C_Done exact_float ''a'' 7 True 20 ?ns \<noteq> []" by (simp add: P2C_Done_eq)
  then have "hd (P2C_Done exact_float ''a'' 7 True 20 ?ns) \<in> set (P2C_Done exact_float ''a'' 7 True 20 ?ns)"
    by (rule hd_in_set)
  with p2c_averages_inv [OF float_ok_exact a s d] show ?thesis by blast
qed

text \<open>
  Over the reals, what a series of failed requests does to the success average telescopes: it
  depends on the time that passed and not on the number of failures.
\<close>

fun doneAll :: "float64_ops \<Rightarrow> (int \<times> bool \<times> int) list \<Rightarrow> P2CNode \<Rightarrow> P2CNode" where
  \<comment> \<open>completions reported one after the other: duration, failed, time\<close>
  "doneAll F [] n = n"
| "doneAll F ((d, failed, now) # rs) n = doneAll F rs (doneNode F d failed now n)"

lemma success_done_failed:
  "success (doneNode exact_float d True now n) = success n * exp (- of_int (now - stamp n) / of_int decayTime)"
  by (simp add: doneNode_def Let_def ewma_def decayWeight_def exact_float_def)

lemma success_failures:
  assumes "rs \<noteq> []" and "\<forall>(d, failed, now) \<in> set rs. failed"
  shows "success (doneAll exact_float rs n)
    = success n * exp (- of_int (snd (snd (last rs)) - stamp n) / of_int decayTime)"
  using assms
proof (induction rs arbitrary: n)
  case Nil
  then show ?case by simp
next
  case (Cons r rs)
  obtain d failed now where r: "r = (d, failed, now)" by (cases r)
  with Cons.prems have f: "failed" by auto
  have st: "stamp (doneNode exact_float d True now n) = now" by (simp add: doneNode_def Let_def)
  show ?case
  proof (cases "rs = []")
    case True
    with r f show ?thesis by (simp add: success_done_failed)
  next
    case False
    with Cons have "success (doneAll exact_float rs (doneNode exact_float d True now n))
      = success (doneNode exact_float d True now n)
          * exp (- of_int (snd (snd (last rs)) - now) / of_int decayTime)"
      by (auto simp: st)
    also have "\<dots> = success n * (exp (- of_int (now - stamp n) / of_int decayTime)
          * exp (- of_int (snd (snd (last rs)) - now) / of_int decayTime))"
      by (simp add: success_done_failed)
    also have "\<dots> = success n * exp (- of_int (snd (snd (last rs)) - stamp n) / of_int decayTime)"
      by (simp add: exp_add [symmetric] add_divide_distrib [symmetric])
    finally show ?thesis using r f False by simp
  qed
qed

text \<open>
  In exact arithmetic a node that only reports failures becomes unhealthy exactly when more
  than 10 s times ln 2 (about 6.9 s) passed since its registration, however many failures it
  reported in that time.
\<close>

theorem p2c_unhealthy_by_time:
  assumes "rs \<noteq> []" and "\<forall>(d, failed, now) \<in> set rs. failed"
  shows "success (doneAll exact_float rs (newP2CNode i w t0)) < throttleSuccess
    \<longleftrightarrow> of_int (snd (snd (last rs)) - t0) > of_int decayTime * ln (2 :: real)"
proof -
  let ?x = "of_int (snd (snd (last rs)) - t0) / of_int decayTime :: real"
  have s: "success (doneAll exact_float rs (newP2CNode i w t0)) = 1000 * exp (- ?x)"
    using success_failures [OF assms, of "newP2CNode i w t0"]
    by (simp add: newP2CNode_def initSuccess_def minus_divide_left)
  have "1000 * exp (- ?x) < throttleSuccess \<longleftrightarrow> exp (- ?x) < exp (- ln 2)"
  proof -
    have "exp (- ln 2) = (1 / 2 :: real)" by (simp add: exp_minus)
    then show ?thesis unfolding throttleSuccess_def by linarith
  qed
  also have "\<dots> \<longleftrightarrow> ln 2 < ?x" by simp
  also have "\<dots> \<longleftrightarrow> of_int (snd (snd (last rs)) - t0) > of_int decayTime * ln (2 :: real)"
    by (simp add: decayTime_def field_simps)
  finally show ?thesis unfolding s .
qed

theorem p2c_unhealthy_by_time_witness:
  "\<not> success (doneAll exact_float [(1, True, 10), (1, True, 20), (1, True, 30)] (newP2CNode ''a'' 1 0))
     < throttleSuccess"
proof -
  have "(1 / 2 :: real) \<le> ln 2" using ln_le_minus_one [of "1 / 2"] by (simp add: ln_div)
  then show ?thesis
    using p2c_unhealthy_by_time [of "[(1, True, 10), (1, True, 20), (1, True, 30)]" "''a''" 1 0]
    by (simp add: decayTime_def)
qed

text \<open>
  A request that was picked and then reported done, in whichever way it ended, leaves every
  node's in-flight count as it was.
\<close>

theorem p2c_get_done_balanced:
  assumes "P2C_Get F t ns = (Inr i, ns')" and "in_i64 (inflight_of i ns)"
  shows "inflight_of j (P2C_Done F i d failed now ns') = inflight_of j ns"
  using assms by (rule p2c.get_finish_infl)

theorem p2c_get_done_balanced_witness:
  "inflight_of ''a'' (P2C_Done F ''a'' 5 True 9 (snd (P2C_Get F t [newP2CNode ''a'' 1 3]))) = 0"
proof -
  have g: "P2C_Get F t [newP2CNode ''a'' 1 3] = (Inr ''a'', snd (P2C_Get F t [newP2CNode ''a'' 1 3]))"
    by (simp add: P2C_Get_def Let_def newP2CNode_def)
  have z: "inflight_of ''a'' [newP2CNode ''a'' 1 3] = 0"
    by (simp add: inflight_of_def newP2CNode_def)
  show ?thesis using p2c_get_done_balanced [OF g, of "''a''"] by (simp add: z in_i64_def)
qed

end
