(* ===== verification/Weighted_RR.thy ===== *)
theory Weighted_RR
  imports P2C_Balance
begin

text \<open>
  Smooth weighted round robin
  (\<open>internal/infrastructure/balanceStrategy/weightedRRBalance\<close>), with \<open>int64\<close> arithmetic.
  A division by zero is a Go panic, the result \<open>None\<close> of \<open>updateWeight\<close>.
\<close>

subsection \<open>State and operations\<close>

record WeightNode =
  rrId :: string
  curWeight :: int
  rrWeight :: int

record WeightedRR =
  nodes :: "WeightNode list"
  totalWeight :: int

definition NewWeightNode :: "string \<Rightarrow> int \<Rightarrow> WeightNode" where
  "NewWeightNode i w = \<lparr>rrId = i, curWeight = 0, rrWeight = w\<rparr>"

definition NewWeightedRR :: WeightedRR where
  "NewWeightedRR = \<lparr>nodes = [], totalWeight = 0\<rparr>"

definition RR_Add :: "WeightNode \<Rightarrow> WeightedRR \<Rightarrow> WeightedRR" where
  "RR_Add rr w =
     w\<lparr>nodes := nodes w @ [\<lparr>rrId = rrId rr, curWeight = 0, rrWeight = rrWeight rr\<rparr>],
       totalWeight := i64 (totalWeight w + rrWeight rr)\<rparr>"

definition RR_Remove :: "string \<Rightarrow> WeightedRR \<Rightarrow> WeightedRR" where
  "RR_Remove i w =
     (case find (\<lambda>n. rrId n = i) (nodes w) of
        None \<Rightarrow> w
      | Some n \<Rightarrow> w\<lparr>totalWeight := i64 (totalWeight w - rrWeight n),
                    nodes := remove_first (\<lambda>n. rrId n = i) (nodes w)\<rparr>)"

definition updateWeight :: "string \<Rightarrow> int \<Rightarrow> WeightedRR \<Rightarrow> WeightedRR option" where
  "updateWeight i wt w =
     (case find (\<lambda>n. rrId n = i) (nodes w) of
        None \<Rightarrow> Some w
      | Some n \<Rightarrow>
          if rrWeight n = 0 then None
          else Some (w\<lparr>totalWeight := i64 (i64 (totalWeight w - rrWeight n) + wt),
                      nodes := update_first (\<lambda>n. rrId n = i)
                        (\<lambda>n. n\<lparr>curWeight := i64 (go_quot (i64 (curWeight n * wt)) (rrWeight n)),
                              rrWeight := wt\<rparr>) (nodes w)\<rparr>))"

text \<open>The loop of \<open>Next\<close>: the best node so far is its index and its current weight.\<close>

definition bump :: "WeightNode \<Rightarrow> WeightNode" where
  "bump n = n\<lparr>curWeight := i64 (curWeight n + rrWeight n)\<rparr>"

fun next_scan :: "nat \<Rightarrow> WeightNode list \<Rightarrow> (nat \<times> int) option \<Rightarrow> WeightNode list \<times> (nat \<times> int) option" where
  "next_scan i [] best = ([], best)"
| "next_scan i (n # ns) best =
     (let n' = bump n;
          best' = (case best of
                     None \<Rightarrow> Some (i, curWeight n')
                   | Some (j, c) \<Rightarrow> if curWeight n' > c then Some (i, curWeight n') else best);
          (ns', b) = next_scan (Suc i) ns best'
      in (n' # ns', b))"

definition Next :: "WeightedRR \<Rightarrow> (go_error, WeightNode option) result \<times> WeightedRR" where
  "Next w =
     (if length (nodes w) = 0 then (Inl NotFoundEffectiveServer, w)
      else case next_scan 0 (nodes w) None of
             (ns, None) \<Rightarrow> (Inr None, w\<lparr>nodes := ns\<rparr>)
           | (ns, Some (j, c)) \<Rightarrow>
               let best = (ns ! j)\<lparr>curWeight := i64 (c - totalWeight w)\<rparr>
               in (Inr (Some best), w\<lparr>nodes := ns[j := best]\<rparr>))"

definition RR_Get :: "WeightedRR \<Rightarrow> (go_error, WeightNode option) result \<times> WeightedRR" where
  "RR_Get w = Next w"

subsection \<open>The scan\<close>

lemma bump_simps [simp]: "rrId (bump n) = rrId n" "rrWeight (bump n) = rrWeight n"
  by (simp_all add: bump_def)

lemma next_scan_nodes: "fst (next_scan i ns b) = map bump ns"
  by (induction ns arbitrary: i b) (simp_all add: Let_def case_prod_beta)

lemma next_scan_some: "ns \<noteq> [] \<or> b \<noteq> None \<Longrightarrow> snd (next_scan i ns b) \<noteq> None"
  by (induction ns arbitrary: i b) (auto simp: Let_def case_prod_beta split: option.splits)

lemma next_scan_best:
  "snd (next_scan i ns b) = Some (j, c) \<Longrightarrow>
     (b = Some (j, c) \<or> (\<exists>k < length ns. j = i + k \<and> c = curWeight (bump (ns ! k))))
     \<and> (\<forall>n \<in> set ns. curWeight (bump n) \<le> c) \<and> (\<forall>j' c'. b = Some (j', c') \<longrightarrow> c' \<le> c)"
proof (induction ns arbitrary: i b)
  case Nil
  then show ?case by simp
next
  case (Cons n ns)
  let ?b = "case b of None \<Rightarrow> Some (i, curWeight (bump n))
            | Some (j, c) \<Rightarrow> if curWeight (bump n) > c then Some (i, curWeight (bump n)) else b"
  have "snd (next_scan (Suc i) ns ?b) = Some (j, c)"
    using Cons.prems by (simp add: Let_def split: prod.splits)
  note IH = Cons.IH [OF this]
  have pos: "?b = Some (j, c) \<Longrightarrow> b = Some (j, c) \<or> j = i + 0 \<and> c = curWeight (bump ((n # ns) ! 0))"
    by (auto split: option.splits if_splits)
  have shift: "k < length ns \<Longrightarrow> j = Suc i + k \<Longrightarrow> c = curWeight (bump (ns ! k)) \<Longrightarrow>
      Suc k < length (n # ns) \<and> j = i + Suc k \<and> c = curWeight (bump ((n # ns) ! Suc k))" for k
    by simp
  have "b = Some (j, c) \<or> (\<exists>k < length (n # ns). j = i + k \<and> c = curWeight (bump ((n # ns) ! k)))"
    using IH pos shift by (metis length_greater_0_conv list.distinct(1))
  moreover have "curWeight (bump n) \<le> c \<and> (\<forall>j' c'. b = Some (j', c') \<longrightarrow> c' \<le> c)"
    using IH by (force split: option.splits if_splits)
  ultimately show ?case using IH by simp
qed

text \<open>What \<open>Next\<close> does on a non-empty list: the first maximum after the bump pays the total.\<close>

lemma Next_cases:
  assumes "nodes w \<noteq> []"
  obtains j where "j < length (nodes w)"
    and "Next w = (Inr (Some ((bump (nodes w ! j))\<lparr>curWeight := i64 (curWeight (bump (nodes w ! j)) - totalWeight w)\<rparr>)),
           w\<lparr>nodes := (map bump (nodes w))[j := (bump (nodes w ! j))
              \<lparr>curWeight := i64 (curWeight (bump (nodes w ! j)) - totalWeight w)\<rparr>]\<rparr>)"
    and "\<forall>n \<in> set (nodes w). curWeight (bump n) \<le> curWeight (bump (nodes w ! j))"
proof -
  obtain ns b where s: "next_scan 0 (nodes w) None = (ns, b)" by fastforce
  with next_scan_nodes [of 0 "nodes w" None] have ns: "ns = map bump (nodes w)" by simp
  from s assms next_scan_some [of "nodes w" None 0] have "b \<noteq> None" by simp
  then obtain j c where b: "b = Some (j, c)" by auto
  with s next_scan_best [of 0 "nodes w" None j c]
  have j: "j < length (nodes w)" "c = curWeight (bump (nodes w ! j))"
    and m: "\<forall>n \<in> set (nodes w). curWeight (bump n) \<le> c" by auto
  show thesis by (rule that [of j]) (use assms j m s ns b in \<open>simp_all add: Next_def Let_def\<close>)
qed

subsection \<open>The weights balance\<close>

text \<open>
  \<open>rr_inv\<close>: weights are positive, their sum is the total, the current weights sum to zero and none
  is as low as minus the total; the sizes leave room for the \<open>int64\<close> arithmetic.
\<close>

definition rr_inv :: "WeightedRR \<Rightarrow> bool" where
  "rr_inv w \<longleftrightarrow> totalWeight w = sum_list (map rrWeight (nodes w))
     \<and> sum_list (map curWeight (nodes w)) = 0
     \<and> (\<forall>n \<in> set (nodes w). 0 < rrWeight n \<and> - totalWeight w < curWeight n)
     \<and> int (length (nodes w)) * totalWeight w < 2 ^ 62"

lemma rr_invD:
  assumes "rr_inv w"
  shows "totalWeight w = sum_list (map rrWeight (nodes w))" "sum_list (map curWeight (nodes w)) = 0"
    "n \<in> set (nodes w) \<Longrightarrow> 0 < rrWeight n" "n \<in> set (nodes w) \<Longrightarrow> - totalWeight w < curWeight n"
    "int (length (nodes w)) * totalWeight w < 2 ^ 62"
  using assms unfolding rr_inv_def by blast+

lemma sum_list_upper:
  fixes xs :: "int list"
  assumes "\<forall>x \<in> set xs. - t < x" and "x \<in> set xs"
  shows "x \<le> sum_list xs + (int (length xs) - 1) * t"
  using assms
proof (induction xs)
  case (Cons y ys)
  have all: "\<forall>x \<in> set ys. - t < x" using Cons.prems by simp
  show ?case
  proof (cases "x \<in> set ys")
    case True
    with Cons.IH all have "x \<le> sum_list ys + (int (length ys) - 1) * t" by simp
    moreover have "- t < y" using Cons.prems by simp
    ultimately show ?thesis by (simp add: algebra_simps)
  next
    case False
    with Cons.prems have "x = y" by simp
    moreover have "0 \<le> sum_list ys + int (length ys) * t"
      using all by (induction ys) (auto simp: algebra_simps)
    ultimately show ?thesis by simp
  qed
qed simp

lemma rr_weight_le_total:
  "rr_inv w \<Longrightarrow> n \<in> set (nodes w) \<Longrightarrow> rrWeight n \<le> totalWeight w"
  by (subst rr_invD(1), assumption)
    (auto intro!: member_le_sum_list less_imp_le [OF rr_invD(3)])

lemma rr_cur_bounds:
  assumes "rr_inv w" "n \<in> set (nodes w)"
  shows "curWeight n \<le> (int (length (nodes w)) - 1) * totalWeight w" and "0 < totalWeight w"
    and "totalWeight w < 2 ^ 62" and "(int (length (nodes w)) - 1) * totalWeight w < 2 ^ 62"
proof -
  have "curWeight n \<le> sum_list (map curWeight (nodes w)) + (int (length (map curWeight (nodes w))) - 1) * totalWeight w"
    by (rule sum_list_upper) (use assms in \<open>auto simp: rr_inv_def\<close>)
  then show "curWeight n \<le> (int (length (nodes w)) - 1) * totalWeight w"
    using assms by (simp add: rr_inv_def)
  show t: "0 < totalWeight w"
    using rr_weight_le_total [OF assms] assms by (auto simp: rr_inv_def)
  have l: "1 \<le> int (length (nodes w))" using assms(2) by (cases "nodes w") auto
  then have "1 * totalWeight w \<le> int (length (nodes w)) * totalWeight w"
    using t by (intro mult_right_mono) simp_all
  then show "totalWeight w < 2 ^ 62" using rr_invD(5) [OF assms(1)] by linarith
  show "(int (length (nodes w)) - 1) * totalWeight w < 2 ^ 62"
    using rr_invD(5) [OF assms(1)] t unfolding left_diff_distrib by linarith
qed

lemma rr_bump_exact:
  assumes "rr_inv w" "n \<in> set (nodes w)"
  shows "curWeight (bump n) = curWeight n + rrWeight n"
  using assms rr_cur_bounds [OF assms] rr_weight_le_total [OF assms]
  by (auto simp: bump_def in_i64_def rr_inv_def)

lemma sum_list_update_int:
  "j < length xs \<Longrightarrow> sum_list (xs[j := (v :: int)]) = sum_list xs + v - xs ! j"
  by (induction xs arbitrary: j) (auto split: nat.splits)

text \<open>Under the invariant \<open>Next\<close> moves exact integers.\<close>

lemma Next_exact:
  assumes "rr_inv w" and "nodes w \<noteq> []"
  obtains j best w' where "j < length (nodes w)" and "Next w = (Inr (Some best), w')"
    and "best = nodes w' ! j" and "totalWeight w' = totalWeight w"
    and "map rrId (nodes w') = map rrId (nodes w)" and "map rrWeight (nodes w') = map rrWeight (nodes w)"
    and "map curWeight (nodes w') = (map (\<lambda>n. curWeight n + rrWeight n) (nodes w))
           [j := curWeight (nodes w ! j) + rrWeight (nodes w ! j) - totalWeight w]"
    and "0 < curWeight (nodes w ! j) + rrWeight (nodes w ! j)"
proof -
  obtain j where j: "j < length (nodes w)"
    and nx: "Next w = (Inr (Some ((bump (nodes w ! j))\<lparr>curWeight := i64 (curWeight (bump (nodes w ! j)) - totalWeight w)\<rparr>)),
           w\<lparr>nodes := (map bump (nodes w))[j := (bump (nodes w ! j))
              \<lparr>curWeight := i64 (curWeight (bump (nodes w ! j)) - totalWeight w)\<rparr>]\<rparr>)"
    and mx: "\<forall>n \<in> set (nodes w). curWeight (bump n) \<le> curWeight (bump (nodes w ! j))"
    using Next_cases [OF assms(2)] .
  let ?n = "nodes w ! j"
  let ?best = "(bump ?n)\<lparr>curWeight := i64 (curWeight (bump ?n) - totalWeight w)\<rparr>"
  have nin: "?n \<in> set (nodes w)" using j by simp
  note e = rr_bump_exact [OF assms(1)]
  have mx': "\<forall>n \<in> set (nodes w). curWeight n + rrWeight n \<le> curWeight ?n + rrWeight ?n"
    using mx e nin by simp
  have pos: "0 < curWeight ?n + rrWeight ?n"
  proof (rule ccontr)
    assume "\<not> 0 < curWeight ?n + rrWeight ?n"
    then have neg: "\<forall>n \<in> set (nodes w). curWeight n + rrWeight n \<le> 0" using mx' by fastforce
    have "sum_list (map (\<lambda>n. curWeight n + rrWeight n) (nodes w)) \<le> 0"
      by (rule sum_list_nonpos) (use neg in auto)
    then have "sum_list (map curWeight (nodes w)) + sum_list (map rrWeight (nodes w)) \<le> 0"
      by (simp add: sum_list_addf)
    with assms(1) rr_cur_bounds(2) [OF assms(1) nin] show False by (simp add: rr_inv_def)
  qed
  have ex: "i64 (curWeight (bump ?n) - totalWeight w) = curWeight ?n + rrWeight ?n - totalWeight w"
    using pos rr_cur_bounds [OF assms(1) nin] rr_weight_le_total [OF assms(1) nin] e [OF nin]
    by (simp add: in_i64_def)
  have cur: "map curWeight ((map bump (nodes w))[j := ?best])
      = (map (\<lambda>n. curWeight n + rrWeight n) (nodes w))[j := curWeight ?n + rrWeight ?n - totalWeight w]"
    using ex e by (simp add: map_update o_def cong: map_cong)
  show thesis
    by (rule that [OF j nx]) (use j pos cur in \<open>simp_all add: map_update o_def list_update_same_conv\<close>)
qed

lemma Next_inv [keep_inv]:
  assumes "rr_inv w" shows "rr_inv (snd (Next w))"
proof (cases "nodes w = []")
  case True
  with assms show ?thesis by (simp add: Next_def)
next
  case False
  obtain j best w' where j: "j < length (nodes w)" and n: "Next w = (Inr (Some best), w')"
    and "best = nodes w' ! j" and t: "totalWeight w' = totalWeight w"
    and "map rrId (nodes w') = map rrId (nodes w)" and wt: "map rrWeight (nodes w') = map rrWeight (nodes w)"
    and c: "map curWeight (nodes w') = (map (\<lambda>n. curWeight n + rrWeight n) (nodes w))
           [j := curWeight (nodes w ! j) + rrWeight (nodes w ! j) - totalWeight w]"
    and p: "0 < curWeight (nodes w ! j) + rrWeight (nodes w ! j)"
    using Next_exact [OF assms False] .
  have len: "length (nodes w') = length (nodes w)" using wt by (metis length_map)
  have "sum_list (map curWeight (nodes w')) = 0"
    using j assms by (simp add: c sum_list_update_int sum_list_addf rr_inv_def)
  moreover have "- totalWeight w < x" if x: "x \<in> set (map curWeight (nodes w'))" for x
  proof -
    from x consider "x = curWeight (nodes w ! j) + rrWeight (nodes w ! j) - totalWeight w"
      | n where "n \<in> set (nodes w)" "x = curWeight n + rrWeight n"
      using set_update_subset_insert [of "map (\<lambda>n. curWeight n + rrWeight n) (nodes w)" j]
      unfolding c by fastforce
    then show ?thesis
    proof cases
      case 1
      with p show ?thesis by simp
    next
      case 2
      with assms have "0 < rrWeight n" "- totalWeight w < curWeight n" by (auto simp: rr_inv_def)
      with 2 show ?thesis by simp
    qed
  qed
  moreover have "0 < x" if "x \<in> set (map rrWeight (nodes w'))" for x
    using rr_invD(3) [OF assms] that unfolding wt by auto
  moreover have "int (length (nodes w')) * totalWeight w' < 2 ^ 62"
    using rr_invD(5) [OF assms] t len by simp
  moreover have "totalWeight w' = sum_list (map rrWeight (nodes w'))"
    using rr_invD(1) [OF assms] t wt by simp
  ultimately show ?thesis unfolding n rr_inv_def using t by auto
qed

lemma rr_inv_New: "rr_inv NewWeightedRR"
  by (simp add: rr_inv_def NewWeightedRR_def)

lemma rr_inv_Add [keep_inv]:
  assumes "rr_inv w" and "0 < rrWeight rr"
    and "(int (length (nodes w)) + 1) * (totalWeight w + rrWeight rr) < 2 ^ 62"
  shows "rr_inv (RR_Add rr w)"
proof -
  note inv = rr_invD [OF assms(1)]
  have t: "0 \<le> totalWeight w"
    unfolding inv(1) by (rule sum_list_nonneg) (auto intro: less_imp_le [OF inv(3)])
  then have "1 * (totalWeight w + rrWeight rr) \<le> (int (length (nodes w)) + 1) * (totalWeight w + rrWeight rr)"
    using assms(2) by (intro mult_right_mono) simp_all
  then have "totalWeight w + rrWeight rr < 2 ^ 62" using assms(3) by (metis le_less_trans mult_1)
  then have e: "i64 (totalWeight w + rrWeight rr) = totalWeight w + rrWeight rr"
    using assms(2) t by (intro i64_id) (simp add: in_i64_def)
  have "- (totalWeight w + rrWeight rr) < curWeight n" if "n \<in> set (nodes w)" for n
    using inv(4) [OF that] assms(2) by linarith
  then show ?thesis
    using assms(2, 3) inv(1, 2, 3) t unfolding RR_Add_def e rr_inv_def by (auto simp: add.commute)
qed

subsection \<open>Fairness\<close>

fun runNext :: "nat \<Rightarrow> WeightedRR \<Rightarrow> string list \<times> WeightedRR" where
  \<comment> \<open>the ids picked by k calls of \<open>Get\<close> in a row\<close>
  "runNext 0 w = ([], w)"
| "runNext (Suc k) w =
     (case RR_Get w of
        (Inr (Some best), w') \<Rightarrow> let (ps, w'') = runNext k w' in (rrId best # ps, w'')
      | (_, w') \<Rightarrow> runNext k w')"

lemma map_eq_nthD: "map f xs = map g ys \<Longrightarrow> j < length xs \<Longrightarrow> f (xs ! j) = g (ys ! j)"
  by (metis length_map nth_map)

lemma int_sum_list: "sum_list (map (\<lambda>x. int (f x)) xs) = int (sum_list (map f xs))"
  by (induction xs) simp_all

lemma runNext_cur:
  assumes "rr_inv w" "distinct (map rrId (nodes w))" "nodes w \<noteq> []" "runNext k w = (ps, w')"
  shows "rr_inv w' \<and> map rrId (nodes w') = map rrId (nodes w)
    \<and> map rrWeight (nodes w') = map rrWeight (nodes w) \<and> totalWeight w' = totalWeight w
    \<and> length ps = k \<and> set ps \<subseteq> set (map rrId (nodes w))
    \<and> (\<forall>j < length (nodes w). curWeight (nodes w' ! j)
         = curWeight (nodes w ! j) + int k * rrWeight (nodes w ! j)
           - totalWeight w * int (count_list ps (rrId (nodes w ! j))))"
  using assms
proof (induction k arbitrary: w ps)
  case 0
  then show ?case by simp
next
  case (Suc k)
  obtain p best v where p: "p < length (nodes w)" and nx: "Next w = (Inr (Some best), v)"
    and b: "best = nodes v ! p" and t: "totalWeight v = totalWeight w"
    and ids: "map rrId (nodes v) = map rrId (nodes w)" and wt: "map rrWeight (nodes v) = map rrWeight (nodes w)"
    and c: "map curWeight (nodes v) = (map (\<lambda>n. curWeight n + rrWeight n) (nodes w))
           [p := curWeight (nodes w ! p) + rrWeight (nodes w ! p) - totalWeight w]"
    and "0 < curWeight (nodes w ! p) + rrWeight (nodes w ! p)"
    using Next_exact [OF Suc.prems(1, 3)] .
  obtain ps0 where r: "runNext k v = (ps0, w')" and ps: "ps = rrId best # ps0"
    using Suc.prems(4) nx by (auto simp: RR_Get_def Let_def split: prod.splits)
  have len: "length (nodes v) = length (nodes w)" using ids by (metis length_map)
  have v: "rr_inv v" "distinct (map rrId (nodes v))" "nodes v \<noteq> []"
    using Next_inv [OF Suc.prems(1)] nx Suc.prems(2, 3) ids len by auto
  have IH: "rr_inv w'" "map rrId (nodes w') = map rrId (nodes v)"
    "map rrWeight (nodes w') = map rrWeight (nodes v)" "totalWeight w' = totalWeight v"
    "length ps0 = k" "set ps0 \<subseteq> set (map rrId (nodes v))"
    "\<forall>j < length (nodes v). curWeight (nodes w' ! j) = curWeight (nodes v ! j) + int k * rrWeight (nodes v ! j)
           - totalWeight v * int (count_list ps0 (rrId (nodes v ! j)))"
    using Suc.IH [OF v r] by blast+
  have idp: "rrId best = rrId (nodes w ! p)" using map_eq_nthD [OF ids, of p] p len b by simp
  have cur: "curWeight (nodes w' ! j) = curWeight (nodes w ! j) + int (Suc k) * rrWeight (nodes w ! j)
           - totalWeight w * int (count_list ps (rrId (nodes w ! j)))" if j: "j < length (nodes w)" for j
  proof -
    have vj: "curWeight (nodes v ! j) = (if j = p then curWeight (nodes w ! p) + rrWeight (nodes w ! p) - totalWeight w
        else curWeight (nodes w ! j) + rrWeight (nodes w ! j))"
      using arg_cong [OF c, of "\<lambda>xs. xs ! j"] j p len by (simp add: nth_list_update)
    have wj: "rrWeight (nodes v ! j) = rrWeight (nodes w ! j)" using map_eq_nthD [OF wt] j len by simp
    have ij: "rrId (nodes v ! j) = rrId (nodes w ! j)" using map_eq_nthD [OF ids] j len by simp
    have "rrId (nodes w ! p) = rrId (nodes w ! j) \<longleftrightarrow> j = p"
      using Suc.prems(2) j p nth_eq_iff_index_eq [of "map rrId (nodes w)" p j] by auto
    then have "int (count_list ps (rrId (nodes w ! j)))
        = int (count_list ps0 (rrId (nodes w ! j))) + (if j = p then 1 else 0)"
      by (simp add: ps idp)
    moreover have "curWeight (nodes w' ! j) = curWeight (nodes v ! j) + int k * rrWeight (nodes v ! j)
           - totalWeight v * int (count_list ps0 (rrId (nodes v ! j)))"
      using IH(7) j len by metis
    ultimately show ?thesis unfolding vj wj ij t by (cases "j = p") (simp_all add: algebra_simps)
  qed
  have "rrId best \<in> set (map rrId (nodes w))" using idp p by simp
  with IH ids wt t ps cur show ?case by simp
qed


text \<open>
  C27. Smooth weighted round robin is fair. From a balanced state whose current weights are zero
  (as every state built by \<open>Add\<close> alone), each node is picked exactly its weight many times in any
  totalWeight calls of \<open>Get\<close> in a row, after which all current weights are zero again.
\<close>

theorem weighted_rr_fair:
  assumes "rr_inv w" "distinct (map rrId (nodes w))" "nodes w \<noteq> []"
    and "\<forall>n \<in> set (nodes w). curWeight n = 0"
    and "runNext (nat (totalWeight w)) w = (ps, w')"
  shows "(\<forall>n \<in> set (nodes w). int (count_list ps (rrId n)) = rrWeight n) \<and> nodes w' = nodes w"
proof -
  let ?T = "totalWeight w"
  note r = runNext_cur [OF assms(1, 2, 3, 5)]
  have T: "0 < ?T" using rr_cur_bounds(2) [OF assms(1), of "hd (nodes w)"] assms(3) by simp
  have len: "length (nodes w') = length (nodes w)" using r by (metis length_map)
  have cur: "curWeight (nodes w' ! j) = ?T * (rrWeight (nodes w ! j) - int (count_list ps (rrId (nodes w ! j))))"
    if "j < length (nodes w)" for j
    using r that assms(4) T by (simp add: algebra_simps)
  have le: "int (count_list ps (rrId n)) \<le> rrWeight n" if n: "n \<in> set (nodes w)" for n
  proof -
    from n obtain j where j: "j < length (nodes w)" "n = nodes w ! j" by (auto simp: in_set_conv_nth)
    have "- ?T < curWeight (nodes w' ! j)" using rr_invD(4) [of w' "nodes w' ! j"] r j len by simp
    then have "?T * (- 1) < ?T * (rrWeight n - int (count_list ps (rrId n)))" using cur j by simp
    then have "- 1 < rrWeight n - int (count_list ps (rrId n))" using T mult_less_cancel_left_pos by blast
    then show ?thesis by simp
  qed
  have "sum_list (map (\<lambda>n. int (count_list ps (rrId n))) (nodes w)) = int (length ps)"
  proof -
    have "sum_list (map (count_list ps) (map rrId (nodes w))) = length ps"
      using r assms(2) by (simp add: sum_list_distinct_conv_sum_set sum_count_set del: map_map)
    then show ?thesis using int_sum_list [of "count_list ps \<circ> rrId" "nodes w"] by (simp add: o_def)
  qed
  also have "\<dots> = sum_list (map rrWeight (nodes w))" using r T rr_invD(1) [OF assms(1)] by simp
  finally have sum: "sum_list (map (\<lambda>n. rrWeight n - int (count_list ps (rrId n))) (nodes w)) = 0"
    by (simp add: sum_list_subtractf)
  have eq: "int (count_list ps (rrId n)) = rrWeight n" if "n \<in> set (nodes w)" for n
    using sum le that by (subst (asm) sum_list_nonneg_eq_0_iff) auto
  have "nodes w' ! j = nodes w ! j" if j: "j < length (nodes w)" for j
    using cur [OF j] eq j assms(4) map_eq_nthD [of rrId "nodes w'" rrId "nodes w" j]
      map_eq_nthD [of rrWeight "nodes w'" rrWeight "nodes w" j] r len
    by (intro WeightNode.equality) simp_all
  with eq len show ?thesis by (simp add: nth_equalityI)
qed

theorem weighted_rr_fair_witness:
  "fst (runNext 4 (RR_Add (NewWeightNode ''b'' 1) (RR_Add (NewWeightNode ''a'' 3) NewWeightedRR)))
     = [''a'', ''a'', ''b'', ''a'']
   \<and> count_list (fst (runNext 4 (RR_Add (NewWeightNode ''b'' 1) (RR_Add (NewWeightNode ''a'' 3) NewWeightedRR)))) ''b'' = 1"
proof -
  let ?w = "RR_Add (NewWeightNode ''b'' 1) (RR_Add (NewWeightNode ''a'' 3) NewWeightedRR)"
  have w: "nodes ?w = [NewWeightNode ''a'' 3, NewWeightNode ''b'' 1]" "totalWeight ?w = 4"
    by (simp_all add: RR_Add_def NewWeightedRR_def NewWeightNode_def in_i64_def)
  have inv: "rr_inv ?w" unfolding rr_inv_def w by (simp add: NewWeightNode_def)
  obtain ps w' where r: "runNext (nat (totalWeight ?w)) ?w = (ps, w')" by fastforce
  have "int (count_list ps ''b'') = 1"
    using weighted_rr_fair [OF inv _ _ _ r] unfolding w by (simp add: NewWeightNode_def)
  moreover have "fst (runNext 4 ?w) = [''a'', ''a'', ''b'', ''a'']" by code_simp
  ultimately show ?thesis using r w by simp
qed

text \<open>
  No node is ever picked ahead of its share by a whole turn: after k calls it was picked fewer
  than k * weight / total + 1 times.
\<close>

theorem weighted_rr_smooth:
  assumes "rr_inv w" "distinct (map rrId (nodes w))" "n \<in> set (nodes w)"
    and "\<forall>n \<in> set (nodes w). curWeight n = 0"
    and "runNext k w = (ps, w')"
  shows "totalWeight w * (int (count_list ps (rrId n)) - 1) < int k * rrWeight n"
proof -
  have ne: "nodes w \<noteq> []" using assms(3) by auto
  note r = runNext_cur [OF assms(1, 2) ne assms(5)]
  from assms(3) obtain j where j: "j < length (nodes w)" "n = nodes w ! j" by (auto simp: in_set_conv_nth)
  have "length (nodes w') = length (nodes w)" using r by (metis length_map)
  then have "- totalWeight w < curWeight (nodes w' ! j)" using rr_invD(4) [of w' "nodes w' ! j"] r j by simp
  also have "curWeight (nodes w' ! j) = int k * rrWeight n - totalWeight w * int (count_list ps (rrId n))"
    using r j assms(4) by simp
  finally show ?thesis by (simp add: algebra_simps)
qed

theorem weighted_rr_smooth_witness:
  "2 * (int (count_list (fst (runNext 3 (RR_Add (NewWeightNode ''a'' 2) NewWeightedRR))) ''a'') - 1) < 3 * 2"
proof -
  let ?w = "RR_Add (NewWeightNode ''a'' 2) NewWeightedRR"
  have w: "nodes ?w = [NewWeightNode ''a'' 2]" "totalWeight ?w = 2"
    by (simp_all add: RR_Add_def NewWeightedRR_def NewWeightNode_def in_i64_def)
  have inv: "rr_inv ?w" unfolding rr_inv_def w by (simp add: NewWeightNode_def)
  obtain ps w' where r: "runNext 3 ?w = (ps, w')" by fastforce
  show ?thesis
    using weighted_rr_smooth [OF inv _ _ _ r, of "NewWeightNode ''a'' 2"] r
    unfolding w by (simp add: NewWeightNode_def)
qed

subsection \<open>The picker interface\<close>

definition rr_pick :: "unit \<Rightarrow> WeightedRR \<Rightarrow> (go_error, string) result \<times> WeightedRR" where
  \<comment> \<open>\<open>Get\<close> followed by \<open>GetId\<close>\<close>
  "rr_pick t w =
     (case RR_Get w of
        (Inl e, w') \<Rightarrow> (Inl e, w')
      | (Inr None, w') \<Rightarrow> (Inl NotFoundEffectiveServer, w')
      | (Inr (Some n), w') \<Rightarrow> (Inr (rrId n), w'))"

definition rr_ids :: "WeightedRR \<Rightarrow> string list" where
  "rr_ids w = map rrId (nodes w)"

lemma rr_ids_Remove: "rr_ids (RR_Remove i w) = remove1 i (rr_ids w)"
proof (cases "find (\<lambda>n. rrId n = i) (nodes w)")
  case None
  then have "i \<notin> set (rr_ids w)" by (auto simp: rr_ids_def find_None_all)
  with None show ?thesis by (simp add: RR_Remove_def remove1_idem)
next
  case (Some n)
  then show ?thesis
    using map_remove_first [of "nodes w" "\<lambda>n. rrId n = i" "\<lambda>x. x = i" rrId]
    by (simp add: RR_Remove_def rr_ids_def remove_first_eq_remove1)
qed

lemma rr_pick_nonempty:
  assumes "nodes w \<noteq> []"
  shows "\<exists>i w'. rr_pick t w = (Inr i, w') \<and> i \<in> set (rr_ids w) \<and> rr_ids w' = rr_ids w"
proof -
  obtain j where j: "j < length (nodes w)"
    and n: "Next w = (Inr (Some ((bump (nodes w ! j))\<lparr>curWeight := i64 (curWeight (bump (nodes w ! j)) - totalWeight w)\<rparr>)),
           w\<lparr>nodes := (map bump (nodes w))[j := (bump (nodes w ! j))
              \<lparr>curWeight := i64 (curWeight (bump (nodes w ! j)) - totalWeight w)\<rparr>]\<rparr>)"
    and "\<forall>n \<in> set (nodes w). curWeight (bump n) \<le> curWeight (bump (nodes w ! j))"
    using Next_cases [OF assms] .
  have "(map rrId (nodes w))[j := rrId (nodes w ! j)] = map rrId (nodes w)"
    using j by (metis list_update_id nth_map)
  with j show ?thesis by (auto simp: rr_pick_def RR_Get_def n rr_ids_def map_update o_def)
qed

lemma rr_pick_empty: "nodes w = [] \<Longrightarrow> rr_pick t w = (Inl NotFoundEffectiveServer, w)"
  by (simp add: rr_pick_def RR_Get_def Next_def)

interpretation rr: node_picker RR_Remove rr_pick "\<lambda>w. set (rr_ids w)" "\<lambda>w. distinct (rr_ids w)"
proof unfold_locales
  fix b :: WeightedRR and i e t b'
  show "distinct (rr_ids b) \<Longrightarrow> set (rr_ids (RR_Remove i b)) = set (rr_ids b) - {i}"
    by (simp add: rr_ids_Remove)
  show "distinct (rr_ids b) \<Longrightarrow> distinct (rr_ids (RR_Remove i b))"
    by (simp add: rr_ids_Remove)
  show "rr_pick t b = (Inr i, b') \<Longrightarrow> i \<in> set (rr_ids b)"
    using rr_pick_nonempty [of b t] rr_pick_empty [of b t] by (cases "nodes b = []") auto
  show "rr_pick t b = (Inl e, b') \<Longrightarrow> set (rr_ids b) = {} \<and> e = NotFoundEffectiveServer"
    using rr_pick_nonempty [of b t] rr_pick_empty [of b t] by (cases "nodes b = []") (auto simp: rr_ids_def)
  show "set (rr_ids (snd (rr_pick t b))) = set (rr_ids b)"
    using rr_pick_nonempty [of b t] rr_pick_empty [of b t] by (cases "nodes b = []") auto
  show "distinct (rr_ids b) \<Longrightarrow> distinct (rr_ids (snd (rr_pick t b)))"
    using rr_pick_nonempty [of b t] rr_pick_empty [of b t] by (cases "nodes b = []") auto
qed

text \<open>
  Changing a weight panics exactly when the first node of that id has weight zero; otherwise
  it keeps the total weight equal to the sum of the weights (modulo \<open>2^64\<close>) and the ids.
\<close>

theorem weighted_rr_update:
  assumes "totalWeight w = i64 (sum_list (map rrWeight (nodes w)))"
  shows "(updateWeight i wt w = None \<longleftrightarrow>
            (\<exists>n. find (\<lambda>n. rrId n = i) (nodes w) = Some n \<and> rrWeight n = 0))
     \<and> (\<forall>w'. updateWeight i wt w = Some w' \<longrightarrow>
            rr_ids w' = rr_ids w \<and> totalWeight w' = i64 (sum_list (map rrWeight (nodes w'))))"
proof (intro conjI allI impI)
  show "updateWeight i wt w = None \<longleftrightarrow>
      (\<exists>n. find (\<lambda>n. rrId n = i) (nodes w) = Some n \<and> rrWeight n = 0)"
    by (simp add: updateWeight_def split: option.splits)
next
  fix w' assume u: "updateWeight i wt w = Some w'"
  show "rr_ids w' = rr_ids w"
    using u by (auto simp: updateWeight_def rr_ids_def map_update_first split: option.splits if_splits)
  show "totalWeight w' = i64 (sum_list (map rrWeight (nodes w')))"
  proof (cases "find (\<lambda>n. rrId n = i) (nodes w)")
    case None
    with u assms show ?thesis by (simp add: updateWeight_def)
  next
    case (Some n)
    have sum: "find (\<lambda>n. rrId n = i) ns = Some n \<Longrightarrow>
        sum_list (map rrWeight (update_first (\<lambda>n. rrId n = i) (\<lambda>n. n\<lparr>curWeight := f n, rrWeight := wt\<rparr>) ns))
          = sum_list (map rrWeight ns) - rrWeight n + wt" for ns f
      by (induction ns) (auto split: if_splits)
    have "i64 (i64 (i64 S - a) + b) = i64 (S - a + b)" for S a b
    proof (rule i64_cong)
      have "(i64 (i64 S - a) + b) mod 2 ^ 64 = (S - a + b) mod 2 ^ 64"
        by (metis i64_mod mod_add_left_eq mod_diff_left_eq)
      then show "(i64 (i64 S - a) + b - (S - a + b)) mod 2 ^ 64 = 0"
        by (simp add: mod_eq_dvd_iff dvd_eq_mod_eq_0)
    qed
    with u assms Some show ?thesis
      by (auto simp: updateWeight_def sum split: if_splits)
  qed
qed

theorem weighted_rr_update_witness:
  "updateWeight ''a'' 5 (RR_Add (NewWeightNode ''a'' 0) NewWeightedRR) = None"
proof -
  let ?w = "RR_Add (NewWeightNode ''a'' 0) NewWeightedRR"
  have "totalWeight ?w = i64 (sum_list (map rrWeight (nodes ?w)))"
    by (simp add: RR_Add_def NewWeightedRR_def NewWeightNode_def in_i64_def)
  from weighted_rr_update [OF this, of "''a''" 5] show ?thesis
    by (simp add: RR_Add_def NewWeightedRR_def NewWeightNode_def)
qed

end
