(* ===== verification/Go_Path.thy ===== *)
theory Go_Path
  imports Go_Strings
begin

text \<open>
  Go's lexical path functions \<open>filepath.Clean\<close>, \<open>Base\<close>, \<open>Dir\<close>, \<open>Join\<close> and \<open>Ext\<close> on Unix
  paths, over the list of the path's components.
\<close>

abbreviation slash :: char where
  "slash \<equiv> CHR 0x2F"

text \<open>\<open>Clean\<close> drops empty and \<open>.\<close> components and cancels \<open>..\<close> against the component before it.\<close>

fun clean_step :: "bool \<Rightarrow> string list \<Rightarrow> string \<Rightarrow> string list" where
  \<comment> \<open>the accumulated components, last one first\<close>
  "clean_step rooted acc c =
     (if c = '''' \<or> c = ''.'' then acc
      else if c = ''..'' then
        (case acc of
           [] \<Rightarrow> if rooted then [] else [''..'']
         | a # as \<Rightarrow> if a = ''..'' then ''..'' # acc else as)
      else c # acc)"

fun join_slash :: "string list \<Rightarrow> string" where
  "join_slash [] = ''''"
| "join_slash [c] = c"
| "join_slash (c # d # ds) = c @ slash # join_slash (d # ds)"

definition clean_components :: "string \<Rightarrow> string list" where
  "clean_components p = rev (foldl (clean_step (HasPrefix p [slash])) [] (Split slash p))"

definition path_Clean :: "string \<Rightarrow> string" where
  "path_Clean p =
     (let cs = clean_components p in
      if HasPrefix p [slash] then slash # join_slash cs
      else if cs = [] then ''.'' else join_slash cs)"

definition path_Join :: "string list \<Rightarrow> string" where
  "path_Join es =
     (let ne = filter (\<lambda>e. e \<noteq> '''') es in
      if ne = [] then '''' else path_Clean (join_slash ne))"

text \<open>\<open>Base\<close>: the last component, trailing slashes dropped.\<close>

definition path_Base :: "string \<Rightarrow> string" where
  "path_Base p =
     (if p = '''' then ''.''
      else let q = rev (dropWhile (\<lambda>c. c = slash) (rev p)) in
           if q = '''' then [slash] else rev (takeWhile (\<lambda>c. c \<noteq> slash) (rev q)))"

text \<open>\<open>Dir\<close>: everything up to the last slash, cleaned.\<close>

definition path_Dir :: "string \<Rightarrow> string" where
  "path_Dir p = path_Clean (rev (dropWhile (\<lambda>c. c \<noteq> slash) (rev p)))"

text \<open>\<open>Ext\<close>: from the last dot of the last component.\<close>

definition path_Ext :: "string \<Rightarrow> string" where
  "path_Ext p =
     (let tail = takeWhile (\<lambda>c. c \<noteq> slash) (rev p); e = takeWhile (\<lambda>c. c \<noteq> CHR 0x2E) tail in
      if length e < length tail then CHR 0x2E # rev e else '''')"

text \<open>A component no \<open>Clean\<close> rewrites, and the paths made of such components.\<close>

definition plain_component :: "string \<Rightarrow> bool" where
  "plain_component c \<longleftrightarrow> c \<noteq> '''' \<and> c \<noteq> ''.'' \<and> c \<noteq> ''..'' \<and> slash \<notin> set c"

lemma foldl_clean_plain:
  "\<forall>c \<in> set cs. plain_component c \<Longrightarrow> foldl (clean_step r) acc cs = rev cs @ acc"
  by (induction cs arbitrary: acc) (auto simp: plain_component_def)

lemma Split_join_slash:
  "cs \<noteq> [] \<Longrightarrow> \<forall>c \<in> set cs. slash \<notin> set c \<Longrightarrow> Split slash (join_slash cs) = cs"
  by (induction cs rule: join_slash.induct) (auto simp: Split_no_sep Split_append_sep)

lemma join_slash_first: "cs \<noteq> [] \<Longrightarrow> hd cs \<noteq> [] \<Longrightarrow> slash \<notin> set (hd cs) \<Longrightarrow> \<not> HasPrefix (join_slash cs) [slash]"
  by (induction cs rule: join_slash.induct) (auto simp: HasPrefix_iff Cons_eq_append_conv append_eq_Cons_conv)

lemma path_Clean_abs:
  assumes "cs \<noteq> []" and "\<forall>c \<in> set cs. plain_component c"
  shows "path_Clean (slash # join_slash cs) = slash # join_slash cs"
proof -
  have "Split slash (slash # join_slash cs) = [] # cs"
    using assms by (simp add: Split_join_slash plain_component_def)
  then show ?thesis using assms
    by (simp add: path_Clean_def clean_components_def HasPrefix_iff foldl_clean_plain Let_def)
qed

lemma path_Clean_rel:
  assumes "cs \<noteq> []" and "\<forall>c \<in> set cs. plain_component c"
  shows "path_Clean (join_slash cs) = join_slash cs"
proof -
  have "\<not> HasPrefix (join_slash cs) [slash]"
    using assms join_slash_first [of cs] by (cases cs) (auto simp: plain_component_def)
  moreover have "Split slash (join_slash cs) = cs"
    using assms by (simp add: Split_join_slash plain_component_def)
  ultimately show ?thesis using assms
    by (simp add: path_Clean_def clean_components_def foldl_clean_plain Let_def)
qed

end
