(* ===== verification/Go_Json.thy ===== *)
theory Go_Json
  imports Go_Strings
begin

text \<open>
  What the program uses of \<open>encoding/json\<close>, at the level of values: a byte string is
  represented by the JSON value it denotes (\<open>Json\<close>), or kept as it is when it is not JSON
  (\<open>NotJson\<close>). Marshalling coerces strings to valid UTF-8; unmarshalling into a struct matches
  keys exactly or case-insensitively, ignores unknown keys, lets a later duplicate win, leaves a
  field alone on \<open>null\<close> and fails on a value of another type.
\<close>

datatype json =
    JNull
  | JBool bool
  | JNum int
  | JDec string
  | JStr string
  | JArr "json list"
  | JObj "(string \<times> json) list"

datatype payload = Json json | NotJson string

definition to_valid_utf8 :: "string \<Rightarrow> string" where
  "to_valid_utf8 s = concat (map reencode (rune_chunks s))"

subsection \<open>Encoding\<close>

definition omit_string :: "string \<Rightarrow> string \<Rightarrow> (string \<times> json) list" where
  \<comment> \<open>a string field with \<open>omitempty\<close>\<close>
  "omit_string name s = (if s = [] then [] else [(name, JStr (to_valid_utf8 s))])"

definition keep_string :: "string \<Rightarrow> string \<Rightarrow> (string \<times> json) list" where
  "keep_string name s = [(name, JStr (to_valid_utf8 s))]"

definition omit_int :: "string \<Rightarrow> int \<Rightarrow> (string \<times> json) list" where
  "omit_int name n = (if n = 0 then [] else [(name, JNum n)])"

subsection \<open>Decoding\<close>

fun fold_name :: "string \<Rightarrow> string" where
  \<comment> \<open>\<open>foldName\<close>: ASCII letters, and the two other runes that fold to one (long s, Kelvin sign)\<close>
  "fold_name [] = []"
| "fold_name (c # cs) =
     (if c = CHR 0xC5 \<and> take 1 cs = [CHR 0xBF] then CHR ''s'' # fold_name (drop 1 cs)
      else if c = CHR 0xE2 \<and> take 2 cs = [CHR 0x84, CHR 0xAA] then CHR ''k'' # fold_name (drop 2 cs)
      else (if 65 \<le> byte c \<and> byte c \<le> 90 then char_of (byte c + 32) else c) # fold_name cs)"

type_synonym 'r field = "string \<times> (json \<Rightarrow> 'r \<Rightarrow> 'r option)"

definition string_field :: "string \<Rightarrow> (string \<Rightarrow> 'r \<Rightarrow> 'r) \<Rightarrow> 'r field" where
  "string_field name upd =
     (name, \<lambda>v r. case v of JStr s \<Rightarrow> Some (upd s r) | JNull \<Rightarrow> Some r | _ \<Rightarrow> None)"

definition uint32_field :: "string \<Rightarrow> (int \<Rightarrow> 'r \<Rightarrow> 'r) \<Rightarrow> 'r field" where
  "uint32_field name upd =
     (name, \<lambda>v r. case v of
                    JNum n \<Rightarrow> if 0 \<le> n \<and> n < 2 ^ 32 then Some (upd n r) else None
                  | JNull \<Rightarrow> Some r
                  | _ \<Rightarrow> None)"

definition find_field :: "'r field list \<Rightarrow> string \<Rightarrow> (json \<Rightarrow> 'r \<Rightarrow> 'r option) option" where
  "find_field fs k =
     (case map_of fs k of
        Some f \<Rightarrow> Some f
      | None \<Rightarrow> map_option snd (find (\<lambda>f. fold_name (fst f) = fold_name k) fs))"

fun decode_members :: "'r field list \<Rightarrow> (string \<times> json) list \<Rightarrow> 'r \<Rightarrow> 'r option" where
  "decode_members fs [] r = Some r"
| "decode_members fs ((k, v) # ms) r =
     (case find_field fs k of
        None \<Rightarrow> decode_members fs ms r
      | Some f \<Rightarrow> (case f v r of None \<Rightarrow> None | Some r' \<Rightarrow> decode_members fs ms r'))"

definition decode_struct :: "'r field list \<Rightarrow> 'r \<Rightarrow> payload \<Rightarrow> 'r option" where
  "decode_struct fs zero p =
     (case p of
        Json (JObj ms) \<Rightarrow> decode_members fs ms zero
      | Json JNull \<Rightarrow> Some zero
      | _ \<Rightarrow> None)"

subsection \<open>Laws\<close>

lemma to_valid_utf8_Nil [simp]: "to_valid_utf8 [] = []"
  by (simp add: to_valid_utf8_def)

lemma to_valid_utf8_ascii: "ascii s \<Longrightarrow> to_valid_utf8 s = s"
proof -
  assume a: "ascii s"
  have "map reencode cs = cs" if "\<forall>c \<in> set cs. \<forall>b \<in> set c. byte b < 128" for cs
    using that by (induction cs) (auto simp: reencode_def split: list.splits)
  moreover have "\<forall>c \<in> set (rune_chunks s). \<forall>b \<in> set c. byte b < 128"
  proof (intro ballI)
    fix c b assume "c \<in> set (rune_chunks s)" "b \<in> set c"
    then have "b \<in> set (concat (rune_chunks s))" by auto
    then show "byte b < 128" using a by (simp add: concat_rune_chunks ascii_def)
  qed
  ultimately show ?thesis by (simp add: to_valid_utf8_def concat_rune_chunks)
qed

lemma decode_members_append:
  "decode_members fs (ms @ ns) r
     = (case decode_members fs ms r of None \<Rightarrow> None | Some r' \<Rightarrow> decode_members fs ns r')"
  by (induction fs ms r rule: decode_members.induct) (auto split: option.splits)

lemma decode_omit_string:
  "find_field fs name = Some (\<lambda>v r. case v of JStr s \<Rightarrow> Some (upd s r) | JNull \<Rightarrow> Some r | _ \<Rightarrow> None) \<Longrightarrow>
     (s = [] \<Longrightarrow> upd [] r = r) \<Longrightarrow>
     decode_members fs (omit_string name s) r = Some (upd (to_valid_utf8 s) r)"
  by (auto simp: omit_string_def)

lemma decode_omit_int:
  "find_field fs name = Some (\<lambda>v r. case v of JNum n \<Rightarrow> if 0 \<le> n \<and> n < 2 ^ 32 then Some (upd n r) else None
       | JNull \<Rightarrow> Some r | _ \<Rightarrow> None) \<Longrightarrow>
     0 \<le> n \<Longrightarrow> n < 2 ^ 32 \<Longrightarrow> (n = 0 \<Longrightarrow> upd 0 r = r) \<Longrightarrow>
     decode_members fs (omit_int name n) r = Some (upd n r)"
  by (auto simp: omit_int_def)

end
