(* ===== verification/Proto_Types.thy ===== *)
theory Proto_Types
  imports Go_Json "HOL-Library.Word"
begin

text \<open>
  The messages of \<open>api/proto/codeRunner.proto\<close> and of the WebSocket protocol
  (\<open>internal/infrastructure/websocket/protocol/message.go\<close>). The user id is a \<open>uint32\<close>.
  \<open>MsgType\<close> is an open string type in Go: the four constants are constructors and any other
  value is \<open>MsgOther\<close>. The payload of a WebSocket message is a byte slice; it is kept as
  the JSON value it denotes.
\<close>

record ExecuteRequest =
  reqId :: string
  reqUid :: "32 word"
  Language :: string
  CodeBlock :: string
  reqCallBackUrl :: string

definition zeroRequest :: ExecuteRequest where
  "zeroRequest = \<lparr>reqId = '''', reqUid = 0, Language = '''', CodeBlock = '''',
                  reqCallBackUrl = ''''\<rparr>"

record ExecuteResponse =
  respId :: string
  respUid :: "32 word"
  GrpcCode :: string
  Result :: string
  respCallBackUrl :: string
  Err :: string

definition zeroResponse :: ExecuteResponse where
  "zeroResponse = \<lparr>respId = '''', respUid = 0, GrpcCode = '''', Result = '''',
                   respCallBackUrl = '''', Err = ''''\<rparr>"

datatype MsgType = MsgTypeExecute | MsgTypeAck | MsgTypeExecuteSync | MsgTypeResult | MsgOther string

definition msgTypeOf :: "string \<Rightarrow> MsgType" where
  "msgTypeOf s =
     (if s = ''execute'' then MsgTypeExecute
      else if s = ''ack'' then MsgTypeAck
      else if s = ''execute_sync'' then MsgTypeExecuteSync
      else if s = ''result'' then MsgTypeResult
      else MsgOther s)"

fun msgTypeText :: "MsgType \<Rightarrow> string" where
  "msgTypeText MsgTypeExecute = ''execute''"
| "msgTypeText MsgTypeAck = ''ack''"
| "msgTypeText MsgTypeExecuteSync = ''execute_sync''"
| "msgTypeText MsgTypeResult = ''result''"
| "msgTypeText (MsgOther s) = s"

lemma msgType_roundtrip: "msgTypeText (msgTypeOf s) = s"
  by (simp add: msgTypeOf_def)

record WsMessage =
  msgType :: MsgType
  RequestID :: string
  Payload :: payload

subsection \<open>Their JSON forms\<close>

definition request_json :: "ExecuteRequest \<Rightarrow> payload" where
  "request_json r = Json (JObj
     (omit_string ''id'' (reqId r) @ omit_int ''uid'' (uint (reqUid r)) @ omit_string ''language'' (Language r)
      @ omit_string ''codeBlock'' (CodeBlock r) @ omit_string ''callBackUrl'' (reqCallBackUrl r)))"

definition response_json :: "ExecuteResponse \<Rightarrow> payload" where
  "response_json r = Json (JObj
     (omit_string ''id'' (respId r) @ omit_int ''uid'' (uint (respUid r)) @ omit_string ''grpcCode'' (GrpcCode r)
      @ omit_string ''result'' (Result r) @ omit_string ''callBackUrl'' (respCallBackUrl r)
      @ omit_string ''err'' (Err r)))"

definition request_fields :: "ExecuteRequest field list" where
  "request_fields =
     [string_field ''id'' (\<lambda>s r. r\<lparr>reqId := s\<rparr>), uint32_field ''uid'' (\<lambda>n r. r\<lparr>reqUid := of_int n\<rparr>),
      string_field ''language'' (\<lambda>s r. r\<lparr>Language := s\<rparr>), string_field ''codeBlock'' (\<lambda>s r. r\<lparr>CodeBlock := s\<rparr>),
      string_field ''callBackUrl'' (\<lambda>s r. r\<lparr>reqCallBackUrl := s\<rparr>)]"

definition response_fields :: "ExecuteResponse field list" where
  "response_fields =
     [string_field ''id'' (\<lambda>s r. r\<lparr>respId := s\<rparr>), uint32_field ''uid'' (\<lambda>n r. r\<lparr>respUid := of_int n\<rparr>),
      string_field ''grpcCode'' (\<lambda>s r. r\<lparr>GrpcCode := s\<rparr>), string_field ''result'' (\<lambda>s r. r\<lparr>Result := s\<rparr>),
      string_field ''callBackUrl'' (\<lambda>s r. r\<lparr>respCallBackUrl := s\<rparr>), string_field ''err'' (\<lambda>s r. r\<lparr>Err := s\<rparr>)]"

definition parse_request :: "payload \<Rightarrow> ExecuteRequest option" where
  "parse_request p = decode_struct request_fields zeroRequest p"

definition parse_response :: "payload \<Rightarrow> ExecuteResponse option" where
  "parse_response p = decode_struct response_fields zeroResponse p"

text \<open>What a request looks like after the wire: its strings as valid UTF-8.\<close>

definition wire_request :: "ExecuteRequest \<Rightarrow> ExecuteRequest" where
  "wire_request r = r\<lparr>reqId := to_valid_utf8 (reqId r), Language := to_valid_utf8 (Language r),
     CodeBlock := to_valid_utf8 (CodeBlock r), reqCallBackUrl := to_valid_utf8 (reqCallBackUrl r)\<rparr>"

definition wire_response :: "ExecuteResponse \<Rightarrow> ExecuteResponse" where
  "wire_response r = r\<lparr>respId := to_valid_utf8 (respId r), GrpcCode := to_valid_utf8 (GrpcCode r),
     Result := to_valid_utf8 (Result r), respCallBackUrl := to_valid_utf8 (respCallBackUrl r),
     Err := to_valid_utf8 (Err r)\<rparr>"

lemma uint32_bounds: "0 \<le> uint (w :: 32 word)" "uint (w :: 32 word) < 4294967296"
  using uint_lt2p [of w] by simp_all

lemmas json_decode_defs = find_field_def string_field_def uint32_field_def omit_string_def omit_int_def
  decode_members_append

text \<open>
  A request survives the wire: unmarshalling the marshalled request gives the request back,
  with its strings coerced to valid UTF-8.
\<close>

theorem request_json_roundtrip: "parse_request (request_json r) = Some (wire_request r)"
proof -
  have z: "reqUid r = 0" if "uint (reqUid r) = 0" using that by (simp add: uint_0_iff)
  show ?thesis
    using z uint32_bounds [of "reqUid r"]
    by (simp add: parse_request_def request_json_def decode_struct_def request_fields_def json_decode_defs
        zeroRequest_def wire_request_def split: option.splits)
qed

lemma response_json_parses: "parse_response (response_json r) = Some (wire_response r)"
proof -
  have z: "respUid r = 0" if "uint (respUid r) = 0" using that by (simp add: uint_0_iff)
  show ?thesis
    using z uint32_bounds [of "respUid r"]
    by (simp add: parse_response_def response_json_def decode_struct_def response_fields_def json_decode_defs
        zeroResponse_def wire_response_def split: option.splits)
qed

text \<open>
  A response survives the wire: unmarshalling the marshalled response gives the response back,
  with its strings coerced to valid UTF-8.
\<close>

theorem response_json_roundtrip: "parse_response (response_json r) = Some (wire_response r)"
  by (rule response_json_parses)

end
