(* ===== verification/Observability.thy ===== *)
theory Observability
  imports Go_Path Proto_Types
begin

text \<open>
  Logging (\<open>internal/infrastructure/common/logger/logger.go\<close>), the metrics pusher
  (\<open>internal/infrastructure/metrics/pusher.go\<close>), the registration of the server with etcd
  (\<open>internal/infrastructure/etcd/etcdRegistry.go\<close>) and the two canned responses
  (\<open>internal/infrastructure/common/response\<close>). The logging library, Prometheus and etcd are
  outcomes and states given as arguments.
\<close>

subsection \<open>Log levels\<close>

datatype log_level = DebugLevel | InfoLevel | WarnLevel | ErrorLevel

fun level_rank :: "log_level \<Rightarrow> int" where
  "level_rank DebugLevel = -1"
| "level_rank InfoLevel = 0"
| "level_rank WarnLevel = 1"
| "level_rank ErrorLevel = 2"

lemma level_rank_inj: "level_rank a = level_rank b \<longleftrightarrow> a = b"
  by (cases a; cases b) simp_all

instantiation log_level :: linorder
begin

definition less_eq_log_level :: "log_level \<Rightarrow> log_level \<Rightarrow> bool" where
  "less_eq_log_level a b \<longleftrightarrow> level_rank a \<le> level_rank b"

definition less_log_level :: "log_level \<Rightarrow> log_level \<Rightarrow> bool" where
  "less_log_level a b \<longleftrightarrow> level_rank a < level_rank b"

instance
  by standard (auto simp: less_eq_log_level_def less_log_level_def level_rank_inj)

end

definition getLevel :: "string \<Rightarrow> log_level" where
  "getLevel level =
     (if level = ''debug'' then DebugLevel else if level = ''info'' then InfoLevel
      else if level = ''warn'' then WarnLevel else if level = ''error'' then ErrorLevel else InfoLevel)"

text \<open>A core of this level writes the entries at or above it.\<close>

definition level_enabled :: "log_level \<Rightarrow> log_level \<Rightarrow> bool" where
  "level_enabled core entry \<longleftrightarrow> core \<le> entry"

lemma enabled_levels:
  "level_enabled core ErrorLevel"
  "level_enabled core e \<Longrightarrow> e \<le> f \<Longrightarrow> level_enabled core f"
  "level_enabled (getLevel s) WarnLevel \<longleftrightarrow> s \<noteq> ''error''"
  by (cases core; simp add: level_enabled_def less_eq_log_level_def)
    (auto simp: level_enabled_def getLevel_def less_eq_log_level_def)

subsection \<open>The log file and the logger\<close>

record log_env =
  leMkdir :: "string \<Rightarrow> string option"
  leOpen :: "string \<Rightarrow> string option"
  leDate :: string    \<comment> \<open>today, as year-month-day\<close>

definition getLogWriter :: "log_env \<Rightarrow> string \<Rightarrow> string \<Rightarrow> string option" where
  \<comment> \<open>the file it writes to\<close>
  "getLogWriter env logPath appName =
     (let app = (if appName = [] then ''default'' else appName)
      in if logPath \<noteq> [] \<and> leMkdir env logPath \<noteq> None then None
         else let fileName = path_Join [logPath, app @ ''-'' @ leDate env @ ''.log'']
              in if leOpen env fileName \<noteq> None then None else Some fileName)"

record zap_logger =
  zlLevel :: log_level
  zlFile :: string

definition log_file_failed :: string where
  "log_file_failed =
     [CHR 0xE6, CHR 0x96, CHR 0x87, CHR 0xE4, CHR 0xBB, CHR 0xB6, CHR 0xE6, CHR 0x97, CHR 0xA5, CHR 0xE5,
      CHR 0xBF, CHR 0x97, CHR 0xE5, CHR 0x88, CHR 0x9D, CHR 0xE5, CHR 0xA7, CHR 0x8B, CHR 0xE5, CHR
      0x8C, CHR 0x96, CHR 0xE5, CHR 0xA4, CHR 0xB1, CHR 0xE8, CHR 0xB4, CHR 0xA5, CHR 0xEF, CHR
      0xBC, CHR 0x8C, CHR 0xE4, CHR 0xBB, CHR 0x85, CHR 0xE4, CHR 0xBD, CHR 0xBF, CHR 0xE7, CHR
      0x94, CHR 0xA8, CHR 0xE6, CHR 0x8E, CHR 0xA7, CHR 0xE5, CHR 0x88, CHR 0xB6, CHR 0xE5, CHR
      0x8F, CHR 0xB0, CHR 0xE8, CHR 0xBE, CHR 0x93, CHR 0xE5, CHR 0x87, CHR 0xBA]"

text \<open>The error, or the logger that becomes the global one: it writes to the console and the file.\<close>

definition InitLogger :: "log_env \<Rightarrow> string \<Rightarrow> (string, zap_logger) result" where
  "InitLogger env level =
     (case getLogWriter env ''logs'' ''coderunner'' of
        Some f \<Rightarrow> Inr \<lparr>zlLevel = getLevel level, zlFile = f\<rparr>
      | None \<Rightarrow> Inl log_file_failed)"

subsection \<open>Time stamps\<close>

record broken_time =
  btYear :: nat
  btMonth :: nat
  btDay :: nat
  btHour :: nat
  btMinute :: nat
  btSecond :: nat
  btMilli :: nat
  btZone :: string
  btOffset :: int    \<comment> \<open>seconds east of UTC\<close>

definition pad :: "nat \<Rightarrow> nat \<Rightarrow> string" where
  "pad w n = replicate (w - length (nat_str n)) (CHR ''0'') @ nat_str n"

definition signed :: "int \<Rightarrow> string" where
  \<comment> \<open>\<open>%+d\<close>\<close>
  "signed n = (if n < 0 then Itoa n else ''+'' @ Itoa n)"

definition zone_text :: "broken_time \<Rightarrow> string" where
  "zone_text t =
     (let hours = go_quot (btOffset t) 3600
      in if hours = 8 then [CHR 0xE4, CHR 0xB8, CHR 0x9C, CHR 0xE5, CHR 0x85, CHR 0xAB, CHR 0xE5, CHR 0x8C, CHR 0xBA]
         else if hours = 7 then [CHR 0xE4, CHR 0xB8, CHR 0x9C, CHR 0xE4, CHR 0xB8, CHR 0x83, CHR 0xE5, CHR 0x8C, CHR 0xBA]
         else if hours = -8 then [CHR 0xE8, CHR 0xA5, CHR 0xBF, CHR 0xE5, CHR 0x85, CHR 0xAB, CHR 0xE5, CHR 0x8C, CHR 0xBA]
         else btZone t @ signed hours)"

definition customTimeEncoder :: "broken_time \<Rightarrow> string" where
  "customTimeEncoder t =
     pad 4 (btYear t) @ [CHR 0xE5, CHR 0xB9, CHR 0xB4] @ nat_str (btMonth t) @ [CHR 0xE6, CHR 0x9C, CHR 0x88]
     @ nat_str (btDay t) @ [CHR 0xE6, CHR 0x97, CHR 0xA5] @ '' ''
     @ pad 2 (btHour t) @ [CHR 0xE6, CHR 0x97, CHR 0xB6] @ pad 2 (btMinute t) @ [CHR 0xE5, CHR 0x88, CHR 0x86]
     @ pad 2 (btSecond t) @ [CHR 0xE7, CHR 0xA7, CHR 0x92]
     @ pad 3 (btMilli t) @ [CHR 0xE6, CHR 0xAF, CHR 0xAB, CHR 0xE7, CHR 0xA7, CHR 0x92] @ '' '' @ zone_text t"

subsection \<open>Pushing metrics\<close>

record pusher =
  puURL :: string
  puJob :: string
  puInstance :: string
  puInterval :: int

definition StartPusher :: "string \<Rightarrow> string \<Rightarrow> string \<Rightarrow> int \<Rightarrow> pusher option" where
  "StartPusher url jobName inst interval =
     (if url = [] then None
      else Some \<lparr>puURL = url, puJob = (if jobName = [] then ''code-runner-worker'' else jobName),
                 puInstance = (if inst = [] then ''unknown'' else inst),
                 puInterval = (if interval \<le> 0 then 15 * second else interval)\<rparr>)"

datatype pusher_event = Tick | StopClosed

fun pusher_loop :: "pusher_event list \<Rightarrow> nat" where
  \<comment> \<open>the pushes it makes; a push that fails is only logged\<close>
  "pusher_loop [] = 0"
| "pusher_loop (Tick # es) = Suc (pusher_loop es)"
| "pusher_loop (StopClosed # es) = 1"

lemma pusher_never_panics: "StartPusher url job inst interval = Some p \<Longrightarrow> 0 < puInterval p"
  by (auto simp: StartPusher_def second_def split: if_splits)

lemma pusher_last_push: "pusher_loop (replicate n Tick @ StopClosed # es) = n + 1"
  by (induction n) simp_all

subsection \<open>Registration with etcd\<close>

record etcd =
  etLeases :: "int \<rightharpoonup> int"                 \<comment> \<open>lease to its time to live\<close>
  etKeys :: "string \<rightharpoonup> string \<times> int"      \<comment> \<open>key to value and lease\<close>
  etKept :: "int set"                       \<comment> \<open>leases being renewed\<close>

record EtcdRegistry =
  eyLease :: int
  eyKey :: string
  eyValue :: string
  eyClosed :: bool

record etcd_faults =
  efConnect :: "string option"
  efGrant :: "(string, int) result"
  efPut :: "string option"
  efKeepAlive :: "string option"
  efRevoke :: "string option"

definition NewEtcdRegistry :: "etcd_faults \<Rightarrow> string \<Rightarrow> string \<Rightarrow> (string, EtcdRegistry) result" where
  "NewEtcdRegistry F key v =
     (case efConnect F of
        Some e \<Rightarrow> Inl e
      | None \<Rightarrow> Inr \<lparr>eyLease = 0, eyKey = key, eyValue = v, eyClosed = False\<rparr>)"

definition etcd_Register :: "etcd_faults \<Rightarrow> int \<Rightarrow> EtcdRegistry \<Rightarrow> etcd \<Rightarrow> string option \<times> EtcdRegistry \<times> etcd" where
  "etcd_Register F life r e =
     (case efGrant F of
        Inl err \<Rightarrow> (Some err, r, e)
      | Inr lease \<Rightarrow>
          (let r1 = r\<lparr>eyLease := lease\<rparr>; e1 = e\<lparr>etLeases := (etLeases e)(lease \<mapsto> life)\<rparr>
           in case efPut F of
                Some err \<Rightarrow> (Some err, r1, e1)
              | None \<Rightarrow>
                  (let e2 = e1\<lparr>etKeys := (etKeys e1)(eyKey r \<mapsto> (eyValue r, lease))\<rparr>
                   in case efKeepAlive F of
                        Some err \<Rightarrow> (Some err, r1, e2)
                      | None \<Rightarrow> (None, r1, e2\<lparr>etKept := insert lease (etKept e2)\<rparr>))))"

definition revoke_lease :: "int \<Rightarrow> etcd \<Rightarrow> etcd" where
  \<comment> \<open>etcd: the keys attached to the lease go with it\<close>
  "revoke_lease l e =
     e\<lparr>etLeases := (etLeases e)(l := None), etKept := etKept e - {l},
       etKeys := (\<lambda>k. case etKeys e k of Some (v, l') \<Rightarrow> if l' = l then None else Some (v, l') | None \<Rightarrow> None)\<rparr>"

definition etcd_Unregister :: "etcd_faults \<Rightarrow> EtcdRegistry \<Rightarrow> etcd \<Rightarrow> string option \<times> EtcdRegistry \<times> etcd" where
  "etcd_Unregister F r e =
     (case efRevoke F of
        Some err \<Rightarrow> (Some err, r\<lparr>eyClosed := True\<rparr>, e)
      | None \<Rightarrow> (None, r\<lparr>eyClosed := True\<rparr>, revoke_lease (eyLease r) e))"

lemma etcd_register_ok:
  "etcd_Register F life r e = (None, r', e') \<Longrightarrow>
     etKeys e' (eyKey r) = Some (eyValue r, eyLease r') \<and> eyLease r' \<in> etKept e' \<and> etLeases e' (eyLease r') = Some life"
  by (auto simp: etcd_Register_def Let_def split: sum.splits option.splits)

lemma etcd_unregister_removes:
  "etcd_Register F life r e = (None, r', e') \<Longrightarrow> etcd_Unregister F r' e' = (None, r'', e'') \<Longrightarrow>
     etKeys e'' (eyKey r) = None \<and> etLeases e'' (eyLease r') = None \<and> eyClosed r''"
  using etcd_register_ok [of F life r e r' e']
  by (auto simp: etcd_Unregister_def revoke_lease_def split: option.splits)

subsection \<open>Canned responses\<close>

definition response_Success :: "string \<Rightarrow> ExecuteResponse" where
  "response_Success i = zeroResponse\<lparr>respId := i, GrpcCode := ''200''\<rparr>"

definition response_Fail :: "string \<Rightarrow> string \<Rightarrow> ExecuteResponse" where
  "response_Fail i err = zeroResponse\<lparr>respId := i, GrpcCode := ''500'', Result := err\<rparr>"

end
