(* ===== verification/Agent_Config.thy ===== *)
theory Agent_Config
  imports Prelude
begin

text \<open>
  The agent's configuration (\<open>internal/agent/config.go\<close>), the choice and defaults of the AI provider
  (\<open>internal/agent/ai\<close>) and the wiring of the service (\<open>NewAgentService\<close> in
  \<open>internal/agent/agent.go\<close>). The constructors of the agent library and the file system are
  parameters: whether each of them fails. The result of the wiring is what the service was given.
\<close>

subsection \<open>Configuration\<close>

record ai_section =
  aiAPIKey :: string
  aiModel :: string
  aiBaseURL :: string

record AgentConfig =
  acEnabled :: bool
  acAPIKey :: string
  acProvider :: string
  acMaxSteps :: int
  acSessionTTL :: int
  acProposalTTL :: int
  acTriggerTokens :: int
  acMaxLengthForTrunc :: int
  acMaxTokensForClear :: int
  acClaude :: ai_section
  acOpenAI :: ai_section
  acQwen :: ai_section

definition GetSessionTTL :: "AgentConfig \<Rightarrow> int" where
  "GetSessionTTL c = (if acSessionTTL c \<le> 0 then 3600 * second else i64 (acSessionTTL c * second))"

definition GetProposalTTL :: "AgentConfig \<Rightarrow> int" where
  "GetProposalTTL c = (if acProposalTTL c \<le> 0 then 600 * second else i64 (acProposalTTL c * second))"

definition no_section :: ai_section where
  "no_section = \<lparr>aiAPIKey = [], aiModel = [], aiBaseURL = []\<rparr>"

definition DefaultAgentConfig :: AgentConfig where
  "DefaultAgentConfig =
     \<lparr>acEnabled = False, acAPIKey = [], acProvider = ''claude'', acMaxSteps = 10, acSessionTTL = 3600, acProposalTTL = 600,
      acTriggerTokens = 0, acMaxLengthForTrunc = 0, acMaxTokensForClear = 0,
      acClaude = no_section, acOpenAI = no_section, acQwen = no_section\<rparr>"

record ai_config =
  aiProvider :: string
  aiClaude :: ai_section
  aiOpenAI :: ai_section
  aiQwen :: ai_section

definition ToAIConfig :: "AgentConfig \<Rightarrow> ai_config" where
  "ToAIConfig c = \<lparr>aiProvider = acProvider c, aiClaude = acClaude c, aiOpenAI = acOpenAI c, aiQwen = acQwen c\<rparr>"

subsection \<open>Providers\<close>

text \<open>\<open>new_model\<close>: the library's constructor of a chat model, an error text or none.\<close>

definition or_default :: "string \<Rightarrow> string \<Rightarrow> string" where
  "or_default s d = (if s = [] then d else s)"

definition NewClaudeProvider :: "(ai_section \<Rightarrow> string option) \<Rightarrow> ai_config \<Rightarrow> (string, ai_section) result" where
  "NewClaudeProvider new_model cfg =
     (let c = aiClaude cfg
      in if aiAPIKey c = [] then Inl ''claude API key is required''
         else let m = \<lparr>aiAPIKey = aiAPIKey c, aiModel = or_default (aiModel c) ''claude-opus-4-6'',
                       aiBaseURL = or_default (aiBaseURL c) ''https://api.anthropic.com/v1''\<rparr>
              in case new_model m of Some e \<Rightarrow> Inl (''create claude model: '' @ e) | None \<Rightarrow> Inr m)"

definition NewOpenAIProvider :: "(ai_section \<Rightarrow> string option) \<Rightarrow> ai_config \<Rightarrow> (string, ai_section) result" where
  "NewOpenAIProvider new_model cfg =
     (let c = aiOpenAI cfg
      in if aiAPIKey c = [] then Inl ''openai API key is required''
         else let m0 = \<lparr>aiAPIKey = aiAPIKey c, aiModel = or_default (aiModel c) ''gpt-4o'', aiBaseURL = []\<rparr>;
                  m = (if aiBaseURL c \<noteq> [] then m0\<lparr>aiBaseURL := aiBaseURL c\<rparr> else m0)
              in case new_model m of Some e \<Rightarrow> Inl (''create openai model: '' @ e) | None \<Rightarrow> Inr m)"

definition NewQwenProvider :: "(ai_section \<Rightarrow> string option) \<Rightarrow> ai_config \<Rightarrow> (string, ai_section) result" where
  "NewQwenProvider new_model cfg =
     (let c = aiQwen cfg
      in if aiAPIKey c = [] then Inl ''qwen API key is required''
         else let m = \<lparr>aiAPIKey = aiAPIKey c, aiModel = or_default (aiModel c) ''qwen-plus'',
                       aiBaseURL = or_default (aiBaseURL c) ''https://dashscope.aliyuncs.com/compatible-mode/v1''\<rparr>
              in case new_model m of Some e \<Rightarrow> Inl (''create qwen model: '' @ e) | None \<Rightarrow> Inr m)"

definition NewProvider :: "(ai_section \<Rightarrow> string option) \<Rightarrow> ai_config \<Rightarrow> (string, ai_section) result" where
  "NewProvider new_model cfg =
     (if aiProvider cfg = ''claude'' then NewClaudeProvider new_model cfg
      else if aiProvider cfg = ''openai'' then NewOpenAIProvider new_model cfg
      else if aiProvider cfg = ''qwen'' then NewQwenProvider new_model cfg
      else Inl (''unsupported AI provider: '' @ aiProvider cfg))"

subsection \<open>Wiring\<close>

record wiring_env =
  weModel :: "ai_section \<Rightarrow> string option"
  weMkdir :: "string \<Rightarrow> string option"
  weSummarization :: "int \<Rightarrow> string option"
  weAgent :: "int \<Rightarrow> string option"

record agent_wiring =
  awModel :: ai_section
  awSessionDir :: string
  awSessionTTL :: int
  awSweepEvery :: int
  awCheckpointTTL :: int
  awTriggerTokens :: int
  awMaxIterations :: int

text \<open>None is a panic: \<open>time.NewTicker\<close> with an interval that is not positive, in a sweep's goroutine.\<close>

definition NewAgentService :: "wiring_env \<Rightarrow> AgentConfig \<Rightarrow> string \<Rightarrow> (string, agent_wiring) result option" where
  "NewAgentService env cfg dataDir =
     (if \<not> acEnabled cfg then Some (Inl ''agent is not enabled'')
      else case NewProvider (weModel env) (ToAIConfig cfg) of
             Inl e \<Rightarrow> Some (Inl (''create AI provider: '' @ e))
           | Inr m \<Rightarrow>
               (let dir = dataDir @ ''/agent/sessions''; life = GetSessionTTL cfg; every = go_quot life 6
                in case weMkdir env dir of
                     Some e \<Rightarrow> Some (Inl (''create session store: create session dir: '' @ e))
                   | None \<Rightarrow>
                       if every \<le> 0 then None
                       else case weSummarization env 100000 of
                              Some e \<Rightarrow> Some (Inl (''create summarization middleware: '' @ e))
                            | None \<Rightarrow>
                                (case weAgent env (acMaxSteps cfg) of
                                   Some e \<Rightarrow> Some (Inl (''create chat model agent: '' @ e))
                                 | None \<Rightarrow>
                                     Some (Inr \<lparr>awModel = m, awSessionDir = dir, awSessionTTL = life, awSweepEvery = every,
                                                awCheckpointTTL = life, awTriggerTokens = 100000,
                                                awMaxIterations = acMaxSteps cfg\<rparr>))))"

subsection \<open>Properties\<close>

lemma session_ttl_exact:
  "acSessionTTL c \<le> 9223372036 \<Longrightarrow> GetSessionTTL c = (if acSessionTTL c \<le> 0 then 3600 else acSessionTTL c) * second"
  by (auto simp: GetSessionTTL_def second_def in_i64_def)

lemma provider_complete:
  assumes "NewProvider new_model cfg = Inr m"
  shows "aiAPIKey m \<noteq> [] \<and> aiModel m \<noteq> [] \<and> new_model m = None
     \<and> aiProvider cfg \<in> {''claude'', ''openai'', ''qwen''} \<and> (aiProvider cfg \<noteq> ''openai'' \<longrightarrow> aiBaseURL m \<noteq> [])"
  using assms
  by (auto simp: NewProvider_def NewClaudeProvider_def NewOpenAIProvider_def NewQwenProvider_def or_default_def Let_def
      split: if_splits option.splits)

text \<open>
  The service that starts is complete: it has one of the three providers with an API key and a
  model name, one time to live for sessions and checkpoints of at least a second and within the
  machine's range, and a positive sweep interval; a session time of up to 9223372036 seconds (292
  years) never panics, and it is kept exactly.
\<close>

theorem agent_service_complete:
  assumes "acSessionTTL cfg \<le> 9223372036"
  shows "NewAgentService env cfg dataDir \<noteq> None
     \<and> (case NewAgentService env cfg dataDir of
          Some (Inr w) \<Rightarrow> acEnabled cfg \<and> aiAPIKey (awModel w) \<noteq> [] \<and> aiModel (awModel w) \<noteq> []
            \<and> acProvider cfg \<in> {''claude'', ''openai'', ''qwen''}
            \<and> awSessionTTL w = (if acSessionTTL cfg \<le> 0 then 3600 else acSessionTTL cfg) * second
            \<and> awCheckpointTTL w = awSessionTTL w \<and> second \<le> awSessionTTL w \<and> in_i64 (awSessionTTL w)
            \<and> 0 < awSweepEvery w \<and> 6 * awSweepEvery w \<le> awSessionTTL w
        | _ \<Rightarrow> True)"
proof -
  let ?t = "GetSessionTTL cfg"
  have t: "?t = (if acSessionTTL cfg \<le> 0 then 3600 else acSessionTTL cfg) * second" by (rule session_ttl_exact [OF assms])
  have b: "second \<le> ?t" "in_i64 ?t" using assms unfolding t by (auto simp: second_def in_i64_def)
  then have q: "go_quot ?t 6 = ?t div 6" "0 < ?t div 6" "6 * (?t div 6) \<le> ?t"
    by (simp_all add: go_quot_nonneg second_def)
  have "NewAgentService env cfg dataDir \<noteq> None" using q by (auto simp: NewAgentService_def Let_def split: sum.splits option.splits)
  moreover have "acEnabled cfg \<and> aiAPIKey (awModel w) \<noteq> [] \<and> aiModel (awModel w) \<noteq> []
      \<and> acProvider cfg \<in> {''claude'', ''openai'', ''qwen''} \<and> awSessionTTL w = ?t \<and> awCheckpointTTL w = ?t \<and> awSweepEvery w = ?t div 6"
    if "NewAgentService env cfg dataDir = Some (Inr w)" for w
  proof -
    from that obtain m where m: "NewProvider (weModel env) (ToAIConfig cfg) = Inr m" "awModel w = m" "acEnabled cfg"
      "awSessionTTL w = ?t" "awCheckpointTTL w = ?t" "awSweepEvery w = ?t div 6"
      using q(1) by (auto simp: NewAgentService_def Let_def split: if_splits sum.splits option.splits)
    with provider_complete [OF m(1)] show ?thesis by (simp add: ToAIConfig_def)
  qed
  ultimately show ?thesis using t b q by (auto split: option.splits sum.splits)
qed

theorem agent_service_complete_witness:
  "NewAgentService \<lparr>weModel = (\<lambda>_. None), weMkdir = (\<lambda>_. None), weSummarization = (\<lambda>_. None), weAgent = (\<lambda>_. None)\<rparr>
     DefaultAgentConfig ''data'' \<noteq> None"
proof -
  have "acSessionTTL DefaultAgentConfig \<le> 9223372036" by (simp add: DefaultAgentConfig_def)
  from agent_service_complete [OF this] show ?thesis by blast
qed

text \<open>A longer session time wraps around; the configured token threshold is never used.\<close>

lemma session_ttl_wraps: "GetSessionTTL (DefaultAgentConfig\<lparr>acSessionTTL := 9223372037\<rparr>) < 0"
  by (simp add: GetSessionTTL_def second_def i64_def)

lemma trigger_tokens_ignored: "NewAgentService env (cfg\<lparr>acTriggerTokens := n\<rparr>) dataDir = NewAgentService env cfg dataDir"
  by (simp add: NewAgentService_def ToAIConfig_def GetSessionTTL_def Let_def split: sum.split option.split)

end
