(* ===== verification/Session_Store.thy ===== *)
theory Session_Store
  imports Go_Json Go_Path
begin

text \<open>
  The agent's session store (\<open>internal/agent/session/store.go\<close>): one metadata document and one log
  of messages per session under a base directory, with the metadata cached in memory. The two files
  of a session have different suffixes, so the file system is two maps from paths. Messages are the
  agent library's; their JSON codec is a parameter, as are the layout of times in JSON and whether
  the file system lets a path be written. The scanner is \<open>bufio.Scanner\<close> with the code's limit of
  1 MiB per line. The clock readings are arguments, in nanoseconds.
\<close>

subsection \<open>State\<close>

record SessionMeta =
  smID :: string
  smOwner :: string
  smInstruction :: string
  smArticle :: string
  smCreated :: int
  smLastActive :: int

record 'm file_env =
  feWritable :: "string \<Rightarrow> bool"
  feTime :: "int \<Rightarrow> string"
  feParseTime :: "string \<Rightarrow> int option"
  feEnc :: "'m \<Rightarrow> string option"
  feDec :: "string \<Rightarrow> 'm option"

record FileStore =
  baseDir :: string
  ttl :: int
  metas :: "string \<rightharpoonup> SessionMeta"
  metaFiles :: "string \<rightharpoonup> payload"
  jsonlFiles :: "string \<rightharpoonup> string"

datatype store_error = WriteFailed string | CreateFailed string | OpenFailed string | TokenTooLong | MarshalFailed

definition NewFileStore :: "string \<Rightarrow> int \<Rightarrow> FileStore \<Rightarrow> FileStore" where
  \<comment> \<open>on the file system another process left\<close>
  "NewFileStore dir t disk = disk\<lparr>baseDir := dir, ttl := t, metas := Map.empty\<rparr>"

definition jsonlPath :: "FileStore \<Rightarrow> string \<Rightarrow> string" where
  "jsonlPath st sid = path_Join [baseDir st, sid @ ''.jsonl'']"

definition metaPath :: "FileStore \<Rightarrow> string \<Rightarrow> string" where
  "metaPath st sid = path_Join [baseDir st, sid @ ''.meta.json'']"

subsection \<open>Metadata as JSON\<close>

definition meta_json :: "'m file_env \<Rightarrow> SessionMeta \<Rightarrow> json" where
  "meta_json env m = JObj
     (keep_string ''id'' (smID m) @ omit_string ''owner_id'' (smOwner m)
      @ keep_string ''instruction'' (smInstruction m) @ omit_string ''article_id'' (smArticle m)
      @ [(''created_at'', JStr (feTime env (smCreated m))), (''last_active_at'', JStr (feTime env (smLastActive m)))])"

definition time_field :: "(string \<Rightarrow> int option) \<Rightarrow> string \<Rightarrow> (int \<Rightarrow> 'r \<Rightarrow> 'r) \<Rightarrow> 'r field" where
  "time_field parse name upd =
     (name, \<lambda>v r. case v of JStr s \<Rightarrow> map_option (\<lambda>t. upd t r) (parse s) | JNull \<Rightarrow> Some r | _ \<Rightarrow> None)"

definition meta_fields :: "'m file_env \<Rightarrow> SessionMeta field list" where
  "meta_fields env =
     [string_field ''id'' (\<lambda>s m. m\<lparr>smID := s\<rparr>), string_field ''owner_id'' (\<lambda>s m. m\<lparr>smOwner := s\<rparr>),
      string_field ''instruction'' (\<lambda>s m. m\<lparr>smInstruction := s\<rparr>), string_field ''article_id'' (\<lambda>s m. m\<lparr>smArticle := s\<rparr>),
      time_field (feParseTime env) ''created_at'' (\<lambda>t m. m\<lparr>smCreated := t\<rparr>),
      time_field (feParseTime env) ''last_active_at'' (\<lambda>t m. m\<lparr>smLastActive := t\<rparr>)]"

definition zero_time :: int where
  \<comment> \<open>the zero \<open>time.Time\<close>, before every time the program reads; seconds of year 1 before 1970\<close>
  "zero_time = - 62135596800 * 10 ^ 9"

definition zero_meta :: SessionMeta where
  "zero_meta = \<lparr>smID = [], smOwner = [], smInstruction = [], smArticle = [], smCreated = zero_time, smLastActive = zero_time\<rparr>"

definition parse_meta :: "'m file_env \<Rightarrow> payload \<Rightarrow> SessionMeta option" where
  "parse_meta env p = decode_struct (meta_fields env) zero_meta p"

subsection \<open>Creating, finding and deleting sessions\<close>

definition CreateWithArticle :: "'m file_env \<Rightarrow> int \<times> int \<Rightarrow> string \<Rightarrow> string \<Rightarrow> string \<Rightarrow> string \<Rightarrow> FileStore
    \<Rightarrow> store_error option \<times> FileStore" where
  "CreateWithArticle env now sid instruction articleID ownerID st =
     (let meta = \<lparr>smID = sid, smOwner = ownerID, smInstruction = instruction, smArticle = articleID,
                  smCreated = fst now, smLastActive = snd now\<rparr>
      in if \<not> feWritable env (metaPath st sid) then (Some (WriteFailed (metaPath st sid)), st)
         else let st1 = st\<lparr>metaFiles := (metaFiles st)(metaPath st sid \<mapsto> Json (meta_json env meta))\<rparr>
              in if \<not> feWritable env (jsonlPath st sid) then (Some (CreateFailed (jsonlPath st sid)), st1)
                 else (None, st1\<lparr>jsonlFiles := (jsonlFiles st1)(jsonlPath st sid \<mapsto> []), metas := (metas st1)(sid \<mapsto> meta)\<rparr>))"

definition Create :: "'m file_env \<Rightarrow> int \<times> int \<Rightarrow> string \<Rightarrow> string \<Rightarrow> FileStore \<Rightarrow> store_error option \<times> FileStore" where
  "Create env now sid instruction st = CreateWithArticle env now sid instruction [] [] st"

definition session_exists :: "string \<Rightarrow> FileStore \<Rightarrow> bool" where
  "session_exists sid st \<longleftrightarrow> metas st sid \<noteq> None \<or> metaFiles st (metaPath st sid) \<noteq> None"

definition expired :: "int \<Rightarrow> FileStore \<Rightarrow> SessionMeta \<Rightarrow> bool" where
  "expired now st m \<longleftrightarrow> now - smLastActive m > ttl st"

definition GetMeta :: "'m file_env \<Rightarrow> int \<Rightarrow> string \<Rightarrow> FileStore \<Rightarrow> SessionMeta option \<times> FileStore" where
  "GetMeta env now sid st =
     (case metas st sid of
        Some m \<Rightarrow> (if expired now st m then None else Some m, st)
      | None \<Rightarrow>
          (case metaFiles st (metaPath st sid) of
             None \<Rightarrow> (None, st)
           | Some p \<Rightarrow>
               (case parse_meta env p of
                  None \<Rightarrow> (None, st)
                | Some m \<Rightarrow> if expired now st m then (None, st)
                            else (Some m, st\<lparr>metas := (metas st)(sid \<mapsto> m)\<rparr>))))"

definition DeleteSession :: "string \<Rightarrow> FileStore \<Rightarrow> FileStore" where
  "DeleteSession sid st =
     st\<lparr>jsonlFiles := (jsonlFiles st)(jsonlPath st sid := None), metaFiles := (metaFiles st)(metaPath st sid := None),
        metas := (metas st)(sid := None)\<rparr>"

definition touchMeta :: "'m file_env \<Rightarrow> int \<Rightarrow> string \<Rightarrow> FileStore \<Rightarrow> FileStore" where
  "touchMeta env now sid st =
     (case metas st sid of
        None \<Rightarrow> st
      | Some m \<Rightarrow>
          (let m' = m\<lparr>smLastActive := now\<rparr>; st' = st\<lparr>metas := (metas st)(sid \<mapsto> m')\<rparr>
           in if feWritable env (metaPath st sid)
              then st'\<lparr>metaFiles := (metaFiles st')(metaPath st sid \<mapsto> Json (meta_json env m'))\<rparr> else st'))"

text \<open>The sweep visits the cached sessions in the order \<open>keys\<close> of \<open>sync.Map.Range\<close>.\<close>

fun cleanExpired :: "int \<Rightarrow> string list \<Rightarrow> FileStore \<Rightarrow> FileStore" where
  "cleanExpired now [] st = st"
| "cleanExpired now (sid # keys) st =
     cleanExpired now keys
       (case metas st sid of
          None \<Rightarrow> st
        | Some m \<Rightarrow> if expired now st m then DeleteSession sid st else st)"

text \<open>\<open>entries\<close>: the names in the base directory with their directory flags, as \<open>os.ReadDir\<close> lists them.\<close>

fun ListSessions :: "'m file_env \<Rightarrow> int \<Rightarrow> (string \<times> bool) list \<Rightarrow> FileStore \<Rightarrow> SessionMeta list \<times> FileStore" where
  "ListSessions env now [] st = ([], st)"
| "ListSessions env now ((name, isDir) # es) st =
     (if isDir \<or> path_Ext name \<noteq> ''.json'' \<or> path_Ext (TrimSuffix name ''.json'') \<noteq> ''.meta''
      then ListSessions env now es st
      else case GetMeta env now (TrimSuffix name ''.meta.json'') st of
             (r, st1) \<Rightarrow>
               (case ListSessions env now es st1 of
                  (ms, st2) \<Rightarrow> ((case r of Some m \<Rightarrow> [m] | None \<Rightarrow> []) @ ms, st2)))"

subsection \<open>Messages\<close>

definition newline :: char where "newline = CHR 0x0A"
definition maxToken :: nat where "maxToken = 1024 * 1024"

definition dropCR :: "string \<Rightarrow> string" where
  "dropCR s = (if s \<noteq> [] \<and> last s = CHR 0x0D then butlast s else s)"

text \<open>The scanner on the pieces between newlines: its tokens, and whether it stopped at a line too long.\<close>

fun scan_pieces :: "string list \<Rightarrow> string list \<times> bool" where
  "scan_pieces [] = ([], False)"
| "scan_pieces (p # ps) =
     (if length p \<ge> maxToken then ([], True)
      else if ps = [] then (if p = [] then [] else [dropCR p], False)
      else case scan_pieces ps of (ts, e) \<Rightarrow> (dropCR p # ts, e))"

fun decode_lines :: "'m file_env \<Rightarrow> string list \<Rightarrow> 'm list" where
  "decode_lines env [] = []"
| "decode_lines env (l # ls) =
     (if l = [] then decode_lines env ls
      else case feDec env l of None \<Rightarrow> decode_lines env ls | Some m \<Rightarrow> m # decode_lines env ls)"

definition GetMessages :: "'m file_env \<Rightarrow> string \<Rightarrow> FileStore \<Rightarrow> 'm list \<times> store_error option" where
  "GetMessages env sid st =
     (case jsonlFiles st (jsonlPath st sid) of
        None \<Rightarrow> ([], Some (OpenFailed (jsonlPath st sid)))
      | Some raw \<Rightarrow>
          (case scan_pieces (Split newline raw) of
             (ls, e) \<Rightarrow> (decode_lines env ls, if e then Some TokenTooLong else None)))"

fun append_lines :: "'m file_env \<Rightarrow> 'm list \<Rightarrow> string \<Rightarrow> store_error option \<times> string" where
  "append_lines env [] raw = (None, raw)"
| "append_lines env (m # ms) raw =
     (case feEnc env m of
        None \<Rightarrow> (Some MarshalFailed, raw)
      | Some data \<Rightarrow> append_lines env ms (raw @ data @ [newline]))"

definition Append :: "'m file_env \<Rightarrow> int \<Rightarrow> string \<Rightarrow> 'm list \<Rightarrow> FileStore \<Rightarrow> store_error option \<times> FileStore" where
  "Append env now sid msgs st =
     (if \<not> feWritable env (jsonlPath st sid) then (Some (OpenFailed (jsonlPath st sid)), st)
      else let raw = (case jsonlFiles st (jsonlPath st sid) of None \<Rightarrow> [] | Some r \<Rightarrow> r)
           in case append_lines env msgs raw of
                (e, raw') \<Rightarrow>
                  (let st' = st\<lparr>jsonlFiles := (jsonlFiles st)(jsonlPath st sid \<mapsto> raw')\<rparr>
                   in case e of Some err \<Rightarrow> (Some err, st') | None \<Rightarrow> (None, touchMeta env now sid st')))"

subsection \<open>Paths\<close>

lemma join_slash_snoc: "join_slash (cs @ [f]) = (if cs = [] then f else join_slash cs @ slash # f)"
  by (induction cs rule: join_slash.induct) auto

lemma Split_append_last: "sep \<notin> set f \<Longrightarrow> Split sep (b @ sep # f) = Split sep b @ [f]"
proof (induction b)
  case (Cons c b)
  then show ?case by (cases "Split sep b") auto
qed (simp add: Split_no_sep)

text \<open>A name without slashes lands directly under the directory it is joined to.\<close>

lemma path_Join_plain: "\<exists>pre. \<forall>f. plain_component f \<longrightarrow> path_Join [b, f] = pre @ f"
proof (cases "b = []")
  case True
  have "path_Join [b, f] = [] @ f" if "plain_component f" for f
    using path_Clean_rel [of "[f]"] that True by (simp add: path_Join_def plain_component_def)
  then show ?thesis by blast
next
  case False
  let ?C = "rev (foldl (clean_step (HasPrefix b [slash])) [] (Split slash b))"
  let ?pre = "(if HasPrefix b [slash] then [slash] else []) @ (if ?C = [] then [] else join_slash ?C @ [slash])"
  have "path_Join [b, f] = ?pre @ f" if f: "plain_component f" for f
  proof -
    have "HasPrefix (b @ slash # f) [slash] = HasPrefix b [slash]"
      using False by (cases b) (simp_all add: HasPrefix_def)
    moreover have "Split slash (b @ slash # f) = Split slash b @ [f]"
      using f by (simp add: Split_append_last plain_component_def)
    ultimately have "clean_components (b @ slash # f) = ?C @ [f]"
      using f by (simp add: clean_components_def plain_component_def)
    then show ?thesis using False f \<open>HasPrefix (b @ slash # f) [slash] = HasPrefix b [slash]\<close>
      by (simp add: path_Join_def path_Clean_def Let_def join_slash_snoc plain_component_def)
  qed
  then show ?thesis by blast
qed

definition valid_id :: "string \<Rightarrow> bool" where
  "valid_id sid \<longleftrightarrow> slash \<notin> set sid"

lemma session_files_plain:
  "valid_id sid \<Longrightarrow> plain_component (sid @ ''.jsonl'')" "valid_id sid \<Longrightarrow> plain_component (sid @ ''.meta.json'')"
  by (auto simp: valid_id_def plain_component_def append_eq_Cons_conv)

lemma session_paths_inj:
  assumes "valid_id s" "valid_id s'"
  shows "jsonlPath st s = jsonlPath st s' \<longleftrightarrow> s = s'" "metaPath st s = metaPath st s' \<longleftrightarrow> s = s'"
proof -
  obtain pre where "\<forall>f. plain_component f \<longrightarrow> path_Join [baseDir st, f] = pre @ f" using path_Join_plain by blast
  then show "jsonlPath st s = jsonlPath st s' \<longleftrightarrow> s = s'" "metaPath st s = metaPath st s' \<longleftrightarrow> s = s'"
    using assms by (simp_all add: jsonlPath_def metaPath_def session_files_plain)
qed

subsection \<open>What the log of a session holds\<close>

text \<open>
  A message the log can hold: its JSON is one non-empty line under the scanner's limit, and decodes
  to the message again.
\<close>

definition storable :: "'m file_env \<Rightarrow> 'm \<Rightarrow> bool" where
  "storable env m \<longleftrightarrow>
     (case feEnc env m of
        None \<Rightarrow> False
      | Some b \<Rightarrow> b \<noteq> [] \<and> newline \<notin> set b \<and> last b \<noteq> CHR 0x0D \<and> feDec env b = Some m \<and> length b < maxToken)"

definition terminated :: "string \<Rightarrow> bool" where
  "terminated raw \<longleftrightarrow> raw = [] \<or> last raw = newline"

definition logs_ok :: "FileStore \<Rightarrow> bool" where
  "logs_ok st \<longleftrightarrow> (\<forall>p raw. jsonlFiles st p = Some raw \<longrightarrow> terminated raw)"

definition history :: "'m file_env \<Rightarrow> FileStore \<Rightarrow> string \<Rightarrow> 'm list option" where
  "history env st sid = (case GetMessages env sid st of (ms, None) \<Rightarrow> Some ms | _ \<Rightarrow> None)"

definition read_log :: "'m file_env \<Rightarrow> string \<Rightarrow> 'm list option" where
  "read_log env raw =
     (case scan_pieces (Split newline raw) of (ls, e) \<Rightarrow> if e then None else Some (decode_lines env ls))"

lemma history_read: "history env st sid = Option.bind (jsonlFiles st (jsonlPath st sid)) (read_log env)"
  by (auto simp: history_def GetMessages_def read_log_def split: option.splits prod.splits)

lemma Split_terminated: "terminated raw \<Longrightarrow> \<exists>ps. Split newline raw = ps @ [[]] \<and> (\<forall>r. Split newline (raw @ r) = ps @ Split newline r)"
proof (cases "raw = []")
  case False
  assume "terminated raw"
  with False obtain b where raw: "raw = b @ [newline]" by (metis append_butlast_last_id terminated_def)
  have "Split newline (b @ newline # r) = Split newline b @ Split newline r" for r
  proof (induction b)
    case (Cons c b)
    then show ?case by (cases "Split newline b") auto
  qed simp
  then show ?thesis using raw by (intro exI [of _ "Split newline b"]) simp
qed simp

lemma scan_pieces_append:
  "qs \<noteq> [] \<Longrightarrow> scan_pieces (ps @ qs) =
     (if \<exists>p \<in> set ps. length p \<ge> maxToken then (fst (scan_pieces (ps @ [[]])), True)
      else (map dropCR ps @ fst (scan_pieces qs), snd (scan_pieces qs)))"
proof (induction ps)
  case (Cons p ps)
  then show ?case by (auto simp: split_beta)
qed simp

lemma decode_lines_append: "decode_lines env (xs @ ys) = decode_lines env xs @ decode_lines env ys"
  by (induction env xs rule: decode_lines.induct) (auto split: option.splits)

definition encoded :: "'m file_env \<Rightarrow> 'm list \<Rightarrow> string" where
  "encoded env ms = concat (map (\<lambda>m. the (feEnc env m) @ [newline]) ms)"

lemma append_lines_storable: "list_all (storable env) ms \<Longrightarrow> append_lines env ms raw = (None, raw @ encoded env ms)"
  by (induction ms arbitrary: raw) (auto simp: storable_def encoded_def split: option.splits)

lemma Split_encoded:
  assumes "list_all (storable env) ms"
  shows "Split newline (encoded env ms) = map (\<lambda>m. the (feEnc env m)) ms @ [[]]"
  using assms
proof (induction ms)
  case (Cons m ms)
  then obtain b where b: "feEnc env m = Some b" "newline \<notin> set b" by (auto simp: storable_def split: option.splits)
  with b Cons show ?case by (simp add: encoded_def Split_append_sep)
qed (simp add: encoded_def)

lemma scan_encoded:
  assumes "list_all (storable env) ms"
  shows "scan_pieces (map (\<lambda>m. the (feEnc env m)) ms @ [[]]) = (map (\<lambda>m. the (feEnc env m)) ms, False)
    \<and> decode_lines env (map (\<lambda>m. the (feEnc env m)) ms) = ms"
  using assms
proof (induction ms)
  case (Cons m ms)
  from Cons.prems obtain b where b: "feEnc env m = Some b" "length b < maxToken" "b \<noteq> []"
    "last b \<noteq> CHR 0x0D" "feDec env b = Some m"
    by (auto simp: storable_def split: option.splits)
  with b Cons show ?case by (simp add: dropCR_def)
qed (simp_all add: maxToken_def)

lemma read_log_append:
  assumes "list_all (storable env) ns" "terminated raw" "read_log env raw = Some ms"
  shows "read_log env (raw @ encoded env ns) = Some (ms @ ns)"
proof -
  obtain ps where ps: "Split newline raw = ps @ [[]]" "Split newline (raw @ encoded env ns) = ps @ Split newline (encoded env ns)"
    using Split_terminated [OF assms(2)] by blast
  let ?q = "map (\<lambda>m. the (feEnc env m)) ns"
  obtain ls where ls: "scan_pieces (ps @ [[]]) = (ls, False)"
    using assms(3) by (auto simp: read_log_def ps(1) split: prod.splits if_splits)
  have small: "\<not> (\<exists>p \<in> set ps. length p \<ge> maxToken)"
  proof
    assume "\<exists>p \<in> set ps. length p \<ge> maxToken"
    then have "snd (scan_pieces (ps @ [[]]))" using scan_pieces_append [of "[[]]" ps] by (metis list.distinct(1) snd_conv)
    with ls show False by simp
  qed
  then have "scan_pieces (ps @ [[]]) = (map dropCR ps, False)"
    using scan_pieces_append [of "[[]]" ps] by (simp add: maxToken_def)
  then have "ms = decode_lines env (map dropCR ps)" using assms(3) by (simp add: read_log_def ps(1))
  moreover have "scan_pieces (ps @ ?q @ [[]]) = (map dropCR ps @ ?q, False)"
    using scan_pieces_append [of "?q @ [[]]" ps] small scan_encoded [OF assms(1)] by simp
  ultimately show ?thesis
    by (simp add: read_log_def ps(2) Split_encoded [OF assms(1)] decode_lines_append scan_encoded [OF assms(1)])
qed

lemma logs_ok_append:
  "append_lines env ms raw = (e, raw') \<Longrightarrow> terminated raw \<Longrightarrow> terminated raw'"
  by (induction ms arbitrary: raw) (auto simp: terminated_def split: option.splits)

subsection \<open>The store as a map of histories\<close>

text \<open>
  What the agent relies on: the history of a session is what was appended since it was created, and
  no operation on one session touches another's. \<open>inv\<close> is what every operation keeps.
\<close>

locale session_log =
  fixes inv :: "'s \<Rightarrow> bool" and ok :: "string \<Rightarrow> bool" and fits :: "'m \<Rightarrow> bool"
    and hist :: "'s \<Rightarrow> string \<Rightarrow> 'm list option"
    and create :: "'c \<Rightarrow> string \<Rightarrow> 's \<Rightarrow> 'e option \<times> 's"
    and append :: "int \<Rightarrow> string \<Rightarrow> 'm list \<Rightarrow> 's \<Rightarrow> 'e option \<times> 's"
    and delete :: "string \<Rightarrow> 's \<Rightarrow> 's"
  assumes inv_create: "inv s \<Longrightarrow> inv (snd (create c sid s))"
    and inv_append: "inv s \<Longrightarrow> inv (snd (append t sid ms s))"
    and inv_delete: "inv s \<Longrightarrow> inv (delete sid s)"
    and hist_create: "fst (create c sid s) = None \<Longrightarrow> hist (snd (create c sid s)) sid = Some []"
    and create_other: "\<lbrakk>ok sid; ok sid'; sid' \<noteq> sid\<rbrakk> \<Longrightarrow> hist (snd (create c sid s)) sid' = hist s sid'"
    and hist_append: "\<lbrakk>inv s; list_all fits ms; fst (append t sid ms s) = None; hist s sid = Some hs\<rbrakk>
          \<Longrightarrow> hist (snd (append t sid ms s)) sid = Some (hs @ ms)"
    and append_other: "\<lbrakk>ok sid; ok sid'; sid' \<noteq> sid\<rbrakk> \<Longrightarrow> hist (snd (append t sid ms s)) sid' = hist s sid'"
    and hist_delete: "hist (delete sid s) sid = None"
    and delete_other: "\<lbrakk>ok sid; ok sid'; sid' \<noteq> sid\<rbrakk> \<Longrightarrow> hist (delete sid s) sid' = hist s sid'"

datatype ('c, 'm) log_op = OpCreate 'c | OpAppend int "'m list" | OpDelete

fun spec_op :: "(string \<rightharpoonup> 'm list) \<Rightarrow> string \<times> ('c, 'm) log_op \<Rightarrow> (string \<rightharpoonup> 'm list)" where
  "spec_op h (sid, OpCreate c) = h(sid \<mapsto> [])"
| "spec_op h (sid, OpAppend t ms) = (case h sid of Some hs \<Rightarrow> h(sid \<mapsto> hs @ ms) | None \<Rightarrow> h)"
| "spec_op h (sid, OpDelete) = h(sid := None)"

context session_log
begin

fun run_op :: "'s \<Rightarrow> string \<times> ('c, 'm) log_op \<Rightarrow> 'e option \<times> 's" where
  "run_op s (sid, OpCreate c) = create c sid s"
| "run_op s (sid, OpAppend t ms) = append t sid ms s"
| "run_op s (sid, OpDelete) = (None, delete sid s)"

fun op_ok :: "(string \<rightharpoonup> 'm list) \<Rightarrow> string \<times> ('c, 'm) log_op \<Rightarrow> bool" where
  "op_ok h (sid, OpAppend t ms) \<longleftrightarrow> ok sid \<and> list_all fits ms \<and> h sid \<noteq> None"
| "op_ok h (sid, OpCreate c) \<longleftrightarrow> ok sid"
| "op_ok h (sid, OpDelete) \<longleftrightarrow> ok sid"

lemma inv_run_op: "inv s \<Longrightarrow> inv (snd (run_op s x))"
  by (cases "(s, x)" rule: run_op.cases) (simp_all add: inv_create inv_append inv_delete)

lemma run_op_refines:
  assumes "inv s" "op_ok h x" "fst (run_op s x) = None" "\<And>sid. ok sid \<Longrightarrow> hist s sid = h sid" "ok sid"
  shows "hist (snd (run_op s x)) sid = spec_op h x sid"
proof (cases "(s, x)" rule: run_op.cases)
  case (1 s' sid' c)
  with assms show ?thesis by (cases "sid = sid'") (simp_all add: hist_create create_other)
next
  case (2 s' sid' t ms)
  with assms show ?thesis by (cases "sid = sid'") (auto simp: hist_append append_other)
next
  case (3 s' sid')
  with assms show ?thesis by (cases "sid = sid'") (simp_all add: hist_delete delete_other)
qed

fun run_ops :: "(string \<times> ('c, 'm) log_op) list \<Rightarrow> 's \<Rightarrow> 's" where
  "run_ops [] s = s"
| "run_ops (x # xs) s = run_ops xs (snd (run_op s x))"

fun ops_ok :: "(string \<times> ('c, 'm) log_op) list \<Rightarrow> (string \<rightharpoonup> 'm list) \<Rightarrow> 's \<Rightarrow> bool" where
  "ops_ok [] h s \<longleftrightarrow> True"
| "ops_ok (x # xs) h s \<longleftrightarrow> op_ok h x \<and> fst (run_op s x) = None \<and> ops_ok xs (spec_op h x) (snd (run_op s x))"

lemma run_ops_refines:
  "\<lbrakk>inv s; ops_ok xs h s; \<And>sid. ok sid \<Longrightarrow> hist s sid = h sid; ok sid\<rbrakk> \<Longrightarrow> hist (run_ops xs s) sid = foldl spec_op h xs sid"
proof (induction xs arbitrary: s h)
  case (Cons x xs)
  have "hist (snd (run_op s x)) sid' = spec_op h x sid'" if "ok sid'" for sid'
    using run_op_refines [of s h x sid'] Cons.prems that by simp
  with Cons inv_run_op [of s x] show ?case by simp
qed simp

end

lemma history_update:
  "history env (st\<lparr>jsonlFiles := f\<rparr>) sid = Option.bind (f (jsonlPath st sid)) (read_log env)"
  by (simp add: history_read jsonlPath_def)

lemma paths_update [simp]:
  "jsonlPath (st\<lparr>jsonlFiles := f\<rparr>) sid = jsonlPath st sid" "jsonlPath (st\<lparr>metaFiles := g\<rparr>) sid = jsonlPath st sid"
  "jsonlPath (st\<lparr>metas := h\<rparr>) sid = jsonlPath st sid" "metaPath (st\<lparr>jsonlFiles := f\<rparr>) sid = metaPath st sid"
  "metaPath (st\<lparr>metaFiles := g\<rparr>) sid = metaPath st sid" "metaPath (st\<lparr>metas := h\<rparr>) sid = metaPath st sid"
  by (simp_all add: jsonlPath_def metaPath_def)

lemma touchMeta_jsonl [simp]:
  "jsonlFiles (touchMeta env now sid st) = jsonlFiles st" "jsonlPath (touchMeta env now sid st) x = jsonlPath st x"
  "metaPath (touchMeta env now sid st) x = metaPath st x"
  by (simp_all add: touchMeta_def Let_def split: option.splits)

lemma Append_files:
  "Append env now sid ms st = (e, st') \<Longrightarrow>
     jsonlPath st' = jsonlPath st \<and>
     (jsonlFiles st' = jsonlFiles st
      \<or> (\<exists>raw' e'. append_lines env ms (case jsonlFiles st (jsonlPath st sid) of None \<Rightarrow> [] | Some r \<Rightarrow> r) = (e', raw')
           \<and> (e = None \<longleftrightarrow> e' = None) \<and> jsonlFiles st' = (jsonlFiles st)(jsonlPath st sid \<mapsto> raw')))"
  by (auto simp: Append_def Let_def fun_eq_iff split: if_splits prod.splits option.splits)

interpretation file_store: session_log logs_ok valid_id "storable env" "history env"
  "\<lambda>c sid. CreateWithArticle env (fst c) sid (fst (snd c)) (fst (snd (snd c))) (snd (snd (snd c)))"
  "Append env" DeleteSession for env
proof
  fix s c sid assume i: "logs_ok s"
  show "logs_ok (snd (CreateWithArticle env (fst c) sid (fst (snd c)) (fst (snd (snd c))) (snd (snd (snd c))) s))"
    using i by (auto simp: CreateWithArticle_def logs_ok_def terminated_def Let_def)
next
  fix s t sid and ms :: "'a list" assume i: "logs_ok s"
  obtain e st' where a: "Append env t sid ms s = (e, st')" by fastforce
  let ?raw = "case jsonlFiles s (jsonlPath s sid) of None \<Rightarrow> [] | Some r \<Rightarrow> r"
  have t: "terminated ?raw" using i by (auto simp: logs_ok_def terminated_def split: option.splits)
  consider "jsonlFiles st' = jsonlFiles s"
    | raw' e' where "append_lines env ms ?raw = (e', raw')" "jsonlFiles st' = (jsonlFiles s)(jsonlPath s sid \<mapsto> raw')"
    using Append_files [OF a] by blast
  then show "logs_ok (snd (Append env t sid ms s))"
  proof cases
    case 2
    with logs_ok_append [OF 2(1) t] i show ?thesis unfolding a by (auto simp: logs_ok_def split: if_splits)
  qed (use i a in \<open>simp add: logs_ok_def\<close>)
next
  fix s sid assume "logs_ok s"
  then show "logs_ok (DeleteSession sid s)" by (auto simp: DeleteSession_def logs_ok_def)
next
  fix c sid s
  assume "fst (CreateWithArticle env (fst c) sid (fst (snd c)) (fst (snd (snd c))) (snd (snd (snd c))) s) = None"
  then show "history env (snd (CreateWithArticle env (fst c) sid (fst (snd c)) (fst (snd (snd c))) (snd (snd (snd c))) s)) sid = Some []"
    by (auto simp: CreateWithArticle_def Let_def history_read read_log_def maxToken_def split: if_splits)
next
  fix c sid sid' s assume "valid_id sid" "valid_id sid'" "sid' \<noteq> sid"
  then show "history env (snd (CreateWithArticle env (fst c) sid (fst (snd c)) (fst (snd (snd c))) (snd (snd (snd c))) s)) sid' = history env s sid'"
    by (simp add: CreateWithArticle_def Let_def history_read session_paths_inj)
next
  fix s t sid hs and ms :: "'a list"
  assume s: "logs_ok s" "list_all (storable env) ms" "fst (Append env t sid ms s) = None" "history env s sid = Some hs"
  then obtain raw where raw: "jsonlFiles s (jsonlPath s sid) = Some raw" "read_log env raw = Some hs" "terminated raw"
    by (auto simp: history_read logs_ok_def bind_eq_Some_conv)
  have "snd (Append env t sid ms s) = touchMeta env t sid (s\<lparr>jsonlFiles := (jsonlFiles s)(jsonlPath s sid \<mapsto> raw @ encoded env ms)\<rparr>)"
    using s(3) raw(1) by (auto simp: Append_def append_lines_storable [OF s(2)] Let_def split: if_splits)
  then show "history env (snd (Append env t sid ms s)) sid = Some (hs @ ms)"
    using read_log_append [OF s(2) raw(3, 2)] by (simp add: history_read)
next
  fix s t sid sid' and ms :: "'a list" assume v: "valid_id sid" "valid_id sid'" "sid' \<noteq> sid"
  obtain e st' where a: "Append env t sid ms s = (e, st')" by fastforce
  from Append_files [OF a] session_paths_inj(1) [OF v(2, 1)] v(3)
  show "history env (snd (Append env t sid ms s)) sid' = history env s sid'"
    unfolding a by (auto simp: history_read)
next
  fix sid s show "history env (DeleteSession sid s) sid = None"
    by (simp add: DeleteSession_def history_read jsonlPath_def)
next
  fix sid sid' s assume "valid_id sid" "valid_id sid'" "sid' \<noteq> sid"
  then show "history env (DeleteSession sid s) sid' = history env s sid'"
    by (simp add: DeleteSession_def history_read session_paths_inj)
qed

subsection \<open>Properties\<close>

text \<open>The operations of the store, as a client calls them: a creation carries its clock readings and the session's metadata.\<close>

type_synonym create_args = "(int \<times> int) \<times> string \<times> string \<times> string"

fun store_op :: "'m file_env \<Rightarrow> FileStore \<Rightarrow> string \<times> (create_args, 'm) log_op \<Rightarrow> store_error option \<times> FileStore" where
  "store_op env st (sid, OpCreate (now, instruction, article, owner)) = CreateWithArticle env now sid instruction article owner st"
| "store_op env st (sid, OpAppend t ms) = Append env t sid ms st"
| "store_op env st (sid, OpDelete) = (None, DeleteSession sid st)"

fun store_run :: "'m file_env \<Rightarrow> (string \<times> (create_args, 'm) log_op) list \<Rightarrow> FileStore \<Rightarrow> FileStore" where
  "store_run env [] st = st"
| "store_run env (x # xs) st = store_run env xs (snd (store_op env st x))"

text \<open>
  A run the contract covers: session ids without slashes, every operation successful, and messages
  appended only to a session that is there, each one a line the log can hold.
\<close>

fun store_run_ok :: "'m file_env \<Rightarrow> (string \<times> (create_args, 'm) log_op) list \<Rightarrow> (string \<rightharpoonup> 'm list) \<Rightarrow> FileStore \<Rightarrow> bool" where
  "store_run_ok env [] h st \<longleftrightarrow> True"
| "store_run_ok env (x # xs) h st \<longleftrightarrow>
     valid_id (fst x)
     \<and> (case snd x of OpAppend t ms \<Rightarrow> list_all (storable env) ms \<and> h (fst x) \<noteq> None | _ \<Rightarrow> True)
     \<and> fst (store_op env st x) = None \<and> store_run_ok env xs (spec_op h x) (snd (store_op env st x))"

lemma store_op_eq: "file_store.run_op env st x = store_op env st x"
  by (cases "(env, st, x)" rule: store_op.cases) simp_all

lemma store_run_eq: "file_store.run_ops env xs st = store_run env xs st"
  by (induction xs arbitrary: st) (simp_all add: store_op_eq)

lemma store_run_ok_eq: "store_run_ok env xs h st \<Longrightarrow> file_store.ops_ok env xs h st"
proof (induction xs arbitrary: h st)
  case (Cons x xs)
  then have "file_store.op_ok env h x"
    by (cases "(env, st, x)" rule: store_op.cases) auto
  with Cons show ?case by (simp add: store_op_eq)
qed simp

text \<open>
  C15. The file store implements a map from session ids to message histories: after any run of
  creations, appends and deletions, reading a session's file gives the messages appended since its
  creation, in order, and no operation on one session is visible in another.
\<close>

theorem session_store_refines:
  assumes "logs_ok st" and "store_run_ok env ops (history env st) st" and "valid_id sid"
  shows "history env (store_run env ops st) sid = foldl spec_op (history env st) ops sid"
  using file_store.run_ops_refines [OF assms(1) store_run_ok_eq [OF assms(2)] refl assms(3)]
  by (simp add: store_run_eq)

definition wit_env :: "string file_env" where
  "wit_env = \<lparr>feWritable = (\<lambda>p. True), feTime = (\<lambda>t. Itoa t), feParseTime = (\<lambda>s. None),
     feEnc = (\<lambda>m. Some (CHR ''m'' # m)), feDec = (\<lambda>s. Some (tl s))\<rparr>"

definition wit_store :: FileStore where
  "wit_store = \<lparr>baseDir = ''/d'', ttl = 10, metas = Map.empty, metaFiles = Map.empty, jsonlFiles = Map.empty\<rparr>"

theorem session_store_refines_witness:
  "history wit_env (store_run wit_env
     [(''a'', OpCreate ((0, 0), [], [], [])), (''b'', OpCreate ((0, 0), [], [], [])), (''a'', OpAppend 1 [''x'']),
      (''b'', OpDelete), (''a'', OpAppend 2 [''y'', ''z''])] wit_store) ''a'' = Some [''x'', ''y'', ''z'']"
proof -
  let ?ops = "[(''a'', OpCreate ((0, 0), [], [], [])), (''b'', OpCreate ((0, 0), [], [], [])), (''a'', OpAppend 1 [''x'']),
      (''b'', OpDelete), (''a'', OpAppend 2 [''y'', ''z''])] :: (string \<times> (create_args, string) log_op) list"
  have l: "logs_ok wit_store" by (simp add: logs_ok_def wit_store_def)
  have o: "store_run_ok wit_env ?ops (history wit_env wit_store) wit_store"
    by (simp add: valid_id_def CreateWithArticle_def Append_def DeleteSession_def wit_env_def storable_def newline_def
        maxToken_def Let_def touchMeta_def)
  have v: "valid_id ''a''" by (simp add: valid_id_def)
  from session_store_refines [OF l o v] show ?thesis by simp
qed

lemma scan_too_long: "length p \<ge> maxToken \<Longrightarrow> p \<in> set ps \<Longrightarrow> snd (scan_pieces ps)"
proof (induction ps)
  case (Cons q qs)
  show ?case
  proof (cases "length q \<ge> maxToken")
    case False
    with Cons have "p \<in> set qs" by auto
    with Cons.IH Cons.prems False show ?thesis by (cases "scan_pieces qs") auto
  qed simp
qed simp

lemma Split_line:
  assumes "newline \<notin> set b" "terminated raw" shows "b \<in> set (Split newline (raw @ b @ newline # r))"
proof -
  from Split_terminated [OF assms(2)] obtain ps where "\<And>r. Split newline (raw @ r) = ps @ Split newline r" by blast
  then show ?thesis using Split_append_sep [OF assms(1)] by simp
qed

lemma append_lines_prefix: "append_lines env ms raw = (e, raw') \<Longrightarrow> \<exists>r. raw' = raw @ r"
proof (induction ms arbitrary: raw)
  case (Cons m ms)
  then show ?case by (auto split: option.splits) (metis append_assoc)
qed simp

text \<open>
  A line of 1 MiB or more makes the whole session unreadable: the append reports success, and
  every later read of the session fails, whatever is appended after it, until it is deleted.
\<close>

theorem oversized_message_locks_session:
  assumes "logs_ok st" and "feWritable env (jsonlPath st sid)" and "jsonlFiles st (jsonlPath st sid) = Some raw"
    and "feEnc env m = Some b" and "newline \<notin> set b" and "maxToken \<le> length b"
  shows "fst (Append env t sid [m] st) = None
     \<and> snd (GetMessages env sid (snd (Append env t sid [m] st))) = Some TokenTooLong
     \<and> snd (GetMessages env sid (snd (Append env t' sid ms (snd (Append env t sid [m] st))))) = Some TokenTooLong"
proof -
  have tr: "terminated raw" using assms(1, 3) by (auto simp: logs_ok_def)
  have bad: "snd (GetMessages env sid s) = Some TokenTooLong"
    if "jsonlFiles s (jsonlPath s sid) = Some (raw @ b @ newline # r)" for s :: FileStore and r
    using scan_too_long [OF assms(6) Split_line [OF assms(5) tr, of r]] that
    by (auto simp: GetMessages_def split: prod.splits)
  let ?s = "snd (Append env t sid [m] st)"
  have a: "fst (Append env t sid [m] st) = None" "jsonlFiles ?s (jsonlPath ?s sid) = Some (raw @ b @ newline # [])"
    using assms(2-4) by (simp_all add: Append_def Let_def)
  obtain e u where u: "Append env t' sid ms ?s = (e, u)" by fastforce
  have "\<exists>r. jsonlFiles u (jsonlPath u sid) = Some (raw @ b @ newline # r)"
  proof -
    from Append_files [OF u] consider "jsonlPath u = jsonlPath ?s" "jsonlFiles u = jsonlFiles ?s"
      | raw' e' where "jsonlPath u = jsonlPath ?s" "append_lines env ms (raw @ b @ [newline]) = (e', raw')"
          "jsonlFiles u = (jsonlFiles ?s)(jsonlPath ?s sid \<mapsto> raw')"
      using a(2) by auto
    then show ?thesis
    proof cases
      case 2
      with append_lines_prefix [OF 2(2)] show ?thesis by auto
    qed (use a(2) in auto)
  qed
  with bad a u show ?thesis by auto
qed

theorem oversized_message_locks_session_witness:
  "snd (GetMessages wit_env ''a'' (snd (Append wit_env 0 ''a'' [replicate maxToken (CHR ''x'')]
     (wit_store\<lparr>jsonlFiles := [jsonlPath wit_store ''a'' \<mapsto> []]\<rparr>)))) = Some TokenTooLong"
proof -
  let ?st = "wit_store\<lparr>jsonlFiles := [jsonlPath wit_store ''a'' \<mapsto> []]\<rparr>"
  have "logs_ok ?st" by (simp add: logs_ok_def terminated_def)
  moreover have "feWritable wit_env (jsonlPath ?st ''a'')" by (simp add: wit_env_def)
  moreover have "jsonlFiles ?st (jsonlPath ?st ''a'') = Some []" by simp
  moreover have "feEnc wit_env (replicate maxToken (CHR ''x'')) = Some (CHR ''m'' # replicate maxToken (CHR ''x''))"
    by (simp add: wit_env_def)
  moreover have "newline \<notin> set (CHR ''m'' # replicate maxToken (CHR ''x''))" by (simp add: newline_def)
  moreover have "maxToken \<le> length (CHR ''m'' # replicate maxToken (CHR ''x''))" by simp
  ultimately show ?thesis by (rule oversized_message_locks_session [THEN conjunct2, THEN conjunct1])
qed

subsection \<open>Expiry and restart\<close>

lemma find_meta_fields:
  "find_field (meta_fields env) ''id'' = Some (snd (string_field ''id'' (\<lambda>s m. m\<lparr>smID := s\<rparr>)))"
  "find_field (meta_fields env) ''owner_id'' = Some (snd (string_field ''owner_id'' (\<lambda>s m. m\<lparr>smOwner := s\<rparr>)))"
  "find_field (meta_fields env) ''instruction'' = Some (snd (string_field ''instruction'' (\<lambda>s m. m\<lparr>smInstruction := s\<rparr>)))"
  "find_field (meta_fields env) ''article_id'' = Some (snd (string_field ''article_id'' (\<lambda>s m. m\<lparr>smArticle := s\<rparr>)))"
  "find_field (meta_fields env) ''created_at'' = Some (snd (time_field (feParseTime env) ''created_at'' (\<lambda>t m. m\<lparr>smCreated := t\<rparr>)))"
  "find_field (meta_fields env) ''last_active_at'' = Some (snd (time_field (feParseTime env) ''last_active_at'' (\<lambda>t m. m\<lparr>smLastActive := t\<rparr>)))"
  by (simp_all add: find_field_def meta_fields_def string_field_def time_field_def)

text \<open>What a metadata document keeps of a session: everything, its strings as valid UTF-8.\<close>

definition coerced :: "SessionMeta \<Rightarrow> SessionMeta" where
  "coerced m = m\<lparr>smID := to_valid_utf8 (smID m), smOwner := to_valid_utf8 (smOwner m),
     smInstruction := to_valid_utf8 (smInstruction m), smArticle := to_valid_utf8 (smArticle m)\<rparr>"

lemma parse_meta_json:
  assumes "feParseTime env (feTime env (smCreated m)) = Some (smCreated m)"
    "feParseTime env (feTime env (smLastActive m)) = Some (smLastActive m)"
  shows "parse_meta env (Json (meta_json env m)) = Some (coerced m)"
  using assms
  by (auto simp: parse_meta_def meta_json_def decode_struct_def decode_members_append keep_string_def omit_string_def
      find_meta_fields string_field_def time_field_def zero_meta_def coerced_def)

text \<open>
  A session survives a restart of the process: a store opened on the files another one wrote
  finds the session with the metadata it was created with (its strings coerced to valid UTF-8), for
  as long as its time to live, and an empty history.
\<close>

theorem session_survives_restart:
  assumes "CreateWithArticle env (t0, t1) sid instruction article owner st = (None, st')"
    and "feParseTime env (feTime env t0) = Some t0" and "feParseTime env (feTime env t1) = Some t1"
  shows "fst (GetMeta env now sid (NewFileStore (baseDir st) life st'))
       = (if now - t1 > life then None
          else Some (coerced \<lparr>smID = sid, smOwner = owner, smInstruction = instruction, smArticle = article,
                              smCreated = t0, smLastActive = t1\<rparr>))
     \<and> history env (NewFileStore (baseDir st) life st') sid = Some []"
proof -
  let ?m = "\<lparr>smID = sid, smOwner = owner, smInstruction = instruction, smArticle = article, smCreated = t0, smLastActive = t1\<rparr>"
  have p: "parse_meta env (Json (meta_json env ?m)) = Some (coerced ?m)" using parse_meta_json [of env ?m] assms(2, 3) by simp
  have st': "metaFiles st' (metaPath st sid) = Some (Json (meta_json env ?m))" "jsonlFiles st' (jsonlPath st sid) = Some []"
    using assms(1) by (auto simp: CreateWithArticle_def Let_def split: if_splits)
  have "metaPath (NewFileStore (baseDir st) life st') sid = metaPath st sid"
    "jsonlPath (NewFileStore (baseDir st) life st') sid = jsonlPath st sid"
    by (simp_all add: NewFileStore_def metaPath_def jsonlPath_def)
  with st' p show ?thesis
    by (simp add: GetMeta_def NewFileStore_def expired_def coerced_def history_read read_log_def maxToken_def)
qed

definition wit_time_env :: "string file_env" where
  "wit_time_env = \<lparr>feWritable = (\<lambda>p. True), feTime = (\<lambda>t. Itoa t), feParseTime = (\<lambda>s. Some (int (str_nat s))),
     feEnc = (\<lambda>m. Some (CHR ''m'' # m)), feDec = (\<lambda>s. Some (tl s))\<rparr>"

theorem session_survives_restart_witness:
  "fst (GetMeta wit_time_env 9 ''a'' (NewFileStore ''/d'' 10 (snd (CreateWithArticle wit_time_env (0, 0) ''a'' ''hi'' ''art'' ''bob'' wit_store))))
     = Some (coerced \<lparr>smID = ''a'', smOwner = ''bob'', smInstruction = ''hi'', smArticle = ''art'', smCreated = 0, smLastActive = 0\<rparr>)"
proof -
  obtain st' where c: "CreateWithArticle wit_time_env (0, 0) ''a'' ''hi'' ''art'' ''bob'' wit_store = (None, st')"
    by (simp add: CreateWithArticle_def Let_def wit_time_env_def)
  have t: "feParseTime wit_time_env (feTime wit_time_env 0) = Some 0"
    using str_nat_nat_str [of 0] by (simp add: wit_time_env_def Itoa_def)
  have "baseDir wit_store = ''/d''" by (simp add: wit_store_def)
  with session_survives_restart [OF c t t, of 9 10] show ?thesis by (simp add: c)
qed

lemma DeleteSession_simps [simp]:
  "metas (DeleteSession sid st) = (metas st)(sid := None)" "ttl (DeleteSession sid st) = ttl st"
  "metaPath (DeleteSession sid st) = metaPath st" "jsonlPath (DeleteSession sid st) = jsonlPath st"
  "metaFiles (DeleteSession sid st) = (metaFiles st)(metaPath st sid := None)"
  "jsonlFiles (DeleteSession sid st) = (jsonlFiles st)(jsonlPath st sid := None)"
  by (simp_all add: DeleteSession_def metaPath_def jsonlPath_def fun_eq_iff)

lemma expired_Delete [simp]: "expired now (DeleteSession sid st) m = expired now st m"
  by (simp add: expired_def)

lemma cleanExpired_invariants:
  "ttl (cleanExpired now keys st) = ttl st \<and> metaPath (cleanExpired now keys st) = metaPath st
     \<and> jsonlPath (cleanExpired now keys st) = jsonlPath st"
proof (induction keys arbitrary: st)
  case (Cons k keys)
  then show ?case by (cases "metas st k") simp_all
qed simp

lemma cleanExpired_metas:
  "metas (cleanExpired now keys st) sid
     = (if sid \<in> set keys then (case metas st sid of Some m \<Rightarrow> if expired now st m then None else Some m | None \<Rightarrow> None)
        else metas st sid)"
proof (induction keys arbitrary: st)
  case (Cons k keys)
  then show ?case by (cases "metas st k"; cases "metas st sid") (auto simp: Cons)
qed simp

lemma cleanExpired_files:
  assumes "list_all valid_id keys" "valid_id sid"
  shows "metaFiles (cleanExpired now keys st) (metaPath st sid)
       = (if sid \<in> set keys \<and> (\<exists>m. metas st sid = Some m \<and> expired now st m) then None else metaFiles st (metaPath st sid))
     \<and> jsonlFiles (cleanExpired now keys st) (jsonlPath st sid)
       = (if sid \<in> set keys \<and> (\<exists>m. metas st sid = Some m \<and> expired now st m) then None else jsonlFiles st (jsonlPath st sid))"
  using assms(1)
proof (induction keys arbitrary: st)
  case (Cons k keys)
  define gone where "gone s = (\<exists>m. metas st s = Some m \<and> expired now st m)" for s
  define st2 where "st2 = (if gone k then DeleteSession k st else st)"
  have st2: "(case metas st k of None \<Rightarrow> st | Some m \<Rightarrow> if expired now st m then DeleteSession k st else st) = st2"
    by (auto simp: st2_def gone_def split: option.split)
  have g2: "(\<exists>m. metas st2 sid = Some m \<and> expired now st2 m) \<longleftrightarrow> gone sid \<and> \<not> (gone k \<and> sid = k)"
    by (auto simp: st2_def gone_def)
  have IH: "metaFiles (cleanExpired now keys st2) (metaPath st2 sid)
       = (if sid \<in> set keys \<and> (\<exists>m. metas st2 sid = Some m \<and> expired now st2 m) then None else metaFiles st2 (metaPath st2 sid))
     \<and> jsonlFiles (cleanExpired now keys st2) (jsonlPath st2 sid)
       = (if sid \<in> set keys \<and> (\<exists>m. metas st2 sid = Some m \<and> expired now st2 m) then None else jsonlFiles st2 (jsonlPath st2 sid))"
    by (rule Cons.IH) (use Cons.prems in simp)
  have k: "valid_id k" using Cons.prems by simp
  note inj = session_paths_inj [OF assms(2) k]
  have "cleanExpired now (k # keys) st = cleanExpired now keys st2" by (simp add: st2)
  moreover have "metaPath st2 = metaPath st" "jsonlPath st2 = jsonlPath st" by (simp_all add: st2_def)
  moreover have "metaFiles st2 (metaPath st sid) = (if gone k \<and> sid = k then None else metaFiles st (metaPath st sid))"
    "jsonlFiles st2 (jsonlPath st sid) = (if gone k \<and> sid = k then None else jsonlFiles st (jsonlPath st sid))"
    using inj by (auto simp: st2_def)
  ultimately show ?case using IH unfolding g2 gone_def [symmetric] by auto
qed simp

text \<open>
  A sweep drops exactly the cached sessions that have expired, with both their files, and keeps
  every other session's metadata, document and log as they are.
\<close>

theorem session_sweep:
  assumes "list_all valid_id keys" and "set keys = dom (metas st)" and "valid_id sid"
  shows "metas (cleanExpired now keys st) sid
       = (case metas st sid of Some m \<Rightarrow> if expired now st m then None else Some m | None \<Rightarrow> None)
     \<and> (if \<exists>m. metas st sid = Some m \<and> expired now st m
        then metaFiles (cleanExpired now keys st) (metaPath st sid) = None
           \<and> jsonlFiles (cleanExpired now keys st) (jsonlPath st sid) = None
        else metaFiles (cleanExpired now keys st) (metaPath st sid) = metaFiles st (metaPath st sid)
           \<and> jsonlFiles (cleanExpired now keys st) (jsonlPath st sid) = jsonlFiles st (jsonlPath st sid))"
proof -
  have "metas st sid = None" if "sid \<notin> set keys" using that assms(2) by blast
  then show ?thesis
    using cleanExpired_files [OF assms(1, 3), of now st] cleanExpired_metas [of now keys st sid] assms(2)
    by (auto split: option.split)
qed

definition wit_meta :: SessionMeta where
  "wit_meta = \<lparr>smID = ''a'', smOwner = ''bob'', smInstruction = ''hi'', smArticle = ''art'', smCreated = 0, smLastActive = 0\<rparr>"

theorem session_sweep_witness:
  "metas (cleanExpired 20 [''a'', ''b''] (wit_store\<lparr>metas := [''a'' \<mapsto> wit_meta, ''b'' \<mapsto> wit_meta\<lparr>smLastActive := 15\<rparr>]\<rparr>)) ''a'' = None"
proof -
  let ?st = "wit_store\<lparr>metas := [''a'' \<mapsto> wit_meta, ''b'' \<mapsto> wit_meta\<lparr>smLastActive := 15\<rparr>]\<rparr>"
  have k: "list_all valid_id [''a'', ''b'']" by (simp add: valid_id_def)
  have d: "set [''a'', ''b''] = dom (metas ?st)" by auto
  have v: "valid_id ''a''" by (simp add: valid_id_def)
  from session_sweep [OF k d v, of 20] show ?thesis by (simp add: expired_def wit_store_def wit_meta_def)
qed

text \<open>The store's own housekeeping: looking sessions up and sweeping.\<close>

datatype housekeeping = Lookup int string | Sweep int "string list"

fun keep_house :: "'m file_env \<Rightarrow> housekeeping list \<Rightarrow> FileStore \<Rightarrow> FileStore" where
  "keep_house env [] st = st"
| "keep_house env (Lookup now sid # hs) st = keep_house env hs (snd (GetMeta env now sid st))"
| "keep_house env (Sweep now keys # hs) st = keep_house env hs (cleanExpired now keys st)"

fun house_ok :: "int \<Rightarrow> housekeeping list \<Rightarrow> bool" where
  "house_ok t [] \<longleftrightarrow> True"
| "house_ok t (Lookup now sid # hs) \<longleftrightarrow> t \<le> now \<and> valid_id sid \<and> house_ok t hs"
| "house_ok t (Sweep now keys # hs) \<longleftrightarrow> t \<le> now \<and> list_all valid_id keys \<and> house_ok t hs"

lemma GetMeta_frame:
  assumes "GetMeta env now sid' st = (r, st')"
  shows "metaFiles st' = metaFiles st \<and> jsonlFiles st' = jsonlFiles st \<and> metaPath st' = metaPath st \<and> jsonlPath st' = jsonlPath st
     \<and> ttl st' = ttl st \<and> (\<forall>x. x \<noteq> sid' \<longrightarrow> metas st' x = metas st x)
     \<and> (metas st' = metas st \<or> (\<exists>p m. metaFiles st (metaPath st sid') = Some p \<and> parse_meta env p = Some m \<and> \<not> expired now st m))"
  using assms by (auto simp: GetMeta_def metaPath_def jsonlPath_def fun_eq_iff split: option.splits if_splits)

text \<open>
  A session that expired while the process was down is never deleted: the sweep looks at cached
  sessions only and a lookup does not cache an expired one, so whatever lookups and sweeps follow,
  both its files stay on the disk.
\<close>

theorem expired_on_disk_never_swept:
  assumes "metas st sid = None" and "metaFiles st (metaPath st sid) = Some p" and "parse_meta env p = Some m"
    and "t - smLastActive m > ttl st" and "valid_id sid" and "house_ok t hs"
  shows "metaFiles (keep_house env hs st) (metaPath st sid) = Some p
     \<and> jsonlFiles (keep_house env hs st) (jsonlPath st sid) = jsonlFiles st (jsonlPath st sid)"
  using assms
proof (induction hs arbitrary: st)
  case (Cons h hs)
  show ?case
  proof (cases h)
    case (Lookup now sid')
    obtain r st' where g: "GetMeta env now sid' st = (r, st')" by fastforce
    note f = GetMeta_frame [OF g]
    have "metas st' sid = None"
    proof (cases "sid' = sid")
      case True
      have "expired now st m" using Cons.prems Lookup by (simp add: expired_def)
      then have "metas st' = metas st" using f Cons.prems(2, 3) True by auto
      then show ?thesis using Cons.prems(1) by simp
    qed (use f Cons.prems(1) in auto)
    moreover have "metaPath st' = metaPath st" "jsonlPath st' = jsonlPath st" "ttl st' = ttl st"
      "metaFiles st' = metaFiles st" "jsonlFiles st' = jsonlFiles st" using f by blast+
    ultimately show ?thesis using Cons.IH [of st'] Cons.prems Lookup g by simp
  next
    case (Sweep now keys)
    then have "list_all valid_id keys" using Cons.prems(6) by simp
    from cleanExpired_files [OF this Cons.prems(5), of now st] cleanExpired_metas [of now keys st sid]
      cleanExpired_invariants [of now keys st] Cons.IH [of "cleanExpired now keys st"] Cons.prems Sweep
    show ?thesis by simp
  qed
qed simp

theorem expired_on_disk_never_swept_witness:
  "metaFiles (keep_house wit_time_env [Sweep 100 [], Lookup 100 ''a'', Sweep 200 [''a'']]
     (wit_store\<lparr>metaFiles := [metaPath wit_store ''a'' \<mapsto> Json (meta_json wit_time_env wit_meta)]\<rparr>)) (metaPath wit_store ''a'')
     = Some (Json (meta_json wit_time_env wit_meta))"
proof -
  let ?st = "wit_store\<lparr>metaFiles := [metaPath wit_store ''a'' \<mapsto> Json (meta_json wit_time_env wit_meta)]\<rparr>"
  have t: "feParseTime wit_time_env (feTime wit_time_env 0) = Some 0"
    using str_nat_nat_str [of 0] by (simp add: wit_time_env_def Itoa_def)
  have "parse_meta wit_time_env (Json (meta_json wit_time_env wit_meta)) = Some (coerced wit_meta)"
    by (rule parse_meta_json) (simp_all add: wit_meta_def t)
  moreover have "metas ?st ''a'' = None" "metaPath ?st = metaPath wit_store" "100 - smLastActive (coerced wit_meta) > ttl ?st"
    by (simp_all add: wit_store_def coerced_def wit_meta_def fun_eq_iff metaPath_def)
  moreover have "metaFiles ?st (metaPath ?st ''a'') = Some (Json (meta_json wit_time_env wit_meta))" by simp
  moreover have "valid_id ''a''" "house_ok 100 [Sweep 100 [], Lookup 100 ''a'', Sweep 200 [''a'']]" by (simp_all add: valid_id_def)
  ultimately show ?thesis using expired_on_disk_never_swept [of ?st "''a''"] by metis
qed

text \<open>An id with parent components names files outside the base directory.\<close>

lemma session_id_escapes:
  "metaPath (wit_store\<lparr>baseDir := ''data/agent/sessions''\<rparr>) ''../../../x'' = ''x.meta.json''"
  by code_simp

end
