(* ===== verification/Docker_Exec.thy ===== *)
theory Docker_Exec
  imports Container_Pool Proto_Types
begin

text \<open>
  Running a command in a container (\<open>internal/infrastructure/containerBasic/container.go\<close>):
  \<open>ensureContainerExistsByName\<close>, \<open>buildExec\<close> and \<open>InContainerRunCode\<close>. The Docker daemon is
  a parameter: \<open>docker\<close> gives the outcome of every API call the code makes. The result of an
  operation comes with the list of the calls it made.
\<close>

subsection \<open>The daemon\<close>

text \<open>
  How the \<open>select\<close> on the copied output and the 30 s context ends: the copy finished (with its
  read error, if any, and the collected output) or the deadline passed.
\<close>

datatype stream_end = StreamDone "string option" string | DeadlineHit

record docker =
  inspectCt :: "nat \<Rightarrow> string \<Rightarrow> string + string"       \<comment> \<open>n-th inspection by name: error or id\<close>
  listCt :: "string \<Rightarrow> string + (string \<times> string) list"  \<comment> \<open>error, or ids and states\<close>
  startCt :: "string \<Rightarrow> string option"                 \<comment> \<open>error of ContainerStart\<close>
  execCreate :: "string \<Rightarrow> string list \<Rightarrow> string + string"
  execAttach :: "string \<Rightarrow> string option"
  execStream :: "string \<Rightarrow> stream_end"
  execInspect :: "string \<Rightarrow> string + int"
  lateDeadline :: bool     \<comment> \<open>the 30 s passed after the stream ended, before the call returned\<close>
  elapsedMs :: int         \<comment> \<open>measured duration of buildExec in milliseconds\<close>

datatype docker_call =
    Inspect string | ListAll string | Start string
  | ExecCreate string "string list" | ExecAttach string | ExecInspect string

subsection \<open>Operations\<close>

definition ensureContainerExistsByName :: "docker \<Rightarrow> string \<Rightarrow> docker_call list" where
  "ensureContainerExistsByName d name =
     (case listCt d name of
        Inl _ \<Rightarrow> [ListAll name]
      | Inr [] \<Rightarrow> [ListAll name]
      | Inr ((cid, state) # _) \<Rightarrow>
          if state \<noteq> ''running'' then [ListAll name, Start cid] else [ListAll name])"

definition buildExec :: "docker \<Rightarrow> string \<Rightarrow> string \<Rightarrow> string list \<Rightarrow> (go_error, string) result \<times> docker_call list" where
  "buildExec d cmd cid args =
     (let c1 = [ExecCreate cid (cmd # args)] in
      case execCreate d cid (cmd # args) of
        Inl e \<Rightarrow> (Inl (ErrExecCreate e), c1)
      | Inr execId \<Rightarrow>
         (let c2 = c1 @ [ExecAttach execId] in
          case execAttach d execId of
            Some e \<Rightarrow> (Inl (ErrExecAttach e), c2)
          | None \<Rightarrow>
             (case execStream d execId of
                DeadlineHit \<Rightarrow> (Inl ErrExecTimeout, c2)
              | StreamDone (Some e) _ \<Rightarrow> (Inl (ErrForeign e), c2)
              | StreamDone None out \<Rightarrow>
                 (case execInspect d execId of
                    Inl e \<Rightarrow> (Inl (ErrExecInspect e), c2 @ [ExecInspect execId])
                  | Inr _ \<Rightarrow> (Inr out, c2 @ [ExecInspect execId])))))"

text \<open>
  \<open>ctx.Err() == context.DeadlineExceeded\<close> when \<open>buildExec\<close> has failed: the deadline that ended
  the stream stays set, and it may also have passed since. The explicit \<open>cancel\<close> is deferred, so
  nothing else can set it.
\<close>

definition deadlineExceeded :: "docker \<Rightarrow> (go_error, string) result \<Rightarrow> bool" where
  "deadlineExceeded d r = (r = Inl ErrExecTimeout \<or> lateDeadline d)"

definition runInspected :: "docker \<Rightarrow> string \<Rightarrow> string list \<Rightarrow> string \<Rightarrow> (go_error, int \<times> string) result \<times> docker_call list" where
  "runInspected d cmd args cid =
     (case buildExec d cmd cid args of (r, calls) \<Rightarrow>
        (case r of
           Inl _ \<Rightarrow> (Inl (if deadlineExceeded d r then ErrContainerExecTimeout else ErrInnerServer), calls)
         | Inr out \<Rightarrow> (Inr (elapsedMs d, out), calls)))"

definition InContainerRunCode :: "docker \<Rightarrow> string \<Rightarrow> string \<Rightarrow> string list \<Rightarrow> (go_error, int \<times> string) result \<times> docker_call list" where
  "InContainerRunCode d name cmd args =
     (case inspectCt d 0 name of
        Inr cid \<Rightarrow> (case runInspected d cmd args cid of (r, calls) \<Rightarrow> (r, Inspect name # calls))
      | Inl _ \<Rightarrow>
         (let pre = Inspect name # ensureContainerExistsByName d name @ [Inspect name] in
          case inspectCt d 1 name of
            Inl e \<Rightarrow> (Inl (ErrForeign e), pre)
          | Inr cid \<Rightarrow> (case runInspected d cmd args cid of (r, calls) \<Rightarrow> (r, pre @ calls))))"

subsection \<open>What they guarantee\<close>

lemma buildExec_ok_iff:
  "(\<exists>out. fst (buildExec d cmd cid args) = Inr out) \<longleftrightarrow>
     (\<exists>x. execCreate d cid (cmd # args) = Inr x \<and> execAttach d x = None
        \<and> (\<exists>out. execStream d x = StreamDone None out) \<and> (\<exists>code. execInspect d x = Inr code))"
  by (auto simp: buildExec_def Let_def split: sum.splits option.splits stream_end.splits)

lemma buildExec_timeout_iff:
  "fst (buildExec d cmd cid args) = Inl ErrExecTimeout \<longleftrightarrow>
     (\<exists>x. execCreate d cid (cmd # args) = Inr x \<and> execAttach d x = None \<and> execStream d x = DeadlineHit)"
  by (auto simp: buildExec_def Let_def split: sum.splits option.splits stream_end.splits)

lemma runInspected_errors:
  "fst (runInspected d cmd args cid) = Inl e \<Longrightarrow> e = ErrContainerExecTimeout \<or> e = ErrInnerServer"
  by (auto simp: runInspected_def split: prod.splits sum.splits if_splits)

lemma runInspected_stream_timeout:
  "fst (buildExec d cmd cid args) = Inl ErrExecTimeout \<Longrightarrow>
     fst (runInspected d cmd args cid) = Inl ErrContainerExecTimeout"
  by (auto simp: runInspected_def deadlineExceeded_def split: prod.splits sum.splits)

text \<open>The program text is only ever executed in the container that was asked for by name.\<close>

lemma buildExec_calls:
  "c \<in> set (snd (buildExec d cmd cid args)) \<Longrightarrow>
     c = ExecCreate cid (cmd # args) \<or> (\<exists>x. c = ExecAttach x \<or> c = ExecInspect x)"
  by (auto simp: buildExec_def Let_def split: sum.splits option.splits stream_end.splits)

lemma InContainerRunCode_exec:
  assumes "ExecCreate cid cl \<in> set (snd (InContainerRunCode d name cmd args))"
  shows "cl = cmd # args \<and> (\<exists>n. inspectCt d n name = Inr cid)"
  using assms
  by (auto simp: InContainerRunCode_def runInspected_def ensureContainerExistsByName_def Let_def
      split: sum.splits prod.splits list.splits if_splits
      dest: buildExec_calls [of _ d cmd _ args, unfolded] intro: arg_cong [where f = snd])
    (metis buildExec_calls docker_call.distinct docker_call.inject(4) snd_conv)+

end
