(* ===== verification/Run_Code.thy ===== *)
theory Run_Code
  imports Docker_Exec Pool_Concurrency Go_Path
begin

text \<open>
  One execution of a user program on a worker
  (\<open>internal/infrastructure/containerBasic/runCode.go\<close>): language aliases, the chained
  methods that write the program to the mounted directory, the command per language, and
  \<open>RunCode\<close>, which ties them to the container pool and to Docker.
\<close>

subsection \<open>Languages\<close>

text \<open>
  \<open>strings.ToLower\<close> as a lookup with ASCII keys sees it: ASCII letters are lowered, and so are
  the two other runes whose lower case is ASCII, U+0130 (to i) and U+212A (to k). Every other
  rune keeps a non-ASCII byte, which no key contains.
\<close>

definition lower_char :: "char \<Rightarrow> char" where
  "lower_char c = (if 65 \<le> byte c \<and> byte c \<le> 90 then char_of (byte c + 32) else c)"

fun ToLower_ascii :: "string \<Rightarrow> string" where
  "ToLower_ascii [] = []"
| "ToLower_ascii (c # cs) =
     (if c = CHR 0xC4 \<and> take 1 cs = [CHR 0xB0] then CHR ''i'' # ToLower_ascii (drop 1 cs)
      else if c = CHR 0xE2 \<and> take 2 cs = [CHR 0x84, CHR 0xAA] then CHR ''k'' # ToLower_ascii (drop 2 cs)
      else lower_char c # ToLower_ascii cs)"

definition langAliases :: "string \<rightharpoonup> string" where
  "langAliases = map_of
     [(''go'', ''golang''), (''golang'', ''golang''), (''py'', ''python''), (''python'', ''python''),
      (''js'', ''javascript''), (''javascript'', ''javascript''), (''java'', ''java''), (''c'', ''c'')]"

definition normalizeLang :: "string \<Rightarrow> string" where
  "normalizeLang lang =
     (case langAliases (ToLower_ascii (TrimSpace lang)) of Some v \<Rightarrow> v | None \<Rightarrow> lang)"

definition extensionMap :: "string \<rightharpoonup> string" where
  "extensionMap = map_of
     [(''golang'', ''go''), (''python'', ''py''), (''javascript'', ''js''), (''java'', ''java''), (''c'', ''c'')]"

subsection \<open>Writing the program\<close>

text \<open>
  The outcomes of the file system calls, an error text or success, and the calls made.
\<close>

record fs_env =
  mkdirErr :: "string option"
  createErr :: "string option"
  writeErr :: "string option"
  syncErr :: "string option"

datatype fs_call = MkdirAll string | Create string | WriteString string | SyncFile | CloseFile | RemoveAll string

record runCode =
  rcErr :: "go_error option"
  extension :: string
  rcFile :: "string option"    \<comment> \<open>the open handle, by its path\<close>
  rcPath :: string
  fsLog :: "fs_call list"      \<comment> \<open>calls made so far\<close>

definition newRunCode :: runCode where
  "newRunCode = \<lparr>rcErr = None, extension = '''', rcFile = None, rcPath = '''', fsLog = []\<rparr>"

definition getFileExtension :: "string \<Rightarrow> runCode \<Rightarrow> runCode" where
  "getFileExtension lang r =
     (case extensionMap (ToLower_ascii lang) of
        Some ext \<Rightarrow> r\<lparr>extension := ext\<rparr>
      | None \<Rightarrow> r\<lparr>rcErr := Some ErrNoExtension\<rparr>)"

definition createBlockContent :: "fs_env \<Rightarrow> string \<Rightarrow> runCode \<Rightarrow> runCode" where
  "createBlockContent fs path r =
     (if rcErr r \<noteq> None then r
      else r\<lparr>rcErr := map_option ErrForeign (mkdirErr fs), rcPath := path,
             fsLog := fsLog r @ [MkdirAll path]\<rparr>)"

definition createBlockFile :: "fs_env \<Rightarrow> runCode \<Rightarrow> runCode" where
  "createBlockFile fs r =
     (if rcErr r \<noteq> None then r
      else let codePath = rcPath r @ ''/main.'' @ extension r in
           r\<lparr>rcFile := (if createErr fs = None then Some codePath else None),
             rcErr := map_option ErrForeign (createErr fs),
             fsLog := fsLog r @ [Create codePath]\<rparr>)"

definition writeCode :: "fs_env \<Rightarrow> string \<Rightarrow> runCode \<Rightarrow> runCode" where
  "writeCode fs code r =
     (if rcErr r \<noteq> None then r
      else r\<lparr>rcErr := map_option ErrForeign (writeErr fs), fsLog := fsLog r @ [WriteString code]\<rparr>)"

definition syncDisk :: "fs_env \<Rightarrow> runCode \<Rightarrow> runCode" where
  "syncDisk fs r =
     (if rcErr r \<noteq> None then r
      else r\<lparr>rcErr := map_option ErrForeign (syncErr fs), fsLog := fsLog r @ [SyncFile]\<rparr>)"

definition createFile :: "fs_env \<Rightarrow> string \<Rightarrow> string \<Rightarrow> string \<Rightarrow> runCode \<Rightarrow> runCode" where
  \<comment> \<open>the returned error is the record's \<open>rcErr\<close>\<close>
  "createFile fs language code path r =
     (if rcErr r \<noteq> None then r
      else syncDisk fs (writeCode fs code (createBlockFile fs
             (createBlockContent fs path (getFileExtension language r)))))"

subsection \<open>The command\<close>

definition getCommand :: "string \<Rightarrow> string \<Rightarrow> string \<times> string list" where
  "getCommand language path =
     (if language = ''golang'' then (''go'', [''run'', path])
      else if language = ''c'' then
        (let outputPath = TrimSuffix path ''.c''
         in (''sh'', [''-c'', ''gcc -Wall -Wextra -Werror -O2 -o '' @ outputPath @ '' '' @ path
                              @ '' && '' @ outputPath]))
      else if language = ''python'' then (''python'', [path])
      else if language = ''java'' then
        (let className = TrimSuffix (path_Base path) ''.java''; fileDir = path_Dir path
         in (''sh'', [''-c'', ''javac -d '' @ fileDir @ '' '' @ path @ '' && java -cp '' @ fileDir
                              @ '' '' @ className]))
      else if language = ''javascript'' then (''node'', [path])
      else ('''', []))"

definition runCodeContainer :: "docker \<Rightarrow> string \<Rightarrow> string \<Rightarrow> ContainerSlot \<Rightarrow> (go_error, int \<times> string) result \<times> docker_call list" where
  "runCodeContainer d language path slot =
     (case getCommand language path of (cmd, args) \<Rightarrow>
        if cmd = '''' then (Inl (ErrNoCommand language), [])
        else InContainerRunCode d (slotName slot) cmd args)"

subsection \<open>RunCode\<close>

text \<open>
  Everything a run sees of the outside: the pool at the moment of the acquire, whether its 5 s
  context expired and which ready case the \<open>select\<close> took, the generated id, the file system,
  Docker, and \<open>others\<close>, what the other goroutines do to the pool while this run owns its slot.
\<close>

record run_env =
  acqDone :: bool
  acqPreferDone :: bool
  uniqueID :: string
  fsOf :: fs_env
  dockerOf :: docker
  others :: "ContainerPool \<Rightarrow> ContainerPool"

record run_result =
  runDuration :: int
  runResp :: ExecuteResponse
  runErr :: "go_error option"
  runPool :: ContainerPool
  runReq :: ExecuteRequest                          \<comment> \<open>the request, its language rewritten in place\<close>
  runReleases :: "(string \<times> ContainerSlot \<times> bool) list"  \<comment> \<open>the \<open>ReleaseSlot\<close> calls\<close>
  runFs :: "fs_call list"
  runDocker :: "docker_call list"
  runMetric :: "(string \<times> string) option"           \<comment> \<open>labels of the \<open>CodeExecutionTotal\<close> increment\<close>

definition initResponse :: "ExecuteRequest \<Rightarrow> ExecuteResponse" where
  "initResponse q = zeroResponse\<lparr>respId := reqId q, respUid := reqUid q, respCallBackUrl := reqCallBackUrl q\<rparr>"

text \<open>The deferred \<open>ReleaseSlot\<close>, run on the pool as it is when \<open>RunCode\<close> returns.\<close>

definition finishRun :: "run_env \<Rightarrow> ContainerPool \<Rightarrow> ContainerSlot \<Rightarrow> bool \<Rightarrow> run_result \<Rightarrow> run_result" where
  "finishRun env p slot healthy res =
     res\<lparr>runPool := snd (Release (others env p) (Language (runReq res)) slot healthy),
         runReleases := [(Language (runReq res), slot, healthy)]\<rparr>"

definition runWithSlot :: "run_env \<Rightarrow> ContainerPool \<Rightarrow> ExecuteRequest \<Rightarrow> ContainerSlot \<Rightarrow> run_result" where
  \<comment> \<open>the request is already normalized; the pool is the one after the acquire\<close>
  "runWithSlot env p q slot =
     (let base = \<lparr>runDuration = 0, runResp = initResponse q, runErr = None, runPool = p, runReq = q,
                  runReleases = [], runFs = [], runDocker = [], runMetric = None\<rparr>;
          path = HostPath slot @ ''/'' @ uniqueID env;
          rc = createFile (fsOf env) (Language q) (CodeBlock q) path newRunCode
      in if rcErr rc \<noteq> None
         then finishRun env p slot True (base\<lparr>runErr := rcErr rc, runFs := fsLog rc\<rparr>)
         else
           let containerPath = ''/app/'' @ uniqueID env @ ''/main.'' @ extension rc in
           (case runCodeContainer (dockerOf env) (Language q) containerPath slot of (r, calls) \<Rightarrow>
              let cleaned = base\<lparr>runFs := fsLog rc @ [CloseFile, RemoveAll (rcPath rc)], runDocker := calls\<rparr> in
              (case r of
                 Inl e \<Rightarrow>
                   finishRun env p slot (\<not> is_exec_timeout e)
                     (cleaned\<lparr>runErr := Some e, runResp := (initResponse q)\<lparr>Err := err_text e\<rparr>,
                              runMetric := Some (Language q, ''error'')\<rparr>)
               | Inr (ms, out) \<Rightarrow>
                   finishRun env p slot True
                     (cleaned\<lparr>runDuration := ms, runResp := (initResponse q)\<lparr>Result := out\<rparr>,
                              runMetric := Some (Language q, ''success'')\<rparr>))))"

definition RunCode :: "run_env \<Rightarrow> ContainerPool \<Rightarrow> ExecuteRequest \<Rightarrow> run_result option" where
  \<comment> \<open>None: the acquire is still blocked; its context ends it after 5 s\<close>
  "RunCode env p q0 =
     (let q = q0\<lparr>Language := normalizeLang (Language q0)\<rparr> in
      case Acquire p (Language q) (acqDone env) (acqPreferDone env) of (a, p') \<Rightarrow>
        (case a of
           AcqBlocks \<Rightarrow> None
         | AcqErr e \<Rightarrow>
             Some \<lparr>runDuration = 0, runResp = initResponse q, runErr = Some e, runPool = p', runReq = q,
                   runReleases = [], runFs = [], runDocker = [], runMetric = None\<rparr>
         | AcqSlot slot \<Rightarrow> Some (runWithSlot env p' q slot)))"

subsection \<open>The language tables agree\<close>

lemma langAliases_range: "langAliases a = Some v \<Longrightarrow> v \<in> set supportedLanguages"
  by (auto simp: langAliases_def supportedLanguages_def split: if_splits)

lemma supported_lower: "l \<in> set supportedLanguages \<Longrightarrow> ToLower_ascii l = l"
  by (auto simp: supportedLanguages_def lower_char_def)

lemma ascii_no_space_ends:
  assumes "ascii s" and "s \<noteq> []" and "byte (hd s) \<notin> {9, 10, 11, 12, 13, 32}" and "byte (last s) \<notin> {9, 10, 11, 12, 13, 32}"
  shows "no_space_ends s"
proof -
  have "\<not> HasPrefix s p \<and> \<not> HasSuffix s p" if p: "p \<in> set space_encodings" for p
  proof
    show "\<not> HasPrefix s p"
    proof
      assume "HasPrefix s p"
      then obtain r where "s = p @ r" by (auto simp: HasPrefix_iff)
      with p assms show False by (auto simp: space_encodings_def ascii_def)
    qed
    show "\<not> HasSuffix s p"
    proof
      assume "HasSuffix s p"
      then obtain r where "s = r @ p" by (auto simp: HasSuffix_iff)
      with p assms show False by (auto simp: space_encodings_def ascii_def)
    qed
  qed
  then show ?thesis by (simp add: no_space_ends_def)
qed

lemma supported_trim: "l \<in> set supportedLanguages \<Longrightarrow> TrimSpace l = l"
  by (rule TrimSpace_id, rule ascii_no_space_ends) (auto simp: supportedLanguages_def ascii_def)

lemma supported_alias: "l \<in> set supportedLanguages \<Longrightarrow> langAliases l = Some l"
  by (auto simp: supportedLanguages_def langAliases_def)

lemma normalizeLang_supported: "l \<in> set supportedLanguages \<Longrightarrow> normalizeLang l = l"
  by (simp add: normalizeLang_def supported_trim supported_lower supported_alias)

lemma normalizeLang_idem: "normalizeLang (normalizeLang l) = normalizeLang l"
proof (cases "langAliases (ToLower_ascii (TrimSpace l))")
  case None
  then show ?thesis by (simp add: normalizeLang_def)
next
  case (Some v)
  then have "normalizeLang l = v" and "v \<in> set supportedLanguages"
    by (simp_all add: normalizeLang_def langAliases_range)
  then show ?thesis by (simp add: normalizeLang_supported)
qed

lemma supported_extension: "l \<in> set supportedLanguages \<Longrightarrow> \<exists>e. extensionMap (ToLower_ascii l) = Some e"
  by (simp add: supported_lower) (auto simp: supportedLanguages_def extensionMap_def)

lemma supported_command: "l \<in> set supportedLanguages \<Longrightarrow> fst (getCommand l path) \<noteq> ''''"
  by (auto simp: supportedLanguages_def getCommand_def Let_def)

subsection \<open>createFile\<close>

lemmas createFile_steps =
  createFile_def getFileExtension_def createBlockContent_def createBlockFile_def writeCode_def syncDisk_def

lemma createFile_errors:
  "rcErr (createFile fs lang code path newRunCode) = Some e \<Longrightarrow>
     e = ErrNoExtension \<and> extensionMap (ToLower_ascii lang) = None \<or> (\<exists>t. e = ErrForeign t)"
  by (auto simp: createFile_steps newRunCode_def Let_def split: option.splits if_splits)

lemma createFile_ok_iff:
  "rcErr (createFile fs lang code path newRunCode) = None \<longleftrightarrow>
     extensionMap (ToLower_ascii lang) \<noteq> None \<and> mkdirErr fs = None \<and> createErr fs = None
     \<and> writeErr fs = None \<and> syncErr fs = None"
  by (auto simp: createFile_steps newRunCode_def Let_def split: option.splits if_splits)

lemma createFile_ok:
  assumes "rcErr (createFile fs lang code path newRunCode) = None"
  shows "\<exists>ext. extensionMap (ToLower_ascii lang) = Some ext
    \<and> createFile fs lang code path newRunCode =
        \<lparr>rcErr = None, extension = ext, rcFile = Some (path @ ''/main.'' @ ext), rcPath = path,
         fsLog = [MkdirAll path, Create (path @ ''/main.'' @ ext), WriteString code, SyncFile]\<rparr>"
  using assms unfolding createFile_ok_iff
  by (auto simp: createFile_steps newRunCode_def Let_def)

lemma createFile_no_remove: "RemoveAll d \<notin> set (fsLog (createFile fs lang code path newRunCode))"
  by (auto simp: createFile_steps newRunCode_def Let_def split: option.splits)

subsection \<open>RunCode on every path\<close>

lemma finishRun_simps [simp]:
  "runReleases (finishRun env p slot h res) = [(Language (runReq res), slot, h)]"
  "runPool (finishRun env p slot h res) = snd (Release (others env p) (Language (runReq res)) slot h)"
  "runErr (finishRun env p slot h res) = runErr res"
  "runResp (finishRun env p slot h res) = runResp res"
  "runReq (finishRun env p slot h res) = runReq res"
  "runFs (finishRun env p slot h res) = runFs res"
  "runDocker (finishRun env p slot h res) = runDocker res"
  "runDuration (finishRun env p slot h res) = runDuration res"
  "runMetric (finishRun env p slot h res) = runMetric res"
  by (simp_all add: finishRun_def)

lemma runWithSlot_release:
  "runReleases (runWithSlot env p q slot) =
     [(Language q, slot, runErr (runWithSlot env p q slot) \<noteq> Some ErrContainerExecTimeout)]
   \<and> runPool (runWithSlot env p q slot) =
     snd (Release (others env p) (Language q) slot
            (runErr (runWithSlot env p q slot) \<noteq> Some ErrContainerExecTimeout))"
proof (cases "rcErr (createFile (fsOf env) (Language q) (CodeBlock q) (HostPath slot @ ''/'' @ uniqueID env) newRunCode)")
  case None
  then show ?thesis
    by (auto simp: runWithSlot_def Let_def is_exec_timeout_def split: prod.splits sum.splits)
next
  case (Some e)
  then have "e \<noteq> ErrContainerExecTimeout" using createFile_errors by blast
  with Some show ?thesis by (simp add: runWithSlot_def Let_def)
qed

lemma runWithSlot_resp:
  "respId (runResp (runWithSlot env p q slot)) = reqId q
   \<and> respUid (runResp (runWithSlot env p q slot)) = reqUid q
   \<and> respCallBackUrl (runResp (runWithSlot env p q slot)) = reqCallBackUrl q"
  by (auto simp: runWithSlot_def Let_def initResponse_def zeroResponse_def split: prod.splits sum.splits)

lemma runWithSlot_errors:
  assumes "Language q \<in> set supportedLanguages"
  shows "runErr (runWithSlot env p q slot) \<noteq> Some ErrNoExtension
    \<and> runErr (runWithSlot env p q slot) \<noteq> Some (ErrNoCommand l)"
proof -
  have inContainer: "fst (InContainerRunCode d n c a) \<noteq> Inl ErrNoExtension
      \<and> fst (InContainerRunCode d n c a) \<noteq> Inl (ErrNoCommand l)" for d n c a
    by (auto simp: InContainerRunCode_def Let_def runInspected_def split: sum.splits prod.splits)
  have run: "fst (runCodeContainer d (Language q) path slot) \<noteq> Inl ErrNoExtension
      \<and> fst (runCodeContainer d (Language q) path slot) \<noteq> Inl (ErrNoCommand l)" for d path
    using supported_command [OF assms, of path] inContainer
    by (auto simp: runCodeContainer_def split: prod.splits)
  have create: "rcErr (createFile (fsOf env) (Language q) (CodeBlock q) path newRunCode) \<noteq> Some ErrNoExtension
      \<and> rcErr (createFile (fsOf env) (Language q) (CodeBlock q) path newRunCode) \<noteq> Some (ErrNoCommand l)" for path
    using createFile_errors [of "fsOf env" "Language q" "CodeBlock q" path] supported_extension [OF assms] by fastforce
  show ?thesis
    using create run
    by (auto simp: runWithSlot_def Let_def split: prod.splits sum.splits) (metis fst_conv)+
qed

subsection \<open>The pool around a run\<close>

text \<open>
  An open pool: no channel closed and none over its capacity. A slot acquired from it and put
  back healthy leaves every language with the same idle containers.
\<close>

definition pool_open :: "ContainerPool \<Rightarrow> bool" where
  "pool_open p \<longleftrightarrow> \<not> closed p \<and>
     (\<forall>l lp. pools p l = Some lp \<longrightarrow> chan_ok (idle lp) \<and> \<not> chanClosed (idle lp))"

lemma acquire_release_idle:
  assumes "pool_open p" and "Acquire p lang dn pref = (AcqSlot s, p')"
  shows "idle_slots (snd (Release p' lang s True)) l = idle_slots p l"
proof -
  from Acquire_slotD [OF assms(2)] obtain lp c where
    a: "pools p lang = Some lp" "chan_recv (idle lp) = Received s c" "p' = set_idle p lang lp c"
    by blast
  from a(1) assms(1) have "chan_ok (idle lp)" "\<not> chanClosed (idle lp)" "\<not> closed p"
    by (auto simp: pool_open_def)
  with a chan_recv_ReceivedD [OF a(2)] show ?thesis
    by (auto simp: Release_def releaseSend_def chan_send_def chan_ok_def idle_slots_def)
qed

text \<open>
  C11. A run returns its container exactly once. Whatever fails (directory, file, write, sync,
  Docker, deadline), a \<open>RunCode\<close> that obtained a slot makes exactly one \<open>ReleaseSlot\<close> call, for
  the language and the slot it acquired, and reports the container unhealthy exactly when the
  run ended with \<open>ErrContainerExecTimeout\<close>; a run without a slot releases nothing and leaves the
  pool as it was.
\<close>

theorem run_code_releases_once:
  assumes "RunCode env p q = Some r"
  shows "case Acquire p (normalizeLang (Language q)) (acqDone env) (acqPreferDone env) of
      (AcqSlot s, p') \<Rightarrow>
        runReleases r = [(normalizeLang (Language q), s, runErr r \<noteq> Some ErrContainerExecTimeout)]
        \<and> runPool r = snd (Release (others env p') (normalizeLang (Language q)) s
                             (runErr r \<noteq> Some ErrContainerExecTimeout))
    | (_, p') \<Rightarrow> runReleases r = [] \<and> runPool r = p"
proof -
  let ?q = "q\<lparr>Language := normalizeLang (Language q)\<rparr>"
  obtain a p' where acq: "Acquire p (normalizeLang (Language q)) (acqDone env) (acqPreferDone env) = (a, p')"
    by (cases "Acquire p (normalizeLang (Language q)) (acqDone env) (acqPreferDone env)")
  show ?thesis
  proof (cases a)
    case (AcqSlot s)
    with assms acq have "r = runWithSlot env p' ?q s" by (simp add: RunCode_def Let_def)
    with runWithSlot_release [of env p' ?q s] show ?thesis using acq AcqSlot by simp
  next
    case (AcqErr e)
    with assms acq Acquire_no_slot_unchanged [OF acq] show ?thesis
      by (auto simp: RunCode_def Let_def)
  next
    case AcqBlocks
    with assms acq show ?thesis by (simp add: RunCode_def Let_def)
  qed
qed

text \<open>
  A healthy run is neutral for the pool. With no interference, a run on an open pool that
  does not time out leaves every language with the same idle containers, however it failed.
\<close>

theorem run_code_preserves_idle:
  assumes "pool_open p" and "RunCode env p q = Some r" and "others env = id"
    and "runErr r \<noteq> Some ErrContainerExecTimeout"
  shows "idle_slots (runPool r) l = idle_slots p l"
proof -
  let ?q = "q\<lparr>Language := normalizeLang (Language q)\<rparr>"
  obtain a p' where acq: "Acquire p (Language ?q) (acqDone env) (acqPreferDone env) = (a, p')"
    by (cases "Acquire p (Language ?q) (acqDone env) (acqPreferDone env)")
  show ?thesis
  proof (cases a)
    case (AcqSlot s)
    with assms(2) acq have "r = runWithSlot env p' ?q s" by (simp add: RunCode_def Let_def)
    with runWithSlot_release [of env p' ?q s] assms(3,4)
    have "runPool r = snd (Release p' (Language ?q) s True)" by simp
    with acquire_release_idle [OF assms(1)] acq AcqSlot show ?thesis by simp
  next
    case (AcqErr e)
    with assms(2) acq Acquire_no_slot_unchanged [OF acq] show ?thesis by (auto simp: RunCode_def Let_def)
  next
    case AcqBlocks
    with assms(2) acq show ?thesis by (simp add: RunCode_def Let_def)
  qed
qed

text \<open>
  C24. The three language tables agree. In a worker whose pool holds only the supported
  languages, a run never fails because a language the pool accepted has no file extension or no
  command, whatever alias, case or surrounding white space the request used.
\<close>

theorem run_code_language_total:
  assumes "Languages p \<subseteq> set supportedLanguages" and "RunCode env p q = Some r"
  shows "runErr r \<noteq> Some ErrNoExtension \<and> runErr r \<noteq> Some (ErrNoCommand l)"
proof -
  let ?q = "q\<lparr>Language := normalizeLang (Language q)\<rparr>"
  obtain a p' where acq: "Acquire p (Language ?q) (acqDone env) (acqPreferDone env) = (a, p')"
    by (cases "Acquire p (Language ?q) (acqDone env) (acqPreferDone env)")
  show ?thesis
  proof (cases a)
    case (AcqSlot s)
    with acq have "Language ?q \<in> Languages p"
      by (auto simp: Languages_def dest!: Acquire_slotD)
    with assms(1) have "Language ?q \<in> set supportedLanguages" by blast
    moreover have "r = runWithSlot env p' ?q s"
      using AcqSlot assms(2) acq by (simp add: RunCode_def Let_def)
    ultimately show ?thesis using runWithSlot_errors [of ?q env p' s l] by simp
  next
    case (AcqErr e)
    with acq have "e \<noteq> ErrNoExtension \<and> e \<noteq> ErrNoCommand l"
      by (auto simp: Acquire_def acquireSelect_def split: if_splits option.splits recv_result.splits)
    with AcqErr assms(2) acq show ?thesis by (auto simp: RunCode_def Let_def)
  next
    case AcqBlocks
    with assms(2) acq show ?thesis by (simp add: RunCode_def Let_def)
  qed
qed

text \<open>
  When the run's directory is removed. A run with a slot removes its directory
  \<open>HostPath/uniqueID\<close> exactly when writing the program succeeded; when the directory was created
  but the file could not be created, written or synced, the directory stays behind.
\<close>

theorem run_code_cleanup_iff:
  "(RemoveAll (HostPath s @ ''/'' @ uniqueID env) \<in> set (runFs (runWithSlot env p q s)) \<longleftrightarrow>
      extensionMap (ToLower_ascii (Language q)) \<noteq> None \<and> mkdirErr (fsOf env) = None
      \<and> createErr (fsOf env) = None \<and> writeErr (fsOf env) = None \<and> syncErr (fsOf env) = None)
 \<and> (MkdirAll (HostPath s @ ''/'' @ uniqueID env) \<in> set (runFs (runWithSlot env p q s)) \<longleftrightarrow>
      extensionMap (ToLower_ascii (Language q)) \<noteq> None)"
proof -
  have mk: "MkdirAll path \<in> set (fsLog (createFile fs l code path newRunCode))
      \<longleftrightarrow> extensionMap (ToLower_ascii l) \<noteq> None" for fs l code path
    by (auto simp: createFile_steps newRunCode_def Let_def split: option.splits)
  have path: "rcPath (createFile fs l code path newRunCode) = path"
    if "rcErr (createFile fs l code path newRunCode) = None" for fs l code path
    using createFile_ok [OF that] by auto
  show ?thesis
    using createFile_ok_iff [of "fsOf env" "Language q" "CodeBlock q" "HostPath s @ ''/'' @ uniqueID env"]
      path mk createFile_no_remove
    by (auto simp: runWithSlot_def Let_def split: prod.splits sum.splits)
qed

text \<open>
  The program runs only in its own container. Every command a run starts in Docker is the
  command of the (normalized) language on the file it wrote, and it is started in a container
  whose id Docker gave for the name of the slot the run owns.
\<close>

theorem run_code_own_container:
  assumes "ExecCreate cid cl \<in> set (runDocker (runWithSlot env p q s))"
  shows "(\<exists>n. inspectCt (dockerOf env) n (slotName s) = Inr cid)
    \<and> (\<exists>ext cmd args. extensionMap (ToLower_ascii (Language q)) = Some ext
         \<and> getCommand (Language q) (''/app/'' @ uniqueID env @ ''/main.'' @ ext) = (cmd, args)
         \<and> cl = cmd # args)"
proof -
  let ?path = "HostPath s @ ''/'' @ uniqueID env"
  let ?rc = "createFile (fsOf env) (Language q) (CodeBlock q) ?path newRunCode"
  have ok: "rcErr ?rc = None"
    using assms by (auto simp: runWithSlot_def Let_def split: if_splits)
  then obtain ext where ext: "extensionMap (ToLower_ascii (Language q)) = Some ext" "extension ?rc = ext"
    using createFile_ok [OF ok] by auto
  let ?cp = "''/app/'' @ uniqueID env @ ''/main.'' @ ext"
  obtain cmd args where cmd: "getCommand (Language q) ?cp = (cmd, args)"
    by (cases "getCommand (Language q) ?cp")
  have "ExecCreate cid cl \<in> set (snd (runCodeContainer (dockerOf env) (Language q) ?cp s))"
    using assms ok ext by (auto simp: runWithSlot_def Let_def split: prod.splits sum.splits)
  then have "ExecCreate cid cl \<in> set (snd (InContainerRunCode (dockerOf env) (slotName s) cmd args))"
    using cmd by (auto simp: runCodeContainer_def split: if_splits)
  from InContainerRunCode_exec [OF this] cmd ext show ?thesis by blast
qed

subsection \<open>Witnesses\<close>

definition wit_docker :: docker where
  "wit_docker = \<lparr>inspectCt = (\<lambda>n name. Inr (''id-'' @ name)), listCt = (\<lambda>_. Inr []), startCt = (\<lambda>_. None),
     execCreate = (\<lambda>_ _. Inr ''x1''), execAttach = (\<lambda>_. None), execStream = (\<lambda>_. StreamDone None ''hi''),
     execInspect = (\<lambda>_. Inr 0), lateDeadline = False, elapsedMs = 12\<rparr>"

definition wit_env :: run_env where
  "wit_env = \<lparr>acqDone = False, acqPreferDone = False, uniqueID = ''u1'',
     fsOf = \<lparr>mkdirErr = None, createErr = None, writeErr = None, syncErr = None\<rparr>,
     dockerOf = wit_docker, others = id\<rparr>"

definition wit_req :: ExecuteRequest where
  "wit_req = \<lparr>reqId = ''r1'', reqUid = 7, Language = ''golang'', CodeBlock = ''package main'',
              reqCallBackUrl = ''http://cb''\<rparr>"

lemma wit_norm: "normalizeLang (Language wit_req) = ''golang''"
  using normalizeLang_supported [of "''golang''"] by (simp add: wit_req_def supportedLanguages_def)

lemma wit_acquire:
  "\<exists>p'. Acquire small_pool ''golang'' (acqDone wit_env) (acqPreferDone wit_env) = (AcqSlot (go_slot 0), p')"
  by (simp add: Acquire_def acquireSelect_def small_pool_golang chan_recv_def small_slots wit_env_def)

lemma wit_run_env_ok:
  "runErr (runWithSlot wit_env p (wit_req\<lparr>Language := ''golang''\<rparr>) s) = None"
  "ExecCreate (''id-'' @ slotName s) [''go'', ''run'', ''/app/u1/main.go'']
     \<in> set (runDocker (runWithSlot wit_env p (wit_req\<lparr>Language := ''golang''\<rparr>) s))"
  by (simp_all add: runWithSlot_def Let_def lower_char_def wit_env_def wit_req_def createFile_steps newRunCode_def extensionMap_def
      supportedLanguages_def runCodeContainer_def getCommand_def InContainerRunCode_def runInspected_def
      buildExec_def wit_docker_def)

lemma wit_run: "\<exists>r. RunCode wit_env small_pool wit_req = Some r \<and> runErr r = None"
  using wit_acquire wit_run_env_ok by (auto simp: RunCode_def wit_norm Let_def)

theorem run_code_releases_once_witness:
  "\<exists>r. RunCode wit_env small_pool wit_req = Some r \<and> runReleases r = [(''golang'', go_slot 0, True)]"
proof -
  obtain r where r: "RunCode wit_env small_pool wit_req = Some r" "runErr r = None" using wit_run by blast
  obtain p' where "Acquire small_pool ''golang'' (acqDone wit_env) (acqPreferDone wit_env) = (AcqSlot (go_slot 0), p')"
    using wit_acquire by blast
  with run_code_releases_once [OF r(1)] r show ?thesis by (simp add: wit_norm)
qed

lemma small_pool_open: "pool_open small_pool"
proof -
  have "chan_ok (idle lp) \<and> \<not> chanClosed (idle lp)" if "pools small_pool l = Some lp" for l lp
    using pool_start_pools [OF small_pool_start, of l] that
    by (auto simp: chan_ok_def split: option.splits)
  then show ?thesis by (simp add: pool_open_def small_pool_golang)
qed

theorem run_code_preserves_idle_witness:
  "\<exists>r. RunCode wit_env small_pool wit_req = Some r
     \<and> idle_slots (runPool r) ''golang'' = {#go_slot 0, go_slot 1#}"
proof -
  obtain r where r: "RunCode wit_env small_pool wit_req = Some r" "runErr r = None" using wit_run by blast
  from run_code_preserves_idle [OF small_pool_open r(1), of "''golang''"] r
  have "idle_slots (runPool r) ''golang'' = idle_slots small_pool ''golang''"
    by (simp add: wit_env_def)
  with r(1) show ?thesis by (auto simp: idle_slots_def small_pool_golang small_slots)
qed

lemma small_pool_languages: "Languages small_pool \<subseteq> set supportedLanguages"
proof
  fix l
  assume "l \<in> Languages small_pool"
  then obtain n where "map_of (rev (ToPoolSizes small_cfg)) l = Some n"
    using pool_start_pools [OF small_pool_start, of l] by (auto simp: Languages_def split: option.splits)
  then have "l \<in> fst ` set (ToPoolSizes small_cfg)" by (auto dest!: map_of_SomeD intro: rev_image_eqI)
  with ToPoolSizes_supported show "l \<in> set supportedLanguages" by blast
qed

theorem run_code_language_total_witness:
  "\<exists>r. RunCode wit_env small_pool wit_req = Some r \<and> runErr r \<noteq> Some ErrNoExtension"
proof -
  obtain r where r: "RunCode wit_env small_pool wit_req = Some r" using wit_run by blast
  with run_code_language_total [OF small_pool_languages r] show ?thesis by blast
qed

theorem run_code_own_container_witness:
  "\<exists>n. inspectCt wit_docker n ''code-runner-go-0'' = Inr ''id-code-runner-go-0''"
proof -
  have name: "slotName (go_slot 0) = ''code-runner-go-0''"
    by (simp add: go_slot_def mkSlot_def Itoa_def nat_str.simps char_of_def bit_0)
  show ?thesis
    using run_code_own_container [OF wit_run_env_ok(2) [of "go_slot 0" small_pool]]
    by (simp add: name wit_env_def)
qed

end
