(* ===== verification/Agent_Tools.thy ===== *)
theory Agent_Tools
  imports Run_Code
begin

text \<open>
  The agent's tool \<open>propose_execution\<close> (\<open>internal/agent/tools/propose_execution.go\<close>) and Go's
  \<open>%q\<close> quoting, which its error text and the transcript of a confirmed execution use. The tool's
  context (whether it is resumed, with which state and data) is the agent library's and an argument;
  so are the parse of the model's arguments and the fresh UUID. \<open>%q\<close> leaves a printable non-ASCII
  rune as it is; which runes are printable (\<open>strconv.IsPrint\<close>) is an argument.
\<close>

subsection \<open>Quoting\<close>

definition backslash :: char where "backslash = CHR 0x5C"
definition dquote :: char where "dquote = CHR 0x22"

text \<open>The escape of one ASCII byte: \<open>strconv.appendEscapedRune\<close>.\<close>

definition quote_ascii :: "char \<Rightarrow> string" where
  "quote_ascii c =
     (if c = dquote \<or> c = backslash then [backslash, c]
      else if 32 \<le> byte c \<and> byte c < 127 then [c]
      else if byte c = 7 then [backslash, CHR ''a'']
      else if byte c = 8 then [backslash, CHR ''b'']
      else if byte c = 12 then [backslash, CHR ''f'']
      else if byte c = 10 then [backslash, CHR ''n'']
      else if byte c = 13 then [backslash, CHR ''r'']
      else if byte c = 9 then [backslash, CHR ''t'']
      else if byte c = 11 then [backslash, CHR ''v'']
      else backslash # CHR ''x'' # hex_byte (byte c))"

fun rune_value :: "string \<Rightarrow> nat" where
  "rune_value [a] = byte a"
| "rune_value [a, b] = (byte a mod 32) * 64 + byte b mod 64"
| "rune_value [a, b, c] = (byte a mod 16) * 4096 + (byte b mod 64) * 64 + byte c mod 64"
| "rune_value [a, b, c, d] = (byte a mod 8) * 262144 + (byte b mod 64) * 4096 + (byte c mod 64) * 64 + byte d mod 64"
| "rune_value _ = 0"

definition quote_chunk :: "(nat \<Rightarrow> bool) \<Rightarrow> string \<Rightarrow> string" where
  "quote_chunk is_print ch =
     (if length ch = 1
      then (if byte (hd ch) < 128 then quote_ascii (hd ch) else backslash # CHR ''x'' # hex_byte (byte (hd ch)))
      else let r = rune_value ch
           in if is_print r then ch
              else if r < 65536 then backslash # CHR ''u'' # hex_byte (r div 256) @ hex_byte (r mod 256)
              else backslash # CHR ''U'' # hex_byte 0 @ hex_byte (r div 65536) @ hex_byte (r div 256 mod 256) @ hex_byte (r mod 256))"

definition Quote :: "(nat \<Rightarrow> bool) \<Rightarrow> string \<Rightarrow> string" where
  "Quote is_print s = dquote # concat (map (quote_chunk is_print) (rune_chunks s)) @ [dquote]"

subsection \<open>Languages\<close>

definition languageMap :: "string \<rightharpoonup> string" where
  "languageMap = map_of
     [(''go'', ''golang''), (''Go'', ''golang''), (''golang'', ''golang''),
      (''python'', ''python''), (''Python'', ''python''), (''py'', ''python''),
      (''javascript'', ''javascript''), (''js'', ''javascript''), (''JavaScript'', ''javascript''),
      (''java'', ''java''), (''Java'', ''java''),
      (''c'', ''c''), (''C'', ''c'')]"

definition normalizeLanguage :: "(nat \<Rightarrow> bool) \<Rightarrow> string \<Rightarrow> (string, string) result" where
  "normalizeLanguage is_print lang0 =
     (let lang = TrimSpace lang0
      in case languageMap lang of
           Some n \<Rightarrow> Inr n
         | None \<Rightarrow> Inl (''unsupported language: '' @ Quote is_print lang))"

subsection \<open>The tool\<close>

record ProposalInfo =
  prID :: string
  prCode :: string
  prLanguage :: string
  prDescription :: string

record proposeExecutionInput =
  inNewCode :: string
  inLanguage :: string
  inDescription :: string

text \<open>The library's context: the interrupt state, and the data of a resumption aimed at this call.\<close>

record tool_context =
  wasInterrupted :: bool
  savedState :: "ProposalInfo option"
  isTarget :: bool
  resumeData :: "string option"

datatype tool_outcome =
    ToolResult string
  | ToolParseError
  | ToolInterrupt ProposalInfo ProposalInfo
    \<comment> \<open>the information shown to the user, and the state saved for the resumption\<close>

definition InvokableRun :: "(nat \<Rightarrow> bool) \<Rightarrow> tool_context \<Rightarrow> proposeExecutionInput option \<Rightarrow> string \<Rightarrow> tool_outcome" where
  "InvokableRun is_print ctx parsed uuid =
     (case (wasInterrupted ctx, savedState ctx) of
        (True, Some st) \<Rightarrow>
          (case (isTarget ctx, resumeData ctx) of
             (True, Some data) \<Rightarrow> ToolResult data
           | _ \<Rightarrow> ToolInterrupt st st)
      | _ \<Rightarrow>
          (case parsed of
             None \<Rightarrow> ToolParseError
           | Some inp \<Rightarrow>
               (case normalizeLanguage is_print (inLanguage inp) of
                  Inl err \<Rightarrow> ToolResult (''Error: '' @ err @ ''. Supported languages: golang, python, javascript, java, c'')
                | Inr normalized \<Rightarrow>
                    (let p = \<lparr>prID = uuid, prCode = inNewCode inp, prLanguage = normalized, prDescription = inDescription inp\<rparr>
                     in ToolInterrupt p p))))"

text \<open>What the model is told about the tool.\<close>

record ParameterInfo =
  paDesc :: string
  paRequired :: bool

record ToolInfo =
  tiName :: string
  tiDesc :: string
  tiParams :: "(string \<times> ParameterInfo) list"    \<comment> \<open>all of them strings\<close>

definition comma_list :: "string list \<Rightarrow> string" where
  "comma_list ss = concat (map (\<lambda>s. s @ '', '') (butlast ss)) @ last ss"

definition tool_Info :: ToolInfo where
  "tool_Info =
     \<lparr>tiName = ''propose_execution'',
      tiDesc = ''Propose code for execution. Use when you have a concrete, complete code change ready to run. '' @
               ''NOT for speculative or incomplete code.'',
      tiParams =
        [(''new_code'', \<lparr>paDesc = ''The complete code to execute'', paRequired = True\<rparr>),
         (''language'',
          \<lparr>paDesc = ''Programming language. Must be one of: '' @
             comma_list [''golang'', ''python'', ''javascript'', ''java'', ''c''], paRequired = True\<rparr>),
         (''description'',
          \<lparr>paDesc = ''Brief explanation of what this code does or what changes were made'', paRequired = True\<rparr>)]\<rparr>"

text \<open>The arguments recorded for a confirmed call, built with \<open>%q\<close> (\<open>handler/confirm.go\<close>).\<close>

definition proposal_arguments :: "(nat \<Rightarrow> bool) \<Rightarrow> ProposalInfo \<Rightarrow> string" where
  "proposal_arguments is_print p =
     ''{'' @ dquote # ''language'' @ dquote # '':'' @ Quote is_print (prLanguage p)
     @ '','' @ dquote # ''description'' @ dquote # '':'' @ Quote is_print (prDescription p)
     @ '','' @ dquote # ''new_code'' @ dquote # '':'' @ Quote is_print (prCode p) @ ''}''"

subsection \<open>Languages agree with the worker's\<close>

lemma languageMap_worker:
  "languageMap l = Some n \<Longrightarrow> n \<in> set supportedLanguages \<and> langAliases (ToLower_ascii l) = Some n"
proof -
  assume "languageMap l = Some n"
  then have "(l, n) \<in> set [(''go'', ''golang''), (''Go'', ''golang''), (''golang'', ''golang''),
      (''python'', ''python''), (''Python'', ''python''), (''py'', ''python''),
      (''javascript'', ''javascript''), (''js'', ''javascript''), (''JavaScript'', ''javascript''),
      (''java'', ''java''), (''Java'', ''java''), (''c'', ''c''), (''C'', ''c'')]"
    unfolding languageMap_def by (rule map_of_SomeD)
  moreover have "list_all (\<lambda>(l, n). n \<in> set supportedLanguages \<and> langAliases (ToLower_ascii l) = Some n)
     [(''go'', ''golang''), (''Go'', ''golang''), (''golang'', ''golang''),
      (''python'', ''python''), (''Python'', ''python''), (''py'', ''python''),
      (''javascript'', ''javascript''), (''js'', ''javascript''), (''JavaScript'', ''javascript''),
      (''java'', ''java''), (''Java'', ''java''), (''c'', ''c''), (''C'', ''c'')]"
    by code_simp
  ultimately show ?thesis unfolding list_all_iff by blast
qed

text \<open>
  A language the tool accepts is one the workers run, under the same name: the worker's own
  normalisation of what the model wrote, and of the accepted name, gives the accepted name.
\<close>

theorem normalizeLanguage_agrees:
  assumes "normalizeLanguage is_print lang = Inr n"
  shows "n \<in> set supportedLanguages \<and> normalizeLang lang = n \<and> normalizeLang n = n"
proof -
  from assms have m: "languageMap (TrimSpace lang) = Some n"
    by (auto simp: normalizeLanguage_def Let_def split: option.splits)
  then have "normalizeLang lang = n" "n \<in> set supportedLanguages"
    using languageMap_worker [OF m] by (simp_all add: normalizeLang_def)
  then show ?thesis by (simp add: normalizeLang_supported)
qed

theorem normalizeLanguage_agrees_witness:
  "normalizeLang '' JavaScript'' = ''javascript''"
proof -
  have "TrimSpace '' JavaScript'' = ''JavaScript''" by code_simp
  then have "normalizeLanguage (\<lambda>r. True) '' JavaScript'' = Inr ''javascript''"
    by (simp add: normalizeLanguage_def languageMap_def)
  from normalizeLanguage_agrees [OF this] show ?thesis by blast
qed

text \<open>The languages the model is told are those the workers have, and each is taken as it is.\<close>

lemma tool_languages_accepted:
  "set [''golang'', ''python'', ''javascript'', ''java'', ''c''] = set supportedLanguages
   \<and> (\<forall>l \<in> set supportedLanguages. normalizeLanguage is_print l = Inr l)"
proof -
  have "TrimSpace ''golang'' = ''golang''" "TrimSpace ''python'' = ''python''" "TrimSpace ''javascript'' = ''javascript''"
    "TrimSpace ''java'' = ''java''" "TrimSpace ''c'' = ''c''" by code_simp+
  then show ?thesis by (auto simp: supportedLanguages_def normalizeLanguage_def languageMap_def)
qed

text \<open>
  The model never gets an execution result the user has not let through: a first call of the
  tool returns only an interrupt with a proposal, in a language the workers have a file extension
  and a command for and with the model's code unchanged, or the text of a refused language; a call
  resumed from an interrupt returns the data of the resumption or interrupts again.
\<close>

theorem tool_needs_confirmation:
  "(case InvokableRun is_print ctx parsed uuid of
      ToolResult r \<Rightarrow>
        (wasInterrupted ctx \<and> savedState ctx \<noteq> None \<and> isTarget ctx \<and> resumeData ctx = Some r)
        \<or> (\<exists>inp. parsed = Some inp \<and> (\<exists>err. normalizeLanguage is_print (inLanguage inp) = Inl err))
    | ToolParseError \<Rightarrow> parsed = None
    | ToolInterrupt info state \<Rightarrow>
        info = state
        \<and> (savedState ctx = Some info
           \<or> (\<exists>inp e. parsed = Some inp \<and> prCode info = inNewCode inp \<and> prID info = uuid
                \<and> extensionMap (ToLower_ascii (prLanguage info)) = Some e \<and> fst (getCommand (prLanguage info) path) \<noteq> '''')))"
proof -
  have "\<exists>e. extensionMap (ToLower_ascii n) = Some e \<and> fst (getCommand n path) \<noteq> ''''"
    if "normalizeLanguage is_print l = Inr n" for l n
  proof -
    from that have "languageMap (TrimSpace l) = Some n"
      by (auto simp: normalizeLanguage_def Let_def split: option.splits)
    then show ?thesis using languageMap_worker supported_extension supported_command by blast
  qed
  then show ?thesis
    by (auto simp: InvokableRun_def Let_def split: bool.splits option.splits sum.splits)
qed

subsection \<open>Quoted text as JSON\<close>

text \<open>What follows the opening quote of a JSON string, to the end of the text (RFC 8259).\<close>

definition hex_char :: "char \<Rightarrow> bool" where
  "hex_char c \<longleftrightarrow> (48 \<le> byte c \<and> byte c \<le> 57) \<or> (97 \<le> byte c \<and> byte c \<le> 102) \<or> (65 \<le> byte c \<and> byte c \<le> 70)"

function json_body :: "string \<Rightarrow> bool" where
  "json_body s =
     (case s of
        [] \<Rightarrow> False
      | c # cs \<Rightarrow>
          if c = dquote then cs = []
          else if c = backslash then
            (case cs of
               [] \<Rightarrow> False
             | e # r \<Rightarrow>
                 if e \<in> {dquote, backslash, CHR 0x2F, CHR ''b'', CHR ''f'', CHR ''n'', CHR ''r'', CHR ''t''} then json_body r
                 else e = CHR ''u'' \<and> 4 \<le> length r \<and> list_all hex_char (take 4 r) \<and> json_body (drop 4 r))
          else 32 \<le> byte c \<and> json_body cs)"
  by pat_completeness auto
termination by (relation "measure length") auto

declare json_body.simps [simp del]

definition json_string :: "string \<Rightarrow> bool" where
  "json_string s \<longleftrightarrow> s \<noteq> [] \<and> hd s = dquote \<and> json_body (tl s)"

definition json_quotable :: "char \<Rightarrow> bool" where
  "json_quotable c \<longleftrightarrow> 32 \<le> byte c \<and> byte c \<noteq> 127 \<or> byte c \<in> {8, 9, 10, 12, 13}"

lemma json_body_escape:
  "json_body (backslash # e # r) \<longleftrightarrow>
     (if e \<in> {dquote, backslash, CHR 0x2F, CHR ''b'', CHR ''f'', CHR ''n'', CHR ''r'', CHR ''t''} then json_body r
      else e = CHR ''u'' \<and> 4 \<le> length r \<and> list_all hex_char (take 4 r) \<and> json_body (drop 4 r))"
  by (subst json_body.simps) (simp add: dquote_def backslash_def)

lemma json_body_plain: "c \<noteq> dquote \<Longrightarrow> c \<noteq> backslash \<Longrightarrow> json_body (c # r) \<longleftrightarrow> 32 \<le> byte c \<and> json_body r"
  by (subst json_body.simps) simp

lemma quote_letters: "x \<in> {CHR ''a'', CHR ''v'', CHR ''x''} \<Longrightarrow> \<not> json_body (backslash # x # r)"
  unfolding json_body_escape by (auto simp: dquote_def backslash_def)

lemma json_body_quoted:
  assumes "byte c < 128" shows "json_body (quote_ascii c @ t) \<longleftrightarrow> json_quotable c \<and> json_body t"
proof -
  have q: "byte dquote = 34" "byte backslash = 92" by (simp_all add: dquote_def backslash_def)
  consider "c = dquote \<or> c = backslash" | "c \<noteq> dquote" "c \<noteq> backslash" "32 \<le> byte c" "byte c < 127"
    | "c \<noteq> dquote" "c \<noteq> backslash" "byte c \<in> {8, 9, 10, 12, 13}"
    | "c \<noteq> dquote" "c \<noteq> backslash" "byte c \<notin> {8, 9, 10, 12, 13}" "byte c < 32 \<or> byte c = 127"
    using assms q by fastforce
  then show ?thesis
  proof cases
    case 1
    then have "quote_ascii c = [backslash, c]" "json_quotable c" using q by (auto simp: quote_ascii_def json_quotable_def)
    then show ?thesis using 1 by (auto simp: json_body_escape)
  next
    case 2
    then have "quote_ascii c = [c]" "json_quotable c" by (simp_all add: quote_ascii_def json_quotable_def)
    then show ?thesis using 2 by (simp add: json_body_plain)
  next
    case 3
    define e where "e = (if byte c = 8 then CHR ''b'' else if byte c = 12 then CHR ''f'' else if byte c = 10 then CHR ''n''
        else if byte c = 13 then CHR ''r'' else CHR ''t'')"
    have "quote_ascii c = [backslash, e]" using 3 unfolding quote_ascii_def e_def by (elim insertE; simp)
    moreover have "json_quotable c" using 3 by (simp add: json_quotable_def)
    moreover have "e \<in> {CHR ''b'', CHR ''f'', CHR ''n'', CHR ''r'', CHR ''t''}" by (simp add: e_def)
    ultimately show ?thesis by (simp add: json_body_escape)
  next
    case 4
    define x where "x = (if byte c = 7 then CHR ''a'' else if byte c = 11 then CHR ''v'' else CHR ''x'')"
    have "\<exists>r. quote_ascii c = backslash # x # r" using 4 by (simp add: quote_ascii_def x_def) linarith
    then obtain r where r: "quote_ascii c = backslash # x # r" by blast
    have "x \<in> {CHR ''a'', CHR ''v'', CHR ''x''}" by (simp add: x_def)
    from quote_letters [OF this, of "r @ t"] have "\<not> json_body (quote_ascii c @ t)" unfolding r by simp
    moreover have "\<not> json_quotable c" using 4 by (auto simp: json_quotable_def)
    ultimately show ?thesis by blast
  qed
qed

lemma rune_chunks_ascii: "ascii s \<Longrightarrow> rune_chunks s = map (\<lambda>c. [c]) s"
proof (induction s)
  case (Cons c s)
  then have "rune_width (c # s) = 1" by (simp add: ascii_def)
  with Cons show ?case by (simp add: rune_chunks.simps [of "c # s"] ascii_def del: rune_width.simps)
qed simp

text \<open>
  The recorded arguments of a confirmed execution are built with Go's quoting, which is not
  JSON's: an ASCII text comes out as a JSON string exactly when it contains no bell, vertical tab,
  delete or other control character that Go writes as an escape JSON does not have.
\<close>

theorem quoted_text_is_json_iff:
  assumes "ascii s" shows "json_string (Quote is_print s) \<longleftrightarrow> list_all json_quotable s"
proof -
  have "json_body (concat (map (quote_chunk is_print) (map (\<lambda>c. [c]) s)) @ [dquote]) \<longleftrightarrow> list_all json_quotable s"
    using assms
  proof (induction s)
    case Nil
    then show ?case by (simp add: json_body.simps [of "[dquote]"])
  next
    case (Cons c s)
    then have "byte c < 128" "ascii s" by (simp_all add: ascii_def)
    with Cons.IH show ?case by (simp add: quote_chunk_def json_body_quoted)
  qed
  then show ?thesis by (simp add: json_string_def Quote_def rune_chunks_ascii [OF assms])
qed

theorem quoted_text_is_json_iff_witness:
  "\<not> json_string (Quote (\<lambda>r. True) (''print('' @ [CHR 0x07, CHR '')'']))"
proof -
  have "ascii (''print('' @ [CHR 0x07, CHR '')''])" by (simp add: ascii_def)
  from quoted_text_is_json_iff [OF this] show ?thesis by (simp add: json_quotable_def)
qed

end
