(* ===== verification/Ws_Server.thy ===== *)
theory Ws_Server
  imports Proto_Types Go_Channel Go_Errors
begin

text \<open>
  The server's end of a worker connection
  (\<open>internal/infrastructure/websocket/server/client.go\<close>): routing of incoming messages,
  asynchronous and synchronous sends, close and heartbeat, and the interleavings of
  synchronous calls with the read loop as a step relation.

  An incoming text frame is a \<open>MsgFrame\<close> when it unmarshals into a \<open>WsMessage\<close> and an
  \<open>OtherFrame\<close> otherwise. Results of the socket's writes and of its close are inputs. Channels are
  references into a store, because \<open>SendSync\<close> and the read loop share them.
\<close>

subsection \<open>State\<close>

datatype frame = MsgFrame WsMessage | OtherFrame string

definition pingInterval :: int where "pingInterval = 30 * 10 ^ 9"
definition pongWait :: int where "pongWait = 60 * 10 ^ 9"

record WebsocketClientImpl =
  wsIsClosed :: bool
  wsAckHandler :: "string option"
    \<comment> \<open>nil, or the callback that acknowledges requests of the client with this id\<close>
  pendingSync :: "string \<rightharpoonup> nat"
  chans :: "nat \<Rightarrow> payload chan"
  nextChan :: nat
  wsWritten :: "WsMessage list"
    \<comment> \<open>messages the socket accepted\<close>
  connCloses :: nat
    \<comment> \<open>calls of \<open>conn.Close\<close>\<close>
  readDeadline :: int

definition NewWebsocketClientImpl :: WebsocketClientImpl where
  "NewWebsocketClientImpl =
     \<lparr>wsIsClosed = False, wsAckHandler = None, pendingSync = (\<lambda>_. None), chans = (\<lambda>_. make_chan 1),
      nextChan = 0, wsWritten = [], connCloses = 0, readDeadline = 0\<rparr>"

subsection \<open>Reading\<close>

text \<open>One turn of the loop of \<open>Read\<close>.\<close>

datatype read_turn =
    ReadReturn payload
  | ReadContinue "(string \<times> string) option" WebsocketClientImpl
    \<comment> \<open>next turn, after the acknowledgement of (client id, request id) if there was one\<close>
  | ReadBlocked
    \<comment> \<open>the loop waits for room in the channel of a synchronous call\<close>

definition read_turn :: "frame \<Rightarrow> WebsocketClientImpl \<Rightarrow> read_turn" where
  "read_turn f c =
     (case f of
        OtherFrame d \<Rightarrow> ReadReturn (NotJson d)
      | MsgFrame m \<Rightarrow>
          (case msgType m of
             MsgTypeAck \<Rightarrow>
               ReadContinue (case wsAckHandler c of None \<Rightarrow> None | Some i \<Rightarrow> Some (i, RequestID m)) c
           | MsgTypeResult \<Rightarrow>
               (case pendingSync c (RequestID m) of
                  None \<Rightarrow> ReadContinue None c
                | Some r \<Rightarrow>
                    (case chan_send (chans c r) (Payload m) of
                       Sent ch \<Rightarrow> ReadContinue None (c\<lparr>chans := (chans c)(r := ch)\<rparr>)
                     | _ \<Rightarrow> ReadBlocked))
           | _ \<Rightarrow> ReadReturn (Payload m)))"

text \<open>\<open>Read\<close> on the frames that arrive before the connection fails with \<open>err\<close>.\<close>

datatype read_result =
    ReadOk payload "frame list"
    \<comment> \<open>returned payload and the frames not read yet\<close>
  | ReadErr go_error
  | ReadStuck

fun Read :: "go_error \<Rightarrow> frame list \<Rightarrow> WebsocketClientImpl
    \<Rightarrow> read_result \<times> (string \<times> string) list \<times> WebsocketClientImpl" where
  "Read err [] c = (ReadErr err, [], c)"
| "Read err (f # fs) c =
     (case read_turn f c of
        ReadReturn p \<Rightarrow> (ReadOk p fs, [], c)
      | ReadBlocked \<Rightarrow> (ReadStuck, [], c)
      | ReadContinue a c' \<Rightarrow>
          (case Read err fs c' of
             (r, acks, c'') \<Rightarrow> (r, (case a of None \<Rightarrow> acks | Some x \<Rightarrow> x # acks), c'')))"

text \<open>
  The read loop of the connection's owner (\<open>Run\<close>), which calls \<open>Read\<close> again whatever it returned,
  on the frames that arrive in a while: the acknowledgements it handles and the connection after.
\<close>

fun serve :: "frame list \<Rightarrow> WebsocketClientImpl \<Rightarrow> (string \<times> string) list \<times> WebsocketClientImpl" where
  "serve [] c = ([], c)"
| "serve (f # fs) c =
     (case read_turn f c of
        ReadReturn p \<Rightarrow> serve fs c
      | ReadBlocked \<Rightarrow> ([], c)
      | ReadContinue a c' \<Rightarrow>
          (case serve fs c' of (acks, c'') \<Rightarrow> ((case a of None \<Rightarrow> acks | Some x \<Rightarrow> x # acks), c'')))"

lemma Read_then_serve:
  "Read err fs c = (ReadOk p gs, acks, c') \<Longrightarrow> serve fs c = (case serve gs c' of (as, c'') \<Rightarrow> (acks @ as, c''))"
  "Read err fs c = (ReadErr e, acks, c') \<Longrightarrow> serve fs c = (acks, c')"
  "Read err fs c = (ReadStuck, acks, c') \<Longrightarrow> serve fs c = (acks, c')"
proof (induction fs arbitrary: c acks)
  case (Cons f fs)
  {
    case 1
    with Cons.IH(1) show ?case by (fastforce split: read_turn.splits prod.splits option.splits)
  next
    case 2
    with Cons.IH(2) show ?case by (fastforce split: read_turn.splits prod.splits option.splits)
  next
    case 3
    with Cons.IH(3) show ?case by (fastforce split: read_turn.splits prod.splits option.splits)
  }
qed simp_all

subsection \<open>Sending\<close>

definition ws_write :: "go_error option \<Rightarrow> WsMessage \<Rightarrow> WebsocketClientImpl
    \<Rightarrow> go_error option \<times> WebsocketClientImpl" where
  "ws_write werr m c =
     (case werr of Some e \<Rightarrow> (Some e, c) | None \<Rightarrow> (None, c\<lparr>wsWritten := wsWritten c @ [m]\<rparr>))"

definition ws_Send :: "go_error option \<Rightarrow> string \<Rightarrow> payload \<Rightarrow> WebsocketClientImpl
    \<Rightarrow> go_error option \<times> WebsocketClientImpl" where
  "ws_Send werr rid p c =
     ws_write werr \<lparr>msgType = MsgTypeExecute, RequestID = rid, Payload = p\<rparr> c"

definition ws_SetAckHandler :: "string \<Rightarrow> WebsocketClientImpl \<Rightarrow> WebsocketClientImpl" where
  "ws_SetAckHandler i c = c\<lparr>wsAckHandler := Some i\<rparr>"

text \<open>
  \<open>SendSync\<close> in its atomic parts: registering the channel, writing the message, taking the result
  or the timeout, and the deferred \<open>Delete\<close>.
\<close>

definition sync_register :: "string \<Rightarrow> WebsocketClientImpl \<Rightarrow> nat \<times> WebsocketClientImpl" where
  "sync_register rid c =
     (nextChan c, c\<lparr>chans := (chans c)(nextChan c := make_chan 1), nextChan := Suc (nextChan c),
                    pendingSync := (pendingSync c)(rid \<mapsto> nextChan c)\<rparr>)"

definition sync_write :: "go_error option \<Rightarrow> string \<Rightarrow> payload \<Rightarrow> WebsocketClientImpl
    \<Rightarrow> go_error option \<times> WebsocketClientImpl" where
  "sync_write werr rid p c =
     ws_write werr \<lparr>msgType = MsgTypeExecuteSync, RequestID = rid, Payload = p\<rparr> c"

definition sync_take :: "nat \<Rightarrow> WebsocketClientImpl \<Rightarrow> (payload \<times> WebsocketClientImpl) option" where
  "sync_take r c =
     (case chan_recv (chans c r) of
        Received p ch \<Rightarrow> Some (p, c\<lparr>chans := (chans c)(r := ch)\<rparr>)
      | _ \<Rightarrow> None)"

definition sync_delete :: "string \<Rightarrow> WebsocketClientImpl \<Rightarrow> WebsocketClientImpl" where
  "sync_delete rid c = c\<lparr>pendingSync := map_delete rid (pendingSync c)\<rparr>"

text \<open>
  The whole call when nothing else uses the connection but its owner's read loop, which meanwhile
  handles the frames that arrive before the timer fires.
\<close>

definition ws_SendSync :: "go_error option \<Rightarrow> frame list \<Rightarrow> string \<Rightarrow> payload \<Rightarrow> WebsocketClientImpl
    \<Rightarrow> (go_error, payload) result \<times> (string \<times> string) list \<times> WebsocketClientImpl" where
  "ws_SendSync werr arriving rid p c =
     (case sync_register rid c of
        (r, c1) \<Rightarrow>
          (case sync_write werr rid p c1 of
             (Some e, c2) \<Rightarrow> (Inl e, [], sync_delete rid c2)
           | (None, c2) \<Rightarrow>
               (case serve arriving c2 of
                  (acks, c3) \<Rightarrow>
                    (case sync_take r c3 of
                       Some (res, c4) \<Rightarrow> (Inr res, acks, sync_delete rid c4)
                     | None \<Rightarrow> (Inl (ErrSendSyncTimeout rid), acks, sync_delete rid c3)))))"

subsection \<open>Close and heartbeat\<close>

definition ws_IsClosed :: "WebsocketClientImpl \<Rightarrow> bool" where
  "ws_IsClosed c = wsIsClosed c"

definition ws_Close :: "go_error option \<Rightarrow> WebsocketClientImpl \<Rightarrow> go_error option \<times> WebsocketClientImpl" where
  "ws_Close cerr c =
     (if \<not> ws_IsClosed c then (cerr, c\<lparr>wsIsClosed := True, connCloses := Suc (connCloses c)\<rparr>)
      else (None, c))"

definition ws_HeartBeat :: "int \<Rightarrow> WebsocketClientImpl \<Rightarrow> go_error option \<times> WebsocketClientImpl" where
  "ws_HeartBeat now c = (None, c\<lparr>readDeadline := now + pongWait\<rparr>)"

definition on_ping :: "int \<Rightarrow> go_error option \<Rightarrow> go_error option \<Rightarrow> WebsocketClientImpl
    \<Rightarrow> go_error option \<times> WebsocketClientImpl" where
  "on_ping now werr cerr c =
     (let c1 = c\<lparr>readDeadline := now + pongWait\<rparr>
      in case werr of None \<Rightarrow> (None, c1) | Some e \<Rightarrow> (Some e, snd (ws_Close cerr c1)))"

definition on_pong :: "int \<Rightarrow> WebsocketClientImpl \<Rightarrow> WebsocketClientImpl" where
  "on_pong now c = c\<lparr>readDeadline := now + pongWait\<rparr>"

definition ping_tick :: "go_error option \<Rightarrow> go_error option \<Rightarrow> WebsocketClientImpl
    \<Rightarrow> bool \<times> WebsocketClientImpl" where
  \<comment> \<open>one tick of the pinger: does it go on, and the connection after it\<close>
  "ping_tick werr cerr c =
     (if ws_IsClosed c then (False, c)
      else case werr of None \<Rightarrow> (True, c) | Some e \<Rightarrow> (False, snd (ws_Close cerr c)))"

fun pinger :: "(go_error option \<times> go_error option) list \<Rightarrow> WebsocketClientImpl \<Rightarrow> WebsocketClientImpl" where
  \<comment> \<open>the pinger over the outcomes of its next writes and closes\<close>
  "pinger [] c = c"
| "pinger ((werr, cerr) # ts) c =
     (case ping_tick werr cerr c of (True, c') \<Rightarrow> pinger ts c' | (False, c') \<Rightarrow> c')"

subsection \<open>Sequential properties\<close>

lemma ws_Close_closes: "wsIsClosed (snd (ws_Close e c))"
  by (simp add: ws_Close_def ws_IsClosed_def)

lemma ws_Close_id: "wsIsClosed c \<Longrightarrow> ws_Close e c = (None, c)"
  by (simp add: ws_Close_def ws_IsClosed_def)

text \<open>Closing again, after a close that failed too, succeeds without touching the socket.\<close>

lemma ws_Close_twice: "ws_Close e' (snd (ws_Close e c)) = (None, snd (ws_Close e c))"
  by (rule ws_Close_id) (rule ws_Close_closes)

lemma pinger_closed: "wsIsClosed c \<Longrightarrow> pinger ts c = c"
  by (cases ts) (auto simp: ping_tick_def ws_IsClosed_def)

lemma pinger_all_ok: "\<forall>t \<in> set ts. fst t = None \<Longrightarrow> pinger ts c = c"
  by (induction ts) (auto simp: ping_tick_def split: if_splits)

lemma pinger_error_closes: "(Some e, d) \<in> set ts \<Longrightarrow> wsIsClosed (pinger ts c)"
  by (induction ts arbitrary: c) (auto simp: ping_tick_def ws_IsClosed_def ws_Close_closes split: option.splits if_splits)

text \<open>
  The heartbeat closes the connection exactly when a ping could not be written, and then calls
  the socket's Close at most once, however the later pings and closes fare.
\<close>

theorem heartbeat_closes_iff:
  assumes "\<not> wsIsClosed c"
  shows "(wsIsClosed (pinger ts c) \<longleftrightarrow> (\<exists>t \<in> set ts. fst t \<noteq> None))
     \<and> connCloses (pinger (ts @ us) (snd (ws_Close e (pinger ts c)))) \<le> Suc (connCloses c)"
proof
  show "wsIsClosed (pinger ts c) \<longleftrightarrow> (\<exists>t \<in> set ts. fst t \<noteq> None)"
    using pinger_error_closes [of _ _ ts c] pinger_all_ok [of ts c] assms by fastforce
  have "connCloses (pinger ts c) \<le> Suc (connCloses c) \<and> (\<not> wsIsClosed (pinger ts c) \<longrightarrow> connCloses (pinger ts c) = connCloses c)"
    using assms
    by (induction ts arbitrary: c)
      (auto simp: ping_tick_def ws_IsClosed_def ws_Close_def split: option.splits)
  then have "connCloses (snd (ws_Close e (pinger ts c))) \<le> Suc (connCloses c)"
    by (auto simp: ws_Close_def ws_IsClosed_def)
  then show "connCloses (pinger (ts @ us) (snd (ws_Close e (pinger ts c)))) \<le> Suc (connCloses c)"
    using pinger_closed [OF ws_Close_closes] by simp
qed

theorem heartbeat_closes_iff_witness:
  "connCloses (snd (ws_Close None (pinger [(None, None), (Some ErrInnerServer, None)] NewWebsocketClientImpl))) \<le> 1"
  using heartbeat_closes_iff [of NewWebsocketClientImpl "[(None, None), (Some ErrInnerServer, None)]" "[]" None]
    pinger_closed [OF ws_Close_closes]
  by (simp add: NewWebsocketClientImpl_def)

end
