(* ===== verification/Client_Manager.thy ===== *)
theory Client_Manager
  imports P2C_Balance Ws_Server
begin

text \<open>
  The registry of connected workers
  (\<open>internal/domain/server/service/clientManager.go\<close>, \<open>internal/domain/server/entity/client.go\<close>):
  which clients are connected, which requests each of them has not acknowledged, and the load
  balancer that picks among them. Clients hold a reference to their connection, because \<open>IsClosed\<close>
  and \<open>Close\<close> act on a connection the read loop and the heartbeat share.
\<close>

subsection \<open>State and operations\<close>

record Client =
  clientId :: string
  wsConn :: nat

record 'b ClientManager =
  clients :: "string \<rightharpoonup> Client"
  pendingReqs :: "string \<rightharpoonup> (string \<rightharpoonup> ExecuteRequest)"
  balancer :: 'b
  conns :: "nat \<Rightarrow> WebsocketClientImpl"

definition NewClient :: "string \<Rightarrow> nat \<Rightarrow> Client" where
  \<comment> \<open>the id is a fresh UUID, an input\<close>
  "NewClient i r = \<lparr>clientId = i, wsConn = r\<rparr>"

definition NewClientManagerDomainTmpl :: "'b \<Rightarrow> 'b ClientManager" where
  "NewClientManagerDomainTmpl strategy =
     \<lparr>clients = (\<lambda>_. None), pendingReqs = (\<lambda>_. None), balancer = strategy,
      conns = (\<lambda>_. NewWebsocketClientImpl)\<rparr>"

definition client_closed :: "Client \<Rightarrow> 'b ClientManager \<Rightarrow> bool" where
  "client_closed c s = ws_IsClosed (conns s (wsConn c))"

definition client_Close :: "go_error option \<Rightarrow> Client \<Rightarrow> 'b ClientManager
    \<Rightarrow> go_error option \<times> 'b ClientManager" where
  "client_Close cerr c s =
     (case ws_Close cerr (conns s (wsConn c)) of
        (e, w) \<Rightarrow> (e, s\<lparr>conns := (conns s)(wsConn c := w)\<rparr>))"

definition client_Send :: "go_error option \<Rightarrow> Client \<Rightarrow> ExecuteRequest \<Rightarrow> 'b ClientManager
    \<Rightarrow> go_error option \<times> 'b ClientManager" where
  "client_Send werr c req s =
     (case ws_Send werr (reqId req) (request_json req) (conns s (wsConn c)) of
        (e, w) \<Rightarrow> (e, s\<lparr>conns := (conns s)(wsConn c := w)\<rparr>))"

definition client_SendSync :: "go_error option \<Rightarrow> frame list \<Rightarrow> string \<Rightarrow> Client \<Rightarrow> ExecuteRequest
    \<Rightarrow> 'b ClientManager \<Rightarrow> (go_error, ExecuteResponse) result \<times> (string \<times> string) list \<times> 'b ClientManager" where
  \<comment> \<open>\<open>jerr\<close> is the text of the unmarshalling error, when there is one\<close>
  "client_SendSync werr arriving jerr c req s =
     (case ws_SendSync werr arriving (reqId req) (request_json req) (conns s (wsConn c)) of
        (r, acks, w) \<Rightarrow>
          ((case r of
              Inl e \<Rightarrow> Inl e
            | Inr p \<Rightarrow> (case parse_response p of
                          None \<Rightarrow> Inl (ErrUnmarshalSync jerr)
                        | Some resp \<Rightarrow> Inr resp)),
           acks, s\<lparr>conns := (conns s)(wsConn c := w)\<rparr>))"

definition AddClient :: "('b, 't) LoadBalancer \<Rightarrow> int \<Rightarrow> Client \<Rightarrow> int \<Rightarrow> 'b ClientManager \<Rightarrow> 'b ClientManager" where
  "AddClient lb now c wt s =
     s\<lparr>clients := (clients s)(clientId c \<mapsto> c),
       pendingReqs := (pendingReqs s)(clientId c \<mapsto> (\<lambda>_. None)),
       balancer := lbAdd lb (clientId c) wt now (balancer s)\<rparr>"

definition GetClientById :: "string \<Rightarrow> 'b ClientManager \<Rightarrow> (go_error, Client) result" where
  "GetClientById i s = (case clients s i of None \<Rightarrow> Inl NotFoundEffectiveServer | Some c \<Rightarrow> Inr c)"

definition RemoveClient :: "('b, 't) LoadBalancer \<Rightarrow> go_error option \<Rightarrow> string \<Rightarrow> 'b ClientManager
    \<Rightarrow> go_error option \<times> 'b ClientManager" where
  "RemoveClient lb cerr i s =
     (case GetClientById i s of
        Inl e \<Rightarrow> (Some e, s)
      | Inr c \<Rightarrow>
          (case client_Close cerr c s of
             (Some e, s') \<Rightarrow> (Some e, s')
           | (None, s') \<Rightarrow>
               (None, s'\<lparr>clients := map_delete i (clients s'), balancer := lbRemove lb i (balancer s')\<rparr>)))"

definition maxRetryPickClient :: nat where "maxRetryPickClient = 3"

text \<open>The loop of \<open>GetClientByBalance\<close>, with n tries left; \<open>env n\<close> is what that try reads from outside.\<close>

fun pick_loop :: "('b, 't) LoadBalancer \<Rightarrow> (nat \<Rightarrow> 't \<times> go_error option) \<Rightarrow> nat \<Rightarrow> 'b ClientManager
    \<Rightarrow> (go_error, Client) result \<times> 'b ClientManager" where
  "pick_loop lb env 0 s = (Inl NotFoundEffectiveServer, s)"
| "pick_loop lb env (Suc n) s =
     (case lbGet lb (fst (env n)) (balancer s) of
        (Inl e, b) \<Rightarrow> (Inl e, s\<lparr>balancer := b\<rparr>)
      | (Inr i, b) \<Rightarrow>
          (let s1 = s\<lparr>balancer := b\<rparr>
           in case clients s1 i of
                None \<Rightarrow> pick_loop lb env n (s1\<lparr>balancer := lbRemove lb i b\<rparr>)
              | Some c \<Rightarrow>
                  if client_closed c s1
                  then pick_loop lb env n (snd (RemoveClient lb (snd (env n)) (clientId c) s1))
                  else (Inr c, s1)))"

definition GetClientByBalance :: "('b, 't) LoadBalancer \<Rightarrow> (nat \<Rightarrow> 't \<times> go_error option) \<Rightarrow> 'b ClientManager
    \<Rightarrow> (go_error, Client) result \<times> 'b ClientManager" where
  "GetClientByBalance lb env s = pick_loop lb env maxRetryPickClient s"

definition cm_Done :: "('b, 't) LoadBalancer \<Rightarrow> string \<Rightarrow> int \<Rightarrow> bool \<Rightarrow> int \<Rightarrow> 'b ClientManager \<Rightarrow> 'b ClientManager" where
  "cm_Done lb i d failed now s = s\<lparr>balancer := lbDone lb i d failed now (balancer s)\<rparr>"

definition TrackRequest :: "string \<Rightarrow> string \<Rightarrow> ExecuteRequest \<Rightarrow> 'b ClientManager \<Rightarrow> 'b ClientManager" where
  "TrackRequest i rid req s =
     (case pendingReqs s i of
        None \<Rightarrow> s
      | Some reqs \<Rightarrow> s\<lparr>pendingReqs := (pendingReqs s)(i \<mapsto> reqs(rid \<mapsto> req))\<rparr>)"

definition AcknowledgeRequest :: "string \<Rightarrow> string \<Rightarrow> 'b ClientManager \<Rightarrow> 'b ClientManager" where
  "AcknowledgeRequest i rid s =
     (case pendingReqs s i of
        None \<Rightarrow> s
      | Some reqs \<Rightarrow> s\<lparr>pendingReqs := (pendingReqs s)(i \<mapsto> map_delete rid reqs)\<rparr>)"

definition DrainPending :: "string \<Rightarrow> 'b ClientManager \<Rightarrow> (string \<rightharpoonup> ExecuteRequest) \<times> 'b ClientManager" where
  \<comment> \<open>the drained map; the code returns its values in the order of a map iteration\<close>
  "DrainPending i s =
     (case pendingReqs s i of
        None \<Rightarrow> ((\<lambda>_. None), s)
      | Some reqs \<Rightarrow> (reqs, s\<lparr>pendingReqs := map_delete i (pendingReqs s)\<rparr>))"

subsection \<open>The registry over any balancer that keeps its contract\<close>

text \<open>
  \<open>cm_inv\<close>: the registered clients are the balancer's nodes, and every client is stored under its
  own id. \<open>ids\<close> and \<open>ok\<close> are the balancer's nodes and its representation invariant.
\<close>

definition cm_inv :: "('b \<Rightarrow> string set) \<Rightarrow> ('b \<Rightarrow> bool) \<Rightarrow> 'b ClientManager \<Rightarrow> bool" where
  "cm_inv ids ok s \<longleftrightarrow> ok (balancer s) \<and> ids (balancer s) = dom (clients s)
     \<and> (\<forall>i c. clients s i = Some c \<longrightarrow> clientId c = i) \<and> finite (dom (clients s))"

definition dead :: "'b ClientManager \<Rightarrow> string set" where
  \<comment> \<open>registered clients whose connection is closed\<close>
  "dead s = {i. \<exists>c. clients s i = Some c \<and> client_closed c s}"

lemma RemoveClient_closed:
  assumes "clients s i = Some c" "client_closed c s"
  shows "RemoveClient lb cerr i s
    = (None, s\<lparr>clients := map_delete i (clients s), balancer := lbRemove lb i (balancer s)\<rparr>)"
proof -
  have "client_Close cerr c s = (None, s)"
    using assms(2) ws_Close_id [of "conns s (wsConn c)" cerr]
    by (simp add: client_Close_def client_closed_def ws_IsClosed_def)
  with assms(1) show ?thesis by (simp add: RemoveClient_def GetClientById_def)
qed

locale balancer_table = load_balancer "lbRemove lb" "lbGet lb" ids wf "lbAdd lb" "lbDone lb" infl
  for lb :: "('b, 't) LoadBalancer"
    and ids :: "'b \<Rightarrow> string set"
    and wf :: "'b \<Rightarrow> bool"
    and infl :: "string \<Rightarrow> 'b \<Rightarrow> int"
begin

lemma inv_AddClient:
  "cm_inv ids wf s \<Longrightarrow> cm_inv ids wf (AddClient lb now c wt s)"
  by (auto simp: cm_inv_def AddClient_def add_ids add_wf)

lemma inv_RemoveClient:
  "cm_inv ids wf s \<Longrightarrow> cm_inv ids wf (snd (RemoveClient lb cerr i s))"
  by (auto simp: cm_inv_def RemoveClient_def GetClientById_def client_Close_def remove_ids remove_wf map_delete_def
      split: option.splits prod.splits)

lemma inv_Done: "cm_inv ids wf s \<Longrightarrow> cm_inv ids wf (cm_Done lb i d failed now s)"
  by (simp add: cm_inv_def cm_Done_def finish_ids finish_wf)

lemma inv_get:
  assumes "cm_inv ids wf s" "lbGet lb t (balancer s) = (r, b)"
  shows "cm_inv ids wf (s\<lparr>balancer := b\<rparr>)"
  using assms get_ids [of t "balancer s"] get_wf [of "balancer s" t] by (simp add: cm_inv_def)

lemma inv_pick_loop: "cm_inv ids wf s \<Longrightarrow> cm_inv ids wf (snd (pick_loop lb env n s))"
proof (induction n arbitrary: s)
  case 0
  then show ?case by simp
next
  case (Suc n)
  obtain r b where g: "lbGet lb (fst (env n)) (balancer s) = (r, b)" by fastforce
  note inv = inv_get [OF Suc.prems g]
  show ?case
  proof (cases r)
    case (Inl e)
    with g inv show ?thesis by simp
  next
    case (Inr i)
    with g get_Inr have "i \<in> ids (balancer s)" by blast
    then obtain c where c: "clients s i = Some c" using Suc.prems by (auto simp: cm_inv_def)
    show ?thesis
      using g Inr c inv Suc.IH [OF inv_RemoveClient [OF inv]] by (simp add: Let_def)
  qed
qed

lemma pick_loop_clients:
  "cm_inv ids wf s \<Longrightarrow> clients s i = None \<Longrightarrow> clients (snd (pick_loop lb env n s)) i = None"
proof (induction n arbitrary: s)
  case (Suc n)
  obtain r b where g: "lbGet lb (fst (env n)) (balancer s) = (r, b)" by fastforce
  note inv = inv_get [OF Suc.prems(1) g]
  show ?case
  proof (cases r)
    case (Inl e)
    with g Suc.prems show ?thesis by simp
  next
    case (Inr k)
    with g get_Inr have "k \<in> ids (balancer s)" by blast
    then obtain c where c: "clients s k = Some c" using Suc.prems by (auto simp: cm_inv_def)
    let ?s1 = "snd (RemoveClient lb (snd (env n)) (clientId c) (s\<lparr>balancer := b\<rparr>))"
    have "clients ?s1 i = None"
      using Suc.prems(2) by (auto simp: RemoveClient_def GetClientById_def client_Close_def map_delete_def
          split: option.splits prod.splits)
    then show ?thesis
      using g Inr c Suc.prems(2) Suc.IH [OF inv_RemoveClient [OF inv]] by (simp add: Let_def)
  qed
qed simp

text \<open>What a pick does: it hands out a live registered client and charges it, and only drops dead ones.\<close>

lemma pick_loop_Inr:
  assumes "cm_inv ids wf s" and "pick_loop lb env n s = (Inr c, s')"
  shows "clients s' (clientId c) = Some c \<and> \<not> client_closed c s' \<and> conns s' = conns s
     \<and> pendingReqs s' = pendingReqs s
     \<and> (\<forall>i. clients s' i = clients s i \<or> i \<in> dead s \<and> clients s' i = None)"
  using assms
proof (induction n arbitrary: s)
  case (Suc n)
  obtain r b where g: "lbGet lb (fst (env n)) (balancer s) = (r, b)" by fastforce
  note inv = inv_get [OF Suc.prems(1) g]
  obtain i where r: "r = Inr i" using Suc.prems(2) g by (cases r) auto
  with g get_Inr have "i \<in> ids (balancer s)" by blast
  then obtain d where d: "clients s i = Some d" "clientId d = i" using Suc.prems(1) by (auto simp: cm_inv_def)
  show ?case
  proof (cases "client_closed d s")
    case True
    let ?s1 = "s\<lparr>clients := map_delete i (clients s), balancer := lbRemove lb i b\<rparr>"
    have closed: "client_closed d (s\<lparr>balancer := b\<rparr>)" using True by (simp add: client_closed_def)
    have rm: "RemoveClient lb (snd (env n)) i (s\<lparr>balancer := b\<rparr>) = (None, ?s1)"
      using RemoveClient_closed [of "s\<lparr>balancer := b\<rparr>" i d lb "snd (env n)"] d closed by simp
    have "pick_loop lb env n ?s1 = (Inr c, s')"
      using Suc.prems(2) g r d closed rm by (simp add: Let_def)
    moreover have "cm_inv ids wf ?s1" using inv_RemoveClient [OF inv, of "snd (env n)" i] rm by simp
    ultimately have IH: "clients s' (clientId c) = Some c" "\<not> client_closed c s'" "conns s' = conns ?s1"
      "pendingReqs s' = pendingReqs ?s1"
      "\<And>j. clients s' j = clients ?s1 j \<or> j \<in> dead ?s1 \<and> clients s' j = None"
      using Suc.IH by blast+
    have "dead ?s1 \<subseteq> dead s" by (auto simp: dead_def client_closed_def map_delete_def split: if_splits)
    moreover have "i \<in> dead s" using d True by (auto simp: dead_def)
    ultimately have "clients s' j = clients s j \<or> j \<in> dead s \<and> clients s' j = None" for j
      using IH(5) [of j] by (cases "j = i") auto
    with IH show ?thesis by simp
  next
    case False
    with Suc.prems(2) g r d show ?thesis by (auto simp: Let_def client_closed_def)
  qed
qed simp

lemma pick_loop_infl:
  assumes "cm_inv ids wf s" and "pick_loop lb env n s = (Inr c, s')" and "j \<in> dom (clients s')"
  shows "infl j (balancer s') = (if j = clientId c then i64 (infl j (balancer s) + 1) else infl j (balancer s))"
  using assms
proof (induction n arbitrary: s)
  case (Suc n)
  obtain r b where g: "lbGet lb (fst (env n)) (balancer s) = (r, b)" by fastforce
  note inv = inv_get [OF Suc.prems(1) g]
  obtain i where r: "r = Inr i" using Suc.prems(2) g by (cases r) auto
  with g get_Inr have "i \<in> ids (balancer s)" by blast
  then obtain d where d: "clients s i = Some d" "clientId d = i" using Suc.prems(1) by (auto simp: cm_inv_def)
  note gi = get_infl [of "fst (env n)" "balancer s" i b j]
  show ?case
  proof (cases "client_closed d s")
    case True
    let ?s1 = "s\<lparr>clients := map_delete i (clients s), balancer := lbRemove lb i b\<rparr>"
    have closed: "client_closed d (s\<lparr>balancer := b\<rparr>)" using True by (simp add: client_closed_def)
    have rm: "RemoveClient lb (snd (env n)) i (s\<lparr>balancer := b\<rparr>) = (None, ?s1)"
      using RemoveClient_closed [of "s\<lparr>balancer := b\<rparr>" i d lb "snd (env n)"] d closed by simp
    have p: "pick_loop lb env n ?s1 = (Inr c, s')"
      using Suc.prems(2) g r d closed rm by (simp add: Let_def)
    have i1: "cm_inv ids wf ?s1" using inv_RemoveClient [OF inv, of "snd (env n)" i] rm by simp
    have "clients s' i = None" using pick_loop_clients [OF i1, of i env n] p by simp
    then have ji: "j \<noteq> i" using Suc.prems(3) by auto
    then show ?thesis
      using Suc.IH [OF i1 p Suc.prems(3)] gi g r remove_infl [of i j b]
      by (cases "j = clientId c") simp_all
  next
    case False
    with Suc.prems(2) g r d gi show ?thesis by (auto simp: Let_def client_closed_def)
  qed
qed simp

lemma pick_loop_Inl_infl:
  assumes "cm_inv ids wf s" and "pick_loop lb env n s = (Inl e, s')" and "j \<in> dom (clients s')"
  shows "infl j (balancer s') = infl j (balancer s)"
  using assms
proof (induction n arbitrary: s)
  case (Suc n)
  obtain r b where g: "lbGet lb (fst (env n)) (balancer s) = (r, b)" by fastforce
  note inv = inv_get [OF Suc.prems(1) g]
  show ?case
  proof (cases r)
    case (Inl e')
    then have "ids (balancer s) = {}" using g get_Inl by blast
    moreover have "clients s' = clients s" using Suc.prems(2) g Inl by auto
    ultimately have False using Suc.prems(1, 3) by (auto simp: cm_inv_def)
    then show ?thesis ..
  next
    case (Inr i)
    with g get_Inr have "i \<in> ids (balancer s)" by blast
    then obtain d where d: "clients s i = Some d" "clientId d = i" using Suc.prems(1) by (auto simp: cm_inv_def)
    have True: "client_closed d s"
      using Suc.prems(2) g Inr d by (auto simp: Let_def client_closed_def split: if_splits)
    let ?s1 = "s\<lparr>clients := map_delete i (clients s), balancer := lbRemove lb i b\<rparr>"
    have closed: "client_closed d (s\<lparr>balancer := b\<rparr>)" using True by (simp add: client_closed_def)
    have rm: "RemoveClient lb (snd (env n)) i (s\<lparr>balancer := b\<rparr>) = (None, ?s1)"
      using RemoveClient_closed [of "s\<lparr>balancer := b\<rparr>" i d lb "snd (env n)"] d closed by simp
    have p: "pick_loop lb env n ?s1 = (Inl e, s')"
      using Suc.prems(2) g Inr d closed rm by (simp add: Let_def)
    have i1: "cm_inv ids wf ?s1" using inv_RemoveClient [OF inv, of "snd (env n)" i] rm by simp
    have "clients s' i = None" using pick_loop_clients [OF i1, of i env n] p by simp
    then have ji: "j \<noteq> i" using Suc.prems(3) by auto
    then show ?thesis
      using Suc.IH [OF i1 p Suc.prems(3)] get_infl [of "fst (env n)" "balancer s" i b j] g Inr
        remove_infl [of i j b] by simp
  qed
qed simp

text \<open>A pick succeeds when a live client is registered and fewer clients are dead than tries are left.\<close>

lemma pick_loop_succeeds:
  assumes "cm_inv ids wf s" and "card (dead s) < n" and "clients s i = Some c" and "\<not> client_closed c s"
  shows "\<exists>c' s'. pick_loop lb env n s = (Inr c', s')"
  using assms
proof (induction n arbitrary: s)
  case (Suc n)
  obtain r b where g: "lbGet lb (fst (env n)) (balancer s) = (r, b)" by fastforce
  note inv = inv_get [OF Suc.prems(1) g]
  have "ids (balancer s) \<noteq> {}" using Suc.prems(1, 3) by (auto simp: cm_inv_def)
  then obtain k where r: "r = Inr k" using g get_Inl by (cases r) blast+
  with g get_Inr have "k \<in> ids (balancer s)" by blast
  then obtain d where d: "clients s k = Some d" "clientId d = k" using Suc.prems(1) by (auto simp: cm_inv_def)
  show ?case
  proof (cases "client_closed d s")
    case True
    let ?s1 = "s\<lparr>clients := map_delete k (clients s), balancer := lbRemove lb k b\<rparr>"
    have closed: "client_closed d (s\<lparr>balancer := b\<rparr>)" using True by (simp add: client_closed_def)
    have rm: "RemoveClient lb (snd (env n)) k (s\<lparr>balancer := b\<rparr>) = (None, ?s1)"
      using RemoveClient_closed [of "s\<lparr>balancer := b\<rparr>" k d lb "snd (env n)"] d closed by simp
    have i1: "cm_inv ids wf ?s1" using inv_RemoveClient [OF inv, of "snd (env n)" k] rm by simp
    have ki: "k \<noteq> i" using d True Suc.prems(3, 4) by auto
    have dd: "dead ?s1 = dead s - {k}" by (auto simp: dead_def client_closed_def map_delete_def)
    have kd: "k \<in> dead s" using d True by (auto simp: dead_def)
    have "finite (dead s)"
      using Suc.prems(1) by (rule_tac finite_subset [of _ "dom (clients s)"]) (auto simp: dead_def cm_inv_def)
    then have "card (dead ?s1) < n" using Suc.prems(2) kd card_Diff1_less [of "dead s" k] unfolding dd by linarith
    moreover have "clients ?s1 i = Some c" "\<not> client_closed c ?s1"
      using ki Suc.prems(3, 4) by (simp_all add: client_closed_def)
    ultimately have "\<exists>c' s'. pick_loop lb env n ?s1 = (Inr c', s')" using Suc.IH [OF i1] by blast
    then show ?thesis using g r d closed rm by (simp add: Let_def)
  next
    case False
    then have "\<not> client_closed d (s\<lparr>balancer := b\<rparr>)" by (simp add: client_closed_def)
    with g r d show ?thesis by (simp add: Let_def)
  qed
qed simp

lemma pick_loop_Inl: "pick_loop lb env n s = (Inl e, s') \<Longrightarrow> e = NotFoundEffectiveServer"
proof (induction n arbitrary: s)
  case (Suc n)
  obtain r b where g: "lbGet lb (fst (env n)) (balancer s) = (r, b)" by fastforce
  show ?case
    using Suc g get_Inl [of "fst (env n)" "balancer s" _ b]
    by (cases r) (auto simp: Let_def split: option.splits if_splits)
qed simp

end


interpretation cm: balancer_table "p2c_lb F" "\<lambda>ns. set (node_ids ns)" "\<lambda>ns. distinct (node_ids ns)" inflight_of for F
  unfolding p2c_lb_def by (simp add: balancer_table_def p2c.load_balancer_axioms)

subsection \<open>Properties\<close>

definition registry_ok :: "P2CBalancer ClientManager \<Rightarrow> bool" where
  "registry_ok s = cm_inv (\<lambda>ns. set (node_ids ns)) (\<lambda>ns. distinct (node_ids ns)) s"

text \<open>
  The registry and the P2C balancer stay in step: after every operation, failed ones too, the
  balancer's nodes are exactly the registered clients, without duplicates, and every client is
  stored under its own id.
\<close>

theorem registry_inv:
  assumes "registry_ok s"
  shows "registry_ok (AddClient (p2c_lb F) now c wt s)
     \<and> registry_ok (snd (RemoveClient (p2c_lb F) cerr i s))
     \<and> registry_ok (snd (GetClientByBalance (p2c_lb F) env s))
     \<and> registry_ok (cm_Done (p2c_lb F) i d failed now s)
     \<and> registry_ok (TrackRequest i rid req s) \<and> registry_ok (AcknowledgeRequest i rid s)
     \<and> registry_ok (snd (DrainPending i s))"
  using assms cm.inv_AddClient [of s F] cm.inv_RemoveClient [of s F] cm.inv_pick_loop [of s F]
    cm.inv_Done [of s F]
  unfolding registry_ok_def GetClientByBalance_def
  by (simp add: cm_inv_def TrackRequest_def AcknowledgeRequest_def DrainPending_def split: option.splits)

lemma registry_ok_new: "registry_ok (NewClientManagerDomainTmpl [])"
  by (simp add: registry_ok_def cm_inv_def NewClientManagerDomainTmpl_def node_ids_def)

theorem registry_inv_witness:
  "registry_ok (AddClient (p2c_lb exact_float) 0 (NewClient ''w1'' 0) 1 (NewClientManagerDomainTmpl []))"
  using registry_inv [OF registry_ok_new] by blast

text \<open>
  C14. A pick returns a registered client whose connection is not closed, charges one request in
  flight to it and to no other remaining client, touches no connection and no pending request, and
  drops nothing but closed clients.
\<close>

theorem pick_returns_live_client:
  assumes "registry_ok s" and "GetClientByBalance (p2c_lb F) env s = (Inr c, s')"
  shows "clients s' (clientId c) = Some c \<and> \<not> client_closed c s'
     \<and> conns s' = conns s \<and> pendingReqs s' = pendingReqs s
     \<and> (\<forall>i. clients s' i = clients s i \<or> i \<in> dead s \<and> clients s' i = None)
     \<and> (\<forall>j \<in> dom (clients s'). inflight_of j (balancer s')
          = (if j = clientId c then i64 (inflight_of j (balancer s) + 1) else inflight_of j (balancer s)))"
  using assms cm.pick_loop_Inr [of s F env _ c s'] cm.pick_loop_infl [of s F env _ c s']
  unfolding registry_ok_def GetClientByBalance_def by blast

definition one_worker :: "P2CBalancer ClientManager" where
  "one_worker = AddClient (p2c_lb exact_float) 0 (NewClient ''w1'' 0) 1 (NewClientManagerDomainTmpl [])"

definition no_env :: "nat \<Rightarrow> get_in \<times> go_error option" where
  "no_env n = (\<lparr>drawA = 0, drawB = 0, nowChoose = 0, nowPick = 1\<rparr>, None)"

lemma registry_ok_one_worker: "registry_ok one_worker"
  unfolding one_worker_def by (simp add: registry_ok_def cm.inv_AddClient registry_ok_new [unfolded registry_ok_def])

lemma one_worker_balancer: "balancer one_worker = [newP2CNode ''w1'' 1 0]"
  by (simp add: one_worker_def AddClient_def NewClientManagerDomainTmpl_def p2c_lb_def P2C_Add_def NewClient_def)

lemma one_worker_clients: "clients one_worker = [''w1'' \<mapsto> NewClient ''w1'' 0]"
  "conns one_worker = (\<lambda>_. NewWebsocketClientImpl)" "pendingReqs one_worker = [''w1'' \<mapsto> (\<lambda>_. None)]"
  by (simp_all add: one_worker_def AddClient_def NewClientManagerDomainTmpl_def NewClient_def)

lemma one_worker_pick:
  "GetClientByBalance (p2c_lb exact_float) no_env one_worker
     = (Inr (NewClient ''w1'' 0), one_worker\<lparr>balancer := [pick 1 (newP2CNode ''w1'' 1 0)]\<rparr>)"
  by (simp add: GetClientByBalance_def maxRetryPickClient_def numeral_3_eq_3 p2c_lb_def P2C_Get_def
      one_worker_balancer one_worker_clients no_env_def pick_id_def Let_def newP2CNode_def
      client_closed_def ws_IsClosed_def NewWebsocketClientImpl_def)

theorem pick_returns_live_client_witness:
  "\<not> client_closed (NewClient ''w1'' 0) (snd (GetClientByBalance (p2c_lb exact_float) no_env one_worker))"
  using pick_returns_live_client [OF registry_ok_one_worker one_worker_pick] one_worker_pick by simp

text \<open>
  A pick fails only with NotFoundEffectiveServer, and it cannot fail while a live client is
  registered together with at most two dead ones.
\<close>

theorem pick_finds_live_client:
  assumes "registry_ok s" and "card (dead s) \<le> 2" and "clients s i = Some c" and "\<not> client_closed c s"
  shows "\<exists>c' s'. GetClientByBalance (p2c_lb F) env s = (Inr c', s')"
  using assms cm.pick_loop_succeeds [of s maxRetryPickClient i c F env]
  unfolding registry_ok_def GetClientByBalance_def by (simp add: maxRetryPickClient_def)

theorem pick_finds_live_client_witness:
  "\<exists>c' s'. GetClientByBalance (p2c_lb exact_float) no_env one_worker = (Inr c', s')"
proof (rule pick_finds_live_client [OF registry_ok_one_worker])
  show "card (dead one_worker) \<le> 2"
    by (simp add: dead_def one_worker_clients client_closed_def ws_IsClosed_def NewWebsocketClientImpl_def)
  show "clients one_worker ''w1'' = Some (NewClient ''w1'' 0)" by (simp add: one_worker_clients)
  show "\<not> client_closed (NewClient ''w1'' 0) one_worker"
    by (simp add: client_closed_def one_worker_clients ws_IsClosed_def NewWebsocketClientImpl_def)
qed

subsection \<open>Pending requests\<close>

text \<open>
  Abstract specification of the pending requests of one client: the requests that were tracked and
  not acknowledged since, by the history of its operations.
\<close>

datatype pending_op = Track string ExecuteRequest | Ack string

definition pending_spec :: "pending_op list \<Rightarrow> string \<Rightarrow> ExecuteRequest option" where
  \<comment> \<open>decided by the last operation on that request id\<close>
  "pending_spec ops rid =
     (case find (\<lambda>x. case x of Track r _ \<Rightarrow> r = rid | Ack r \<Rightarrow> r = rid) (rev ops) of
        Some (Track _ req) \<Rightarrow> Some req
      | _ \<Rightarrow> None)"

fun pending_exec :: "string \<Rightarrow> pending_op list \<Rightarrow> 'b ClientManager \<Rightarrow> 'b ClientManager" where
  "pending_exec i [] s = s"
| "pending_exec i (Track rid req # ops) s = pending_exec i ops (TrackRequest i rid req s)"
| "pending_exec i (Ack rid # ops) s = pending_exec i ops (AcknowledgeRequest i rid s)"

lemma pending_exec_append: "pending_exec i (xs @ ys) s = pending_exec i ys (pending_exec i xs s)"
  by (induction i xs s rule: pending_exec.induct) simp_all

lemma pending_spec_snoc:
  "pending_spec (ops @ [Track r req]) = (pending_spec ops)(r \<mapsto> req)"
  "pending_spec (ops @ [Ack r]) = map_delete r (pending_spec ops)"
  by (auto simp: pending_spec_def map_delete_def fun_eq_iff)

lemma pending_exec_spec:
  "pendingReqs s i = Some (\<lambda>_. None) \<Longrightarrow>
     pendingReqs (pending_exec i ops s) = (pendingReqs s)(i \<mapsto> pending_spec ops)"
proof (induction ops rule: rev_induct)
  case Nil
  then show ?case by (auto simp: pending_spec_def fun_eq_iff)
next
  case (snoc x ops)
  then show ?case
    by (cases x) (auto simp: pending_exec_append TrackRequest_def AcknowledgeRequest_def pending_spec_snoc fun_eq_iff)
qed

text \<open>
  C25. Draining a client hands out exactly the requests that were tracked and not acknowledged since
  the client was added, each once, and a second drain hands out nothing.
\<close>

theorem drain_returns_unacknowledged:
  "fst (DrainPending (clientId c) (pending_exec (clientId c) ops (AddClient lb now c wt s))) = pending_spec ops
     \<and> fst (DrainPending (clientId c) (snd (DrainPending (clientId c)
          (pending_exec (clientId c) ops (AddClient lb now c wt s))))) = (\<lambda>_. None)"
proof -
  have "pendingReqs (AddClient lb now c wt s) (clientId c) = Some (\<lambda>_. None)" by (simp add: AddClient_def)
  from pending_exec_spec [OF this, of ops] show ?thesis by (simp add: DrainPending_def)
qed

end
