(* ===== verification/Server_Service.thy ===== *)
theory Server_Service
  imports Client_Manager
begin

text \<open>
  The server's use cases (\<open>internal/application/service/server/service.go\<close>): asynchronous and
  synchronous execution on a picked worker, and the life of a worker connection from its
  registration to the redistribution of its unacknowledged requests.
\<close>

subsection \<open>Execution\<close>

definition NewServiceImpl :: "'b ClientManager \<Rightarrow> 'b ClientManager" where
  \<comment> \<open>the service's only field is the embedded client manager\<close>
  "NewServiceImpl clientManagerDomain = clientManagerDomain"

text \<open>What one execution reads from outside: the picks, the write's result, its duration, the clock.\<close>

record 't exec_env =
  pickEnv :: "nat \<Rightarrow> 't \<times> go_error option"
  writeErr :: "go_error option"
  took :: int
  nowDone :: int

definition Execute :: "('b, 't) LoadBalancer \<Rightarrow> 't exec_env \<Rightarrow> ExecuteRequest \<Rightarrow> 'b ClientManager
    \<Rightarrow> go_error option \<times> 'b ClientManager" where
  "Execute lb e req s =
     (case GetClientByBalance lb (pickEnv e) s of
        (Inl err, s1) \<Rightarrow> (Some err, s1)
      | (Inr c, s1) \<Rightarrow>
          (case client_Send (writeErr e) c req s1 of
             (sendErr, s2) \<Rightarrow>
               (let s3 = cm_Done lb (clientId c) (took e) (sendErr \<noteq> None) (nowDone e) s2
                in case sendErr of
                     Some err \<Rightarrow> (Some err, s3)
                   | None \<Rightarrow> (None, TrackRequest (clientId c) (reqId req) req s3))))"

fun apply_acks :: "(string \<times> string) list \<Rightarrow> 'b ClientManager \<Rightarrow> 'b ClientManager" where
  "apply_acks [] s = s"
| "apply_acks ((i, rid) # as) s = apply_acks as (AcknowledgeRequest i rid s)"

text \<open>\<open>arriving\<close>: the frames the read loop handles while the call waits, before its timer fires.\<close>

definition ExecuteSync :: "('b, 't) LoadBalancer \<Rightarrow> 't exec_env \<Rightarrow> frame list \<Rightarrow> string \<Rightarrow> ExecuteRequest
    \<Rightarrow> 'b ClientManager \<Rightarrow> (go_error, ExecuteResponse) result \<times> 'b ClientManager" where
  "ExecuteSync lb e arriving jerr req s =
     (case GetClientByBalance lb (pickEnv e) s of
        (Inl err, s1) \<Rightarrow> (Inl err, s1)
      | (Inr c, s1) \<Rightarrow>
          (case client_SendSync (writeErr e) arriving jerr c req s1 of
             (r, acks, s2) \<Rightarrow>
               (r, cm_Done lb (clientId c) (took e) (\<not> is_ok r) (nowDone e) (apply_acks acks s2))))"

subsection \<open>A worker connection\<close>

text \<open>\<open>Run\<close> up to its read loop: the client with a fresh id, its callback, its registration, the heartbeat.\<close>

definition run_start :: "('b, 't) LoadBalancer \<Rightarrow> int \<Rightarrow> string \<Rightarrow> nat \<Rightarrow> int \<Rightarrow> 'b ClientManager \<Rightarrow> 'b ClientManager" where
  "run_start lb now i r wt s =
     (let s1 = s\<lparr>conns := (conns s)(r := ws_SetAckHandler i (conns s r))\<rparr>;
          s2 = AddClient lb now (NewClient i r) wt s1
      in s2\<lparr>conns := (conns s2)(r := snd (ws_HeartBeat now (conns s2 r)))\<rparr>)"

text \<open>The read loop on the frames that arrive before the connection fails; None when it is stuck.\<close>

lemma Read_shorter: "Read err fs c = (ReadOk p gs, acks, c') \<Longrightarrow> length gs < length fs"
proof (induction err fs c arbitrary: acks rule: Read.induct)
  case (2 err f fs c)
  then show ?case by (fastforce split: read_turn.splits prod.splits)
qed simp

function run_read :: "go_error \<Rightarrow> frame list \<Rightarrow> nat \<Rightarrow> 'b ClientManager \<Rightarrow> go_error option \<times> 'b ClientManager" where
  "run_read err fs r s =
     (case Read err fs (conns s r) of
        (v, acks, w) \<Rightarrow>
          (let s1 = apply_acks acks (s\<lparr>conns := (conns s)(r := w)\<rparr>)
           in case v of
                ReadOk p gs \<Rightarrow> if length gs < length fs then run_read err gs r s1 else (None, s1)
              | ReadErr e \<Rightarrow> (Some e, s1)
              | ReadStuck \<Rightarrow> (None, s1)))"
  by pat_completeness auto
termination by (relation "measure (\<lambda>(err, fs, r, s). length fs)") auto

declare run_read.simps [simp del]

text \<open>Redispatching, one execution after the other; failures are logged and dropped.\<close>

fun redispatch :: "('b, 't) LoadBalancer \<Rightarrow> (nat \<Rightarrow> 't exec_env) \<Rightarrow> ExecuteRequest list \<Rightarrow> 'b ClientManager \<Rightarrow> 'b ClientManager" where
  "redispatch lb envs [] s = s"
| "redispatch lb envs (q # qs) s = redispatch lb envs qs (snd (Execute lb (envs (length qs)) q s))"

text \<open>
  The end of \<open>Run\<close>: the drained requests, in the order of a map iteration (\<open>order\<close>), and the
  deferred removal.
\<close>

definition run_exit :: "('b, 't) LoadBalancer \<Rightarrow> (nat \<Rightarrow> 't exec_env)
    \<Rightarrow> ((string \<rightharpoonup> ExecuteRequest) \<Rightarrow> ExecuteRequest list) \<Rightarrow> go_error option \<Rightarrow> string
    \<Rightarrow> 'b ClientManager \<Rightarrow> 'b ClientManager" where
  "run_exit lb envs order cerr i s =
     (case DrainPending i s of
        (m, s1) \<Rightarrow> snd (RemoveClient lb cerr i (redispatch lb envs (order m) s1)))"

definition Run :: "('b, 't) LoadBalancer \<Rightarrow> (nat \<Rightarrow> 't exec_env)
    \<Rightarrow> ((string \<rightharpoonup> ExecuteRequest) \<Rightarrow> ExecuteRequest list) \<Rightarrow> go_error option \<Rightarrow> go_error \<Rightarrow> frame list
    \<Rightarrow> int \<Rightarrow> string \<Rightarrow> nat \<Rightarrow> int \<Rightarrow> 'b ClientManager \<Rightarrow> go_error option \<times> 'b ClientManager" where
  "Run lb envs order cerr err fs now i r wt s =
     (case run_read err fs r (run_start lb now i r wt s) of
        (None, s1) \<Rightarrow> (None, s1)
      | (Some e, s1) \<Rightarrow> (Some e, run_exit lb envs order cerr i s1))"

subsection \<open>What they keep\<close>

lemma apply_acks_simps [simp]:
  "clients (apply_acks as s) = clients s" "balancer (apply_acks as s) = balancer s"
  "conns (apply_acks as s) = conns s"
  by (induction as s rule: apply_acks.induct) (simp_all add: AcknowledgeRequest_def split: option.splits)

lemma TrackRequest_simps [simp]:
  "clients (TrackRequest i rid req s) = clients s" "balancer (TrackRequest i rid req s) = balancer s"
  "conns (TrackRequest i rid req s) = conns s"
  by (simp_all add: TrackRequest_def split: option.splits)

lemma client_Send_simps:
  "client_Send werr c req s = (e, s') \<Longrightarrow>
     e = werr \<and> clients s' = clients s \<and> balancer s' = balancer s \<and> pendingReqs s' = pendingReqs s"
  by (auto simp: client_Send_def ws_Send_def ws_write_def split: prod.splits option.splits)

lemma client_SendSync_simps:
  "client_SendSync werr arr jerr c req s = (v, acks, s') \<Longrightarrow>
     clients s' = clients s \<and> balancer s' = balancer s \<and> pendingReqs s' = pendingReqs s"
  by (auto simp: client_SendSync_def split: prod.splits)

context balancer_table
begin

lemma cm_inv_cong:
  "clients s' = clients s \<Longrightarrow> balancer s' = balancer s \<Longrightarrow> cm_inv ids wf s' = cm_inv ids wf s"
  by (simp add: cm_inv_def)

lemma inv_GetClientByBalance:
  "cm_inv ids wf s \<Longrightarrow> GetClientByBalance lb env s = (r, s') \<Longrightarrow> cm_inv ids wf s'"
  using inv_pick_loop [of s env maxRetryPickClient] by (simp add: GetClientByBalance_def)

lemma inv_Execute:
  assumes "cm_inv ids wf s" shows "cm_inv ids wf (snd (Execute lb e req s))"
proof -
  obtain r s1 where g: "GetClientByBalance lb (pickEnv e) s = (r, s1)" by fastforce
  note i1 = inv_GetClientByBalance [OF assms g]
  show ?thesis
  proof (cases r)
    case (Inl err)
    with g i1 show ?thesis by (simp add: Execute_def)
  next
    case (Inr c)
    obtain serr s2 where s: "client_Send (writeErr e) c req s1 = (serr, s2)" by fastforce
    have "cm_inv ids wf s2" using i1 client_Send_simps [OF s] cm_inv_cong by metis
    then have i3: "cm_inv ids wf (cm_Done lb (clientId c) (took e) (serr \<noteq> None) (nowDone e) s2)" by (rule inv_Done)
    then have "cm_inv ids wf (TrackRequest (clientId c) (reqId req) req
        (cm_Done lb (clientId c) (took e) (serr \<noteq> None) (nowDone e) s2))"
      by (subst cm_inv_cong) simp_all
    with g Inr s i3 show ?thesis by (auto simp: Execute_def Let_def split: option.splits)
  qed
qed

lemma inv_ExecuteSync:
  assumes "cm_inv ids wf s" shows "cm_inv ids wf (snd (ExecuteSync lb e arr jerr req s))"
proof -
  obtain r s1 where g: "GetClientByBalance lb (pickEnv e) s = (r, s1)" by fastforce
  note i1 = inv_GetClientByBalance [OF assms g]
  show ?thesis
  proof (cases r)
    case (Inl err)
    with g i1 show ?thesis by (simp add: ExecuteSync_def)
  next
    case (Inr c)
    obtain v acks s2 where s: "client_SendSync (writeErr e) arr jerr c req s1 = (v, acks, s2)" by (metis prod_cases3)
    have "cm_inv ids wf (apply_acks acks s2)"
      using i1 client_SendSync_simps [OF s] by (subst cm_inv_cong) simp_all
    with g Inr s show ?thesis by (auto simp: ExecuteSync_def inv_Done)
  qed
qed

lemma inv_redispatch: "cm_inv ids wf s \<Longrightarrow> cm_inv ids wf (redispatch lb envs qs s)"
  by (induction qs arbitrary: s) (simp_all add: inv_Execute)

lemma inv_run_start: "cm_inv ids wf s \<Longrightarrow> cm_inv ids wf (run_start lb now i r wt s)"
  unfolding run_start_def Let_def
  by (subst cm_inv_cong [of _ "AddClient lb now (NewClient i r) wt (s\<lparr>conns := (conns s)(r := ws_SetAckHandler i (conns s r))\<rparr>)"])
    (simp_all add: inv_AddClient cm_inv_cong [of "s\<lparr>conns := _\<rparr>" s])

lemma run_read_frame:
  "clients (snd (run_read err fs r s)) = clients s \<and> balancer (snd (run_read err fs r s)) = balancer s"
proof (induction err fs r s rule: run_read.induct)
  case (1 err fs r s)
  then show ?case by (subst (1 2) run_read.simps) (auto simp: Let_def split: prod.splits read_result.splits)
qed

lemma inv_run_exit: "cm_inv ids wf s \<Longrightarrow> cm_inv ids wf (run_exit lb envs order cerr i s)"
proof -
  assume "cm_inv ids wf s"
  moreover have "clients (snd (DrainPending i s)) = clients s \<and> balancer (snd (DrainPending i s)) = balancer s"
    by (simp add: DrainPending_def split: option.splits)
  ultimately have "cm_inv ids wf (snd (DrainPending i s))" using cm_inv_cong by metis
  then show ?thesis
    by (simp add: run_exit_def inv_RemoveClient inv_redispatch case_prod_beta)
qed

lemma inv_Run: "cm_inv ids wf s \<Longrightarrow> cm_inv ids wf (snd (Run lb envs order cerr err fs now i r wt s))"
proof -
  assume "cm_inv ids wf s"
  then have "cm_inv ids wf (snd (run_read err fs r (run_start lb now i r wt s)))"
    using inv_run_start run_read_frame cm_inv_cong by metis
  then show ?thesis by (auto simp: Run_def inv_run_exit split: prod.splits option.splits)
qed

lemma pick_loop_conns:
  "cm_inv ids wf s \<Longrightarrow> conns (snd (pick_loop lb env n s)) = conns s \<and> pendingReqs (snd (pick_loop lb env n s)) = pendingReqs s"
proof (induction n arbitrary: s)
  case (Suc n)
  obtain r b where g: "lbGet lb (fst (env n)) (balancer s) = (r, b)" by fastforce
  note inv = inv_get [OF Suc.prems g]
  show ?case
  proof (cases r)
    case (Inl e)
    with g show ?thesis by simp
  next
    case (Inr k)
    with g get_Inr have "k \<in> ids (balancer s)" by blast
    then obtain c where c: "clients s k = Some c" "clientId c = k" using Suc.prems by (auto simp: cm_inv_def)
    show ?thesis
    proof (cases "client_closed c (s\<lparr>balancer := b\<rparr>)")
      case True
      with RemoveClient_closed [of "s\<lparr>balancer := b\<rparr>" k c lb "snd (env n)"] c
      have rm: "RemoveClient lb (snd (env n)) k (s\<lparr>balancer := b\<rparr>)
          = (None, s\<lparr>clients := map_delete k (clients s), balancer := lbRemove lb k b\<rparr>)" by simp
      then show ?thesis
        using Suc.IH [OF inv_RemoveClient [OF inv, of "snd (env n)" k]] g Inr c True by (simp add: Let_def)
    next
      case False
      with g Inr c show ?thesis by (simp add: Let_def)
    qed
  qed
qed simp

lemma i64_inc_dec: "in_i64 x \<Longrightarrow> i64 (i64 (x + 1) - 1) = x"
proof -
  assume x: "in_i64 x"
  have "(i64 (x + 1) - 1 - x) mod 2 ^ 64 = 0"
    using i64_mod [of "x + 1"] by (simp add: mod_eq_dvd_iff dvd_eq_mod_eq_0 diff_diff_eq add.commute)
  then have "i64 (i64 (x + 1) - 1) = i64 x" by (rule i64_cong)
  with x show ?thesis by simp
qed

text \<open>After a pick and its report, every in-flight count of a client that is still registered is as before.\<close>

lemma pick_Done_infl:
  assumes "cm_inv ids wf s" and "GetClientByBalance lb env s = (Inr c, s1)"
    and "clients s2 = clients s1" and "balancer s2 = balancer s1"
    and "j \<in> dom (clients s1)" and "in_i64 (infl j (balancer s))"
  shows "infl j (balancer (cm_Done lb (clientId c) d failed now s2)) = infl j (balancer s)"
proof -
  have p: "pick_loop lb env maxRetryPickClient s = (Inr c, s1)" using assms(2) by (simp add: GetClientByBalance_def)
  have "clientId c \<in> ids (balancer s1)"
    using pick_loop_Inr [OF assms(1) p] inv_GetClientByBalance [OF assms(1, 2)] by (auto simp: cm_inv_def)
  then show ?thesis
    using pick_loop_infl [OF assms(1) p assms(5)] finish_infl [of "clientId c" "balancer s1" j d failed now] assms(4, 6)
    by (auto simp: cm_Done_def i64_inc_dec)
qed

lemma Execute_cases:
  assumes "cm_inv ids wf s" and "Execute lb e req s = (res, s')"
  obtains (no_client) "res = Some NotFoundEffectiveServer" "conns s' = conns s" "pendingReqs s' = pendingReqs s"
      "\<forall>j \<in> dom (clients s'). infl j (balancer s') = infl j (balancer s)"
  | (picked) c s1 s2 where "GetClientByBalance lb (pickEnv e) s = (Inr c, s1)"
      "client_Send (writeErr e) c req s1 = (writeErr e, s2)" "res = writeErr e"
      "s' = (let s3 = cm_Done lb (clientId c) (took e) (writeErr e \<noteq> None) (nowDone e) s2
             in if writeErr e = None then TrackRequest (clientId c) (reqId req) req s3 else s3)"
proof -
  obtain r s1 where g: "GetClientByBalance lb (pickEnv e) s = (r, s1)" by fastforce
  then have p: "pick_loop lb (pickEnv e) maxRetryPickClient s = (r, s1)" by (simp add: GetClientByBalance_def)
  show thesis
  proof (cases r)
    case (Inl err)
    then have "res = Some NotFoundEffectiveServer" "s' = s1"
      using assms(2) g pick_loop_Inl p by (auto simp: Execute_def)
    moreover have "conns s1 = conns s" "pendingReqs s1 = pendingReqs s"
      using pick_loop_conns [OF assms(1), of "pickEnv e" maxRetryPickClient] p by simp_all
    moreover have "\<forall>j \<in> dom (clients s1). infl j (balancer s1) = infl j (balancer s)"
      using pick_loop_Inl_infl [OF assms(1)] p Inl by blast
    ultimately show ?thesis using no_client by simp
  next
    case (Inr c)
    obtain serr s2 where s: "client_Send (writeErr e) c req s1 = (serr, s2)" by fastforce
    then have "serr = writeErr e" using client_Send_simps by blast
    with assms(2) g Inr s show ?thesis
      by (intro picked [of c s1 s2]) (auto simp: Execute_def Let_def split: option.splits)
  qed
qed

end

subsection \<open>Properties\<close>


definition ok_env :: "get_in exec_env" where
  "ok_env = \<lparr>pickEnv = no_env, writeErr = None, took = 5, nowDone = 7\<rparr>"

lemma one_worker_inflight: "in_i64 (inflight_of j (balancer one_worker))"
  by (simp add: one_worker_balancer inflight_of_def newP2CNode_def in_i64_def)


text \<open>
  A synchronous execution returns a response only when the picked live worker's connection
  delivered one for it, otherwise the pick's error, the write's error, the timeout or an
  unmarshalling error; it notes nothing as pending, and the in-flight counts of the workers still
  registered are what they were.
\<close>

theorem execute_sync_spec:
  assumes "registry_ok s" and "\<forall>j. in_i64 (inflight_of j (balancer s))"
    and "ExecuteSync (p2c_lb F) e arr jerr req s = (v, s')"
  shows "(\<forall>resp. v = Inr resp \<longrightarrow> (\<exists>c payload. clients s' (clientId c) = Some c \<and> \<not> client_closed c s
            \<and> fst (ws_SendSync (writeErr e) arr (reqId req) (request_json req) (conns s (wsConn c))) = Inr payload
            \<and> parse_response payload = Some resp))
     \<and> (\<forall>err. v = Inl err \<longrightarrow> err \<in> {NotFoundEffectiveServer, ErrSendSyncTimeout (reqId req), ErrUnmarshalSync jerr}
            \<or> writeErr e = Some err)
     \<and> (\<forall>j \<in> dom (clients s'). inflight_of j (balancer s') = inflight_of j (balancer s))"
proof -
  obtain r s1 where g: "GetClientByBalance (p2c_lb F) (pickEnv e) s = (r, s1)" by fastforce
  then have p: "pick_loop (p2c_lb F) (pickEnv e) maxRetryPickClient s = (r, s1)" by (simp add: GetClientByBalance_def)
  note inv = assms(1) [unfolded registry_ok_def]
  show ?thesis
  proof (cases r)
    case (Inl err)
    then have v: "v = Inl NotFoundEffectiveServer" "s' = s1"
      using assms(3) g cm.pick_loop_Inl [OF p [unfolded Inl]] by (auto simp: ExecuteSync_def)
    with cm.pick_loop_Inl_infl [OF inv p [unfolded Inl]] show ?thesis by simp
  next
    case (Inr c)
    note live = cm.pick_loop_Inr [OF inv p [unfolded Inr]]
    obtain u acks s2 where ss: "client_SendSync (writeErr e) arr jerr c req s1 = (u, acks, s2)" by (metis prod_cases3)
    have v: "v = u" "s' = cm_Done (p2c_lb F) (clientId c) (took e) (\<not> is_ok u) (nowDone e) (apply_acks acks s2)"
      using assms(3) g Inr ss by (auto simp: ExecuteSync_def)
    note fr = client_SendSync_simps [OF ss]
    have infl: "inflight_of j (balancer s') = inflight_of j (balancer s)" if "j \<in> dom (clients s')" for j
      unfolding v(2)
      by (rule cm.pick_Done_infl [OF inv g [unfolded Inr]]) (use fr that v(2) assms(2) in \<open>auto simp: cm_Done_def\<close>)
    have cl: "clients s' (clientId c) = Some c \<and> \<not> client_closed c s"
      using live fr v(2) by (auto simp: cm_Done_def client_closed_def)
    have outcome: "fst (ws_SendSync w arr rid q d) = Inl err \<Longrightarrow> err = ErrSendSyncTimeout rid \<or> w = Some err" for w rid q d err
      by (auto simp: ws_SendSync_def sync_write_def ws_write_def split: prod.splits option.splits)
    obtain x a w where x: "ws_SendSync (writeErr e) arr (reqId req) (request_json req) (conns s (wsConn c)) = (x, a, w)"
      by (metis prod_cases3)
    then have u: "u = (case x of Inl e \<Rightarrow> Inl e | Inr p \<Rightarrow> (case parse_response p of None \<Rightarrow> Inl (ErrUnmarshalSync jerr) | Some resp \<Rightarrow> Inr resp))"
      using ss live by (auto simp: client_SendSync_def)
    show ?thesis
      using cl infl u x v(1) outcome [of "writeErr e" "reqId req" "request_json req" "conns s (wsConn c)"]
      by (auto split: sum.splits option.splits)
  qed
qed

theorem execute_sync_spec_witness:
  "\<exists>s'. ExecuteSync (p2c_lb exact_float) ok_env
       [MsgFrame \<lparr>msgType = MsgTypeResult, RequestID = '''', Payload = response_json zeroResponse\<rparr>] [] zeroRequest one_worker
       = (Inr zeroResponse, s') \<and> inflight_of ''w1'' (balancer s') = 0"
proof -
  let ?fs = "[MsgFrame \<lparr>msgType = MsgTypeResult, RequestID = '''', Payload = response_json zeroResponse\<rparr>]"
  obtain v s' where e: "ExecuteSync (p2c_lb exact_float) ok_env ?fs [] zeroRequest one_worker = (v, s')" by fastforce
  have n: "\<forall>j. in_i64 (inflight_of j (balancer one_worker))" by (simp add: one_worker_inflight)
  have p: "parse_response (response_json zeroResponse) = Some zeroResponse"
    by (simp add: response_json_parses wire_response_def zeroResponse_def)
  have r: "v = Inr zeroResponse" "''w1'' \<in> dom (clients s')"
    using e by (auto simp: ExecuteSync_def ok_env_def one_worker_pick client_SendSync_def ws_SendSync_def
        sync_register_def sync_write_def ws_write_def read_turn_def chan_send_def sync_take_def chan_recv_def
        make_chan_def one_worker_clients NewWebsocketClientImpl_def zeroRequest_def p cm_Done_def)
  have "inflight_of ''w1'' (balancer s') = inflight_of ''w1'' (balancer one_worker)"
    using execute_sync_spec [OF registry_ok_one_worker n e] r(2) by blast
  with e r(1) show ?thesis by (simp add: one_worker_balancer inflight_of_def newP2CNode_def)
qed

lemma Execute_no_pending:
  assumes "registry_ok s" "pendingReqs s i = None"
  shows "pendingReqs (snd (Execute (p2c_lb F) e req s)) i = None"
proof -
  obtain res s' where e: "Execute (p2c_lb F) e req s = (res, s')" by fastforce
  with assms(1) [unfolded registry_ok_def] show ?thesis
  proof (cases rule: cm.Execute_cases)
    case no_client
    with assms e show ?thesis by simp
  next
    case (picked c s1 s2)
    have "pendingReqs s2 = pendingReqs s"
      using client_Send_simps [OF picked(2)] picked(1) assms(1)
        cm.pick_loop_conns [of s F "pickEnv e" maxRetryPickClient]
      by (simp add: GetClientByBalance_def registry_ok_def)
    with assms(2) e picked(4) show ?thesis
      by (auto simp: Let_def cm_Done_def TrackRequest_def split: option.splits)
  qed
qed

lemma redispatch_no_pending:
  "registry_ok s \<Longrightarrow> pendingReqs s i = None \<Longrightarrow> pendingReqs (redispatch (p2c_lb F) envs qs s) i = None"
proof (induction qs arbitrary: s)
  case (Cons q qs)
  have "registry_ok (snd (Execute (p2c_lb F) (envs (length qs)) q s))"
    using Cons.prems(1) cm.inv_Execute by (simp add: registry_ok_def)
  with Cons show ?case by (simp add: Execute_no_pending)
qed simp

lemma RemoveClient_gone: "clients (snd (RemoveClient lb None i s)) i = None"
  by (auto simp: RemoveClient_def GetClientById_def client_Close_def ws_Close_def split: option.splits prod.splits if_splits)

text \<open>
  When a worker's connection ends and its socket closes without an error, the worker is
  unregistered, has no pending table, and is no node of the balancer any more, whatever the
  redispatching of its requests did.
\<close>

theorem run_exit_unregisters:
  assumes "registry_ok s"
  shows "clients (run_exit (p2c_lb F) envs order None i s) i = None
     \<and> pendingReqs (run_exit (p2c_lb F) envs order None i s) i = None
     \<and> i \<notin> set (node_ids (balancer (run_exit (p2c_lb F) envs order None i s)))"
proof -
  let ?s' = "run_exit (p2c_lb F) envs order None i s"
  obtain m s1 where d: "DrainPending i s = (m, s1)" by fastforce
  have s1: "pendingReqs s1 i = None" "registry_ok s1"
    using d assms by (auto simp: DrainPending_def registry_ok_def cm_inv_def split: option.splits)
  have "clients ?s' i = None" using d RemoveClient_gone [of "p2c_lb F"] by (simp add: run_exit_def)
  moreover have "pendingReqs (redispatch (p2c_lb F) envs (order m) s1) i = None"
    by (rule redispatch_no_pending [OF s1(2, 1)])
  then have "pendingReqs ?s' i = None"
    using d by (auto simp: run_exit_def RemoveClient_def GetClientById_def client_Close_def split: option.splits prod.splits)
  moreover have "registry_ok ?s'" using assms cm.inv_run_exit by (simp add: registry_ok_def)
  ultimately show ?thesis by (auto simp: registry_ok_def cm_inv_def)
qed

theorem run_exit_unregisters_witness:
  "clients (run_exit (p2c_lb exact_float) (\<lambda>_. ok_env) (\<lambda>m. []) None ''w1'' one_worker) ''w1'' = None"
  using run_exit_unregisters [OF registry_ok_one_worker] by blast


lemma Execute_only_client:
  assumes "registry_ok s" and "clients s = [i \<mapsto> c]" and "\<not> client_closed c s"
    and "pendingReqs s i = None" and "writeErr e = None"
  shows "\<exists>s'. Execute (p2c_lb F) e req s = (None, s') \<and> registry_ok s' \<and> clients s' = clients s
     \<and> pendingReqs s' = pendingReqs s
     \<and> conns s' = (conns s)(wsConn c := (conns s (wsConn c))\<lparr>wsWritten := wsWritten (conns s (wsConn c))
          @ [\<lparr>msgType = MsgTypeExecute, RequestID = reqId req, Payload = request_json req\<rparr>]\<rparr>)"
proof -
  note inv = assms(1) [unfolded registry_ok_def]
  have id: "clientId c = i" using inv assms(2) by (simp add: cm_inv_def)
  have "dead s = {}" using assms(2, 3) by (auto simp: dead_def split: if_splits)
  then obtain d s1 where p: "pick_loop (p2c_lb F) (pickEnv e) maxRetryPickClient s = (Inr d, s1)"
    using cm.pick_loop_succeeds [of s maxRetryPickClient i c F "pickEnv e"] inv assms(2, 3)
    by (auto simp: maxRetryPickClient_def)
  note live = cm.pick_loop_Inr [OF inv p]
  from live have d: "d = c"
    using assms(2) \<open>dead s = {}\<close> by (metis emptyE fun_upd_other fun_upd_same option.distinct(1) option.inject)
  have cl: "clients s1 = clients s" using live \<open>dead s = {}\<close> by (simp add: fun_eq_iff)
  obtain s2 where snd: "client_Send None c req s1 = (None, s2)" "conns s2 = (conns s)(wsConn c := (conns s (wsConn c))\<lparr>wsWritten :=
       wsWritten (conns s (wsConn c)) @ [\<lparr>msgType = MsgTypeExecute, RequestID = reqId req, Payload = request_json req\<rparr>]\<rparr>)"
    using live by (auto simp: client_Send_def ws_Send_def ws_write_def)
  note fr = client_Send_simps [OF snd(1)]
  let ?s3 = "cm_Done (p2c_lb F) i (took e) False (nowDone e) s2"
  have pend: "pendingReqs s2 = pendingReqs s" using fr live by simp
  have e: "Execute (p2c_lb F) e req s = (None, ?s3)"
    using p d snd(1) assms(4, 5) id pend
    by (simp add: Execute_def GetClientByBalance_def Let_def TrackRequest_def cm_Done_def)
  have "registry_ok ?s3"
    using cm.inv_Execute [of s F e req] inv e by (simp add: registry_ok_def)
  with e pend snd(2) cl fr show ?thesis by (auto simp: cm_Done_def)
qed

lemma redispatch_only_client:
  "registry_ok s \<Longrightarrow> clients s = [i \<mapsto> c] \<Longrightarrow> \<not> client_closed c s \<Longrightarrow> pendingReqs s i = None
     \<Longrightarrow> \<forall>n. writeErr (envs n) = None \<Longrightarrow>
   pendingReqs (redispatch (p2c_lb F) envs qs s) = pendingReqs s
   \<and> clients (redispatch (p2c_lb F) envs qs s) = clients s
   \<and> conns (redispatch (p2c_lb F) envs qs s) = (conns s)(wsConn c := (conns s (wsConn c))\<lparr>wsWritten := wsWritten (conns s (wsConn c))
          @ map (\<lambda>q. \<lparr>msgType = MsgTypeExecute, RequestID = reqId q, Payload = request_json q\<rparr>) qs\<rparr>)"
proof (induction qs arbitrary: s)
  case (Cons q qs)
  obtain s' where s': "Execute (p2c_lb F) (envs (length qs)) q s = (None, s')" "registry_ok s'" "clients s' = clients s"
    "pendingReqs s' = pendingReqs s"
    "conns s' = (conns s)(wsConn c := (conns s (wsConn c))\<lparr>wsWritten := wsWritten (conns s (wsConn c))
          @ [\<lparr>msgType = MsgTypeExecute, RequestID = reqId q, Payload = request_json q\<rparr>]\<rparr>)"
    using Execute_only_client [OF Cons.prems(1-4)] Cons.prems(5) by blast
  have "\<not> client_closed c s'" using Cons.prems(3) s'(5) by (simp add: client_closed_def ws_IsClosed_def)
  from Cons.IH [OF s'(2) _ this] Cons.prems s' show ?case by (auto simp: fun_eq_iff)
qed simp

text \<open>
  Requests can be lost without an error: when the worker that disconnected is the only one
  registered and its socket still accepts writes, its unacknowledged requests are written again to
  that same connection, and after the removal none of them is pending anywhere.
\<close>

theorem redispatch_to_dead_worker_loses:
  assumes "registry_ok s" and "clients s = [i \<mapsto> c]" and "\<not> client_closed c s"
    and "pendingReqs s i = Some m" and "\<forall>n. writeErr (envs n) = None"
  shows "pendingReqs (run_exit (p2c_lb F) envs order None i s) = map_delete i (pendingReqs s)
     \<and> clients (run_exit (p2c_lb F) envs order None i s) = (\<lambda>_. None)
     \<and> wsWritten (conns (run_exit (p2c_lb F) envs order None i s) (wsConn c))
         = wsWritten (conns s (wsConn c))
           @ map (\<lambda>q. \<lparr>msgType = MsgTypeExecute, RequestID = reqId q, Payload = request_json q\<rparr>) (order m)"
proof -
  let ?s1 = "s\<lparr>pendingReqs := map_delete i (pendingReqs s)\<rparr>"
  have d: "DrainPending i s = (m, ?s1)" using assms(4) by (simp add: DrainPending_def)
  have ok: "registry_ok ?s1" using assms(1) by (simp add: registry_ok_def cm_inv_def)
  note r = redispatch_only_client [OF ok, of i c envs F "order m"]
  let ?s2 = "redispatch (p2c_lb F) envs (order m) ?s1"
  have s2: "pendingReqs ?s2 = map_delete i (pendingReqs s)" "clients ?s2 = [i \<mapsto> c]"
    "conns ?s2 = (conns s)(wsConn c := (conns s (wsConn c))\<lparr>wsWritten := wsWritten (conns s (wsConn c))
          @ map (\<lambda>q. \<lparr>msgType = MsgTypeExecute, RequestID = reqId q, Payload = request_json q\<rparr>) (order m)\<rparr>)"
    using r assms(2, 3, 5) by (simp_all add: client_closed_def)
  have "RemoveClient (p2c_lb F) None i ?s2 = (None, ?s2\<lparr>conns := (conns ?s2)(wsConn c := snd (ws_Close None (conns ?s2 (wsConn c)))),
      clients := map_delete i (clients ?s2), balancer := lbRemove (p2c_lb F) i (balancer ?s2)\<rparr>)"
    using s2(2) by (simp add: RemoveClient_def GetClientById_def client_Close_def ws_Close_def split: if_splits)
  with d s2 show ?thesis
    by (auto simp: run_exit_def ws_Close_def map_delete_def fun_eq_iff)
qed

theorem redispatch_to_dead_worker_loses_witness:
  "pendingReqs (run_exit (p2c_lb exact_float) (\<lambda>_. ok_env) (\<lambda>m. [zeroRequest]) None ''w1''
      (TrackRequest ''w1'' ''q'' zeroRequest one_worker)) = (\<lambda>_. None)"
proof -
  let ?s = "TrackRequest ''w1'' ''q'' zeroRequest one_worker"
  have ok: "registry_ok ?s" using registry_ok_one_worker by (simp add: registry_ok_def cm_inv_def)
  have c: "clients ?s = [''w1'' \<mapsto> NewClient ''w1'' 0]" by (simp add: one_worker_clients)
  have l: "\<not> client_closed (NewClient ''w1'' 0) ?s"
    by (simp add: client_closed_def ws_IsClosed_def one_worker_clients NewWebsocketClientImpl_def)
  have p: "pendingReqs ?s = [''w1'' \<mapsto> [''q'' \<mapsto> zeroRequest]]"
    by (auto simp: TrackRequest_def one_worker_clients)
  show ?thesis
    using redispatch_to_dead_worker_loses [OF ok c l, of "[''q'' \<mapsto> zeroRequest]" "\<lambda>_. ok_env" exact_float "\<lambda>m. [zeroRequest]"]
    by (simp add: p ok_env_def map_delete_def fun_eq_iff)
qed

end
