(* ===== verification/Server_Controllers.thy ===== *)
theory Server_Controllers
  imports Server_Service
begin

text \<open>
  The server's entry points (\<open>internal/interfaces/controller/server\<close>): the gRPC method
  \<open>Execute\<close>, the HTTP handler of synchronous execution, and the WebSocket upgrade with its weight
  parameter (\<open>strconv.ParseInt\<close>). The service is a parameter of the handlers, as its interface
  is in the code; HTTP responses are a status and a JSON value.
\<close>

definition maxCodeBlockSize :: nat where "maxCodeBlockSize = 64 * 1024"

subsection \<open>gRPC Execute\<close>

datatype grpc_error = InvalidArgument string | Unauthenticated string | GrpcFrom go_error

definition ctl_Execute :: "(ExecuteRequest \<Rightarrow> 's \<Rightarrow> go_error option \<times> 's) \<Rightarrow> ExecuteRequest \<Rightarrow> 's
    \<Rightarrow> (grpc_error, ExecuteResponse) result \<times> 's" where
  "ctl_Execute srv inp s =
     (if length (CodeBlock inp) > maxCodeBlockSize
      then (Inl (InvalidArgument (''codeBlock exceeds max size limit ('' @ Itoa (int maxCodeBlockSize) @ '' bytes)'')), s)
      else case srv inp s of
             (Some err, s') \<Rightarrow> (Inl (GrpcFrom err), s')
           | (None, s') \<Rightarrow> (Inr (zeroResponse\<lparr>respId := reqId inp, GrpcCode := ''accepted''\<rparr>), s'))"

subsection \<open>HTTP execution\<close>

record HttpExecuteRequest =
  httpLanguage :: string
  httpCodeBlock :: string

datatype http_response = HttpResponse nat json

definition http_fields :: "HttpExecuteRequest field list" where
  "http_fields = [string_field ''language'' (\<lambda>s r. r\<lparr>httpLanguage := s\<rparr>),
                  string_field ''code_block'' (\<lambda>s r. r\<lparr>httpCodeBlock := s\<rparr>)]"

definition bind_execute :: "payload \<Rightarrow> HttpExecuteRequest option" where
  \<comment> \<open>\<open>ShouldBindJSON\<close> with both fields required\<close>
  "bind_execute body =
     (case decode_struct http_fields \<lparr>httpLanguage = [], httpCodeBlock = []\<rparr> body of
        None \<Rightarrow> None
      | Some r \<Rightarrow> if httpLanguage r = [] \<or> httpCodeBlock r = [] then None else Some r)"

definition ExecuteHandler :: "(ExecuteRequest \<Rightarrow> 's \<Rightarrow> (go_error, ExecuteResponse) result \<times> 's)
    \<Rightarrow> string \<Rightarrow> string \<Rightarrow> payload \<Rightarrow> 's \<Rightarrow> http_response \<times> 's" where
  \<comment> \<open>\<open>berr\<close>: the text of the binding error; \<open>uuid\<close>: the fresh request id\<close>
  "ExecuteHandler svc berr uuid body s =
     (case bind_execute body of
        None \<Rightarrow> (HttpResponse 400 (JObj [(''message'', JStr (''invalid request: '' @ berr))]), s)
      | Some req \<Rightarrow>
          if length (httpCodeBlock req) > maxCodeBlockSize
          then (HttpResponse 400 (JObj [(''message'', JStr ''code_block exceeds 64KB limit'')]), s)
          else
            (case svc (zeroRequest\<lparr>reqId := uuid, Language := httpLanguage req, CodeBlock := httpCodeBlock req\<rparr>) s of
               (Inl err, s') \<Rightarrow>
                 (HttpResponse 500 (JObj [(''message'', JStr (''execution failed: '' @ err_text err))]), s')
             | (Inr resp, s') \<Rightarrow>
                 (HttpResponse 200 (JObj (keep_string ''id'' uuid @ keep_string ''result'' (Result resp)
                    @ omit_string ''err'' (Err resp) @ keep_string ''language'' (httpLanguage req))), s')))"

subsection \<open>Worker connections\<close>

text \<open>\<open>strconv.ParseInt(s, 10, 64)\<close>; None is its error.\<close>

definition digit :: "char \<Rightarrow> bool" where
  "digit c \<longleftrightarrow> 48 \<le> byte c \<and> byte c \<le> 57"

definition ParseUint :: "string \<Rightarrow> nat option" where
  "ParseUint s = (if s = [] \<or> \<not> list_all digit s then None
                  else let v = str_nat s in if v < 2 ^ 64 then Some v else None)"

definition ParseInt :: "string \<Rightarrow> int option" where
  "ParseInt s =
     (case s of
        [] \<Rightarrow> None
      | c # cs \<Rightarrow>
          let neg = (c = CHR 0x2D);
              body = (if c = CHR 0x2B \<or> c = CHR 0x2D then cs else s)
          in case ParseUint body of
               None \<Rightarrow> None
             | Some un \<Rightarrow>
                 if \<not> neg \<and> un \<ge> 2 ^ 63 then None
                 else if neg \<and> un > 2 ^ 63 then None
                 else Some (if neg then - int un else int un))"

text \<open>
  \<open>HandleServer\<close>: the weight, the upgrade, and the gauge of connected workers around \<open>Run\<close>. The
  state is the gauge and the service's state; None means that \<open>Run\<close> was not called.
\<close>

definition HandleServer :: "(int \<Rightarrow> int \<times> 's \<Rightarrow> go_error option \<times> (int \<times> 's)) \<Rightarrow> string \<Rightarrow> bool
    \<Rightarrow> int \<times> 's \<Rightarrow> int option \<times> (int \<times> 's)" where
  "HandleServer run weightString upgraded s =
     (case ParseInt weightString of
        None \<Rightarrow> (None, s)
      | Some wt \<Rightarrow>
          if \<not> upgraded then (None, s)
          else case run wt (fst s + 1, snd s) of (_, (g, s')) \<Rightarrow> (Some wt, (g - 1, s')))"

subsection \<open>Properties\<close>

text \<open>
  Neither entry point hands more than 64 KiB of code to the service: a larger program is refused
  with InvalidArgument or status 400 and leaves the service's state alone, and a program of up to
  that size that binds reaches the service exactly as it was sent, under the fresh id.
\<close>

theorem code_size_limit:
  "(65536 < length (CodeBlock inp) \<longrightarrow> snd (ctl_Execute srv inp s) = s
        \<and> (\<exists>m. fst (ctl_Execute srv inp s) = Inl (InvalidArgument m)))
   \<and> (length (CodeBlock inp) \<le> 65536 \<longrightarrow> snd (ctl_Execute srv inp s) = snd (srv inp s)
        \<and> (is_ok (fst (ctl_Execute srv inp s)) \<longleftrightarrow> fst (srv inp s) = None))
   \<and> (\<forall>req. bind_execute body = Some req \<longrightarrow>
        (65536 < length (httpCodeBlock req) \<longrightarrow> snd (ExecuteHandler svc berr uuid body s) = s
            \<and> (\<exists>j. fst (ExecuteHandler svc berr uuid body s) = HttpResponse 400 j))
        \<and> (length (httpCodeBlock req) \<le> 65536 \<longrightarrow> snd (ExecuteHandler svc berr uuid body s)
            = snd (svc (zeroRequest\<lparr>reqId := uuid, Language := httpLanguage req, CodeBlock := httpCodeBlock req\<rparr>) s)))"
  by (auto simp: ctl_Execute_def ExecuteHandler_def maxCodeBlockSize_def split: prod.splits option.splits sum.splits)

theorem code_size_limit_witness:
  "snd (ctl_Execute (\<lambda>_ _. (None, 1)) (zeroRequest\<lparr>CodeBlock := replicate 65537 (CHR ''x'')\<rparr>) 0) = (0 :: nat)"
proof -
  have "65536 < length (CodeBlock (zeroRequest\<lparr>CodeBlock := replicate 65537 (CHR ''x'')\<rparr>))" by simp
  then show ?thesis
    using code_size_limit [of "zeroRequest\<lparr>CodeBlock := replicate 65537 (CHR ''x'')\<rparr>" "\<lambda>_ _. (None, 1)" "0 :: nat"
        "NotJson []" "\<lambda>_ _. (Inl ErrInnerServer, 0)" "[]" "[]"] by blast
qed

text \<open>
  Synchronous execution over HTTP answers 200 exactly when the body binds, the program fits
  and the service returns a response; the answer then carries the fresh id, the result and the
  language the client sent.
\<close>

theorem execute_handler_ok_iff:
  "(\<exists>j. fst (ExecuteHandler svc berr uuid body s) = HttpResponse 200 j)
     \<longleftrightarrow> (\<exists>req resp. bind_execute body = Some req \<and> length (httpCodeBlock req) \<le> 65536
           \<and> fst (svc (zeroRequest\<lparr>reqId := uuid, Language := httpLanguage req, CodeBlock := httpCodeBlock req\<rparr>) s) = Inr resp
           \<and> fst (ExecuteHandler svc berr uuid body s) = HttpResponse 200
               (JObj (keep_string ''id'' uuid @ keep_string ''result'' (Result resp)
                    @ omit_string ''err'' (Err resp) @ keep_string ''language'' (httpLanguage req))))"
  by (auto simp: ExecuteHandler_def maxCodeBlockSize_def split: prod.splits option.splits sum.splits)

lemma list_all_digit_nat_str: "list_all digit (nat_str n)"
  using nat_str_digits by (auto simp: list_all_iff digit_def)

lemma ParseUint_nat_str: "n < 2 ^ 64 \<Longrightarrow> ParseUint (nat_str n) = Some n"
  by (simp add: ParseUint_def list_all_digit_nat_str str_nat_nat_str)

lemma nat_str_not_sign:
  assumes "nat_str n = c # cs" shows "c \<noteq> CHR 0x2D \<and> c \<noteq> CHR 0x2B"
proof -
  have "48 \<le> byte c" using nat_str_digits [of c n] assms by simp
  then show ?thesis by auto
qed

text \<open>
  The weight parameter parses exactly the 64-bit integers: every \<open>int64\<close> in decimal gives that
  weight, and whatever parses is an \<open>int64\<close>.
\<close>

theorem parse_weight_roundtrip:
  "(in_i64 n \<longrightarrow> ParseInt (Itoa n) = Some n) \<and> (\<forall>s v. ParseInt s = Some v \<longrightarrow> in_i64 v)"
proof (intro conjI impI allI)
  assume n: "in_i64 n"
  show "ParseInt (Itoa n) = Some n"
  proof (cases "n < 0")
    case True
    then have "nat (- n) \<le> 2 ^ 63" using n by (simp add: in_i64_def)
    with True show ?thesis by (simp add: Itoa_def ParseInt_def ParseUint_nat_str)
  next
    case False
    obtain c cs where c: "nat_str (nat n) = c # cs" by (cases "nat_str (nat n)") simp_all
    have "nat n < 2 ^ 63" using n False by (simp add: in_i64_def)
    with False ParseUint_nat_str [of "nat n"] nat_str_not_sign [OF c] show ?thesis
      by (simp add: Itoa_def ParseInt_def c)
  qed
next
  fix s v assume "ParseInt s = Some v"
  then show "in_i64 v"
    by (auto simp: ParseInt_def in_i64_def Let_def split: list.splits option.splits if_splits)
qed

theorem parse_weight_roundtrip_witness: "ParseInt (Itoa (- 7)) = Some (- 7)"
  using parse_weight_roundtrip by (simp add: in_i64_def)

text \<open>
  A worker connection whose weight does not parse or whose upgrade fails never reaches the
  service, and the gauge of connected workers is back where it was when the handler returns,
  provided the service leaves the gauge alone.
\<close>

theorem handle_server_gauge:
  assumes "\<forall>wt g t. fst (snd (run wt (g, t))) = g"
  shows "fst (snd (HandleServer run weightString upgraded s)) = fst s
     \<and> (fst (HandleServer run weightString upgraded s) = None \<longleftrightarrow> ParseInt weightString = None \<or> \<not> upgraded)
     \<and> (fst (HandleServer run weightString upgraded s) = None \<longrightarrow> snd (HandleServer run weightString upgraded s) = s)"
proof -
  have "g' = g" if "run wt (g, t) = (e, g', t')" for wt g t e g' t' using assms that by (metis fst_conv snd_conv)
  then show ?thesis by (cases s) (fastforce simp: HandleServer_def split: option.splits prod.splits)
qed

theorem handle_server_gauge_witness:
  "fst (snd (HandleServer (\<lambda>wt s. (None, s)) ''5'' True (3, ()))) = 3"
  using handle_server_gauge [of "\<lambda>wt s. (None, s)" "''5''" True "(3, ())"] by simp

end
