(* ===== verification/Agent_Handlers.thy ===== *)
theory Agent_Handlers
  imports Session_Store Agent_Tools Prompt Server_Controllers
begin

text \<open>
  The agent's HTTP handlers (\<open>internal/agent/handler\<close>) and the executor that ties it to the code
  runner (\<open>internal/agent/executor.go\<close>). The agent library's runner is a parameter: the events it
  produces for the messages, or for a resumption; so are its concatenation of streamed chunks and
  the text of an error. A handler is split where the code hands over to the runner, so that requests
  for one session can be interleaved. Server-sent events are pairs of an event name and a payload.
\<close>

subsection \<open>Messages and events of the agent library\<close>

record toolcall =
  tcID :: string
  tcType :: string
  tcName :: string
  tcArguments :: string

record message =
  msgRole :: string
  msgContent :: string
  msgToolCalls :: "toolcall list"
  msgToolCallID :: string
  msgToolName :: string

definition SystemMessage :: "string \<Rightarrow> message" where
  "SystemMessage s = \<lparr>msgRole = ''system'', msgContent = s, msgToolCalls = [], msgToolCallID = [], msgToolName = []\<rparr>"

definition UserMessage :: "string \<Rightarrow> message" where
  "UserMessage s = \<lparr>msgRole = ''user'', msgContent = s, msgToolCalls = [], msgToolCallID = [], msgToolName = []\<rparr>"

definition ToolMessage :: "string \<Rightarrow> string \<Rightarrow> string \<Rightarrow> message" where
  "ToolMessage s callID name =
     \<lparr>msgRole = ''tool'', msgContent = s, msgToolCalls = [], msgToolCallID = callID, msgToolName = name\<rparr>"

datatype stream_item = Chunk message | NilChunk | StreamFailed

datatype event_output = NoOutput | Streaming "stream_item list" | Whole message

record interrupt_ctx =
  icRoot :: bool
  icID :: string
  icProposal :: "ProposalInfo option"    \<comment> \<open>when its information is a proposal\<close>

record agent_event =
  evErr :: "string option"
  evInterrupted :: "interrupt_ctx option list"
  evOutput :: event_output

record ssePayload =
  spType :: string
  spContent :: string
  spToolCalls :: "toolcall list"
  spError :: string
  spProposal :: "ProposalInfo option"
  spSessionID :: string

definition no_payload :: ssePayload where
  "no_payload = \<lparr>spType = [], spContent = [], spToolCalls = [], spError = [], spProposal = None, spSessionID = []\<rparr>"

type_synonym sse = "string \<times> ssePayload"

subsection \<open>The service\<close>

record agent =
  agStore :: FileStore
  InterruptIDs :: "string \<rightharpoonup> string"
  Proposals :: "string \<rightharpoonup> ProposalInfo"
  Cancels :: "string \<rightharpoonup> nat"       \<comment> \<open>the run a cancel function belongs to\<close>
  agCancelled :: "nat set"
  agSessionsActive :: int            \<comment> \<open>the gauge\<close>

datatype agent_response = Http nat json | Stream "sse list"

definition message_json :: "string \<Rightarrow> json" where
  "message_json m = JObj [(''message'', JStr m)]"

definition owner_ok :: "SessionMeta \<Rightarrow> string \<Rightarrow> bool" where
  "owner_ok meta visitor \<longleftrightarrow> smOwner meta = [] \<or> smOwner meta = visitor"

subsection \<open>Requests\<close>

record codeBlock =
  hcLanguage :: string
  hcCode :: string

record articleCtx =
  haID :: string
  haContent :: string
  haCodeBlocks :: "codeBlock list"
  haFocused :: "int option"

record chatRequest =
  crSessionID :: string
  crVisitorID :: string
  crUserMessage :: string
  crArticle :: "articleCtx option"

definition code_block_fields :: "codeBlock field list" where
  "code_block_fields = [string_field ''language'' (\<lambda>s r. r\<lparr>hcLanguage := s\<rparr>), string_field ''code'' (\<lambda>s r. r\<lparr>hcCode := s\<rparr>)]"

fun decode_blocks :: "json list \<Rightarrow> codeBlock list option" where
  "decode_blocks [] = Some []"
| "decode_blocks (j # js) =
     (case decode_struct code_block_fields \<lparr>hcLanguage = [], hcCode = []\<rparr> (Json j) of
        None \<Rightarrow> None
      | Some b \<Rightarrow> map_option (\<lambda>bs. b # bs) (decode_blocks js))"

definition article_fields :: "articleCtx field list" where
  "article_fields =
     [string_field ''article_id'' (\<lambda>s r. r\<lparr>haID := s\<rparr>), string_field ''article_content'' (\<lambda>s r. r\<lparr>haContent := s\<rparr>),
      (''code_blocks'', \<lambda>v r. case v of
          JArr js \<Rightarrow> map_option (\<lambda>bs. r\<lparr>haCodeBlocks := bs\<rparr>) (decode_blocks js)
        | JNull \<Rightarrow> Some (r\<lparr>haCodeBlocks := []\<rparr>) | _ \<Rightarrow> None),
      (''focused_block_index'', \<lambda>v r. case v of
          JNum n \<Rightarrow> if in_i64 n then Some (r\<lparr>haFocused := Some n\<rparr>) else None
        | JNull \<Rightarrow> Some (r\<lparr>haFocused := None\<rparr>) | _ \<Rightarrow> None)]"

definition chat_fields :: "chatRequest field list" where
  "chat_fields =
     [string_field ''session_id'' (\<lambda>s r. r\<lparr>crSessionID := s\<rparr>), string_field ''visitor_id'' (\<lambda>s r. r\<lparr>crVisitorID := s\<rparr>),
      string_field ''user_message'' (\<lambda>s r. r\<lparr>crUserMessage := s\<rparr>),
      (''article_ctx'', \<lambda>v r. case v of
          JObj ms \<Rightarrow> map_option (\<lambda>a. r\<lparr>crArticle := Some a\<rparr>)
            (decode_members article_fields ms
               (case crArticle r of Some a \<Rightarrow> a | None \<Rightarrow> \<lparr>haID = [], haContent = [], haCodeBlocks = [], haFocused = None\<rparr>))
        | JNull \<Rightarrow> Some (r\<lparr>crArticle := None\<rparr>) | _ \<Rightarrow> None)]"

definition bind_chat :: "payload \<Rightarrow> chatRequest option" where
  "bind_chat body = decode_struct chat_fields \<lparr>crSessionID = [], crVisitorID = [], crUserMessage = [], crArticle = None\<rparr> body"

definition toPromptArticleContext :: "articleCtx \<Rightarrow> ArticleContext" where
  "toPromptArticleContext a =
     \<lparr>ArticleID = haID a, ArticleContent = haContent a,
      CodeBlocks = map (\<lambda>cb. \<lparr>cbLanguage = hcLanguage cb, cbCode = hcCode cb\<rparr>) (haCodeBlocks a),
      FocusedBlockIndex = haFocused a\<rparr>"

definition buildInstruction :: "articleCtx option \<Rightarrow> string" where
  "buildInstruction ctx =
     (case ctx of
        None \<Rightarrow> []
      | Some a \<Rightarrow> Render (Build \<lparr>SessionMode = [], inArticle = Some (toPromptArticleContext a)\<rparr>))"

subsection \<open>Consuming the runner's events\<close>

text \<open>\<open>typed\<close>: the chat handler fills the payload's type and tool calls, the confirm handler does not.\<close>

definition payload_for :: "bool \<Rightarrow> string \<Rightarrow> message \<Rightarrow> ssePayload" where
  "payload_for typed kind m =
     (if typed then no_payload\<lparr>spType := kind, spContent := msgContent m, spToolCalls := msgToolCalls m\<rparr>
      else no_payload\<lparr>spContent := msgContent m\<rparr>)"

fun stream_chunks :: "stream_item list \<Rightarrow> message list" where
  "stream_chunks [] = []"
| "stream_chunks (Chunk m # is) = m # stream_chunks is"
| "stream_chunks (NilChunk # is) = stream_chunks is"
| "stream_chunks (StreamFailed # is) = []"

definition handle_output :: "bool \<Rightarrow> (message list \<Rightarrow> message option) \<Rightarrow> event_output \<Rightarrow> sse list \<times> message list" where
  "handle_output typed concatMsgs out =
     (case out of
        NoOutput \<Rightarrow> ([], [])
      | Streaming items \<Rightarrow>
          (let chunks = stream_chunks items
           in (map (\<lambda>m. (''stream_chunk'', payload_for typed ''stream_chunk'' m)) chunks,
               if chunks = [] then [] else case concatMsgs chunks of Some full \<Rightarrow> [full] | None \<Rightarrow> []))
      | Whole m \<Rightarrow>
          (let kind = (if msgRole m = ''tool'' then ''tool_result'' else ''message'')
           in ([(kind, payload_for typed kind m)], [m])))"

definition root_interrupt :: "interrupt_ctx option list \<Rightarrow> interrupt_ctx option" where
  "root_interrupt ics = (case find (\<lambda>ic. case ic of Some i \<Rightarrow> icRoot i | None \<Rightarrow> False) ics of Some (Some i) \<Rightarrow> Some i | _ \<Rightarrow> None)"

definition capture_interrupt :: "bool \<Rightarrow> string \<Rightarrow> interrupt_ctx option list \<Rightarrow> agent \<Rightarrow> sse list \<times> agent" where
  "capture_interrupt typed sid ics ag =
     (case root_interrupt ics of
        None \<Rightarrow> ([], ag)
      | Some ic \<Rightarrow>
          (let ag1 = ag\<lparr>InterruptIDs := (InterruptIDs ag)(sid \<mapsto> icID ic)\<rparr>
           in case icProposal ic of
                None \<Rightarrow> ([], ag1)
              | Some p \<Rightarrow> ([(''interrupt'', no_payload\<lparr>spType := (if typed then ''proposal'' else []), spProposal := Some p\<rparr>)],
                           ag1\<lparr>Proposals := (Proposals ag1)(sid \<mapsto> p)\<rparr>)))"

fun agent_loop :: "bool \<Rightarrow> (message list \<Rightarrow> message option) \<Rightarrow> string \<Rightarrow> agent_event list \<Rightarrow> agent
    \<Rightarrow> sse list \<times> message list \<times> agent" where
  "agent_loop typed concatMsgs sid [] ag = ([], [], ag)"
| "agent_loop typed concatMsgs sid (ev # evs) ag =
     (case evErr ev of
        Some e \<Rightarrow> ([(''error'', no_payload\<lparr>spType := (if typed then ''error'' else []), spError := e\<rparr>)], [], ag)
      | None \<Rightarrow>
          (case capture_interrupt typed sid (evInterrupted ev) ag of
             (out1, ag1) \<Rightarrow>
               (case handle_output typed concatMsgs (evOutput ev) of
                  (out2, ms) \<Rightarrow>
                    (case agent_loop typed concatMsgs sid evs ag1 of
                       (out3, ms', ag2) \<Rightarrow> (out1 @ out2 @ out3, ms @ ms', ag2)))))"

subsection \<open>The chat handler\<close>

text \<open>The clock readings of one request: the lookup's, the two of a creation, the append's.\<close>

record clock =
  atLookup :: int
  atCreate :: "int \<times> int"
  atAppend :: int

datatype chat_setup =
    Refused nat string
  | Prepared string bool string    \<comment> \<open>session id, whether it is new, instruction\<close>

definition setup_create :: "message file_env \<Rightarrow> clock \<Rightarrow> string \<Rightarrow> articleCtx option \<Rightarrow> string \<Rightarrow> string \<Rightarrow> bool \<Rightarrow> string
    \<Rightarrow> agent \<Rightarrow> chat_setup \<times> agent" where
  \<comment> \<open>\<open>counted\<close>: the session is new to the client and to the gauge\<close>
  "setup_create env clk sid ctx articleID visitor counted failed ag =
     (let instruction = buildInstruction ctx
      in case CreateWithArticle env (atCreate clk) sid instruction articleID visitor (agStore ag) of
           (Some _, st) \<Rightarrow> (Refused 500 failed, ag\<lparr>agStore := st\<rparr>)
         | (None, st) \<Rightarrow>
             (Prepared sid counted instruction,
              ag\<lparr>agStore := st, agSessionsActive := agSessionsActive ag + (if counted then 1 else 0)\<rparr>))"

definition chat_setup :: "message file_env \<Rightarrow> clock \<Rightarrow> string \<Rightarrow> payload \<Rightarrow> agent \<Rightarrow> chat_setup \<times> agent" where
  "chat_setup env clk uuid body ag =
     (case bind_chat body of
        None \<Rightarrow> (Refused 400 ''invalid request body'', ag)
      | Some req \<Rightarrow>
          if TrimSpace (crUserMessage req) = [] then (Refused 400 ''user_message is required'', ag)
          else if TrimSpace (crVisitorID req) = [] then (Refused 400 ''visitor_id is required'', ag)
          else if crSessionID req = [] \<and> crArticle req = None
          then (Refused 400 ''either session_id or article_ctx is required'', ag)
          else
            let sid = crSessionID req; visitor = crVisitorID req;
                articleID = (case crArticle req of Some a \<Rightarrow> haID a | None \<Rightarrow> [])
            in if sid = []
               then setup_create env clk uuid (crArticle req) articleID visitor True ''failed to create session'' ag
               else case GetMeta env (atLookup clk) sid (agStore ag) of
                      (found, st) \<Rightarrow>
                        let ag1 = ag\<lparr>agStore := st\<rparr>
                        in case crArticle req of
                             Some _ \<Rightarrow>
                               (case found of
                                  None \<Rightarrow> setup_create env clk sid (crArticle req) articleID visitor True ''failed to create session'' ag1
                                | Some meta \<Rightarrow>
                                    if \<not> owner_ok meta visitor then (Refused 403 ''session does not belong to this visitor'', ag1)
                                    else if smArticle meta = articleID then (Prepared sid False (smInstruction meta), ag1)
                                    else setup_create env clk sid (crArticle req) articleID visitor False ''failed to reset session''
                                           (ag1\<lparr>agStore := DeleteSession sid (agStore ag1)\<rparr>))
                           | None \<Rightarrow>
                               (case found of
                                  None \<Rightarrow> (Refused 404 ''session not found or expired'', ag1)
                                | Some meta \<Rightarrow>
                                    if \<not> owner_ok meta visitor then (Refused 403 ''session does not belong to this visitor'', ag1)
                                    else (Prepared sid False (smInstruction meta), ag1)))"

text \<open>Up to the runner: the refusal, or the messages it is given; \<open>tok\<close> stands for the run's cancel function.\<close>

definition chat_begin :: "message file_env \<Rightarrow> clock \<Rightarrow> string \<Rightarrow> nat \<Rightarrow> payload \<Rightarrow> agent
    \<Rightarrow> (agent_response, string \<times> bool \<times> message list) result \<times> agent" where
  "chat_begin env clk uuid tok body ag =
     (case chat_setup env clk uuid body ag of
        (Refused code msg, ag1) \<Rightarrow> (Inl (Http code (message_json msg)), ag1)
      | (Prepared sid isNew instruction, ag1) \<Rightarrow>
          (case GetMessages env sid (agStore ag1) of
             (_, Some _) \<Rightarrow> (Inl (Http 500 (message_json ''failed to load session history'')), ag1)
           | (past, None) \<Rightarrow>
               (let user = UserMessage (crUserMessage (the (bind_chat body)));
                    all_messages = (if instruction \<noteq> [] then [SystemMessage instruction] else []) @ past @ [user]
                in (Inr (sid, isNew, all_messages), ag1\<lparr>Cancels := (Cancels ag1)(sid \<mapsto> tok)\<rparr>))))"

definition chat_finish :: "message file_env \<Rightarrow> clock \<Rightarrow> (message list \<Rightarrow> message option) \<Rightarrow> string \<Rightarrow> bool \<Rightarrow> message
    \<Rightarrow> agent_event list \<Rightarrow> agent \<Rightarrow> agent_response \<times> agent" where
  "chat_finish env clk concatMsgs sid isNew user evs ag =
     (case agent_loop True concatMsgs sid evs ag of
        (out, produced, ag1) \<Rightarrow>
          (let st = snd (Append env (atAppend clk) sid (user # produced) (agStore ag1))
           in (Stream ((if isNew then [(''session_created'', no_payload\<lparr>spSessionID := sid\<rparr>)] else [])
                       @ out @ [(''done'', no_payload\<lparr>spType := ''done''\<rparr>)]),
               ag1\<lparr>agStore := st, Cancels := (Cancels ag1)(sid := None)\<rparr>)))"

definition ChatHandler :: "message file_env \<Rightarrow> clock \<Rightarrow> (message list \<Rightarrow> message option) \<Rightarrow> (message list \<Rightarrow> agent_event list)
    \<Rightarrow> string \<Rightarrow> nat \<Rightarrow> payload \<Rightarrow> agent \<Rightarrow> agent_response \<times> agent" where
  "ChatHandler env clk concatMsgs runner uuid tok body ag =
     (case chat_begin env clk uuid tok body ag of
        (Inl r, ag1) \<Rightarrow> (r, ag1)
      | (Inr (sid, isNew, msgs), ag1) \<Rightarrow> chat_finish env clk concatMsgs sid isNew (last msgs) (runner msgs) ag1)"

subsection \<open>Executing a proposal\<close>

record agentExecuteRequest =
  aeProposalID :: string
  aeCode :: string
  aeLanguage :: string

record ExecResult =
  erResult :: string
  erErr :: string

definition executor_Execute :: "(ExecuteRequest \<Rightarrow> 's \<Rightarrow> (string, ExecuteResponse) result \<times> 's)
    \<Rightarrow> agentExecuteRequest \<Rightarrow> 's \<Rightarrow> (string, ExecResult) result \<times> 's" where
  \<comment> \<open>the first argument: \<open>ExecuteSync\<close> with the executor's timeout\<close>
  "executor_Execute sync req s =
     (case sync (zeroRequest\<lparr>reqId := aeProposalID req, reqUid := 0, Language := aeLanguage req, CodeBlock := aeCode req\<rparr>) s of
        (Inl err, s') \<Rightarrow> (Inl (''execute sync: '' @ err), s')
      | (Inr resp, s') \<Rightarrow> (Inr \<lparr>erResult = Result resp, erErr = Err resp\<rparr>, s'))"

definition result_text :: "(string, ExecResult) result \<Rightarrow> string" where
  "result_text r =
     (case r of
        Inl err \<Rightarrow> ''Execution failed: '' @ err
      | Inr res \<Rightarrow>
          ''Execution result:'' @ [CHR 0x0A]
          @ (if erResult res \<noteq> [] then ''stdout: '' @ erResult res @ [CHR 0x0A] else [])
          @ (if erErr res \<noteq> [] then ''stderr: '' @ erErr res @ [CHR 0x0A] else [])
          @ (if erResult res = [] \<and> erErr res = [] then ''(no output)'' @ [CHR 0x0A] else []))"

record confirmRequest =
  cqSessionID :: string
  cqVisitorID :: string
  cqProposalID :: string

definition confirm_fields :: "confirmRequest field list" where
  "confirm_fields = [string_field ''session_id'' (\<lambda>s r. r\<lparr>cqSessionID := s\<rparr>), string_field ''visitor_id'' (\<lambda>s r. r\<lparr>cqVisitorID := s\<rparr>),
                     string_field ''proposal_id'' (\<lambda>s r. r\<lparr>cqProposalID := s\<rparr>)]"

definition bind_confirm :: "payload \<Rightarrow> confirmRequest option" where
  "bind_confirm body = decode_struct confirm_fields \<lparr>cqSessionID = [], cqVisitorID = [], cqProposalID = []\<rparr> body"

text \<open>The checks: the refusal, or the interrupt to resume and the proposal to execute.\<close>

definition confirm_begin :: "message file_env \<Rightarrow> clock \<Rightarrow> nat \<Rightarrow> payload \<Rightarrow> agent
    \<Rightarrow> (agent_response, string \<times> string \<times> ProposalInfo) result \<times> agent" where
  "confirm_begin env clk tok body ag =
     (case bind_confirm body of
        None \<Rightarrow> (Inl (Http 400 (message_json ''invalid request body'')), ag)
      | Some req \<Rightarrow>
          if TrimSpace (cqSessionID req) = [] \<or> TrimSpace (cqProposalID req) = []
          then (Inl (Http 400 (message_json ''session_id and proposal_id are required'')), ag)
          else case GetMeta env (atLookup clk) (cqSessionID req) (agStore ag) of
                 (None, st) \<Rightarrow> (Inl (Http 404 (message_json ''session not found or expired'')), ag\<lparr>agStore := st\<rparr>)
               | (Some meta, st) \<Rightarrow>
                   let ag1 = ag\<lparr>agStore := st\<rparr>; sid = cqSessionID req
                   in if \<not> owner_ok meta (cqVisitorID req)
                      then (Inl (Http 403 (message_json ''session does not belong to this visitor'')), ag1)
                      else case InterruptIDs ag1 sid of
                             None \<Rightarrow> (Inl (Http 409 (message_json ''no pending interrupt for this session'')), ag1)
                           | Some interruptID \<Rightarrow>
                               (case Proposals ag1 sid of
                                  None \<Rightarrow> (Inl (Http 404 (message_json ''proposal not found'')), ag1)
                                | Some p \<Rightarrow>
                                    if prID p \<noteq> cqProposalID req
                                    then (Inl (Http 409 (message_json ''proposal_id does not match pending proposal'')), ag1)
                                    else (Inr (sid, interruptID, p), ag1\<lparr>Cancels := (Cancels ag1)(sid \<mapsto> tok)\<rparr>)))"

definition confirm_request :: "ProposalInfo \<Rightarrow> agentExecuteRequest" where
  "confirm_request p = \<lparr>aeProposalID = prID p, aeCode = prCode p, aeLanguage = prLanguage p\<rparr>"

text \<open>
  From the result of the execution to the end. \<open>resume\<close> gives the error of resuming, or the events,
  for the session, the interrupt and the result's text.
\<close>

definition confirm_finish :: "message file_env \<Rightarrow> clock \<Rightarrow> (nat \<Rightarrow> bool) \<Rightarrow> (message list \<Rightarrow> message option)
    \<Rightarrow> (string \<Rightarrow> string \<Rightarrow> string \<Rightarrow> (string, agent_event list) result)
    \<Rightarrow> string \<Rightarrow> string \<Rightarrow> ProposalInfo \<Rightarrow> (string, ExecResult) result \<Rightarrow> agent \<Rightarrow> agent_response \<times> agent" where
  "confirm_finish env clk is_print concatMsgs resume sid interruptID p result ag =
     (let text = result_text result;
          ag1 = ag\<lparr>InterruptIDs := (InterruptIDs ag)(sid := None), Proposals := (Proposals ag)(sid := None)\<rparr>;
          started = [(''message'', no_payload\<lparr>spContent := ''executing''\<rparr>)]
      in case resume sid interruptID text of
           Inl err \<Rightarrow> (Stream (started @ [(''error'', no_payload\<lparr>spError := err\<rparr>)]), ag1\<lparr>Cancels := (Cancels ag1)(sid := None)\<rparr>)
         | Inr evs \<Rightarrow>
             (let call = \<lparr>msgRole = ''assistant'', msgContent = [],
                          msgToolCalls = [\<lparr>tcID = prID p, tcType = ''function'', tcName = ''propose_execution'',
                                           tcArguments = proposal_arguments is_print p\<rparr>],
                          msgToolCallID = [], msgToolName = []\<rparr>;
                  reply = ToolMessage text (prID p) ''propose_execution'';
                  ag2 = ag1\<lparr>agStore := snd (Append env (atAppend clk) sid [call, reply] (agStore ag1))\<rparr>
              in case agent_loop False concatMsgs sid evs ag2 of
                   (out, produced, ag3) \<Rightarrow>
                     (let st = (if produced \<noteq> [] then snd (Append env (atAppend clk) sid produced (agStore ag3)) else agStore ag3)
                      in (Stream (started @ out @ [(''done'', no_payload)]),
                          ag3\<lparr>agStore := st, Cancels := (Cancels ag3)(sid := None)\<rparr>))))"

definition ConfirmHandler :: "message file_env \<Rightarrow> clock \<Rightarrow> (nat \<Rightarrow> bool) \<Rightarrow> (message list \<Rightarrow> message option)
    \<Rightarrow> (string \<Rightarrow> string \<Rightarrow> string \<Rightarrow> (string, agent_event list) result)
    \<Rightarrow> (agentExecuteRequest \<Rightarrow> 's \<Rightarrow> (string, ExecResult) result \<times> 's)
    \<Rightarrow> nat \<Rightarrow> payload \<Rightarrow> agent \<Rightarrow> 's \<Rightarrow> agent_response \<times> agent \<times> 's" where
  "ConfirmHandler env clk is_print concatMsgs resume exec tok body ag s =
     (case confirm_begin env clk tok body ag of
        (Inl r, ag1) \<Rightarrow> (r, ag1, s)
      | (Inr (sid, interruptID, p), ag1) \<Rightarrow>
          (case exec (confirm_request p) s of
             (result, s') \<Rightarrow>
               (case confirm_finish env clk is_print concatMsgs resume sid interruptID p result ag1 of
                  (r, ag2) \<Rightarrow> (r, ag2, s'))))"

subsection \<open>Cancelling, reading sessions, the API key\<close>

record cancelRequest =
  caSessionID :: string
  caVisitorID :: string

definition cancel_fields :: "cancelRequest field list" where
  "cancel_fields = [string_field ''session_id'' (\<lambda>s r. r\<lparr>caSessionID := s\<rparr>), string_field ''visitor_id'' (\<lambda>s r. r\<lparr>caVisitorID := s\<rparr>)]"

definition CancelHandler :: "message file_env \<Rightarrow> clock \<Rightarrow> payload \<Rightarrow> agent \<Rightarrow> agent_response \<times> agent" where
  "CancelHandler env clk body ag =
     (case decode_struct cancel_fields \<lparr>caSessionID = [], caVisitorID = []\<rparr> body of
        None \<Rightarrow> (Http 400 (message_json ''invalid request body''), ag)
      | Some req \<Rightarrow>
          if TrimSpace (caSessionID req) = [] then (Http 400 (message_json ''session_id is required''), ag)
          else case Cancels ag (caSessionID req) of
                 None \<Rightarrow> (Http 404 (message_json ''no active run for this session''), ag)
               | Some tok \<Rightarrow>
                   let ag1 = ag\<lparr>Cancels := (Cancels ag)(caSessionID req := None)\<rparr>
                   in case GetMeta env (atLookup clk) (caSessionID req) (agStore ag1) of
                        (found, st) \<Rightarrow>
                          let ag2 = ag1\<lparr>agStore := st\<rparr>
                          in if (case found of Some meta \<Rightarrow> \<not> owner_ok meta (caVisitorID req) | None \<Rightarrow> False)
                             then (Http 403 (message_json ''session does not belong to this visitor''),
                                   ag2\<lparr>Cancels := (Cancels ag2)(caSessionID req \<mapsto> tok)\<rparr>)
                             else (Http 200 (message_json ''cancelled''), ag2\<lparr>agCancelled := insert tok (agCancelled ag2)\<rparr>))"

definition ListSessionsHandler :: "message file_env \<Rightarrow> clock \<Rightarrow> (string \<times> bool) list \<Rightarrow> agent \<Rightarrow> SessionMeta list \<times> agent" where
  "ListSessionsHandler env clk entries ag =
     (case ListSessions env (atLookup clk) entries (agStore ag) of (ms, st) \<Rightarrow> (ms, ag\<lparr>agStore := st\<rparr>))"

datatype session_messages = MessagesRefused nat string | MessagesOf string "message list"

definition GetSessionMessagesHandler :: "message file_env \<Rightarrow> clock \<Rightarrow> string \<Rightarrow> agent \<Rightarrow> session_messages \<times> agent" where
  "GetSessionMessagesHandler env clk sid ag =
     (case GetMeta env (atLookup clk) sid (agStore ag) of
        (None, st) \<Rightarrow> (MessagesRefused 404 ''session not found or expired'', ag\<lparr>agStore := st\<rparr>)
      | (Some _, st) \<Rightarrow>
          (case GetMessages env sid st of
             (_, Some _) \<Rightarrow> (MessagesRefused 500 ''failed to load messages'', ag\<lparr>agStore := st\<rparr>)
           | (ms, None) \<Rightarrow> (MessagesOf sid ms, ag\<lparr>agStore := st\<rparr>)))"

definition AgentAPIKeyMiddleware :: "string \<Rightarrow> (string \<Rightarrow> string) \<Rightarrow> ('s \<Rightarrow> agent_response \<times> 's) \<Rightarrow> 's \<Rightarrow> agent_response \<times> 's" where
  "AgentAPIKeyMiddleware expected header next_handler s =
     (if expected \<noteq> [] \<and> header ''X-Agent-API-Key'' \<noteq> expected
      then (Http 401 (message_json ''unauthorized''), s) else next_handler s)"

subsection \<open>What the handlers leave alone\<close>

lemma capture_interrupt_frame:
  assumes "capture_interrupt typed sid ics ag = (out, ag')"
  shows "agStore ag' = agStore ag \<and> Cancels ag' = Cancels ag \<and> agCancelled ag' = agCancelled ag
     \<and> agSessionsActive ag' = agSessionsActive ag
     \<and> (\<forall>x. x \<noteq> sid \<longrightarrow> InterruptIDs ag' x = InterruptIDs ag x \<and> Proposals ag' x = Proposals ag x)"
  using assms by (auto simp: capture_interrupt_def Let_def split: option.splits)

lemma agent_loop_frame:
  "agent_loop typed cm sid evs ag = (out, ms, ag') \<Longrightarrow>
     agStore ag' = agStore ag \<and> Cancels ag' = Cancels ag \<and> agCancelled ag' = agCancelled ag
     \<and> agSessionsActive ag' = agSessionsActive ag
     \<and> (\<forall>x. x \<noteq> sid \<longrightarrow> InterruptIDs ag' x = InterruptIDs ag x \<and> Proposals ag' x = Proposals ag x)"
proof (induction evs arbitrary: ag out ms)
  case (Cons ev evs)
  show ?case
  proof (cases "evErr ev")
    case None
    obtain o1 ag1 where c: "capture_interrupt typed sid (evInterrupted ev) ag = (o1, ag1)" by fastforce
    obtain o3 ms' ag2 where l: "agent_loop typed cm sid evs ag1 = (o3, ms', ag2)" by (metis prod_cases3)
    from Cons.prems None c l have "ag' = ag2" by (auto split: prod.splits)
    with Cons.IH [of ag1 o3 ms'] l capture_interrupt_frame [OF c] show ?thesis by simp
  qed (use Cons.prems in auto)
qed simp

lemma GetMeta_histories: "GetMeta env now sid st = (r, st') \<Longrightarrow> history env st' x = history env st x"
  using GetMeta_frame [of env now sid st r st'] by (simp add: history_read)

lemma GetMeta_logs_ok: "GetMeta env now sid st = (r, st') \<Longrightarrow> logs_ok st \<Longrightarrow> logs_ok st'"
  using GetMeta_frame [of env now sid st r st'] by (simp add: logs_ok_def)

text \<open>A session somebody else owns.\<close>

definition foreign :: "message file_env \<Rightarrow> clock \<Rightarrow> string \<Rightarrow> string \<Rightarrow> agent \<Rightarrow> bool" where
  "foreign env clk sid visitor ag \<longleftrightarrow>
     (case fst (GetMeta env (atLookup clk) sid (agStore ag)) of Some meta \<Rightarrow> \<not> owner_ok meta visitor | None \<Rightarrow> False)"

text \<open>Two states that differ in the cache of metadata at most.\<close>

definition same_agent :: "agent \<Rightarrow> agent \<Rightarrow> bool" where
  "same_agent a b \<longleftrightarrow>
     jsonlFiles (agStore a) = jsonlFiles (agStore b) \<and> metaFiles (agStore a) = metaFiles (agStore b)
     \<and> InterruptIDs a = InterruptIDs b \<and> Proposals a = Proposals b \<and> Cancels a = Cancels b
     \<and> agCancelled a = agCancelled b \<and> agSessionsActive a = agSessionsActive b"

lemma same_agent_GetMeta:
  "GetMeta env now sid (agStore ag) = (r, st) \<Longrightarrow> same_agent (ag\<lparr>agStore := st\<rparr>) ag"
  using GetMeta_frame [of env now sid "agStore ag" r st] by (simp add: same_agent_def)

lemma chat_setup_foreign:
  assumes "foreign env clk (crSessionID req) (crVisitorID req) ag" "bind_chat body = Some req" "crSessionID req \<noteq> []"
  shows "\<exists>code msg ag'. chat_setup env clk uuid body ag = (Refused code msg, ag') \<and> code \<in> {400, 403} \<and> same_agent ag' ag"
proof -
  obtain meta st where g: "GetMeta env (atLookup clk) (crSessionID req) (agStore ag) = (Some meta, st)"
      "\<not> owner_ok meta (crVisitorID req)"
    using assms(1) by (auto simp: foreign_def split: option.splits) (metis prod.collapse)
  then show ?thesis using assms(2, 3) same_agent_GetMeta [OF g(1)]
    by (auto simp: chat_setup_def Let_def same_agent_def split: option.splits)
qed

text \<open>
  C20. Nobody acts on a session that belongs to another visitor: the chat handler answers 400 or 403
  without starting the runner, the confirm handler answers an error without executing anything, the
  cancel handler cancels nothing, and all three leave the sessions' files, the pending proposals,
  the running cancel functions and the code runner as they were.
\<close>

theorem foreign_session_protected:
  assumes "foreign env clk sid visitor ag" and "sid \<noteq> []"
  shows "(bind_chat body = Some req \<and> crSessionID req = sid \<and> crVisitorID req = visitor \<longrightarrow>
            (\<exists>code j. fst (ChatHandler env clk cm runner uuid tok body ag) = Http code j \<and> code \<in> {400, 403})
            \<and> same_agent (snd (ChatHandler env clk cm runner uuid tok body ag)) ag)
     \<and> (bind_confirm body = Some creq \<and> cqSessionID creq = sid \<and> cqVisitorID creq = visitor \<longrightarrow>
            (\<exists>code j. fst (ConfirmHandler env clk ip cm resume exec tok body ag s) = Http code j)
            \<and> same_agent (fst (snd (ConfirmHandler env clk ip cm resume exec tok body ag s))) ag
            \<and> snd (snd (ConfirmHandler env clk ip cm resume exec tok body ag s)) = s)
     \<and> (decode_struct cancel_fields \<lparr>caSessionID = [], caVisitorID = []\<rparr> body = Some areq
            \<and> caSessionID areq = sid \<and> caVisitorID areq = visitor \<longrightarrow>
            (\<exists>code j. fst (CancelHandler env clk body ag) = Http code j \<and> code \<in> {400, 403, 404})
            \<and> same_agent (snd (CancelHandler env clk body ag)) ag)"
proof (intro conjI impI)
  obtain meta st where g: "GetMeta env (atLookup clk) sid (agStore ag) = (Some meta, st)" "\<not> owner_ok meta visitor"
    using assms(1) by (auto simp: foreign_def split: option.splits) (metis prod.collapse)
  note sa = same_agent_GetMeta [OF g(1)]
  have refl: "same_agent ag ag" by (simp add: same_agent_def)
  {
    assume "bind_chat body = Some req \<and> crSessionID req = sid \<and> crVisitorID req = visitor"
    with chat_setup_foreign [of env clk req ag body uuid] assms obtain code msg ag' where
      "chat_setup env clk uuid body ag = (Refused code msg, ag')" "code \<in> {400, 403}" "same_agent ag' ag" by auto
    then show "\<exists>code j. fst (ChatHandler env clk cm runner uuid tok body ag) = Http code j \<and> code \<in> {400, 403}"
      "same_agent (snd (ChatHandler env clk cm runner uuid tok body ag)) ag"
      by (simp_all add: ChatHandler_def chat_begin_def)
  }
  {
    assume c: "bind_confirm body = Some creq \<and> cqSessionID creq = sid \<and> cqVisitorID creq = visitor"
    then have "\<exists>code j ag'. confirm_begin env clk tok body ag = (Inl (Http code j), ag') \<and> same_agent ag' ag"
      using g sa refl by (auto simp: confirm_begin_def Let_def)
    then show "\<exists>code j. fst (ConfirmHandler env clk ip cm resume exec tok body ag s) = Http code j"
      "same_agent (fst (snd (ConfirmHandler env clk ip cm resume exec tok body ag s))) ag"
      "snd (snd (ConfirmHandler env clk ip cm resume exec tok body ag s)) = s"
      by (auto simp: ConfirmHandler_def)
  }
  {
    assume "decode_struct cancel_fields \<lparr>caSessionID = [], caVisitorID = []\<rparr> body = Some areq
        \<and> caSessionID areq = sid \<and> caVisitorID areq = visitor"
    then have "\<exists>code j ag'. CancelHandler env clk body ag = (Http code j, ag') \<and> code \<in> {400, 403, 404} \<and> same_agent ag' ag"
      using g sa refl by (auto simp: CancelHandler_def Let_def same_agent_def fun_eq_iff split: option.splits)
    then show "\<exists>code j. fst (CancelHandler env clk body ag) = Http code j \<and> code \<in> {400, 403, 404}"
      "same_agent (snd (CancelHandler env clk body ag)) ag" by auto
  }
qed

definition wit_msg_env :: "message file_env" where
  "wit_msg_env = \<lparr>feWritable = (\<lambda>p. True), feTime = (\<lambda>t. Itoa t), feParseTime = (\<lambda>s. Some 0),
     feEnc = (\<lambda>m. Some (CHR ''m'' # msgContent m)), feDec = (\<lambda>s. Some (UserMessage (tl s)))\<rparr>"

definition wit_clock :: clock where
  "wit_clock = \<lparr>atLookup = 1, atCreate = (1, 1), atAppend = 1\<rparr>"

definition wit_proposal :: ProposalInfo where
  "wit_proposal = \<lparr>prID = ''p1'', prCode = ''print(1)'', prLanguage = ''python'', prDescription = []\<rparr>"

text \<open>A session of Bob's with a pending proposal.\<close>

definition wit_agent :: agent where
  "wit_agent = \<lparr>agStore = wit_store\<lparr>metas := [''a'' \<mapsto> wit_meta], jsonlFiles := [jsonlPath wit_store ''a'' \<mapsto> []]\<rparr>,
     InterruptIDs = [''a'' \<mapsto> ''i1''], Proposals = [''a'' \<mapsto> wit_proposal], Cancels = Map.empty, agCancelled = {},
     agSessionsActive = 1\<rparr>"

lemma wit_agent_meta: "GetMeta wit_msg_env 1 ''a'' (agStore wit_agent) = (Some wit_meta, agStore wit_agent)"
  by (simp add: GetMeta_def wit_agent_def expired_def wit_store_def wit_meta_def)

definition wit_confirm :: "string \<Rightarrow> payload" where
  "wit_confirm visitor = Json (JObj [(''session_id'', JStr ''a''), (''visitor_id'', JStr visitor), (''proposal_id'', JStr ''p1'')])"

lemma wit_confirm_bind: "bind_confirm (wit_confirm v) = Some \<lparr>cqSessionID = ''a'', cqVisitorID = v, cqProposalID = ''p1''\<rparr>"
  by (simp add: bind_confirm_def wit_confirm_def decode_struct_def confirm_fields_def find_field_def string_field_def)

theorem foreign_session_protected_witness:
  "snd (snd (ConfirmHandler wit_msg_env wit_clock (\<lambda>_. True) (\<lambda>_. None) (\<lambda>_ _ _. Inl []) (\<lambda>r n. (Inl [], n + 1)) 7
     (wit_confirm ''eve'') wit_agent (0 :: nat))) = 0"
proof -
  have f: "foreign wit_msg_env wit_clock ''a'' ''eve'' wit_agent"
    using wit_agent_meta by (simp add: foreign_def wit_clock_def owner_ok_def wit_meta_def)
  have n: "''a'' \<noteq> []" by simp
  let ?c = "\<lparr>cqSessionID = ''a'', cqVisitorID = ''eve'', cqProposalID = ''p1''\<rparr>"
  have c: "bind_confirm (wit_confirm ''eve'') = Some ?c \<and> cqSessionID ?c = ''a'' \<and> cqVisitorID ?c = ''eve''"
    using wit_confirm_bind by simp
  show ?thesis
    by (rule foreign_session_protected [OF f n, THEN conjunct2, THEN conjunct1, THEN mp, OF c, THEN conjunct2, THEN conjunct2])
qed

subsection \<open>The transcript\<close>

lemma setup_create_spec:
  assumes "setup_create env clk sid ctx art vis cnt failed ag = (Prepared sid' isNew instr, ag')" "logs_ok (agStore ag)"
  shows "sid' = sid \<and> isNew = cnt \<and> instr = buildInstruction ctx \<and> history env (agStore ag') sid = Some [] \<and> logs_ok (agStore ag')"
proof -
  obtain st where c: "CreateWithArticle env (atCreate clk) sid (buildInstruction ctx) art vis (agStore ag) = (None, st)"
    and st: "agStore ag' = st" "sid' = sid" "isNew = cnt" "instr = buildInstruction ctx"
    using assms(1) by (auto simp: setup_create_def Let_def split: prod.splits option.splits)
  show ?thesis
    using file_store.hist_create [of env "(atCreate clk, buildInstruction ctx, art, vis)" sid "agStore ag"]
      file_store.inv_create [of "agStore ag" env "(atCreate clk, buildInstruction ctx, art, vis)" sid] assms(2) c st
    by simp
qed

lemma chat_setup_logs_ok:
  assumes "chat_setup env clk uuid body ag = (Prepared sid isNew instr, ag')" "logs_ok (agStore ag)"
  shows "logs_ok (agStore ag')"
proof -
  note d = file_store.inv_delete
  obtain req where r: "bind_chat body = Some req" using assms(1) by (auto simp: chat_setup_def split: option.splits)
  obtain found st where g: "GetMeta env (atLookup clk) (crSessionID req) (agStore ag) = (found, st)" by fastforce
  have st: "logs_ok st" by (rule GetMeta_logs_ok [OF g assms(2)])
  then have del: "logs_ok (DeleteSession (crSessionID req) st)" by (rule d)
  show ?thesis
    using assms g r st del setup_create_spec
    by (auto simp: chat_setup_def Let_def split: if_splits option.splits)
qed


definition wit_chat :: payload where
  "wit_chat = Json (JObj [(''session_id'', JStr ''a''), (''visitor_id'', JStr ''bob''), (''user_message'', JStr ''hello'')])"

lemma wit_chat_bind:
  "bind_chat wit_chat = Some \<lparr>crSessionID = ''a'', crVisitorID = ''bob'', crUserMessage = ''hello'', crArticle = None\<rparr>"
  by (simp add: bind_chat_def wit_chat_def decode_struct_def chat_fields_def find_field_def string_field_def)

lemma wit_chat_begin:
  "chat_begin wit_msg_env wit_clock [] 7 wit_chat wit_agent
     = (Inr (''a'', False, [SystemMessage ''hi'', UserMessage ''hello'']), wit_agent\<lparr>Cancels := (Cancels wit_agent)(''a'' \<mapsto> 7)\<rparr>)"
proof -
  have "TrimSpace ''hello'' = ''hello''" "TrimSpace ''bob'' = ''bob''" by code_simp+
  moreover have "GetMessages wit_msg_env ''a'' (agStore wit_agent) = ([], None)"
    by (simp add: GetMessages_def wit_agent_def jsonlPath_def maxToken_def)
  moreover have "GetMeta wit_msg_env (atLookup wit_clock) ''a'' (agStore wit_agent) = (Some wit_meta, agStore wit_agent)"
    using wit_agent_meta by (simp add: wit_clock_def)
  ultimately show ?thesis
    by (simp add: chat_begin_def chat_setup_def wit_chat_bind owner_ok_def) (simp add: wit_meta_def)
qed


subsection \<open>Confirmed executions\<close>

lemma confirm_begin_Inr:
  assumes "confirm_begin env clk tok body ag = (Inr (sid, iid, p), ag1)"
  shows "\<exists>req. bind_confirm body = Some req \<and> sid = cqSessionID req \<and> Proposals ag sid = Some p \<and> prID p = cqProposalID req
     \<and> InterruptIDs ag sid = Some iid \<and> \<not> foreign env clk sid (cqVisitorID req) ag
     \<and> InterruptIDs ag1 = InterruptIDs ag \<and> Proposals ag1 = Proposals ag \<and> Cancels ag1 = (Cancels ag)(sid \<mapsto> tok)"
  using assms by (auto simp: confirm_begin_def foreign_def Let_def split: option.splits prod.splits if_splits)

lemma confirm_begin_Inl:
  assumes "confirm_begin env clk tok body ag = (Inl r, ag1)"
  shows "(\<exists>code j. r = Http code j) \<and> same_agent ag1 ag"
proof -
  have refl: "same_agent ag ag" by (simp add: same_agent_def)
  show ?thesis using assms refl
    by (auto simp: confirm_begin_def Let_def split: option.splits prod.splits if_splits dest!: same_agent_GetMeta)
qed

lemma confirm_runs:
  assumes "confirm_begin env clk tok body ag = (Inr (sid, iid, p), ag1)"
  shows "(\<exists>out. fst (ConfirmHandler env clk ip cm resume exec tok body ag s) = Stream out)
     \<and> snd (snd (ConfirmHandler env clk ip cm resume exec tok body ag s)) = snd (exec (confirm_request p) s)"
  using assms by (auto simp: ConfirmHandler_def confirm_finish_def Let_def split: prod.splits sum.splits)

lemma wit_confirm_begin:
  "confirm_begin wit_msg_env wit_clock 7 (wit_confirm ''bob'') wit_agent
     = (Inr (''a'', ''i1'', wit_proposal), wit_agent\<lparr>Cancels := (Cancels wit_agent)(''a'' \<mapsto> 7)\<rparr>)"
proof -
  have "TrimSpace ''a'' = ''a''" "TrimSpace ''p1'' = ''p1''" by code_simp+
  moreover have "GetMeta wit_msg_env (atLookup wit_clock) ''a'' (agStore wit_agent) = (Some wit_meta, agStore wit_agent)"
    using wit_agent_meta by (simp add: wit_clock_def)
  moreover have "owner_ok wit_meta ''bob''" "InterruptIDs wit_agent ''a'' = Some ''i1''" "Proposals wit_agent ''a'' = Some wit_proposal"
    "prID wit_proposal = ''p1''"
    by (simp_all add: owner_ok_def wit_meta_def wit_agent_def wit_proposal_def)
  ultimately show ?thesis by (simp add: confirm_begin_def wit_confirm_bind Let_def)
qed

text \<open>
  C13. A confirmation executes exactly the pending proposal: the code runner is called once, with the
  id, code and language of the proposal stored for the session, and only for a request that names
  that proposal and comes from the session's owner; a refused confirmation executes nothing and
  leaves the pending proposal.
\<close>

theorem confirm_executes_pending:
  assumes "ConfirmHandler env clk ip cm resume exec tok body ag s = (r, ag', s')"
  shows "(\<exists>req p. bind_confirm body = Some req \<and> Proposals ag (cqSessionID req) = Some p \<and> prID p = cqProposalID req
            \<and> InterruptIDs ag (cqSessionID req) \<noteq> None \<and> \<not> foreign env clk (cqSessionID req) (cqVisitorID req) ag
            \<and> s' = snd (exec \<lparr>aeProposalID = prID p, aeCode = prCode p, aeLanguage = prLanguage p\<rparr> s)
            \<and> (\<exists>out. r = Stream out))
     \<or> (s' = s \<and> same_agent ag' ag \<and> (\<exists>code j. r = Http code j))"
proof (cases "confirm_begin env clk tok body ag")
  case (Pair x ag1)
  show ?thesis
  proof (cases x)
    case (Inl r1)
    with Pair assms confirm_begin_Inl [of env clk tok body ag r1 ag1] show ?thesis by (auto simp: ConfirmHandler_def)
  next
    case (Inr y)
    obtain sid iid p where y: "y = (sid, iid, p)" by (metis prod_cases3)
    with Pair Inr have b: "confirm_begin env clk tok body ag = (Inr (sid, iid, p), ag1)" by simp
    from assms b confirm_runs [OF b, where s = s and ip = ip and cm = cm and resume = resume and exec = exec] have "s' = snd (exec (confirm_request p) s)" "\<exists>out. r = Stream out"
      by auto
    with confirm_begin_Inr [OF b] show ?thesis by (auto simp: confirm_request_def)
  qed
qed

theorem confirm_executes_pending_witness:
  "snd (snd (ConfirmHandler wit_msg_env wit_clock (\<lambda>_. True) (\<lambda>_. None) (\<lambda>_ _ _. Inl [])
     (\<lambda>r rs. (Inl [], aeCode r # rs)) 7 (wit_confirm ''bob'') wit_agent [])) = [''print(1)'']"
proof -
  let ?exec = "\<lambda>r rs. (Inl [] :: (string, ExecResult) result, aeCode r # rs)"
  obtain r ag' s' where c: "ConfirmHandler wit_msg_env wit_clock (\<lambda>_. True) (\<lambda>_. None) (\<lambda>_ _ _. Inl []) ?exec 7
      (wit_confirm ''bob'') wit_agent [] = (r, ag', s')" by (metis prod_cases3)
  have "\<not> (\<exists>code j. r = Http code j)"
    using c confirm_runs [OF wit_confirm_begin, where s = "[]" and ip = "\<lambda>_. True" and cm = "\<lambda>_. None"
      and resume = "\<lambda>_ _ _. Inl []" and exec = ?exec] by auto
  with confirm_executes_pending [OF c] wit_confirm_bind [of "''bob''"]
  have "s' = [''print(1)'']" by (auto simp: wit_agent_def wit_proposal_def)
  with c show ?thesis by simp
qed

lemma GetMeta_again:
  assumes "GetMeta env now sid st = (Some m, st')" shows "GetMeta env now sid st' = (Some m, st')"
  using assms by (auto simp: GetMeta_def expired_def split: option.splits if_splits)

text \<open>
  The checks of a confirmation do not reserve the proposal: a second confirmation that arrives
  before the first one's execution has returned passes them too, with the same interrupt and
  proposal, so that the program is executed twice; only when an execution has returned is the
  proposal gone, and a confirmation that comes then is refused.
\<close>

theorem confirm_race_executes_twice:
  assumes "confirm_begin env clk tok body ag = (Inr (sid, iid, p), ag1)"
  shows "fst (confirm_begin env clk tok' body ag1) = Inr (sid, iid, p)
     \<and> snd (snd (ConfirmHandler env clk ip cm resume exec tok' body ag1 (snd (exec (confirm_request p) s))))
         = snd (exec (confirm_request p) (snd (exec (confirm_request p) s)))
     \<and> (\<exists>r. fst (confirm_begin env clk' tok' body
              (snd (confirm_finish env clk ip cm (\<lambda>_ _ _. Inr []) sid iid p res ag1))) = Inl r)"
proof -
  obtain req meta st where c: "bind_confirm body = Some req" "sid = cqSessionID req"
      "GetMeta env (atLookup clk) sid (agStore ag) = (Some meta, st)" "agStore ag1 = st"
      "\<not> (TrimSpace (cqSessionID req) = [] \<or> TrimSpace (cqProposalID req) = [])" "owner_ok meta (cqVisitorID req)"
    using assms by (auto simp: confirm_begin_def Let_def split: option.splits prod.splits if_splits)
  have "GetMeta env (atLookup clk) sid (agStore ag1) = (Some meta, st)" using GetMeta_again [OF c(3)] c(4) by simp
  moreover have "InterruptIDs ag1 sid = Some iid" "Proposals ag1 sid = Some p" "prID p = cqProposalID req"
    using confirm_begin_Inr [OF assms] c(1, 2) by auto
  ultimately have b: "fst (confirm_begin env clk tok' body ag1) = Inr (sid, iid, p)"
    using c by (simp add: confirm_begin_def Let_def)
  then obtain ag2 where "confirm_begin env clk tok' body ag1 = (Inr (sid, iid, p), ag2)" by (metis prod.collapse)
  from confirm_runs [OF this, where s = "snd (exec (confirm_request p) s)" and ip = ip and cm = cm and resume = resume and exec = exec]
  have "snd (snd (ConfirmHandler env clk ip cm resume exec tok' body ag1 (snd (exec (confirm_request p) s))))
      = snd (exec (confirm_request p) (snd (exec (confirm_request p) s)))" by blast
  moreover have "\<exists>r. fst (confirm_begin env clk' tok' body
      (snd (confirm_finish env clk ip cm (\<lambda>_ _ _. Inr []) sid iid p res ag1))) = Inl r"
    using c(1, 2) by (auto simp: confirm_begin_def confirm_finish_def Let_def split: option.splits prod.splits)
  ultimately show ?thesis using b by blast
qed

theorem confirm_race_executes_twice_witness:
  "snd (snd (ConfirmHandler wit_msg_env wit_clock (\<lambda>_. True) (\<lambda>_. None) (\<lambda>_ _ _. Inl []) (\<lambda>r n. (Inl [], Suc n)) 8
     (wit_confirm ''bob'') (wit_agent\<lparr>Cancels := (Cancels wit_agent)(''a'' \<mapsto> 7)\<rparr>) 1)) = (2 :: nat)"
  using confirm_race_executes_twice [OF wit_confirm_begin, where exec = "\<lambda>r n. (Inl [], Suc n)" and s = "0 :: nat"
      and tok' = 8 and ip = "\<lambda>_. True" and cm = "\<lambda>_. None" and resume = "\<lambda>_ _ _. Inl []"] by simp

text \<open>What reaches the code runner is in a language it runs.\<close>

definition runnable :: "ProposalInfo \<Rightarrow> bool" where
  "runnable p \<longleftrightarrow> prLanguage p \<in> set supportedLanguages"

definition proposals_runnable :: "agent \<Rightarrow> bool" where
  "proposals_runnable ag \<longleftrightarrow> (\<forall>sid p. Proposals ag sid = Some p \<longrightarrow> runnable p)"

definition events_runnable :: "agent_event list \<Rightarrow> bool" where
  "events_runnable evs \<longleftrightarrow>
     (\<forall>ev ic p. ev \<in> set evs \<and> Some ic \<in> set (evInterrupted ev) \<and> icProposal ic = Some p \<longrightarrow> runnable p)"

lemma root_interrupt_in: "root_interrupt ics = Some ic \<Longrightarrow> Some ic \<in> set ics"
  by (auto simp: root_interrupt_def dest!: find_Some_in split: option.splits)

lemma agent_loop_runnable:
  "agent_loop typed cm sid evs ag = (out, ms, ag') \<Longrightarrow> proposals_runnable ag \<Longrightarrow> events_runnable evs \<Longrightarrow> proposals_runnable ag'"
proof (induction evs arbitrary: ag out ms)
  case (Cons ev evs)
  show ?case
  proof (cases "evErr ev")
    case None
    obtain o1 ag1 where c: "capture_interrupt typed sid (evInterrupted ev) ag = (o1, ag1)" by fastforce
    obtain o3 ms' ag2 where l: "agent_loop typed cm sid evs ag1 = (o3, ms', ag2)" by (metis prod_cases3)
    have "proposals_runnable ag1"
    proof (cases "root_interrupt (evInterrupted ev)")
      case (Some ic)
      have "icProposal ic = Some p \<Longrightarrow> runnable p" for p
        using root_interrupt_in [OF Some] Cons.prems(3) by (auto simp: events_runnable_def)
      with c Some Cons.prems(2) show ?thesis
        by (auto simp: capture_interrupt_def proposals_runnable_def Let_def split: option.splits if_splits)
    qed (use c Cons.prems(2) in \<open>auto simp: capture_interrupt_def\<close>)
    moreover have "events_runnable evs" using Cons.prems(3) by (auto simp: events_runnable_def)
    moreover have "ag' = ag2" using Cons.prems(1) None c l by (auto split: prod.splits)
    ultimately show ?thesis using Cons.IH [of ag1 o3 ms'] l by simp
  qed (use Cons.prems in auto)
qed simp

lemma chat_setup_proposals: "chat_setup env clk uuid body ag = (x, ag') \<Longrightarrow> Proposals ag' = Proposals ag"
  by (auto simp: chat_setup_def setup_create_def Let_def split: option.splits prod.splits if_splits)

lemma chat_begin_proposals: "chat_begin env clk uuid tok body ag = (x, ag') \<Longrightarrow> Proposals ag' = Proposals ag"
  by (auto simp: chat_begin_def Let_def dest: chat_setup_proposals split: prod.splits chat_setup.splits option.splits)

lemma chat_runnable:
  assumes "proposals_runnable ag" and "\<forall>msgs. events_runnable (runner msgs)"
  shows "proposals_runnable (snd (ChatHandler env clk cm runner uuid tok body ag))"
proof -
  obtain x ag1 where b: "chat_begin env clk uuid tok body ag = (x, ag1)" by fastforce
  have r1: "proposals_runnable ag1" using assms(1) chat_begin_proposals [OF b] by (simp add: proposals_runnable_def)
  show ?thesis
  proof (cases x)
    case (Inr y)
    obtain sid isNew msgs where y: "y = (sid, isNew, msgs)" by (metis prod_cases3)
    obtain out ms ag2 where l: "agent_loop True cm sid (runner msgs) ag1 = (out, ms, ag2)" by (metis prod_cases3)
    have "proposals_runnable ag2" using agent_loop_runnable [OF l r1] assms(2) by blast
    with b Inr y l show ?thesis by (simp add: ChatHandler_def chat_finish_def Let_def proposals_runnable_def)
  qed (use b r1 in \<open>simp add: ChatHandler_def\<close>)
qed

lemma confirm_finish_runnable:
  assumes "proposals_runnable ag" and "\<forall>a b c. (case resume a b c of Inl e \<Rightarrow> True | Inr evs \<Rightarrow> events_runnable evs)"
  shows "proposals_runnable (snd (confirm_finish env clk ip cm resume sid iid p res ag))"
proof (cases "resume sid iid (result_text res)")
  case (Inl e)
  then show ?thesis using assms(1) by (simp add: confirm_finish_def Let_def proposals_runnable_def)
next
  case evs: (Inr evs)
  define ag2 where "ag2 = ag\<lparr>InterruptIDs := (InterruptIDs ag)(sid := None), Proposals := (Proposals ag)(sid := None)\<rparr>"
  have e: "events_runnable evs" using assms(2) evs by (metis sum.simps(6))
  have "proposals_runnable ag3" if l: "agent_loop False cm sid evs (ag2\<lparr>agStore := st\<rparr>) = (out, ms, ag3)" for st out ms ag3
    by (rule agent_loop_runnable [OF l _ e]) (use assms(1) in \<open>simp add: ag2_def proposals_runnable_def\<close>)
  then show ?thesis using evs
    by (auto simp: confirm_finish_def Let_def ag2_def proposals_runnable_def split: prod.splits)
qed

lemma confirm_begin_runnable:
  assumes "proposals_runnable ag" and "confirm_begin env clk tok body ag = (x, ag1)"
  shows "proposals_runnable ag1 \<and> (case x of Inl r \<Rightarrow> True | Inr (sid, iid, p) \<Rightarrow> prLanguage p \<in> set supportedLanguages)"
proof (cases x)
  case (Inl r)
  with assms confirm_begin_Inl [of env clk tok body ag r ag1] show ?thesis by (simp add: same_agent_def proposals_runnable_def)
next
  case (Inr y)
  obtain sid iid p where y: "y = (sid, iid, p)" by (metis prod_cases3)
  with assms Inr confirm_begin_Inr [of env clk tok body ag sid iid p ag1] show ?thesis
    by (auto simp: proposals_runnable_def runnable_def)
qed

text \<open>
  Every pending proposal is in a language the workers have a command for, as long as the agent
  library only reports proposals the tool made: the chat handler, the confirm handler and the cancel
  handler keep this, and what a confirmation executes has a file extension and a command.
\<close>

theorem proposals_stay_runnable:
  assumes "proposals_runnable ag" and "\<forall>msgs. events_runnable (runner msgs)"
    and "\<forall>a b c. (case resume a b c of Inl e \<Rightarrow> True | Inr evs \<Rightarrow> events_runnable evs)"
  shows "proposals_runnable (snd (ChatHandler env clk cm runner uuid tok body ag))
     \<and> proposals_runnable (fst (snd (ConfirmHandler env clk ip cm resume exec tok body ag s)))
     \<and> proposals_runnable (snd (CancelHandler env clk body ag))
     \<and> (case confirm_begin env clk tok body ag of
          (Inr (sid, iid, p), ag1) \<Rightarrow> extensionMap (ToLower_ascii (prLanguage p)) \<noteq> None \<and> fst (getCommand (prLanguage p) path) \<noteq> ''''
        | _ \<Rightarrow> True)"
proof (intro conjI)
  show "proposals_runnable (snd (ChatHandler env clk cm runner uuid tok body ag))"
    using assms(1, 2) by (rule chat_runnable)
  obtain x ag1 where b: "confirm_begin env clk tok body ag = (x, ag1)" by fastforce
  note r = confirm_begin_runnable [OF assms(1) b]
  then show "proposals_runnable (fst (snd (ConfirmHandler env clk ip cm resume exec tok body ag s)))"
    using b confirm_finish_runnable [OF _ assms(3)] by (auto simp: ConfirmHandler_def split_beta split: sum.splits)
  show "proposals_runnable (snd (CancelHandler env clk body ag))"
    using assms(1) by (auto simp: CancelHandler_def proposals_runnable_def Let_def split: option.splits prod.splits if_splits)
  show "case confirm_begin env clk tok body ag of
          (Inr (sid, iid, p), ag1) \<Rightarrow> extensionMap (ToLower_ascii (prLanguage p)) \<noteq> None \<and> fst (getCommand (prLanguage p) path) \<noteq> ''''
        | _ \<Rightarrow> True"
    using b r supported_extension supported_command by (fastforce split: sum.splits)
qed

theorem proposals_stay_runnable_witness:
  "proposals_runnable (snd (ChatHandler wit_msg_env wit_clock (\<lambda>_. None)
     (\<lambda>_. [\<lparr>evErr = None, evInterrupted = [Some \<lparr>icRoot = True, icID = ''i2'', icProposal = Some wit_proposal\<rparr>], evOutput = NoOutput\<rparr>])
     [] 7 wit_chat wit_agent))"
proof -
  let ?evs = "[\<lparr>evErr = None, evInterrupted = [Some \<lparr>icRoot = True, icID = ''i2'', icProposal = Some wit_proposal\<rparr>], evOutput = NoOutput\<rparr>]"
  have p: "proposals_runnable wit_agent"
    by (simp add: proposals_runnable_def wit_agent_def runnable_def wit_proposal_def supportedLanguages_def)
  have e: "\<forall>msgs. events_runnable ((\<lambda>_ :: message list. ?evs) msgs)"
    by (simp add: events_runnable_def runnable_def wit_proposal_def supportedLanguages_def)
  have "\<forall>a b c. (case (\<lambda>(a :: string) (b :: string) (c :: string). Inr [] :: (string, agent_event list) result) a b c of
      Inl e \<Rightarrow> True | Inr evs \<Rightarrow> events_runnable evs)" by (simp add: events_runnable_def)
  from proposals_stay_runnable [OF p e this, THEN conjunct1] show ?thesis .
qed

text \<open>
  Reading a session's messages is not protected by its owner: whoever knows the id reads the whole
  conversation. The gauge of active sessions only grows, and a confirmation of an expired session
  can be cancelled by anybody.
\<close>

lemma messages_not_protected:
  assumes "foreign env clk sid visitor ag" "history env (agStore ag) sid = Some ms"
  shows "fst (GetSessionMessagesHandler env clk sid ag) = MessagesOf sid ms"
proof -
  obtain meta st where g: "GetMeta env (atLookup clk) sid (agStore ag) = (Some meta, st)"
    using assms(1) by (auto simp: foreign_def split: option.splits) (metis prod.collapse)
  have "history env st sid = Some ms" using GetMeta_histories [OF g] assms(2) by simp
  then show ?thesis using g
    by (auto simp: GetSessionMessagesHandler_def history_def split: prod.splits option.splits)
qed

lemma gauge_only_grows:
  "agSessionsActive ag \<le> agSessionsActive (snd (ChatHandler env clk cm runner uuid tok body ag))
   \<and> agSessionsActive (fst (snd (ConfirmHandler env clk ip cm resume exec tok body ag s))) = agSessionsActive ag
   \<and> agSessionsActive (snd (CancelHandler env clk body ag)) = agSessionsActive ag"
proof (intro conjI)
  obtain x ag1 where b: "chat_begin env clk uuid tok body ag = (x, ag1)" by fastforce
  have "\<forall>y ag'. chat_setup env clk uuid body ag = (y, ag') \<longrightarrow> agSessionsActive ag \<le> agSessionsActive ag'"
    by (auto simp: chat_setup_def setup_create_def Let_def split: option.splits prod.splits if_splits)
  then have g: "agSessionsActive ag \<le> agSessionsActive ag1"
    using b by (auto simp: chat_begin_def Let_def split: prod.splits chat_setup.splits option.splits)
  have "agSessionsActive (snd (chat_finish env clk cm sid isNew u evs ag1)) = agSessionsActive ag1" for sid isNew u evs
    using agent_loop_frame by (auto simp: chat_finish_def Let_def split: prod.splits)
  with b g show "agSessionsActive ag \<le> agSessionsActive (snd (ChatHandler env clk cm runner uuid tok body ag))"
    by (auto simp: ChatHandler_def split: sum.splits prod.splits)
next
  obtain x ag1 where b: "confirm_begin env clk tok body ag = (x, ag1)" by fastforce
  have e: "agSessionsActive ag1 = agSessionsActive ag"
    using b by (auto simp: confirm_begin_def Let_def split: option.splits prod.splits if_splits)
  have "agSessionsActive (snd (confirm_finish env clk ip cm resume sid iid p res ag1)) = agSessionsActive ag1" for sid iid p res
    by (auto simp: confirm_finish_def Let_def split: sum.splits prod.splits dest!: agent_loop_frame)
  with b e show "agSessionsActive (fst (snd (ConfirmHandler env clk ip cm resume exec tok body ag s))) = agSessionsActive ag"
    by (auto simp: ConfirmHandler_def split_beta split: sum.splits)
  show "agSessionsActive (snd (CancelHandler env clk body ag)) = agSessionsActive ag"
    by (auto simp: CancelHandler_def Let_def split: option.splits prod.splits if_splits)
qed

text \<open>
  A chat request with an article and an id no session has creates that session's files, wherever
  the id leads (\<open>session_id_escapes\<close>): the id is not checked.
\<close>

lemma chat_creates_given_id:
  assumes "bind_chat body = Some req" "crArticle req = Some a" "crSessionID req = sid" "sid \<noteq> []"
    "TrimSpace (crUserMessage req) \<noteq> []" "TrimSpace (crVisitorID req) \<noteq> []"
    "GetMeta env (atLookup clk) sid (agStore ag) = (None, agStore ag)"
    "feWritable env (metaPath (agStore ag) sid)" "feWritable env (jsonlPath (agStore ag) sid)"
  shows "metaFiles (agStore (snd (chat_setup env clk uuid body ag))) (metaPath (agStore ag) sid) \<noteq> None
     \<and> jsonlFiles (agStore (snd (chat_setup env clk uuid body ag))) (jsonlPath (agStore ag) sid) = Some []"
  using assms by (simp add: chat_setup_def setup_create_def CreateWithArticle_def Let_def)

text \<open>The API key guards every handler behind it.\<close>

lemma api_key_guards:
  assumes "expected \<noteq> []" "header ''X-Agent-API-Key'' \<noteq> expected"
  shows "AgentAPIKeyMiddleware expected header h s = (Http 401 (message_json ''unauthorized''), s)"
  using assms by (simp add: AgentAPIKeyMiddleware_def)

end
