(* ===== verification/Go_Encoding.thy ===== *)
theory Go_Encoding
  imports Go_Strings
begin

text \<open>
  What the program uses of \<open>encoding/base64\<close> (the unpadded URL alphabet), of \<open>net/url\<close> (parsing a
  reference that starts with a slash) and of \<open>strings.TrimRight\<close>.
\<close>

subsection \<open>base64.RawURLEncoding\<close>

definition b64_char :: "nat \<Rightarrow> char" where
  "b64_char n =
     (if n < 26 then char_of (65 + n) else if n < 52 then char_of (71 + n) else if n < 62 then char_of (n - 4)
      else if n = 62 then CHR ''-'' else CHR ''_'')"

definition b64_value :: "char \<Rightarrow> nat option" where
  "b64_value c =
     (if 65 \<le> byte c \<and> byte c \<le> 90 then Some (byte c - 65)
      else if 97 \<le> byte c \<and> byte c \<le> 122 then Some (byte c - 71)
      else if 48 \<le> byte c \<and> byte c \<le> 57 then Some (byte c + 4)
      else if c = CHR ''-'' then Some 62
      else if c = CHR ''_'' then Some 63
      else None)"

fun EncodeToString :: "string \<Rightarrow> string" where
  "EncodeToString [] = []"
| "EncodeToString [a] = [b64_char (byte a div 4), b64_char (byte a mod 4 * 16)]"
| "EncodeToString [a, b] =
     [b64_char (byte a div 4), b64_char (byte a mod 4 * 16 + byte b div 16), b64_char (byte b mod 16 * 4)]"
| "EncodeToString (a # b # c # cs) =
     [b64_char (byte a div 4), b64_char (byte a mod 4 * 16 + byte b div 16), b64_char (byte b mod 16 * 4 + byte c div 64),
      b64_char (byte c mod 64)] @ EncodeToString cs"

fun decode_sextets :: "nat list \<Rightarrow> string option" where
  "decode_sextets [] = Some []"
| "decode_sextets [x] = None"
| "decode_sextets [x, y] = Some [char_of (x * 4 + y div 16)]"
| "decode_sextets [x, y, z] = Some [char_of (x * 4 + y div 16), char_of (y mod 16 * 16 + z div 4)]"
| "decode_sextets (x # y # z # w # ss) =
     map_option (\<lambda>r. char_of (x * 4 + y div 16) # char_of (y mod 16 * 16 + z div 4) # char_of (z mod 4 * 64 + w) # r)
       (decode_sextets ss)"

fun sextets :: "string \<Rightarrow> nat list option" where
  \<comment> \<open>line breaks are skipped\<close>
  "sextets [] = Some []"
| "sextets (c # cs) =
     (if byte c = 10 \<or> byte c = 13 then sextets cs
      else case b64_value c of None \<Rightarrow> None | Some v \<Rightarrow> map_option (\<lambda>vs. v # vs) (sextets cs))"

definition DecodeString :: "string \<Rightarrow> string option" where
  "DecodeString s = Option.bind (sextets s) decode_sextets"

lemma b64_char_value:
  "n < 64 \<Longrightarrow> b64_value (b64_char n) = Some n \<and> 13 < byte (b64_char n) \<and> byte (b64_char n) < 128 \<and> b64_char n \<noteq> CHR ''.''"
proof -
  assume n: "n < 64"
  have dot: "c = CHR ''.'' \<Longrightarrow> byte c = 46" for c :: char by simp
  consider "n < 26" | "26 \<le> n" "n < 52" | "52 \<le> n" "n < 62" | "n = 62" | "n = 63" using n by linarith
  then show ?thesis
    by cases (auto simp: b64_char_def b64_value_def byte_char_of dest: dot)
qed

lemma byte_less: "byte c < 256"
  by (metis of_char_mod_256 mod_less_divisor zero_less_numeral)

lemma sextets_cons: "n < 64 \<Longrightarrow> sextets (b64_char n # cs) = map_option (\<lambda>vs. n # vs) (sextets cs)"
  using b64_char_value [of n] by simp

lemma byte_parts: "byte c div 4 < 64" "byte c div 16 < 16" "byte c div 64 < 4"
  using byte_less [of c] by (simp_all add: less_mult_imp_div_less)

lemma sextet_bounds: "byte a div 4 < 64" "byte a mod 4 * 16 < 64" "byte a mod 4 * 16 + byte b div 16 < 64" "byte b mod 16 * 4 < 64"
  "byte b mod 16 * 4 + byte c div 64 < 64" "byte c mod 64 < 64"
proof -
  have m: "byte a mod 4 < 4" "byte b mod 16 < 16" by simp_all
  show "byte a div 4 < 64" "byte c mod 64 < 64" using byte_parts(1) by simp_all
  show "byte a mod 4 * 16 < 64" "byte b mod 16 * 4 < 64" using m by linarith+
  show "byte a mod 4 * 16 + byte b div 16 < 64" using m(1) byte_parts(2) [of b] by linarith
  show "byte b mod 16 * 4 + byte c div 64 < 64" using m(2) byte_parts(3) [of c] by linarith
qed

lemma byte_join:
  "x = byte a div 4 \<Longrightarrow> y = byte a mod 4 * 16 + q \<Longrightarrow> q < 16 \<Longrightarrow> char_of (x * 4 + y div 16) = a"
  "y = p * 16 + byte b div 16 \<Longrightarrow> z = byte b mod 16 * 4 + r \<Longrightarrow> r < 4 \<Longrightarrow> char_of (y mod 16 * 16 + z div 4) = b"
  "z = p * 4 + byte c div 64 \<Longrightarrow> char_of (z mod 4 * 64 + byte c mod 64) = c"
proof -
  assume "x = byte a div 4" "y = byte a mod 4 * 16 + q" "q < 16"
  then have "x * 4 + y div 16 = byte a" by simp
  then show "char_of (x * 4 + y div 16) = a" by simp
next
  assume "y = p * 16 + byte b div 16" "z = byte b mod 16 * 4 + r" "r < 4"
  then have "y mod 16 * 16 + z div 4 = byte b" using byte_parts(2) [of b] by simp
  then show "char_of (y mod 16 * 16 + z div 4) = b" by simp
next
  assume "z = p * 4 + byte c div 64"
  then have "z mod 4 * 64 + byte c mod 64 = byte c" using byte_parts(3) [of c] by simp
  then show "char_of (z mod 4 * 64 + byte c mod 64) = c" by simp
qed

text \<open>Decoding inverts encoding, and the encoding uses its alphabet only, which has no dot.\<close>

lemma base64_sextets: "\<exists>vs. sextets (EncodeToString s) = Some vs \<and> decode_sextets vs = Some s"
proof (induction s rule: EncodeToString.induct)
  case (4 a b c cs)
  then obtain vs where vs: "sextets (EncodeToString cs) = Some vs" "decode_sextets vs = Some cs" by blast
  let ?x = "byte a div 4" and ?y = "byte a mod 4 * 16 + byte b div 16" and ?z = "byte b mod 16 * 4 + byte c div 64"
  have "sextets (EncodeToString (a # b # c # cs)) = Some (?x # ?y # ?z # byte c mod 64 # vs)"
    by (simp add: sextets_cons sextet_bounds vs(1) del: sextets.simps(2))
  moreover have "char_of (?x * 4 + ?y div 16) = a" by (rule byte_join(1) [OF refl refl byte_parts(2)])
  moreover have "char_of (?y mod 16 * 16 + ?z div 4) = b" by (rule byte_join(2) [OF refl refl byte_parts(3)])
  moreover have "char_of (?z mod 4 * 64 + byte c mod 64) = c" by (rule byte_join(3) [OF refl])
  ultimately show ?case using vs(2) by (simp only: decode_sextets.simps) simp
next
  case (2 a)
  have "sextets (EncodeToString [a]) = Some [byte a div 4, byte a mod 4 * 16]"
    by (simp add: sextets_cons sextet_bounds del: sextets.simps(2))
  moreover have "char_of (byte a div 4 * 4 + byte a mod 4 * 16 div 16) = a" by (rule byte_join(1) [of _ _ _ 0]) simp_all
  ultimately show ?case by (simp only: decode_sextets.simps) simp
next
  case (3 a b)
  let ?x = "byte a div 4" and ?y = "byte a mod 4 * 16 + byte b div 16" and ?z = "byte b mod 16 * 4"
  have "sextets (EncodeToString [a, b]) = Some [?x, ?y, ?z]"
    by (simp add: sextets_cons sextet_bounds del: sextets.simps(2))
  moreover have "char_of (?x * 4 + ?y div 16) = a" by (rule byte_join(1) [OF refl refl byte_parts(2)])
  moreover have "char_of (?y mod 16 * 16 + ?z div 4) = b" by (rule byte_join(2) [of _ _ _ _ 0]) simp_all
  ultimately show ?case by (simp only: decode_sextets.simps) simp
qed simp

lemma base64_roundtrip: "DecodeString (EncodeToString s) = Some s"
  using base64_sextets [of s] by (auto simp: DecodeString_def)

lemma EncodeToString_char: "c \<in> set (EncodeToString s) \<Longrightarrow> \<exists>n < 64. c = b64_char n"
  by (induction s rule: EncodeToString.induct) (auto intro: sextet_bounds)

lemma EncodeToString_no_dot: "CHR ''.'' \<notin> set (EncodeToString s)"
  using EncodeToString_char b64_char_value by metis

subsection \<open>net/url: references that start with a slash\<close>

record url =
  uScheme :: string
  uHost :: string

definition is_ctl :: "char \<Rightarrow> bool" where
  "is_ctl c \<longleftrightarrow> byte c < 32 \<or> byte c = 127"

definition is_hex :: "char \<Rightarrow> bool" where
  "is_hex c \<longleftrightarrow> 48 \<le> byte c \<and> byte c \<le> 57 \<or> 97 \<le> byte c \<and> byte c \<le> 102 \<or> 65 \<le> byte c \<and> byte c \<le> 70"

fun escapes_ok :: "string \<Rightarrow> bool" where
  "escapes_ok [] = True"
| "escapes_ok (c # cs) =
     (if c = CHR ''%'' then (case cs of a # b # r \<Rightarrow> is_hex a \<and> is_hex b \<and> escapes_ok r | _ \<Rightarrow> False) else escapes_ok cs)"

text \<open>
  \<open>Parse\<close> of a string that starts with one slash and not with two: it has no scheme and no
  authority. Control bytes are refused before the fragment only; the escapes of the path and of the
  fragment are checked, the query's are not.
\<close>

definition before_char :: "char \<Rightarrow> string \<Rightarrow> string" where
  "before_char c s = takeWhile (\<lambda>x. x \<noteq> c) s"

definition after_char :: "char \<Rightarrow> string \<Rightarrow> string" where
  "after_char c s = drop 1 (dropWhile (\<lambda>x. x \<noteq> c) s)"

definition ParseRooted :: "string \<Rightarrow> url option" where
  "ParseRooted raw =
     (let u = before_char (CHR 0x23) raw; frag = after_char (CHR 0x23) raw
      in if list_ex is_ctl u \<or> \<not> escapes_ok (before_char (CHR ''?'') u) \<or> \<not> escapes_ok frag then None
         else Some \<lparr>uScheme = [], uHost = []\<rparr>)"

definition TrimRight_char :: "char \<Rightarrow> string \<Rightarrow> string" where
  "TrimRight_char c s = rev (dropWhile (\<lambda>x. x = c) (rev s))"

end
