(* ===== verification/Grpc_Auth.thy ===== *)
theory Grpc_Auth
  imports Server_Controllers
begin

text \<open>
  Authentication of gRPC callers: the token issuer
  (\<open>internal/infrastructure/common/token/tokenPublic.go\<close>), its service and controller
  (\<open>internal/application/service/auth\<close>, \<open>internal/interfaces/controller/auth\<close>), trace ids
  (\<open>internal/infrastructure/common/tracing\<close>) and the unary interceptor
  (\<open>internal/interfaces/adapter/middleware/interceptor.go\<close>).

  The JWT library (\<open>golang-jwt/jwt/v4\<close>) is a parameter: signing, taking a token apart without
  checking it, and checking its signature. What \<open>jwt.Parse\<close> does with them is its documented order.
\<close>

subsection \<open>Trace ids\<close>

definition NewTraceID :: "nat list \<Rightarrow> string" where
  \<comment> \<open>\<open>%x\<close> of the eight bytes the random source yields\<close>
  "NewTraceID rnd = concat (map hex_byte rnd)"

type_synonym trace_ctx = "string option"

definition WithTraceID :: "string \<Rightarrow> trace_ctx \<Rightarrow> trace_ctx" where
  "WithTraceID t ctx = Some t"

definition FromContext :: "trace_ctx \<Rightarrow> string" where
  "FromContext ctx = (case ctx of Some t \<Rightarrow> t | None \<Rightarrow> '''')"

definition trace_fields :: "trace_ctx \<Rightarrow> (string \<times> string) list" where
  \<comment> \<open>\<open>Logger\<close>: the fields of the logger it returns\<close>
  "trace_fields ctx = (if FromContext ctx = [] then [] else [(''traceID'', FromContext ctx)])"

lemma trace_fields_of_call: "rnd \<noteq> [] \<Longrightarrow> trace_fields (WithTraceID (NewTraceID rnd) ctx) = [(''traceID'', NewTraceID rnd)]"
  by (cases rnd) (simp_all add: trace_fields_def FromContext_def WithTraceID_def NewTraceID_def hex_byte_def)

subsection \<open>The JWT library\<close>

datatype jwt_method = HMAC string | OtherMethod string

record claims =
  username :: string
  expires :: "int option"

record jwt_lib =
  jwtSign :: "string \<Rightarrow> claims \<Rightarrow> string option"
    \<comment> \<open>HS256 under a key\<close>
  jwtParts :: "string \<Rightarrow> (jwt_method \<times> claims) option"
  jwtSigned :: "jwt_method \<Rightarrow> string \<Rightarrow> string \<Rightarrow> bool"
    \<comment> \<open>method, key and token: is the signature right\<close>

definition jwt_Parse :: "jwt_lib \<Rightarrow> (jwt_method \<Rightarrow> string option) \<Rightarrow> int \<Rightarrow> string \<Rightarrow> claims option" where
  \<comment> \<open>take apart, ask for the key, check the signature, check the expiry\<close>
  "jwt_Parse J keyfunc now s =
     (case jwtParts J s of
        None \<Rightarrow> None
      | Some (m, c) \<Rightarrow>
          (case keyfunc m of
             None \<Rightarrow> None
           | Some key \<Rightarrow>
               if jwtSigned J m key s \<and> (case expires c of None \<Rightarrow> True | Some e \<Rightarrow> now < e)
               then Some c else None))"

definition jwt_ok :: "jwt_lib \<Rightarrow> bool" where
  \<comment> \<open>a signed token comes apart into what was signed, and its signature is right under its key\<close>
  "jwt_ok J \<longleftrightarrow> (\<forall>k c s. jwtSign J k c = Some s \<longrightarrow>
     jwtParts J s = Some (HMAC ''HS256'', c) \<and> jwtSigned J (HMAC ''HS256'') k s)"

subsection \<open>Tokens\<close>

record token =
  jwtSecret :: string
  password :: string

definition NewToken :: "(string \<Rightarrow> string) \<Rightarrow> token option" where
  \<comment> \<open>None: \<open>Fatal\<close> ends the process\<close>
  "NewToken env =
     (if env ''JWT_SECRET'' = '''' then None
      else if env ''AUTH_PASSWORD'' = '''' then None
      else Some \<lparr>jwtSecret = env ''JWT_SECRET'', password = env ''AUTH_PASSWORD''\<rparr>)"

record GenerateTokenRequest =
  gtName :: string
  gtPassword :: string

datatype token_error = PasswordMismatch | TokenSignFailed

definition Public :: "jwt_lib \<Rightarrow> int \<Rightarrow> token \<Rightarrow> GenerateTokenRequest \<Rightarrow> (token_error, string) result" where
  \<comment> \<open>\<open>now\<close> in seconds\<close>
  "Public J now t req =
     (if gtPassword req \<noteq> password t then Inl PasswordMismatch
      else case jwtSign J (jwtSecret t) \<lparr>username = gtName req, expires = Some (now + 24 * 3600)\<rparr> of
             None \<Rightarrow> Inl TokenSignFailed
           | Some s \<Rightarrow> Inr s)"

definition Verify :: "jwt_lib \<Rightarrow> int \<Rightarrow> token \<Rightarrow> string \<Rightarrow> bool" where
  \<comment> \<open>\<open>ok\<close> with a nil error\<close>
  "Verify J now t s =
     (case jwt_Parse J (\<lambda>m. case m of HMAC _ \<Rightarrow> Some (jwtSecret t) | OtherMethod _ \<Rightarrow> None) now s of
        None \<Rightarrow> False
      | Some c \<Rightarrow> True)"

definition svc_GenerateToken :: "jwt_lib \<Rightarrow> int \<Rightarrow> token \<Rightarrow> GenerateTokenRequest \<Rightarrow> (token_error, string) result" where
  "svc_GenerateToken J now t req = (case Public J now t req of Inl e \<Rightarrow> Inl e | Inr s \<Rightarrow> Inr s)"

definition ctl_GenerateToken :: "jwt_lib \<Rightarrow> int \<Rightarrow> token \<Rightarrow> GenerateTokenRequest \<Rightarrow> (token_error, string) result" where
  "ctl_GenerateToken J now t req = (case svc_GenerateToken J now t req of Inl e \<Rightarrow> Inl e | Inr s \<Rightarrow> Inr s)"

subsection \<open>The interceptor\<close>

type_synonym metadata = "string \<rightharpoonup> string list"

datatype 'r intercepted =
    Handled trace_ctx 'r
    \<comment> \<open>the handler ran, in the context with this trace id\<close>
  | Refused grpc_error
  | ProcessExit

definition UnaryInterceptor :: "jwt_lib \<Rightarrow> (string \<Rightarrow> string) \<Rightarrow> nat list \<Rightarrow> int \<Rightarrow> trace_ctx \<Rightarrow> metadata option
    \<Rightarrow> string \<Rightarrow> (trace_ctx \<Rightarrow> 'r) \<Rightarrow> 'r intercepted" where
  "UnaryInterceptor J env rnd now ctx md fullMethod handler =
     (if fullMethod = ''/codeRunner.v1.tokenIssuer/GenerateToken'' then Handled ctx (handler ctx)
      else case md of
             None \<Rightarrow> Refused (InvalidArgument ''missing metadata'')
           | Some md \<Rightarrow>
               (let sent = (case md ''x-trace-id'' of Some (v # vs) \<Rightarrow> v | _ \<Rightarrow> '''');
                    traceID = (if sent = '''' then NewTraceID rnd else sent);
                    ctx' = WithTraceID traceID ctx
                in case md ''token'' of
                     None \<Rightarrow> Refused (Unauthenticated ''token not found'')
                   | Some [] \<Rightarrow> Refused (Unauthenticated ''token not found'')
                   | Some (tk # _) \<Rightarrow>
                       (case NewToken env of
                          None \<Rightarrow> ProcessExit
                        | Some t \<Rightarrow> if Verify J now t tk then Handled ctx' (handler ctx')
                                    else Refused (Unauthenticated ''invalid token''))))"

subsection \<open>Properties\<close>

lemma NewTraceID_length: "length (NewTraceID rnd) = 2 * length rnd"
  by (induction rnd) (simp_all add: NewTraceID_def hex_byte_def)

lemma Verify_iff:
  "Verify J now t s \<longleftrightarrow> (\<exists>a c. jwtParts J s = Some (HMAC a, c) \<and> jwtSigned J (HMAC a) (jwtSecret t) s
     \<and> (\<forall>e. expires c = Some e \<longrightarrow> now < e))"
  by (auto simp: Verify_def jwt_Parse_def split: option.splits jwt_method.splits)

text \<open>
  Apart from the token-issuing method, the interceptor lets a call through to its handler only
  with a token that carries a right HMAC signature under the server's secret and has not expired,
  and the handler then runs with a trace id: the caller's when it sent one, else a fresh one of 16
  hexadecimal digits.
\<close>

theorem interceptor_guards:
  assumes "UnaryInterceptor J env rnd now ctx md fullMethod handler = Handled ctx' r"
    and "fullMethod \<noteq> ''/codeRunner.v1.tokenIssuer/GenerateToken''" and "length rnd = 8"
  shows "\<exists>m tk tks a c. md = Some m \<and> m ''token'' = Some (tk # tks) \<and> jwtParts J tk = Some (HMAC a, c)
     \<and> jwtSigned J (HMAC a) (env ''JWT_SECRET'') tk \<and> (\<forall>e. expires c = Some e \<longrightarrow> now < e)
     \<and> env ''JWT_SECRET'' \<noteq> '''' \<and> FromContext ctx' \<noteq> ''''
     \<and> (case m ''x-trace-id'' of Some (v # vs) \<Rightarrow> v \<noteq> '''' \<longrightarrow> FromContext ctx' = v
        | _ \<Rightarrow> length (FromContext ctx') = 16)"
proof -
  have "NewTraceID rnd \<noteq> ''''" "length (NewTraceID rnd) = 16"
    using NewTraceID_length [of rnd] assms(3) by (auto intro!: notI)
  with assms(1, 2) show ?thesis
    by (auto simp: UnaryInterceptor_def Let_def NewToken_def Verify_iff WithTraceID_def FromContext_def
        split: option.splits list.splits if_splits)
qed

text \<open>
  A token issued for the right password is accepted by the interceptor for exactly 24 hours,
  and a wrong password gets no token.
\<close>

theorem issued_token_accepted:
  assumes "jwt_ok J" and "NewToken env = Some t" and "ctl_GenerateToken J now t req = Inr s"
  shows "gtPassword req = env ''AUTH_PASSWORD'' \<and> (Verify J later t s \<longleftrightarrow> later < now + 24 * 3600)"
proof -
  have s: "jwtSign J (jwtSecret t) \<lparr>username = gtName req, expires = Some (now + 24 * 3600)\<rparr> = Some s"
    and "gtPassword req = password t"
    using assms(3) by (auto simp: ctl_GenerateToken_def svc_GenerateToken_def Public_def split: option.splits if_splits)
  moreover have "password t = env ''AUTH_PASSWORD''"
    using assms(2) by (auto simp: NewToken_def split: if_splits)
  moreover have "jwtParts J s = Some (HMAC ''HS256'', \<lparr>username = gtName req, expires = Some (now + 24 * 3600)\<rparr>)"
    "jwtSigned J (HMAC ''HS256'') (jwtSecret t) s"
    using assms(1) s by (simp_all add: jwt_ok_def)
  ultimately show ?thesis by (simp add: Verify_iff)
qed

text \<open>A library with one token, for the witnesses.\<close>

definition one_token_jwt :: jwt_lib where
  "one_token_jwt = \<lparr>
     jwtSign = (\<lambda>k c. if k = ''k'' \<and> c = \<lparr>username = ''u'', expires = Some 86400\<rparr> then Some ''t'' else None),
     jwtParts = (\<lambda>s. if s = ''t'' then Some (HMAC ''HS256'', \<lparr>username = ''u'', expires = Some 86400\<rparr>) else None),
     jwtSigned = (\<lambda>m k s. m = HMAC ''HS256'' \<and> k = ''k'' \<and> s = ''t'')\<rparr>"

definition test_env :: "string \<Rightarrow> string" where
  "test_env n = (if n = ''JWT_SECRET'' then ''k'' else if n = ''AUTH_PASSWORD'' then ''p'' else '''')"

lemma jwt_ok_one_token: "jwt_ok one_token_jwt"
  by (auto simp: jwt_ok_def one_token_jwt_def split: if_splits)

theorem issued_token_accepted_witness:
  "\<not> Verify one_token_jwt 86400 \<lparr>jwtSecret = ''k'', password = ''p''\<rparr> ''t''"
proof -
  have t: "NewToken test_env = Some \<lparr>jwtSecret = ''k'', password = ''p''\<rparr>" by (simp add: NewToken_def test_env_def)
  have "ctl_GenerateToken one_token_jwt 0 \<lparr>jwtSecret = ''k'', password = ''p''\<rparr> \<lparr>gtName = ''u'', gtPassword = ''p''\<rparr> = Inr ''t''"
    by (simp add: ctl_GenerateToken_def svc_GenerateToken_def Public_def one_token_jwt_def)
  from issued_token_accepted [OF jwt_ok_one_token t this, of 86400, THEN conjunct2] show ?thesis by simp
qed

theorem interceptor_guards_witness:
  "UnaryInterceptor one_token_jwt test_env (replicate 8 0) 5 None (Some [''token'' \<mapsto> [''t'']]) ''/m'' (\<lambda>c. ()) = Handled (Some (replicate 16 (CHR ''0''))) ()
     \<and> FromContext (Some (replicate 16 (CHR ''0''))) \<noteq> ''''"
proof -
  have h: "UnaryInterceptor one_token_jwt test_env (replicate 8 0) 5 None (Some [''token'' \<mapsto> [''t'']]) ''/m'' (\<lambda>c. ())
      = Handled (Some (replicate 16 (CHR ''0''))) ()"
  proof -
    have z: "NewTraceID (replicate 8 0) = replicate 16 (CHR ''0'')" by code_simp
    have n: "replicate 16 (CHR ''0'') \<noteq> ''''" by simp
    show ?thesis
      unfolding UnaryInterceptor_def z
      by (simp add: NewToken_def test_env_def Verify_iff one_token_jwt_def WithTraceID_def Let_def)
  qed
  from interceptor_guards [OF h] have "FromContext (Some (replicate 16 (CHR ''0''))) \<noteq> ''''" by auto
  with h show ?thesis by blast
qed

end
