(* ===== verification/Browser_Auth.thy ===== *)
theory Browser_Auth
  imports Go_Encoding Go_Json Grpc_Auth
begin

text \<open>
  Login with GitHub (\<open>internal/auth\<close>): where to return after the login, the signed state that
  carries it through GitHub, the session token, the service, its HTTP handlers and the client that
  reads the user's profile. Clock readings are arguments, in nanoseconds.

  Parameters: HMAC-SHA256, JSON text, the JWT library, GitHub's answers, and whether the configured
  frontend address parses with a scheme and a host (\<open>net/url\<close>'s rules for an authority changed
  between releases of Go). At the end: two calls that read a token at the same time.
\<close>

subsection \<open>Configuration\<close>

datatype auth_error =
    MissingGitHubClientID | MissingGitHubClientSecret | MissingGitHubRedirectURL | MissingJWTSecret
  | ReturnToBackslash | ReturnToNotRooted | ReturnToUnparsable | ReturnToAbsolute
  | NoRandomness
  | StateFormat | StateSignature | StateEncoding | StatePayload | StateExpired
  | CodeAndStateRequired | ExchangeFailed string | FetchFailed string | UserStatus nat | UserPayload | SignFailed
  | TokenRejected

record auth_config =
  bcClientID :: string
  bcClientSecret :: string
  bcRedirectURL :: string
  bcSecret :: string
  bcTTLSeconds :: int
  bcTTL :: int
  bcCookieName :: string
  bcCookieSecure :: bool
  bcFrontendBaseURL :: string

definition WithDefaults :: "auth_config \<Rightarrow> auth_config" where
  "WithDefaults c =
     (let c1 = (if bcCookieName c = [] then c\<lparr>bcCookieName := ''cr_auth''\<rparr> else c);
          c2 = (if bcTTLSeconds c1 \<le> 0 then c1\<lparr>bcTTLSeconds := 604800\<rparr> else c1)
      in c2\<lparr>bcTTL := i64 (bcTTLSeconds c2 * second)\<rparr>)"

definition config_Validate :: "auth_config \<Rightarrow> auth_error option" where
  "config_Validate c =
     (if bcClientID c = [] then Some MissingGitHubClientID
      else if bcClientSecret c = [] then Some MissingGitHubClientSecret
      else if bcRedirectURL c = [] then Some MissingGitHubRedirectURL
      else if bcSecret c = [] then Some MissingJWTSecret
      else None)"

definition isConfigError :: "auth_error \<Rightarrow> bool" where
  "isConfigError e \<longleftrightarrow> e \<in> {MissingGitHubClientID, MissingGitHubClientSecret, MissingGitHubRedirectURL, MissingJWTSecret}"

subsection \<open>Where to return\<close>

definition NormalizeReturnTo :: "string \<Rightarrow> (auth_error, string) result" where
  "NormalizeReturnTo raw =
     (if raw = [] then Inr ''/''
      else if Contains_char (CHR 0x5C) raw then Inl ReturnToBackslash
      else if \<not> HasPrefix raw ''/'' \<or> HasPrefix raw ''//'' then Inl ReturnToNotRooted
      else case ParseRooted raw of
             None \<Rightarrow> Inl ReturnToUnparsable
           | Some u \<Rightarrow> if uScheme u \<noteq> [] \<or> uHost u \<noteq> [] then Inl ReturnToAbsolute else Inr raw)"

subsection \<open>The signed state\<close>

record statePayload =
  stNonce :: string
  stReturnTo :: string
  stExp :: int

definition state_json :: "statePayload \<Rightarrow> json" where
  "state_json p = JObj (keep_string ''nonce'' (stNonce p) @ keep_string ''return_to'' (stReturnTo p) @ [(''exp'', JNum (stExp p))])"

definition int64_field :: "string \<Rightarrow> (int \<Rightarrow> 'r \<Rightarrow> 'r) \<Rightarrow> 'r field" where
  "int64_field name upd =
     (name, \<lambda>v r. case v of JNum n \<Rightarrow> if in_i64 n then Some (upd n r) else None | JNull \<Rightarrow> Some r | _ \<Rightarrow> None)"

definition state_fields :: "statePayload field list" where
  "state_fields =
     [string_field ''nonce'' (\<lambda>s r. r\<lparr>stNonce := s\<rparr>), string_field ''return_to'' (\<lambda>s r. r\<lparr>stReturnTo := s\<rparr>),
      int64_field ''exp'' (\<lambda>n r. r\<lparr>stExp := n\<rparr>)]"

record state_lib =
  slMac :: "string \<Rightarrow> string \<Rightarrow> string"    \<comment> \<open>HMAC-SHA256 of a message under a key\<close>
  slPrint :: "json \<Rightarrow> string"
  slParse :: "string \<Rightarrow> payload"

record StateSigner =
  ssSecret :: string
  ssTTL :: int

definition state_sign :: "state_lib \<Rightarrow> StateSigner \<Rightarrow> string \<Rightarrow> string" where
  "state_sign L s payloadPart = EncodeToString (slMac L (ssSecret s) payloadPart)"

definition randomBase64URL :: "string option \<Rightarrow> (auth_error, string) result" where
  \<comment> \<open>the argument: what \<open>rand.Read\<close> yields\<close>
  "randomBase64URL rnd = (case rnd of None \<Rightarrow> Inl NoRandomness | Some b \<Rightarrow> Inr (EncodeToString b))"

definition state_Sign :: "state_lib \<Rightarrow> string option \<Rightarrow> int \<Rightarrow> StateSigner \<Rightarrow> string \<Rightarrow> (auth_error, string) result" where
  "state_Sign L rnd now s returnTo =
     (case NormalizeReturnTo returnTo of
        Inl e \<Rightarrow> Inl e
      | Inr normalized \<Rightarrow>
          (case randomBase64URL rnd of
             Inl e \<Rightarrow> Inl e
           | Inr nonce \<Rightarrow>
               (let part = EncodeToString (slPrint L (state_json
                      \<lparr>stNonce = nonce, stReturnTo = normalized, stExp = (now + ssTTL s) div second\<rparr>))
                in Inr (part @ ''.'' @ state_sign L s part))))"

definition state_Verify :: "state_lib \<Rightarrow> int \<Rightarrow> StateSigner \<Rightarrow> string \<Rightarrow> (auth_error, string) result" where
  "state_Verify L now s state =
     (case Split (CHR ''.'') state of
        [part, sig] \<Rightarrow>
          if state_sign L s part \<noteq> sig then Inl StateSignature
          else (case DecodeString part of
                  None \<Rightarrow> Inl StateEncoding
                | Some raw \<Rightarrow>
                    (case decode_struct state_fields \<lparr>stNonce = [], stReturnTo = [], stExp = 0\<rparr> (slParse L raw) of
                       None \<Rightarrow> Inl StatePayload
                     | Some p \<Rightarrow> if now div second > stExp p then Inl StateExpired else NormalizeReturnTo (stReturnTo p)))
      | _ \<Rightarrow> Inl StateFormat)"

subsection \<open>The session token\<close>

record auth_user =
  uID :: string
  uGitHubID :: int
  uLogin :: string
  uName :: string
  uAvatarURL :: string

record userClaims =
  clGitHubID :: int
  clLogin :: string
  clName :: string
  clAvatarURL :: string
  clSubject :: string
  clIssuedAt :: "int option"     \<comment> \<open>in seconds, as the library stores them\<close>
  clExpiresAt :: "int option"

record user_jwt =
  ujSign :: "string \<Rightarrow> userClaims \<Rightarrow> string option"
  ujParts :: "string \<Rightarrow> (jwt_method \<times> userClaims) option"
  ujSigned :: "jwt_method \<Rightarrow> string \<Rightarrow> string \<Rightarrow> bool"

record JWTManager =
  jmSecret :: string
  jmTTL :: int

definition jm_claims :: "int \<Rightarrow> JWTManager \<Rightarrow> auth_user \<Rightarrow> userClaims" where
  "jm_claims now m u =
     \<lparr>clGitHubID = uGitHubID u, clLogin = uLogin u, clName = uName u, clAvatarURL = uAvatarURL u,
      clSubject = (if uID u = [] then ''github:'' @ Itoa (uGitHubID u) else uID u),
      clIssuedAt = Some (now div second), clExpiresAt = Some ((now + jmTTL m) div second)\<rparr>"

definition jm_Sign :: "user_jwt \<Rightarrow> int \<Rightarrow> JWTManager \<Rightarrow> auth_user \<Rightarrow> (auth_error, string) result" where
  "jm_Sign J now m u = (case ujSign J (jmSecret m) (jm_claims now m u) of None \<Rightarrow> Inl SignFailed | Some s \<Rightarrow> Inr s)"

text \<open>
  \<open>jwt.TimeFunc\<close>, a variable of the library: the clock its check of a token reads. \<open>Parse\<close>
  puts its own reading there and restores what it found.
\<close>

datatype time_func = SystemClock | Fixed int

definition clock_at :: "time_func \<Rightarrow> int \<Rightarrow> int" where
  "clock_at f wall = (case f of SystemClock \<Rightarrow> wall | Fixed t \<Rightarrow> t)"

definition claims_valid :: "int \<Rightarrow> userClaims \<Rightarrow> bool" where
  "claims_valid t c \<longleftrightarrow> (case clExpiresAt c of None \<Rightarrow> True | Some e \<Rightarrow> t < e * second)
     \<and> (case clIssuedAt c of None \<Rightarrow> True | Some i \<Rightarrow> i * second \<le> t)"

definition ParseWithClaims :: "user_jwt \<Rightarrow> (jwt_method \<Rightarrow> string option) \<Rightarrow> int \<Rightarrow> string \<Rightarrow> userClaims option" where
  \<comment> \<open>take apart, ask for the key, check the claims and the signature\<close>
  "ParseWithClaims J keyfunc t s =
     (case ujParts J s of
        None \<Rightarrow> None
      | Some (m, c) \<Rightarrow>
          (case keyfunc m of
             None \<Rightarrow> None
           | Some key \<Rightarrow> if claims_valid t c \<and> ujSigned J m key s then Some c else None))"

definition jm_Parse :: "user_jwt \<Rightarrow> int \<Rightarrow> JWTManager \<Rightarrow> string \<Rightarrow> time_func \<Rightarrow> (auth_error, auth_user) result \<times> time_func" where
  "jm_Parse J now m s timeFunc =
     (let oldTimeFunc = timeFunc; installed = Fixed now
      in (case ParseWithClaims J (\<lambda>mt. case mt of HMAC _ \<Rightarrow> Some (jmSecret m) | OtherMethod _ \<Rightarrow> None) (clock_at installed now) s of
            None \<Rightarrow> Inl TokenRejected
          | Some c \<Rightarrow> Inr \<lparr>uID = clSubject c, uGitHubID = clGitHubID c, uLogin = clLogin c, uName = clName c,
                          uAvatarURL = clAvatarURL c\<rparr>,
          oldTimeFunc))"

subsection \<open>GitHub\<close>

record oauth_config =
  ocClientID :: string
  ocClientSecret :: string
  ocRedirectURL :: string
  ocScopes :: "string list"
  ocAuthURL :: string

record GitHubClient =
  gcOauth :: oauth_config
  gcApiBaseURL :: string

definition NewGitHubClient :: "string \<Rightarrow> oauth_config \<Rightarrow> string \<Rightarrow> GitHubClient" where
  \<comment> \<open>the first argument: the library's address for GitHub\<close>
  "NewGitHubClient endpoint cfg apiBaseURL =
     \<lparr>gcOauth = (if ocAuthURL cfg = [] then cfg\<lparr>ocAuthURL := endpoint\<rparr> else cfg),
      gcApiBaseURL = (if apiBaseURL = [] then ''https://api.github.com'' else apiBaseURL)\<rparr>"

definition NewGitHubClientFromConfig :: "string \<Rightarrow> auth_config \<Rightarrow> GitHubClient" where
  "NewGitHubClientFromConfig endpoint cfg =
     NewGitHubClient endpoint
       \<lparr>ocClientID = bcClientID cfg, ocClientSecret = bcClientSecret cfg, ocRedirectURL = bcRedirectURL cfg,
        ocScopes = [''read:user''], ocAuthURL = endpoint\<rparr> []"

record github_answers =
  gaAuthURL :: "oauth_config \<Rightarrow> string \<Rightarrow> string"
  gaExchange :: "oauth_config \<Rightarrow> string \<Rightarrow> (string, string) result"
  gaUser :: "string \<Rightarrow> string \<Rightarrow> (string, nat \<times> payload) result"
    \<comment> \<open>for an address and the Authorization header: an error of the transport, or the status and the body\<close>

definition AuthCodeURL :: "github_answers \<Rightarrow> GitHubClient \<Rightarrow> string \<Rightarrow> string" where
  "AuthCodeURL G c state = gaAuthURL G (gcOauth c) state"

definition ExchangeCode :: "github_answers \<Rightarrow> GitHubClient \<Rightarrow> string \<Rightarrow> (string, string) result" where
  "ExchangeCode G c code = (case gaExchange G (gcOauth c) code of Inl e \<Rightarrow> Inl e | Inr tok \<Rightarrow> Inr tok)"

record githubUserResponse =
  guID :: int
  guLogin :: string
  guName :: string
  guAvatarURL :: string

definition github_fields :: "githubUserResponse field list" where
  "github_fields =
     [int64_field ''id'' (\<lambda>n r. r\<lparr>guID := n\<rparr>), string_field ''login'' (\<lambda>s r. r\<lparr>guLogin := s\<rparr>),
      string_field ''name'' (\<lambda>s r. r\<lparr>guName := s\<rparr>), string_field ''avatar_url'' (\<lambda>s r. r\<lparr>guAvatarURL := s\<rparr>)]"

definition FetchUser :: "github_answers \<Rightarrow> GitHubClient \<Rightarrow> string \<Rightarrow> (auth_error, auth_user) result" where
  "FetchUser G c accessToken =
     (case gaUser G (gcApiBaseURL c @ ''/user'') (''Bearer '' @ accessToken) of
        Inl e \<Rightarrow> Inl (FetchFailed e)
      | Inr (status, body) \<Rightarrow>
          if status < 200 \<or> status \<ge> 300 then Inl (UserStatus status)
          else (case decode_struct github_fields \<lparr>guID = 0, guLogin = [], guName = [], guAvatarURL = []\<rparr> body of
                  None \<Rightarrow> Inl UserPayload
                | Some gh \<Rightarrow> Inr \<lparr>uID = ''github:'' @ Itoa (guID gh), uGitHubID = guID gh, uLogin = guLogin gh,
                                 uName = guName gh, uAvatarURL = guAvatarURL gh\<rparr>))"

subsection \<open>The service\<close>

record auth_service =
  asCfg :: auth_config
  asGitHub :: GitHubClient
  asSigner :: StateSigner
  asJwt :: JWTManager

definition NewAuthService :: "auth_config \<Rightarrow> GitHubClient \<Rightarrow> auth_service" where
  "NewAuthService cfg0 client =
     (let cfg = WithDefaults cfg0
      in \<lparr>asCfg = cfg, asGitHub = client, asSigner = \<lparr>ssSecret = bcSecret cfg, ssTTL = 300 * second\<rparr>,
          asJwt = \<lparr>jmSecret = bcSecret cfg, jmTTL = bcTTL cfg\<rparr>\<rparr>)"

definition LoginURL :: "state_lib \<Rightarrow> github_answers \<Rightarrow> string option \<Rightarrow> int \<Rightarrow> auth_service \<Rightarrow> string \<Rightarrow> (auth_error, string) result" where
  "LoginURL L G rnd now s returnTo =
     (case config_Validate (asCfg s) of
        Some e \<Rightarrow> Inl e
      | None \<Rightarrow>
          (case NormalizeReturnTo returnTo of
             Inl e \<Rightarrow> Inl e
           | Inr normalized \<Rightarrow>
               (case state_Sign L rnd now (asSigner s) normalized of
                  Inl e \<Rightarrow> Inl e
                | Inr state \<Rightarrow> Inr (AuthCodeURL G (asGitHub s) state))))"

definition auth_Callback :: "state_lib \<Rightarrow> user_jwt \<Rightarrow> github_answers \<Rightarrow> int \<Rightarrow> int \<Rightarrow> auth_service \<Rightarrow> string \<Rightarrow> string
    \<Rightarrow> (auth_error, auth_user \<times> string \<times> string) result" where
  "auth_Callback L J G now1 now2 s code state =
     (case config_Validate (asCfg s) of
        Some e \<Rightarrow> Inl e
      | None \<Rightarrow>
          if code = [] \<or> state = [] then Inl CodeAndStateRequired
          else (case state_Verify L now1 (asSigner s) state of
                  Inl e \<Rightarrow> Inl e
                | Inr returnTo \<Rightarrow>
                    (case ExchangeCode G (asGitHub s) code of
                       Inl e \<Rightarrow> Inl (ExchangeFailed e)
                     | Inr accessToken \<Rightarrow>
                         (case FetchUser G (asGitHub s) accessToken of
                            Inl e \<Rightarrow> Inl e
                          | Inr user \<Rightarrow>
                              (case jm_Sign J now2 (asJwt s) user of
                                 Inl e \<Rightarrow> Inl e
                               | Inr tok \<Rightarrow> Inr (user, tok, returnTo))))))"

definition RedirectURL :: "(string \<Rightarrow> bool) \<Rightarrow> auth_service \<Rightarrow> string \<Rightarrow> string" where
  \<comment> \<open>the first argument: the address parses with a scheme and a host\<close>
  "RedirectURL absolute s returnTo =
     (let base = TrimRight_char (CHR ''/'') (bcFrontendBaseURL (asCfg s))
      in if base = [] then returnTo else if \<not> absolute base then returnTo else base @ returnTo)"

definition ParseUser :: "user_jwt \<Rightarrow> int \<Rightarrow> auth_service \<Rightarrow> string \<Rightarrow> time_func \<Rightarrow> (auth_error, auth_user) result \<times> time_func" where
  "ParseUser J now s tok timeFunc = jm_Parse J now (asJwt s) tok timeFunc"

definition CookieMaxAge :: "auth_service \<Rightarrow> int" where
  "CookieMaxAge s = go_quot (bcTTL (asCfg s)) second"

subsection \<open>The handlers\<close>

record auth_cookie =
  cookieName :: string
  cookieValue :: string
  cookieMaxAge :: int
  cookiePath :: string
  cookieSecure :: bool
  cookieHttpOnly :: bool
  cookieSameSite :: string

record auth_reply =
  arStatus :: nat
  arBody :: "json option"
  arLocation :: "string option"
  arCookie :: "auth_cookie option"

definition auth_json :: "nat \<Rightarrow> json \<Rightarrow> auth_reply" where
  "auth_json code j = \<lparr>arStatus = code, arBody = Some j, arLocation = None, arCookie = None\<rparr>"

definition auth_message :: "nat \<Rightarrow> string \<Rightarrow> auth_reply" where
  "auth_message code m = auth_json code (JObj [(''message'', JStr m)])"

definition setCookie :: "auth_service \<Rightarrow> string \<Rightarrow> int \<Rightarrow> auth_cookie" where
  "setCookie s v maxAge =
     \<lparr>cookieName = bcCookieName (asCfg s), cookieValue = v, cookieMaxAge = maxAge, cookiePath = ''/'',
      cookieSecure = bcCookieSecure (asCfg s), cookieHttpOnly = True, cookieSameSite = ''Lax''\<rparr>"

definition LoginHandler :: "state_lib \<Rightarrow> github_answers \<Rightarrow> string option \<Rightarrow> int \<Rightarrow> auth_service \<Rightarrow> string \<Rightarrow> auth_reply" where
  "LoginHandler L G rnd now s returnTo =
     (case LoginURL L G rnd now s returnTo of
        Inl e \<Rightarrow> if isConfigError e then auth_message 503 ''github auth is not configured''
                 else auth_message 400 ''invalid return_to''
      | Inr u \<Rightarrow> \<lparr>arStatus = 302, arBody = None, arLocation = Some u, arCookie = None\<rparr>)"

definition CallbackHandler :: "state_lib \<Rightarrow> user_jwt \<Rightarrow> github_answers \<Rightarrow> (string \<Rightarrow> bool) \<Rightarrow> int \<Rightarrow> int \<Rightarrow> auth_service
    \<Rightarrow> string \<Rightarrow> string \<Rightarrow> auth_reply" where
  "CallbackHandler L J G absolute now1 now2 s code state =
     (case auth_Callback L J G now1 now2 s code state of
        Inl e \<Rightarrow> if isConfigError e then auth_message 503 ''github auth is not configured''
                 else auth_message 502 ''github oauth callback failed''
      | Inr (user, tok, returnTo) \<Rightarrow>
          \<lparr>arStatus = 302, arBody = None, arLocation = Some (RedirectURL absolute s returnTo),
           arCookie = Some (setCookie s tok (CookieMaxAge s))\<rparr>)"

definition user_json :: "auth_user \<Rightarrow> json" where
  "user_json u = JObj (keep_string ''id'' (uID u) @ [(''github_id'', JNum (uGitHubID u))] @ keep_string ''login'' (uLogin u)
     @ omit_string ''name'' (uName u) @ omit_string ''avatar_url'' (uAvatarURL u))"

definition MeHandler :: "user_jwt \<Rightarrow> int \<Rightarrow> auth_service \<Rightarrow> (string \<Rightarrow> string option) \<Rightarrow> time_func \<Rightarrow> auth_reply \<times> time_func" where
  "MeHandler J now s cookies timeFunc =
     (case cookies (bcCookieName (asCfg s)) of
        None \<Rightarrow> (auth_message 401 ''unauthorized'', timeFunc)
      | Some tok \<Rightarrow>
          (case ParseUser J now s tok timeFunc of
             (Inl e, tf) \<Rightarrow> (auth_message 401 ''unauthorized'', tf)
           | (Inr u, tf) \<Rightarrow> (auth_json 200 (JObj [(''user'', user_json u)]), tf)))"

definition LogoutHandler :: "auth_service \<Rightarrow> auth_reply" where
  "LogoutHandler s = \<lparr>arStatus = 204, arBody = None, arLocation = None, arCookie = Some (setCookie s [] (-1))\<rparr>"

subsection \<open>Returning stays on the site\<close>

text \<open>What a browser makes of an address: tabs and line breaks are dropped, and a backslash counts as a slash.\<close>

definition browser_strip :: "string \<Rightarrow> string" where
  "browser_strip s = filter (\<lambda>c. byte c \<noteq> 9 \<and> byte c \<noteq> 10 \<and> byte c \<noteq> 13) s"

definition on_site :: "string \<Rightarrow> bool" where
  "on_site r \<longleftrightarrow> (case browser_strip r of
      c # t \<Rightarrow> c = CHR ''/'' \<and> (case t of [] \<Rightarrow> True | d # _ \<Rightarrow> d \<noteq> CHR ''/'' \<and> d \<noteq> CHR 0x5C)
    | [] \<Rightarrow> False)"

lemma rooted_on_site:
  assumes "HasPrefix raw ''/''" "\<not> HasPrefix raw ''//''" "CHR 0x5C \<notin> set raw" "ParseRooted raw = Some u"
  shows "on_site raw"
proof -
  from assms(1) obtain t where raw: "raw = CHR ''/'' # t" by (auto simp: HasPrefix_iff)
  show ?thesis
  proof (cases t)
    case Nil
    then show ?thesis by (simp add: raw on_site_def browser_strip_def)
  next
    case (Cons d w)
    have d: "d \<noteq> CHR ''/''" "d \<noteq> CHR 0x5C" using assms(2, 3) by (auto simp: raw Cons HasPrefix_iff)
    have "byte d \<noteq> 9 \<and> byte d \<noteq> 10 \<and> byte d \<noteq> 13"
    proof (cases "d = CHR 0x23")
      case False
      then have "\<not> is_ctl d" using assms(4) by (auto simp: ParseRooted_def raw Cons before_char_def Let_def split: if_splits)
      then show ?thesis by (auto simp: is_ctl_def)
    qed simp
    with d show ?thesis by (simp add: raw Cons on_site_def browser_strip_def)
  qed
qed

lemma NormalizeReturnTo_Inr:
  assumes "NormalizeReturnTo raw = Inr r"
  shows "on_site r \<and> NormalizeReturnTo r = Inr r \<and> r = (if raw = [] then ''/'' else raw)"
proof (cases "raw = []")
  case True
  then have "r = ''/''" using assms by (simp add: NormalizeReturnTo_def)
  moreover have "on_site ''/'' \<and> NormalizeReturnTo ''/'' = Inr ''/''" by code_simp
  ultimately show ?thesis using True by simp
next
  case False
  with assms have "r = raw" by (auto simp: NormalizeReturnTo_def split: if_splits option.splits)
  moreover have "on_site raw" using assms False rooted_on_site
    by (fastforce simp: NormalizeReturnTo_def split: if_splits option.splits)
  ultimately show ?thesis using assms False by simp
qed

subsection \<open>The state through GitHub\<close>

lemma EncodeToString_utf8: "to_valid_utf8 (EncodeToString s) = EncodeToString s"
  by (rule to_valid_utf8_ascii) (auto simp: ascii_def dest!: EncodeToString_char intro: b64_char_value [THEN conjunct2, THEN conjunct2, THEN conjunct1])

lemma decode_state:
  assumes "to_valid_utf8 (stNonce p) = stNonce p" "to_valid_utf8 (stReturnTo p) = stReturnTo p" "in_i64 (stExp p)"
  shows "decode_struct state_fields \<lparr>stNonce = [], stReturnTo = [], stExp = 0\<rparr> (Json (state_json p)) = Some p"
  using assms by (cases p) (simp add: decode_struct_def state_json_def keep_string_def find_field_def state_fields_def
      string_field_def int64_field_def)

lemma Split_state: "Split (CHR ''.'') (EncodeToString a @ CHR ''.'' # EncodeToString b) = [EncodeToString a, EncodeToString b]"
  by (simp add: Split_append_sep Split_no_sep EncodeToString_no_dot)

lemma in_i64_seconds: "in_i64 t \<Longrightarrow> in_i64 (t div second + 300)"
  using zdiv_mono1 [of "- (2 ^ 63)" t second] zdiv_mono1 [of t "2 ^ 63" second] by (simp add: in_i64_def second_def)

lemma state_Verify_Inr:
  assumes "state_Verify L now s state = Inr r"
  shows "\<exists>part raw p. state = part @ ''.'' @ state_sign L s part \<and> DecodeString part = Some raw
     \<and> decode_struct state_fields \<lparr>stNonce = [], stReturnTo = [], stExp = 0\<rparr> (slParse L raw) = Some p
     \<and> now div second \<le> stExp p \<and> NormalizeReturnTo (stReturnTo p) = Inr r"
proof -
  from assms obtain part where sp: "Split (CHR ''.'') state = [part, state_sign L s part]"
    by (auto simp: state_Verify_def split: list.splits if_splits)
  then have "state = part @ ''.'' @ state_sign L s part" using Split_two [OF sp] by simp
  moreover from assms sp obtain raw p where "DecodeString part = Some raw"
     "decode_struct state_fields \<lparr>stNonce = [], stReturnTo = [], stExp = 0\<rparr> (slParse L raw) = Some p"
     "now div second \<le> stExp p" "NormalizeReturnTo (stReturnTo p) = Inr r"
    by (auto simp: state_Verify_def split: option.splits if_splits)
  ultimately show ?thesis by blast
qed

text \<open>
  A state the service hands out with a login comes back accepted for the next five minutes, with
  the address to return to that was asked for: the login redirects to GitHub with a state that
  verifies, at every later reading of the clock up to the second in which it expires, to the
  normalised address. (JSON text is assumed to carry this payload.)
\<close>

theorem login_state_roundtrip:
  assumes "config_Validate cfg = None" and sv: "sv = NewAuthService cfg client"
    and r: "NormalizeReturnTo returnTo = Inr r" "to_valid_utf8 r = r"
    and now: "in_i64 now"
    and json: "slParse L (slPrint L (state_json \<lparr>stNonce = EncodeToString rnd, stReturnTo = r, stExp = (now + 300 * second) div second\<rparr>))
      = Json (state_json \<lparr>stNonce = EncodeToString rnd, stReturnTo = r, stExp = (now + 300 * second) div second\<rparr>)"
  shows "\<exists>state. LoginHandler L G (Some rnd) now sv returnTo
           = \<lparr>arStatus = 302, arBody = None, arLocation = Some (AuthCodeURL G client state), arCookie = None\<rparr>
         \<and> (\<forall>later. state_Verify L later (asSigner sv) state
              = (if later div second \<le> now div second + 300 then Inr r else Inl StateExpired))"
proof -
  let ?p = "\<lparr>stNonce = EncodeToString rnd, stReturnTo = r, stExp = (now + 300 * second) div second\<rparr>"
  let ?part = "EncodeToString (slPrint L (state_json ?p))"
  let ?state = "?part @ ''.'' @ state_sign L (asSigner sv) ?part"
  have cfg: "config_Validate (asCfg sv) = None" "asGitHub sv = client" "ssTTL (asSigner sv) = 300 * second"
    using assms(1) by (auto simp: sv NewAuthService_def WithDefaults_def config_Validate_def Let_def split: if_splits)
  have e: "(now + 300 * second) div second = now div second + 300" by (simp add: second_def)
  have norm: "NormalizeReturnTo r = Inr r" using NormalizeReturnTo_Inr [OF r(1)] by blast
  have "state_Sign L (Some rnd) now (asSigner sv) r = Inr ?state"
    by (simp add: state_Sign_def norm randomBase64URL_def cfg Let_def)
  then have "LoginHandler L G (Some rnd) now sv returnTo
      = \<lparr>arStatus = 302, arBody = None, arLocation = Some (AuthCodeURL G client ?state), arCookie = None\<rparr>"
    by (simp add: LoginHandler_def LoginURL_def cfg r)
  moreover have "in_i64 (now div second + 300)" by (rule in_i64_seconds [OF now])
  then have "decode_struct state_fields \<lparr>stNonce = [], stReturnTo = [], stExp = 0\<rparr> (Json (state_json ?p)) = Some ?p"
    unfolding e by (intro decode_state) (simp_all add: EncodeToString_utf8 r)
  then have "state_Verify L later (asSigner sv) ?state = (if later div second \<le> now div second + 300 then Inr r else Inl StateExpired)" for later
    using json by (simp add: state_Verify_def state_sign_def Split_state base64_roundtrip norm e)
  ultimately show ?thesis by blast
qed

definition wit_auth_cfg :: auth_config where
  "wit_auth_cfg = \<lparr>bcClientID = ''i'', bcClientSecret = ''s'', bcRedirectURL = ''u'', bcSecret = ''k'', bcTTLSeconds = 0, bcTTL = 0,
     bcCookieName = [], bcCookieSecure = True, bcFrontendBaseURL = ''https://site.dev/''\<rparr>"

definition wit_client :: GitHubClient where
  "wit_client = NewGitHubClientFromConfig ''https://github.dev/a'' wit_auth_cfg"

definition wit_lib :: state_lib where
  "wit_lib = \<lparr>slMac = (\<lambda>k m. k @ rev m), slPrint = (\<lambda>_. ''{}''),
     slParse = (\<lambda>_. Json (state_json \<lparr>stNonce = EncodeToString ''n'', stReturnTo = ''/a?b'', stExp = 301\<rparr>))\<rparr>"

definition wit_github :: github_answers where
  "wit_github = \<lparr>gaAuthURL = (\<lambda>c state. ocAuthURL c @ ''?state='' @ state), gaExchange = (\<lambda>c code. Inr ''tok''),
     gaUser = (\<lambda>u h. Inr (200, Json (JObj [(''id'', JNum 7), (''login'', JStr ''ann'')])))\<rparr>"

theorem login_state_roundtrip_witness:
  "\<exists>state. arLocation (LoginHandler wit_lib wit_github (Some ''n'') second (NewAuthService wit_auth_cfg wit_client) ''/a?b'')
       = Some (AuthCodeURL wit_github wit_client state)
     \<and> state_Verify wit_lib (200 * second) (asSigner (NewAuthService wit_auth_cfg wit_client)) state = Inr ''/a?b''"
proof -
  have "config_Validate wit_auth_cfg = None" by (simp add: config_Validate_def wit_auth_cfg_def)
  moreover have "NormalizeReturnTo ''/a?b'' = Inr ''/a?b''" by code_simp
  moreover have "to_valid_utf8 ''/a?b'' = ''/a?b''" by code_simp
  moreover have "in_i64 second" by (simp add: in_i64_def second_def)
  moreover have "slParse wit_lib (slPrint wit_lib (state_json \<lparr>stNonce = EncodeToString ''n'', stReturnTo = ''/a?b'', stExp = (second + 300 * second) div second\<rparr>))
      = Json (state_json \<lparr>stNonce = EncodeToString ''n'', stReturnTo = ''/a?b'', stExp = (second + 300 * second) div second\<rparr>)"
    by (simp add: wit_lib_def second_def)
  ultimately obtain state where "LoginHandler wit_lib wit_github (Some ''n'') second (NewAuthService wit_auth_cfg wit_client) ''/a?b''
        = \<lparr>arStatus = 302, arBody = None, arLocation = Some (AuthCodeURL wit_github wit_client state), arCookie = None\<rparr>"
      "\<forall>later. state_Verify wit_lib later (asSigner (NewAuthService wit_auth_cfg wit_client)) state
        = (if later div second \<le> second div second + 300 then Inr ''/a?b'' else Inl StateExpired)"
    using login_state_roundtrip [of wit_auth_cfg _ wit_client "''/a?b''" "''/a?b''" second wit_lib "''n''" wit_github, OF _ refl] by blast
  then show ?thesis by (intro exI [of _ state]) (simp add: second_def)
qed

subsection \<open>Who is let in\<close>

text \<open>
  C39. A callback logs somebody in only with a code and a state that carries the right signature
  under the server's secret and has not expired; the browser is then sent to the address in that
  state, on the frontend's site when one is configured, and in every case to a path of the site:
  never to another host, whatever the state holds.
\<close>

theorem callback_needs_signed_state:
  assumes "auth_Callback L J G now1 now2 s code state = Inr (u, tok, r)"
  shows "code \<noteq> [] \<and> (\<exists>part raw p. state = part @ ''.'' @ EncodeToString (slMac L (ssSecret (asSigner s)) part)
       \<and> DecodeString part = Some raw
       \<and> decode_struct state_fields \<lparr>stNonce = [], stReturnTo = [], stExp = 0\<rparr> (slParse L raw) = Some p
       \<and> now1 div second \<le> stExp p \<and> NormalizeReturnTo (stReturnTo p) = Inr r)
     \<and> on_site r
     \<and> RedirectURL absolute s r \<in> {r, TrimRight_char (CHR ''/'') (bcFrontendBaseURL (asCfg s)) @ r}"
proof -
  from assms have v: "state_Verify L now1 (asSigner s) state = Inr r" "code \<noteq> []"
    by (auto simp: auth_Callback_def split: option.splits sum.splits if_splits)
  have "on_site r" using state_Verify_Inr [OF v(1)] NormalizeReturnTo_Inr by blast
  moreover have "RedirectURL absolute s r \<in> {r, TrimRight_char (CHR ''/'') (bcFrontendBaseURL (asCfg s)) @ r}"
    by (simp add: RedirectURL_def Let_def)
  ultimately show ?thesis using v(2) state_Verify_Inr [OF v(1)] unfolding state_sign_def by blast
qed

definition wit_state :: string where
  "wit_state = EncodeToString ''{}'' @ ''.'' @ state_sign wit_lib (asSigner (NewAuthService wit_auth_cfg wit_client)) (EncodeToString ''{}'')"

definition wit_jwt :: user_jwt where
  "wit_jwt = \<lparr>ujSign = (\<lambda>k c. if clGitHubID c = 7 then Some ''tok'' else None),
     ujParts = (\<lambda>s. Some (HMAC ''HS256'', \<lparr>clGitHubID = 7, clLogin = ''ann'', clName = [], clAvatarURL = [], clSubject = ''github:7'',
        clIssuedAt = Some 100, clExpiresAt = Some 604900\<rparr>)),
     ujSigned = (\<lambda>m k s. k = ''k'')\<rparr>"

lemma wit_callback:
  "auth_Callback wit_lib wit_jwt wit_github (100 * second) (100 * second) (NewAuthService wit_auth_cfg wit_client) ''c'' wit_state
     = Inr (\<lparr>uID = ''github:7'', uGitHubID = 7, uLogin = ''ann'', uName = [], uAvatarURL = []\<rparr>, ''tok'', ''/a?b'')"
  by code_simp

theorem callback_needs_signed_state_witness:
  "on_site ''/a?b''
   \<and> RedirectURL (\<lambda>b. True) (NewAuthService wit_auth_cfg wit_client) ''/a?b''
       \<in> {''/a?b'', TrimRight_char (CHR ''/'') ''https://site.dev/'' @ ''/a?b''}"
  using callback_needs_signed_state [OF wit_callback, of "\<lambda>b. True"]
  by (simp add: NewAuthService_def WithDefaults_def wit_auth_cfg_def Let_def)

text \<open>
  After a callback the browser holds a cookie with which \<open>/auth/me\<close> answers with GitHub's user,
  from that moment on until exactly the configured time to live has passed (in whole seconds), and
  with 401 afterwards. (The library's law: a signed token comes apart into its claims with a right
  signature.)
\<close>

theorem session_cookie_lifetime:
  assumes cb: "auth_Callback L J G now1 now2 s code state = Inr (u, tok, r)"
    and law: "ujParts J tok = Some (HMAC alg, jm_claims now2 (asJwt s) u) \<and> ujSigned J (HMAC alg) (jmSecret (asJwt s)) tok"
    and later: "now2 \<le> now3"
    and cookies: "cookies (cookieName (setCookie s tok (CookieMaxAge s))) = Some (cookieValue (setCookie s tok (CookieMaxAge s)))"
  shows "CallbackHandler L J G absolute now1 now2 s code state
      = \<lparr>arStatus = 302, arBody = None, arLocation = Some (RedirectURL absolute s r),
         arCookie = Some (setCookie s tok (CookieMaxAge s))\<rparr>
     \<and> fst (MeHandler J now3 s cookies f)
       = (if now3 < (now2 + jmTTL (asJwt s)) div second * second then auth_json 200 (JObj [(''user'', user_json u)])
          else auth_message 401 ''unauthorized'')"
proof -
  have "FetchUser G (asGitHub s) x = Inr u \<Longrightarrow> uID u \<noteq> []" for x
    by (auto simp: FetchUser_def split: sum.splits prod.splits option.splits if_splits)
  then have "uID u \<noteq> []" using cb by (auto simp: auth_Callback_def split: option.splits sum.splits if_splits)
  then have c: "jm_claims now2 (asJwt s) u = \<lparr>clGitHubID = uGitHubID u, clLogin = uLogin u, clName = uName u, clAvatarURL = uAvatarURL u,
      clSubject = uID u, clIssuedAt = Some (now2 div second), clExpiresAt = Some ((now2 + jmTTL (asJwt s)) div second)\<rparr>"
    by (simp add: jm_claims_def)
  have "now2 div second * second \<le> now3"
    using later minus_mod_eq_div_mult [of now2 second, symmetric] pos_mod_sign [of second now2] by (simp add: second_def)
  then have "claims_valid now3 (jm_claims now2 (asJwt s) u) \<longleftrightarrow> now3 < (now2 + jmTTL (asJwt s)) div second * second"
    by (simp add: claims_valid_def c)
  moreover have "\<lparr>uID = clSubject (jm_claims now2 (asJwt s) u), uGitHubID = clGitHubID (jm_claims now2 (asJwt s) u),
      uLogin = clLogin (jm_claims now2 (asJwt s) u), uName = clName (jm_claims now2 (asJwt s) u),
      uAvatarURL = clAvatarURL (jm_claims now2 (asJwt s) u)\<rparr> = u"
    unfolding c by (cases u) simp
  ultimately show ?thesis using cb law cookies
    by (simp add: CallbackHandler_def MeHandler_def ParseUser_def jm_Parse_def ParseWithClaims_def clock_at_def setCookie_def Let_def)
qed

definition wit_user :: auth_user where
  "wit_user = \<lparr>uID = ''github:7'', uGitHubID = 7, uLogin = ''ann'', uName = [], uAvatarURL = []\<rparr>"

theorem session_cookie_lifetime_witness:
  "fst (MeHandler wit_jwt (604899 * second) (NewAuthService wit_auth_cfg wit_client) (\<lambda>n. Some ''tok'') SystemClock)
     = auth_json 200 (JObj [(''user'', user_json wit_user)])"
proof -
  let ?s = "NewAuthService wit_auth_cfg wit_client"
  have ttl: "jmTTL (asJwt ?s) = 604800 * second" "jmSecret (asJwt ?s) = ''k''"
    by (simp_all add: NewAuthService_def WithDefaults_def wit_auth_cfg_def second_def Let_def in_i64_def)
  have "jm_claims (100 * second) (asJwt ?s) wit_user = \<lparr>clGitHubID = 7, clLogin = ''ann'', clName = [], clAvatarURL = [],
      clSubject = ''github:7'', clIssuedAt = Some 100, clExpiresAt = Some 604900\<rparr>"
    unfolding jm_claims_def ttl by (simp add: wit_user_def second_def)
  then have "ujParts wit_jwt ''tok'' = Some (HMAC ''HS256'', jm_claims (100 * second) (asJwt ?s) wit_user)
      \<and> ujSigned wit_jwt (HMAC ''HS256'') (jmSecret (asJwt ?s)) ''tok''"
    unfolding ttl by (simp add: wit_jwt_def)
  from session_cookie_lifetime [OF wit_callback [folded wit_user_def] this, of "604899 * second" "\<lambda>n. Some ''tok''" "\<lambda>b. True" SystemClock]
  show ?thesis by (simp add: setCookie_def ttl second_def)
qed

subsection \<open>Reading tokens at the same time\<close>

text \<open>
  \<open>jwt.TimeFunc\<close> belongs to the whole process. A call of \<open>Parse\<close> reads it, replaces it, checks its
  token and puts back what it read; calls of several requests interleave.
\<close>

datatype parse_phase =
    Loaded time_func       \<comment> \<open>it has read the variable\<close>
  | Installed time_func    \<comment> \<open>it has put its own clock there\<close>

record time_state =
  tsFunc :: time_func
  tsCalls :: "nat \<rightharpoonup> parse_phase"

inductive parse_step :: "time_state \<Rightarrow> time_state \<Rightarrow> bool" where
  load: "tsCalls s i = None \<Longrightarrow> parse_step s (s\<lparr>tsCalls := (tsCalls s)(i \<mapsto> Loaded (tsFunc s))\<rparr>)"
| install: "tsCalls s i = Some (Loaded old) \<Longrightarrow>
    parse_step s (s\<lparr>tsFunc := Fixed now, tsCalls := (tsCalls s)(i \<mapsto> Installed old)\<rparr>)"
| restore: "tsCalls s i = Some (Installed old) \<Longrightarrow>
    parse_step s (s\<lparr>tsFunc := old, tsCalls := (tsCalls s)(i := None)\<rparr>)"

inductive_cases parse_stepE: "parse_step s s'"

definition at_rest :: "time_func \<Rightarrow> time_state" where
  "at_rest f = \<lparr>tsFunc = f, tsCalls = Map.empty\<rparr>"

text \<open>Steps that never leave two calls under way.\<close>

inductive solo_run :: "time_func \<Rightarrow> time_state \<Rightarrow> bool" for f where
  start: "solo_run f (at_rest f)"
| turn: "solo_run f s \<Longrightarrow> parse_step s s' \<Longrightarrow> card (dom (tsCalls s')) \<le> 1 \<Longrightarrow> solo_run f s'"

lemma solo_shape:
  "solo_run f s \<Longrightarrow> s = at_rest f \<or> (\<exists>i. s = \<lparr>tsFunc = f, tsCalls = [i \<mapsto> Loaded f]\<rparr>)
     \<or> (\<exists>i now. s = \<lparr>tsFunc = Fixed now, tsCalls = [i \<mapsto> Installed f]\<rparr>)"
proof (induction rule: solo_run.induct)
  case (turn s s')
  from turn.hyps(2) consider
      (load) i where "tsCalls s i = None" "s' = s\<lparr>tsCalls := (tsCalls s)(i \<mapsto> Loaded (tsFunc s))\<rparr>"
    | (install) i old now where "tsCalls s i = Some (Loaded old)"
        "s' = s\<lparr>tsFunc := Fixed now, tsCalls := (tsCalls s)(i \<mapsto> Installed old)\<rparr>"
    | (restore) i old where "tsCalls s i = Some (Installed old)" "s' = s\<lparr>tsFunc := old, tsCalls := (tsCalls s)(i := None)\<rparr>"
    by (elim parse_stepE) blast+
  then show ?case
  proof cases
    case load
    have "tsCalls s \<noteq> [j \<mapsto> x]" for j x
    proof
      assume *: "tsCalls s = [j \<mapsto> x]"
      with load(1) have "i \<noteq> j" by auto
      then have "card (dom (tsCalls s')) = 2" by (simp add: load(2) *)
      then show False using turn.hyps(3) by simp
    qed
    then have "s = at_rest f" using turn.IH by (metis time_state.select_convs(2))
    then have "s' = \<lparr>tsFunc = f, tsCalls = [i \<mapsto> Loaded f]\<rparr>" using load(2) by (simp add: at_rest_def)
    then show ?thesis by blast
  next
    case install
    with turn.IH have "s = \<lparr>tsFunc = f, tsCalls = [i \<mapsto> Loaded f]\<rparr>" "old = f" by (auto simp: at_rest_def split: if_splits)
    then have "s' = \<lparr>tsFunc = Fixed now, tsCalls = [i \<mapsto> Installed f]\<rparr>" using install(2) by simp
    then show ?thesis by blast
  next
    case restore
    with turn.IH have "tsCalls s = [i \<mapsto> Installed f]" "old = f" by (auto simp: at_rest_def split: if_splits)
    then have "s' = at_rest f" using restore(2) by (simp add: at_rest_def)
    then show ?thesis by blast
  qed
qed simp

text \<open>The check that gRPC's token makes reads the same variable.\<close>

definition Verify_at :: "jwt_lib \<Rightarrow> time_func \<Rightarrow> int \<Rightarrow> token \<Rightarrow> string \<Rightarrow> bool" where
  "Verify_at J f wall t s = Verify J (clock_at f wall div second) t s"

text \<open>
  Calls that never overlap leave the library's clock as they found it. But two calls that overlap
  can leave it standing: there is an interleaving, from a process whose clock is the system's, after
  which no call is under way and the library's clock reads the time of one of the two for ever, and
  the gRPC interceptor's check then accepts, at any later time, exactly the tokens that were valid
  at that moment.
\<close>

theorem overlapping_parses_stop_the_clock:
  "(\<forall>f s. solo_run f s \<longrightarrow> tsCalls s = Map.empty \<longrightarrow> tsFunc s = f)
   \<and> parse_step\<^sup>*\<^sup>* (at_rest SystemClock) (at_rest (Fixed t))
   \<and> (\<forall>J wall tok s. Verify_at J (Fixed t) wall tok s = Verify J (t div second) tok s)"
proof (intro conjI allI impI)
  show "tsFunc s = f" if "solo_run f s" "tsCalls s = Map.empty" for f s
    using solo_shape [OF that(1)] that(2) by (auto simp: at_rest_def)
  show "Verify_at J (Fixed t) wall tok s = Verify J (t div second) tok s" for J wall tok s
    by (simp add: Verify_at_def clock_at_def)
  have "parse_step (at_rest SystemClock) \<lparr>tsFunc = SystemClock, tsCalls = [0 \<mapsto> Loaded SystemClock]\<rparr>"
    using load [of "at_rest SystemClock" 0] by (simp add: at_rest_def)
  moreover have "parse_step \<lparr>tsFunc = SystemClock, tsCalls = [0 \<mapsto> Loaded SystemClock]\<rparr>
      \<lparr>tsFunc = Fixed t, tsCalls = [0 \<mapsto> Installed SystemClock]\<rparr>"
    using install [of "\<lparr>tsFunc = SystemClock, tsCalls = [0 \<mapsto> Loaded SystemClock]\<rparr>" 0 SystemClock t] by simp
  moreover have "parse_step \<lparr>tsFunc = Fixed t, tsCalls = [0 \<mapsto> Installed SystemClock]\<rparr>
      \<lparr>tsFunc = Fixed t, tsCalls = [0 \<mapsto> Installed SystemClock, Suc 0 \<mapsto> Loaded (Fixed t)]\<rparr>"
    using load [of "\<lparr>tsFunc = Fixed t, tsCalls = [0 \<mapsto> Installed SystemClock]\<rparr>" "Suc 0"] by simp
  moreover have "parse_step \<lparr>tsFunc = Fixed t, tsCalls = [0 \<mapsto> Installed SystemClock, Suc 0 \<mapsto> Loaded (Fixed t)]\<rparr>
      \<lparr>tsFunc = SystemClock, tsCalls = [Suc 0 \<mapsto> Loaded (Fixed t)]\<rparr>"
    using restore [of "\<lparr>tsFunc = Fixed t, tsCalls = [0 \<mapsto> Installed SystemClock, Suc 0 \<mapsto> Loaded (Fixed t)]\<rparr>" 0 SystemClock]
    by (simp add: fun_upd_twist)
  moreover have "parse_step \<lparr>tsFunc = SystemClock, tsCalls = [Suc 0 \<mapsto> Loaded (Fixed t)]\<rparr>
      \<lparr>tsFunc = Fixed t, tsCalls = [Suc 0 \<mapsto> Installed (Fixed t)]\<rparr>"
    using install [of "\<lparr>tsFunc = SystemClock, tsCalls = [Suc 0 \<mapsto> Loaded (Fixed t)]\<rparr>" "Suc 0" "Fixed t" t] by simp
  moreover have "parse_step \<lparr>tsFunc = Fixed t, tsCalls = [Suc 0 \<mapsto> Installed (Fixed t)]\<rparr> (at_rest (Fixed t))"
    using restore [of "\<lparr>tsFunc = Fixed t, tsCalls = [Suc 0 \<mapsto> Installed (Fixed t)]\<rparr>" "Suc 0" "Fixed t"] by (simp add: at_rest_def)
  ultimately show "parse_step\<^sup>*\<^sup>* (at_rest SystemClock) (at_rest (Fixed t))"
    by (meson converse_rtranclp_into_rtranclp rtranclp.rtrancl_refl)
qed

theorem overlapping_parses_stop_the_clock_witness:
  "parse_step\<^sup>*\<^sup>* (at_rest SystemClock) (at_rest (Fixed (5 * second))) \<and> tsFunc (at_rest (Fixed 3)) = Fixed 3"
  using overlapping_parses_stop_the_clock [of "5 * second"] solo_run.start [of "Fixed 3"] by (auto simp: at_rest_def)

end
