(* ===== verification/Rate_Limit.thy ===== *)
theory Rate_Limit
  imports Prelude
begin

text \<open>
  The per-address rate limiter (\<open>internal/infrastructure/ratelimit/ratelimit.go\<close>): two fixed
  windows for each address, and the janitor that drops idle addresses. Times are nanoseconds and
  every \<open>time.Now()\<close> of the code is an input; the zero time of a bucket never seen is None.
\<close>

subsection \<open>Buckets\<close>

definition minute :: int where "minute = 60 * 10 ^ 9"
definition day :: int where "day = 24 * 60 * minute"

record rl_config =
  PerMinute :: int
  PerDay :: int

record ipBucket =
  minuteCount :: int
  minuteReset :: int
  dayCount :: int
  dayReset :: int
  lastSeen :: "int option"

type_synonym limiter = "string \<rightharpoonup> ipBucket"

definition new_bucket :: "int \<Rightarrow> int \<Rightarrow> ipBucket" where
  "new_bucket t0 t1 = \<lparr>minuteCount = 0, minuteReset = t0 + minute, dayCount = 0, dayReset = t1 + day, lastSeen = None\<rparr>"

definition roll :: "int \<Rightarrow> ipBucket \<Rightarrow> ipBucket" where
  \<comment> \<open>start the windows that have passed\<close>
  "roll now b =
     (let b1 = (if now > minuteReset b then b\<lparr>minuteCount := 0, minuteReset := now + minute\<rparr> else b)
      in if now > dayReset b1 then b1\<lparr>dayCount := 0, dayReset := now + day\<rparr> else b1)"

definition take_token :: "rl_config \<Rightarrow> int \<Rightarrow> ipBucket \<Rightarrow> bool \<times> ipBucket" where
  "take_token cfg now b0 =
     (let b = roll now (b0\<lparr>lastSeen := Some now\<rparr>)
      in if minuteCount b \<ge> PerMinute cfg \<or> dayCount b \<ge> PerDay cfg then (False, b)
         else (True, b\<lparr>minuteCount := minuteCount b + 1, dayCount := dayCount b + 1\<rparr>))"

definition Allow :: "rl_config \<Rightarrow> int \<times> int \<times> int \<Rightarrow> string \<Rightarrow> limiter \<Rightarrow> bool \<times> limiter" where
  "Allow cfg clock ip rl =
     (case clock of (t0, t1, now) \<Rightarrow>
        (case take_token cfg now (case rl ip of Some b \<Rightarrow> b | None \<Rightarrow> new_bucket t0 t1) of
           (ok, b) \<Rightarrow> (ok, rl(ip \<mapsto> b))))"

definition janitor_pass :: "int \<Rightarrow> limiter \<Rightarrow> limiter" where
  "janitor_pass now rl = (\<lambda>ip. case rl ip of
      None \<Rightarrow> None
    | Some b \<Rightarrow> (case lastSeen b of
                  None \<Rightarrow> None
                | Some t \<Rightarrow> if t < now - day then None else Some b))"

subsection \<open>Windows\<close>

text \<open>The decisions on a list of requests, with all clock readings of a request equal.\<close>

fun allow_run :: "rl_config \<Rightarrow> (string \<times> int) list \<Rightarrow> limiter \<Rightarrow> (string \<times> bool) list \<times> limiter" where
  "allow_run cfg [] rl = ([], rl)"
| "allow_run cfg ((ip, now) # rs) rl =
     (case Allow cfg (now, now, now) ip rl of
        (ok, rl') \<Rightarrow> (case allow_run cfg rs rl' of (os, rl'') \<Rightarrow> ((ip, ok) # os, rl'')))"

definition granted :: "string \<Rightarrow> (string \<times> bool) list \<Rightarrow> nat" where
  "granted ip os = count_list os (ip, True)"

text \<open>\<open>room\<close>: what is left of a window; \<open>minute_of\<close> and \<open>day_of\<close> select one of the two windows.\<close>

definition bucket_ok :: "rl_config \<Rightarrow> ipBucket \<Rightarrow> bool" where
  "bucket_ok cfg b \<longleftrightarrow> 0 \<le> minuteCount b \<and> minuteCount b \<le> max 0 (PerMinute cfg)
     \<and> 0 \<le> dayCount b \<and> dayCount b \<le> max 0 (PerDay cfg)
     \<and> (\<forall>t. lastSeen b = Some t \<longrightarrow> minuteReset b \<le> t + minute \<and> dayReset b \<le> t + day)"

definition limiter_ok :: "rl_config \<Rightarrow> limiter \<Rightarrow> bool" where
  "limiter_ok cfg rl \<longleftrightarrow> (\<forall>ip b. rl ip = Some b \<longrightarrow> bucket_ok cfg b)"

lemma take_token_cases:
  "take_token cfg now b = (ok, b') \<Longrightarrow>
     (\<exists>m d. (m = minuteCount b \<and> minuteReset b' = minuteReset b \<and> now \<le> minuteReset b
             \<or> m = 0 \<and> minuteReset b' = now + minute \<and> minuteReset b < now)
        \<and> (d = dayCount b \<and> dayReset b' = dayReset b \<and> now \<le> dayReset b
             \<or> d = 0 \<and> dayReset b' = now + day \<and> dayReset b < now)
        \<and> (ok \<longleftrightarrow> m < PerMinute cfg \<and> d < PerDay cfg)
        \<and> minuteCount b' = m + (if ok then 1 else 0) \<and> dayCount b' = d + (if ok then 1 else 0)
        \<and> lastSeen b' = Some now)"
  by (auto simp: take_token_def roll_def Let_def split: if_splits)

lemma bucket_ok_take:
  assumes "take_token cfg now b = (ok, b')" "bucket_ok cfg b" "\<forall>t. lastSeen b = Some t \<longrightarrow> t \<le> now"
    and "lastSeen b = None \<longrightarrow> minuteReset b \<le> now + minute \<and> dayReset b \<le> now + day"
  shows "bucket_ok cfg b'"
  using take_token_cases [OF assms(1)] assms(2-4)
  by (cases "lastSeen b") (auto simp: bucket_ok_def)

lemma bucket_ok_new: "bucket_ok cfg (new_bucket t0 t1)"
  by (simp add: bucket_ok_def new_bucket_def)

text \<open>No more than the room of a window while it lasts, and two windows at most in one period.\<close>

fun minute_run :: "rl_config \<Rightarrow> int list \<Rightarrow> ipBucket \<Rightarrow> nat" where
  "minute_run cfg [] b = 0"
| "minute_run cfg (now # ts) b =
     (case take_token cfg now b of (ok, b') \<Rightarrow> (if ok then 1 else 0) + minute_run cfg ts b')"

lemma minute_same_window:
  "\<forall>t \<in> set ts. t \<le> minuteReset b \<Longrightarrow> int (minute_run cfg ts b) \<le> max 0 (PerMinute cfg - minuteCount b)"
proof (induction ts arbitrary: b)
  case (Cons now ts)
  obtain ok b' where t: "take_token cfg now b = (ok, b')" by fastforce
  from take_token_cases [OF t] Cons.prems
  have b': "minuteReset b' = minuteReset b" "minuteCount b' = minuteCount b + (if ok then 1 else 0)"
    "ok \<longrightarrow> minuteCount b < PerMinute cfg" by auto
  with Cons.IH [of b'] Cons.prems have "int (minute_run cfg ts b') \<le> max 0 (PerMinute cfg - minuteCount b')" by simp
  with b' t show ?case by (auto simp: max_def split: if_splits)
qed simp

lemma minute_two_windows:
  "\<forall>t \<in> set ts. D - minute \<le> t \<and> t \<le> D \<Longrightarrow> 0 \<le> minuteCount b \<Longrightarrow>
     int (minute_run cfg ts b) \<le> 2 * max 0 (PerMinute cfg)"
proof -
  have "\<forall>t \<in> set ts. D - minute \<le> t \<and> t \<le> D \<Longrightarrow>
     int (minute_run cfg ts b) \<le> max 0 (PerMinute cfg - minuteCount b) + max 0 (PerMinute cfg)"
  proof (induction ts arbitrary: b)
    case (Cons now ts)
    obtain ok b' where t: "take_token cfg now b = (ok, b')" by fastforce
    show ?case
    proof (cases "minuteReset b < now")
      case True
      with take_token_cases [OF t] have b': "minuteReset b' = now + minute" "minuteCount b' = (if ok then 1 else 0)"
        "ok \<longrightarrow> 0 < PerMinute cfg" by auto
      have "int (minute_run cfg ts b') \<le> max 0 (PerMinute cfg - minuteCount b')"
        by (rule minute_same_window) (use Cons.prems b' in auto)
      with b' t show ?thesis by (auto simp: max_def split: if_splits)
    next
      case False
      with take_token_cases [OF t] have b': "minuteCount b' = minuteCount b + (if ok then 1 else 0)"
        "ok \<longrightarrow> minuteCount b < PerMinute cfg" by auto
      from Cons.IH [of b'] Cons.prems b' t show ?thesis by (auto simp: max_def split: if_splits)
    qed
  qed simp
  moreover assume "\<forall>t \<in> set ts. D - minute \<le> t \<and> t \<le> D" "0 \<le> minuteCount b"
  ultimately show ?thesis by (auto simp: max_def split: if_splits)
qed

text \<open>The requests of one address see one bucket, whatever the other addresses do.\<close>

lemma granted_Cons:
  "granted ip (fst (allow_run cfg ((i, now) # rs) rl))
     = (if i = ip \<and> fst (Allow cfg (now, now, now) i rl) then 1 else 0)
       + granted ip (fst (allow_run cfg rs (snd (Allow cfg (now, now, now) i rl))))"
  by (auto simp: granted_def case_prod_beta)

lemma Allow_bucket:
  "take_token cfg now (case rl i of Some b \<Rightarrow> b | None \<Rightarrow> new_bucket now now) = (ok, b') \<Longrightarrow>
     fst (Allow cfg (now, now, now) i rl) = ok \<and> snd (Allow cfg (now, now, now) i rl) i = Some b'
     \<and> (\<forall>j. j \<noteq> i \<longrightarrow> snd (Allow cfg (now, now, now) i rl) j = rl j)"
  by (simp add: Allow_def)

lemma granted_one_bucket:
  "rl ip = Some b \<Longrightarrow> granted ip (fst (allow_run cfg rs rl)) = minute_run cfg (map snd (filter (\<lambda>r. fst r = ip) rs)) b"
proof (induction rs arbitrary: rl b)
  case (Cons r rs)
  obtain i now where r: "r = (i, now)" by fastforce
  obtain ok b' where t: "take_token cfg now (case rl i of Some b \<Rightarrow> b | None \<Rightarrow> new_bucket now now) = (ok, b')" by fastforce
  note al = Allow_bucket [of cfg now rl i ok b', OF t]
  show ?case
  proof (cases "i = ip")
    case True
    with Cons.IH [of "snd (Allow cfg (now, now, now) i rl)" b'] al Cons.prems t show ?thesis
      unfolding r granted_Cons by simp
  next
    case False
    with Cons.IH [of "snd (Allow cfg (now, now, now) i rl)" b] al Cons.prems show ?thesis
      unfolding r granted_Cons by simp
  qed
qed (simp add: granted_def)

lemma granted_fresh:
  "rl ip = None \<Longrightarrow> granted ip (fst (allow_run cfg rs rl)) = 0
     \<or> (\<exists>now. granted ip (fst (allow_run cfg rs rl))
          = minute_run cfg (map snd (filter (\<lambda>r. fst r = ip) rs)) (new_bucket now now))"
proof (induction rs arbitrary: rl)
  case (Cons r rs)
  obtain i now where r: "r = (i, now)" by fastforce
  obtain ok b' where t: "take_token cfg now (case rl i of Some b \<Rightarrow> b | None \<Rightarrow> new_bucket now now) = (ok, b')" by fastforce
  note al = Allow_bucket [of cfg now rl i ok b', OF t]
  show ?case
  proof (cases "i = ip")
    case True
    with granted_one_bucket [of "snd (Allow cfg (now, now, now) i rl)" ip b' cfg rs] al Cons.prems t show ?thesis
      unfolding r granted_Cons by (auto intro!: exI [of _ now])
  next
    case False
    with Cons.IH [of "snd (Allow cfg (now, now, now) i rl)"] al Cons.prems show ?thesis
      unfolding r granted_Cons by simp
  qed
qed (simp add: granted_def)

subsection \<open>Properties\<close>

text \<open>
  Within any minute an address is granted at most twice its per-minute limit, whatever the
  other addresses do (the fixed windows allow a burst at the boundary, and no more than that).
\<close>

theorem rate_limit_per_minute:
  assumes "limiter_ok cfg rl" and "\<forall>r \<in> set rs. D - minute \<le> snd r \<and> snd r \<le> D"
  shows "int (granted ip (fst (allow_run cfg rs rl))) \<le> 2 * max 0 (PerMinute cfg)"
proof -
  let ?ts = "map snd (filter (\<lambda>r. fst r = ip) rs)"
  have ts: "\<forall>t \<in> set ?ts. D - minute \<le> t \<and> t \<le> D" using assms(2) by auto
  show ?thesis
  proof (cases "rl ip")
    case None
    from granted_fresh [of rl ip cfg rs, OF None] show ?thesis
    proof
      assume "\<exists>now. granted ip (fst (allow_run cfg rs rl)) = minute_run cfg ?ts (new_bucket now now)"
      then obtain now where "granted ip (fst (allow_run cfg rs rl)) = minute_run cfg ?ts (new_bucket now now)" ..
      then show ?thesis using minute_two_windows [OF ts, of "new_bucket now now" cfg] by (simp add: new_bucket_def)
    qed simp
  next
    case (Some b)
    with assms(1) have "0 \<le> minuteCount b" by (auto simp: limiter_ok_def bucket_ok_def)
    with granted_one_bucket [of rl ip b cfg rs] Some minute_two_windows [OF ts] show ?thesis by simp
  qed
qed

definition wit_cfg :: rl_config where "wit_cfg = \<lparr>PerMinute = 1, PerDay = 10\<rparr>"

theorem rate_limit_per_minute_witness:
  "granted ''a'' (fst (allow_run wit_cfg [(''a'', 1), (''a'', 2), (''b'', 2), (''a'', 3)] (\<lambda>_. None))) \<le> 2"
proof -
  let ?rs = "[(''a'', 1), (''a'', 2), (''b'', 2), (''a'', 3)] :: (string \<times> int) list"
  have o: "limiter_ok wit_cfg (\<lambda>_. None)" by (simp add: limiter_ok_def)
  have w: "\<forall>r \<in> set ?rs. minute - minute \<le> snd r \<and> snd r \<le> minute" by (simp add: minute_def)
  from rate_limit_per_minute [OF o w, of "''a''"] show ?thesis by (simp add: wit_cfg_def)
qed

text \<open>
  The janitor is invisible: dropping an idle address changes no later decision about it, nor
  the bucket it is left with, as long as the clock does not run backwards.
\<close>

theorem janitor_transparent:
  assumes "limiter_ok cfg rl" and "\<forall>b. rl ip = Some b \<longrightarrow> lastSeen b \<noteq> None" and "T \<le> now"
  shows "fst (Allow cfg (now, now, now) ip (janitor_pass T rl)) = fst (Allow cfg (now, now, now) ip rl)
     \<and> snd (Allow cfg (now, now, now) ip (janitor_pass T rl)) ip = snd (Allow cfg (now, now, now) ip rl) ip"
proof (cases "janitor_pass T rl ip = rl ip")
  case True
  then show ?thesis by (auto simp: Allow_def split: prod.splits)
next
  case False
  then obtain b t where b: "rl ip = Some b" "lastSeen b = Some t" "t < T - day" "janitor_pass T rl ip = None"
    using assms(2) by (auto simp: janitor_pass_def split: option.splits if_splits)
  have "bucket_ok cfg b" using assms(1) b(1) by (auto simp: limiter_ok_def)
  then have "minuteReset b < now" "dayReset b < now"
    using b assms(3) by (auto simp: bucket_ok_def day_def minute_def)
  then have "roll now (b\<lparr>lastSeen := Some now\<rparr>) = roll now ((new_bucket now now)\<lparr>lastSeen := Some now\<rparr>)"
    by (simp add: roll_def new_bucket_def Let_def minute_def day_def)
  then have "take_token cfg now b = take_token cfg now (new_bucket now now)"
    by (simp add: take_token_def)
  with b show ?thesis by (simp add: Allow_def split: prod.splits)
qed

definition wit_bucket :: ipBucket where
  "wit_bucket = \<lparr>minuteCount = 1, minuteReset = minute, dayCount = 1, dayReset = day, lastSeen = Some 0\<rparr>"

theorem janitor_transparent_witness:
  "fst (Allow wit_cfg (3 * day, 3 * day, 3 * day) ''a'' (janitor_pass (2 * day) [''a'' \<mapsto> wit_bucket]))"
proof -
  have o: "limiter_ok wit_cfg [''a'' \<mapsto> wit_bucket]"
    by (simp add: limiter_ok_def bucket_ok_def wit_bucket_def wit_cfg_def)
  have l: "\<forall>b. [''a'' \<mapsto> wit_bucket] ''a'' = Some b \<longrightarrow> lastSeen b \<noteq> None" by (simp add: wit_bucket_def)
  have t: "2 * day \<le> 3 * day" by (simp add: day_def minute_def)
  have "fst (Allow wit_cfg (3 * day, 3 * day, 3 * day) ''a'' [''a'' \<mapsto> wit_bucket])"
    by (simp add: Allow_def wit_bucket_def take_token_def roll_def wit_cfg_def minute_def day_def Let_def)
  with janitor_transparent [OF o l t, THEN conjunct1] show ?thesis by blast
qed

end
