(* ===== verification/Feedback.thy ===== *)
theory Feedback
  imports Rate_Limit Server_Controllers
begin

text \<open>
  User feedback: validation (\<open>internal/domain/feedback\<close>), submission by mail
  (\<open>internal/application/feedback/service.go\<close>), the SMTP mailer
  (\<open>internal/infrastructure/mail\<close>) and the HTTP handler
  (\<open>internal/interfaces/controller/feedback\<close>). The mail library is a parameter: the outcome of a
  send. Strings are UTF-8 byte strings.
\<close>

subsection \<open>Validation\<close>

datatype feedback_error = ErrInvalidType | ErrInvalidContent | ErrInvalidContact | ErrRateLimited | ErrMailSend

fun feedback_text :: "feedback_error \<Rightarrow> string" where
  "feedback_text ErrInvalidType = [CHR 0xE5, CHR 0x8F, CHR 0x8D, CHR 0xE9, CHR 0xA6, CHR 0x88, CHR 0xE7, CHR 0xB1, CHR 0xBB, CHR 0xE5, CHR 0x9E, CHR 0x8B, CHR 0xE6, CHR 0x97, CHR 0xA0, CHR 0xE6, CHR 0x95, CHR 0x88]"
| "feedback_text ErrInvalidContent = [CHR 0xE5, CHR 0x86, CHR 0x85, CHR 0xE5, CHR 0xAE, CHR 0xB9, CHR 0xE9, CHR 0x95, CHR 0xBF, CHR 0xE5, CHR 0xBA, CHR 0xA6, CHR 0xE9, CHR 0x9C, CHR 0x80, CHR 0xE5, CHR 0x9C, CHR 0xA8] @ '' 10-2000 '' @ [CHR 0xE5, CHR 0xAD, CHR 0x97, CHR 0xE7, CHR 0xAC, CHR 0xA6, CHR 0xE4, CHR 0xB9, CHR 0x8B, CHR 0xE9, CHR 0x97, CHR 0xB4]"
| "feedback_text ErrInvalidContact = [CHR 0xE8, CHR 0x81, CHR 0x94, CHR 0xE7, CHR 0xB3, CHR 0xBB, CHR 0xE6, CHR 0x96, CHR 0xB9, CHR 0xE5, CHR 0xBC, CHR 0x8F, CHR 0xE9, CHR 0x95, CHR 0xBF, CHR 0xE5, CHR 0xBA, CHR 0xA6, CHR 0xE4, CHR 0xB8, CHR 0x8D, CHR 0xE8, CHR 0x83, CHR 0xBD, CHR 0xE8, CHR 0xB6, CHR 0x85, CHR 0xE8, CHR 0xBF, CHR 0x87] @ '' 100 '' @ [CHR 0xE5, CHR 0xAD, CHR 0x97, CHR 0xE7, CHR 0xAC, CHR 0xA6]"
| "feedback_text ErrRateLimited = [CHR 0xE6, CHR 0x8F, CHR 0x90, CHR 0xE4, CHR 0xBA, CHR 0xA4, CHR 0xE8, CHR 0xBF, CHR 0x87, CHR 0xE4, CHR 0xBA, CHR 0x8E, CHR 0xE9, CHR 0xA2, CHR 0x91, CHR 0xE7, CHR 0xB9, CHR 0x81, CHR 0xEF, CHR 0xBC, CHR 0x8C, CHR 0xE8, CHR 0xAF, CHR 0xB7, CHR 0xE7, CHR 0xA8, CHR 0x8D, CHR 0xE5, CHR 0x90, CHR 0x8E, CHR 0xE5, CHR 0x86, CHR 0x8D, CHR 0xE8, CHR 0xAF, CHR 0x95]"
| "feedback_text ErrMailSend = [CHR 0xE5, CHR 0x8F, CHR 0x91, CHR 0xE9, CHR 0x80, CHR 0x81, CHR 0xE5, CHR 0xA4, CHR 0xB1, CHR 0xE8, CHR 0xB4, CHR 0xA5, CHR 0xEF, CHR 0xBC, CHR 0x8C, CHR 0xE8, CHR 0xAF, CHR 0xB7, CHR 0xE7, CHR 0xA8, CHR 0x8D, CHR 0xE5, CHR 0x90, CHR 0x8E, CHR 0xE9, CHR 0x87, CHR 0x8D, CHR 0xE8, CHR 0xAF, CHR 0x95]"

record Feedback =
  fbType :: string
  fbContent :: string
  fbContact :: string

definition validTypes :: "string set" where
  "validTypes = {''bug'', ''suggestion'', ''other''}"

definition Validate :: "Feedback \<Rightarrow> feedback_error option" where
  "Validate f =
     (if fbType f \<notin> validTypes then Some ErrInvalidType
      else let content = TrimSpace (fbContent f)
           in if rune_count content < 10 \<or> rune_count content > 2000 then Some ErrInvalidContent
              else if rune_count (TrimSpace (fbContact f)) > 100 then Some ErrInvalidContact
              else None)"

subsection \<open>The mail\<close>

definition runes :: "string \<Rightarrow> nat \<Rightarrow> string" where
  "runes s n = (if rune_count s \<le> n then s else concat (map reencode (take n (rune_chunks s))))"

definition email_local_char :: "char \<Rightarrow> bool" where
  "email_local_char c \<longleftrightarrow> (97 \<le> byte c \<and> byte c \<le> 122) \<or> (65 \<le> byte c \<and> byte c \<le> 90) \<or> (48 \<le> byte c \<and> byte c \<le> 57)
     \<or> c \<in> set ''._%+-''"

definition email_domain_char :: "char \<Rightarrow> bool" where
  "email_domain_char c \<longleftrightarrow> (97 \<le> byte c \<and> byte c \<le> 122) \<or> (65 \<le> byte c \<and> byte c \<le> 90) \<or> (48 \<le> byte c \<and> byte c \<le> 57)
     \<or> c \<in> set ''.-''"

definition email_tld_char :: "char \<Rightarrow> bool" where
  "email_tld_char c \<longleftrightarrow> (97 \<le> byte c \<and> byte c \<le> 122) \<or> (65 \<le> byte c \<and> byte c \<le> 90)"

text \<open>
  \<open>emailRegexp\<close>: a non-empty local part, an at sign, a non-empty domain, a dot and two letters or
  more. No character class of it contains the at sign, and the letters after the last dot contain
  no dot, so the match is decided by splitting at both.
\<close>

definition email_match :: "string \<Rightarrow> bool" where
  "email_match s =
     (case Split (CHR 0x40) s of
        [l, d] \<Rightarrow>
          (let tld = last (Split (CHR ''.'') d); pre = take (length d - (length tld + 1)) d
           in l \<noteq> [] \<and> list_all email_local_char l \<and> length tld + 1 < length d
              \<and> list_all email_domain_char pre \<and> 2 \<le> length tld \<and> list_all email_tld_char tld)
      | _ \<Rightarrow> False)"

definition type_label :: "string \<Rightarrow> string" where
  "type_label t =
     (if t = ''bug'' then ''Bug''
      else if t = ''suggestion'' then ([CHR 0xE5, CHR 0xBB, CHR 0xBA, CHR 0xE8, CHR 0xAE, CHR 0xAE])
      else if t = ''other'' then ([CHR 0xE5, CHR 0x85, CHR 0xB6, CHR 0xE4, CHR 0xBB, CHR 0x96])
      else '''')"

definition newline :: string where "newline = [CHR 0x0A]"

definition buildHTML :: "string \<Rightarrow> string \<Rightarrow> Feedback \<Rightarrow> string" where
  \<comment> \<open>first argument: the formatted time\<close>
  "buildHTML now ip f =
     (let contact = (if fbContact f \<noteq> '''' then EscapeString (fbContact f) else ([CHR 0xEF, CHR 0xBC, CHR 0x88, CHR 0xE6, CHR 0x9C, CHR 0xAA, CHR 0xE5, CHR 0xA1, CHR 0xAB, CHR 0xE5, CHR 0x86, CHR 0x99, CHR 0xEF, CHR 0xBC, CHR 0x89]))
      in ''<pre>'' @ newline @ ([CHR 0xE6, CHR 0x97, CHR 0xB6, CHR 0xE9, CHR 0x97, CHR 0xB4, CHR 0xEF, CHR 0xBC, CHR 0x9A]) @ EscapeString now @ newline
         @ (''IP'' @ [CHR 0xEF, CHR 0xBC, CHR 0x9A]) @ EscapeString ip @ newline
         @ ([CHR 0xE7, CHR 0xB1, CHR 0xBB, CHR 0xE5, CHR 0x9E, CHR 0x8B, CHR 0xEF, CHR 0xBC, CHR 0x9A]) @ EscapeString (type_label (fbType f)) @ newline
         @ ([CHR 0xE8, CHR 0x81, CHR 0x94, CHR 0xE7, CHR 0xB3, CHR 0xBB, CHR 0xE6, CHR 0x96, CHR 0xB9, CHR 0xE5, CHR 0xBC, CHR 0x8F, CHR 0xEF, CHR 0xBC, CHR 0x9A]) @ contact @ newline @ newline
         @ ''---'' @ newline @ EscapeString (fbContent f) @ newline @ ''</pre>'')"

record mail =
  mailSubject :: string
  mailBody :: string
  mailReplyTo :: string

subsection \<open>Submission\<close>

record SubmitCmd =
  cmdIP :: string
  cmdType :: string
  cmdContent :: string
  cmdContact :: string

text \<open>
  \<open>allow\<close> is the rate limiter, with its state; \<open>send\<close> the mailer. The result is the error, the mail
  handed to the mailer, and the limiter's state.
\<close>

definition sendTimeout :: "int \<Rightarrow> int" where
  "sendTimeout t = (if t = 0 then 3 * 10 ^ 9 else t)"

definition Submit :: "(string \<Rightarrow> 's \<Rightarrow> bool \<times> 's) \<Rightarrow> (int \<Rightarrow> mail \<Rightarrow> bool) \<Rightarrow> int \<Rightarrow> string \<Rightarrow> SubmitCmd \<Rightarrow> 's
    \<Rightarrow> feedback_error option \<times> mail option \<times> 's" where
  "Submit allow send timeout now cmd s =
     (case allow (cmdIP cmd) s of
        (False, s') \<Rightarrow> (Some ErrRateLimited, None, s')
      | (True, s') \<Rightarrow>
          (let f = \<lparr>fbType = cmdType cmd, fbContent = TrimSpace (cmdContent cmd), fbContact = TrimSpace (cmdContact cmd)\<rparr>
           in case Validate f of
                Some e \<Rightarrow> (Some e, None, s')
              | None \<Rightarrow>
                  (let m = \<lparr>mailSubject = ''[CodeRunner'' @ ([CHR 0xE5, CHR 0x8F, CHR 0x8D, CHR 0xE9, CHR 0xA6, CHR 0x88]) @ ''][''
                                @ fbType f @ ''] '' @ runes (fbContent f) 30,
                            mailBody = buildHTML now (cmdIP cmd) f,
                            mailReplyTo = (if email_match (fbContact f) then fbContact f else '''')\<rparr>
                   in if send (sendTimeout timeout) m then (None, Some m, s')
                      else (Some ErrMailSend, Some m, s'))))"

subsection \<open>The mailers\<close>

definition NoopSend :: "int \<Rightarrow> mail \<Rightarrow> bool" where
  "NoopSend timeout m = True"

record SMTPConfig =
  smtpHost :: string
  smtpPort :: int
  smtpUsername :: string
  smtpPassword :: string
  smtpFrom :: string
  smtpTo :: string
  smtpTimeout :: int

text \<open>What the mail library's dialer is made from.\<close>

record mail_dialer =
  dlHost :: string
  dlPort :: int
  dlUsername :: string
  dlPassword :: string

record SMTPMailer =
  smCfg :: SMTPConfig
  smDialer :: mail_dialer

definition NewSMTPMailer :: "SMTPConfig \<Rightarrow> SMTPMailer" where
  "NewSMTPMailer cfg =
     \<lparr>smCfg = cfg,
      smDialer = \<lparr>dlHost = smtpHost cfg, dlPort = smtpPort cfg, dlUsername = smtpUsername cfg, dlPassword = smtpPassword cfg\<rparr>\<rparr>"

text \<open>The ready case the \<open>select\<close> takes: the context, the timer, or the outcome of the delivery.\<close>

datatype smtp_ready = CtxDone | TimerFired | Delivered "string option"

datatype smtp_error = SendCancelled | SendTimeout int | DialError string

definition smtp_headers :: "SMTPConfig \<Rightarrow> mail \<Rightarrow> (string \<times> string) list" where
  "smtp_headers cfg m =
     [(''From'', smtpFrom cfg), (''To'', smtpTo cfg), (''Subject'', mailSubject m)]
     @ (if mailReplyTo m \<noteq> '''' then [(''Reply-To'', mailReplyTo m)] else [])"

definition SMTP_Send :: "SMTPMailer \<Rightarrow> smtp_ready \<Rightarrow> mail \<Rightarrow> (string \<times> string) list \<times> smtp_error option" where
  "SMTP_Send sm ready m =
     (smtp_headers (smCfg sm) m,
      case ready of
        CtxDone \<Rightarrow> Some SendCancelled
      | TimerFired \<Rightarrow> Some (SendTimeout (sendTimeout (smtpTimeout (smCfg sm))))
      | Delivered e \<Rightarrow> map_option DialError e)"

subsection \<open>The handler\<close>

record feedbackRequest =
  frType :: string
  frContent :: string
  frContact :: string

definition feedback_fields :: "feedbackRequest field list" where
  "feedback_fields = [string_field ''type'' (\<lambda>s r. r\<lparr>frType := s\<rparr>), string_field ''content'' (\<lambda>s r. r\<lparr>frContent := s\<rparr>),
                      string_field ''contact'' (\<lambda>s r. r\<lparr>frContact := s\<rparr>)]"

definition bind_feedback :: "payload \<Rightarrow> feedbackRequest option" where
  "bind_feedback body =
     (case decode_struct feedback_fields \<lparr>frType = [], frContent = [], frContact = []\<rparr> body of
        None \<Rightarrow> None
      | Some r \<Rightarrow> if frType r = [] \<or> frContent r = [] then None else Some r)"

definition extractIP :: "(string \<Rightarrow> string) \<Rightarrow> string \<Rightarrow> string" where
  "extractIP header remoteIP =
     (let ip = header ''X-Real-IP''
      in if ip \<noteq> '''' then TrimSpace ip
         else let fwd = header ''X-Forwarded-For''
              in if fwd \<noteq> '''' then TrimSpace (last (Split (CHR '','') fwd))
                 else remoteIP)"

definition feedback_json :: "bool \<Rightarrow> string \<Rightarrow> json" where
  "feedback_json ok msg = JObj [(''success'', JBool ok), (''message'', JStr msg)]"

definition HandleFeedback :: "(SubmitCmd \<Rightarrow> 's \<Rightarrow> feedback_error option \<times> 's) \<Rightarrow> (string \<Rightarrow> string) \<Rightarrow> string
    \<Rightarrow> payload \<Rightarrow> 's \<Rightarrow> http_response \<times> 's" where
  "HandleFeedback submit header remoteIP body s =
     (case bind_feedback body of
        None \<Rightarrow> (HttpResponse 400 (feedback_json False (([CHR 0xE8, CHR 0xAF, CHR 0xB7, CHR 0xE6, CHR 0xB1, CHR 0x82, CHR 0xE6, CHR 0xA0, CHR 0xBC, CHR 0xE5, CHR 0xBC, CHR 0x8F, CHR 0xE9, CHR 0x94, CHR 0x99, CHR 0xE8, CHR 0xAF, CHR 0xAF]))), s)
      | Some req \<Rightarrow>
          (let cmd = \<lparr>cmdIP = extractIP header remoteIP, cmdType = frType req, cmdContent = frContent req,
                      cmdContact = frContact req\<rparr>
           in case submit cmd s of
                (Some err, s') \<Rightarrow>
                  (case err of
                     ErrRateLimited \<Rightarrow> (HttpResponse 429 (feedback_json False (feedback_text err)), s')
                   | ErrInvalidType \<Rightarrow> (HttpResponse 400 (feedback_json False (feedback_text err)), s')
                   | ErrInvalidContent \<Rightarrow> (HttpResponse 400 (feedback_json False (feedback_text err)), s')
                   | ErrInvalidContact \<Rightarrow> (HttpResponse 400 (feedback_json False (feedback_text err)), s')
                   | ErrMailSend \<Rightarrow> (HttpResponse 500 (feedback_json False (feedback_text ErrMailSend)), s'))
              | (None, s') \<Rightarrow> (HttpResponse 200 (feedback_json True (([CHR 0xE6, CHR 0x84, CHR 0x9F, CHR 0xE8, CHR 0xB0, CHR 0xA2, CHR 0xE5, CHR 0x8F, CHR 0x8D, CHR 0xE9, CHR 0xA6, CHR 0x88]))), s')))"

subsection \<open>Properties\<close>

lemma Split_last: "last (Split sep s) \<noteq> s \<Longrightarrow> \<exists>p. s = p @ sep # last (Split sep s)"
proof (induction s)
  case (Cons c s)
  show ?case
  proof (cases "c = sep")
    case True
    then have "last (Split sep (c # s)) = last (Split sep s)" by simp
    moreover have "\<exists>p. c # s = p @ sep # last (Split sep s)"
    proof (cases "last (Split sep s) = s")
      case True
      with \<open>c = sep\<close> show ?thesis by (intro exI [of _ "[]"]) simp
    next
      case False
      with Cons.IH obtain p where "s = p @ sep # last (Split sep s)" by blast
      then show ?thesis by (intro exI [of _ "c # p"]) simp
    qed
    ultimately show ?thesis by simp
  next
    case False
    then obtain w ws where w: "Split sep s = w # ws" by (cases "Split sep s") auto
    show ?thesis
    proof (cases "ws = []")
      case True
      then have "s = w" using w
        by (metis Split_append_sep Split_no_sep list.inject Split_not_Nil split_list_first)
      with False True w Cons.prems show ?thesis by simp
    next
      case ws: False
      then have l: "last (Split sep (c # s)) = last (Split sep s)" using False w by simp
      have "last (Split sep s) \<noteq> s"
      proof
        assume e: "last (Split sep s) = s"
        have "last (Split sep s) \<in> set (Split sep s)" by (rule last_in_set [OF Split_not_Nil])
        from Split_no_sep_in [OF this] have "sep \<notin> set s" unfolding e .
        then show False using w ws Split_no_sep [of sep s] by simp
      qed
      with Cons.IH obtain p where "s = p @ sep # last (Split sep s)" by blast
      then show ?thesis unfolding l by (intro exI [of _ "c # p"]) simp
    qed
  qed
qed simp

lemma email_char_range:
  "email_local_char c \<Longrightarrow> 33 \<le> byte c \<and> byte c \<le> 122"
  "email_domain_char c \<Longrightarrow> 33 \<le> byte c \<and> byte c \<le> 122"
  "email_tld_char c \<Longrightarrow> 33 \<le> byte c \<and> byte c \<le> 122"
  unfolding email_local_char_def email_domain_char_def email_tld_char_def
  by auto

lemma email_match_chars:
  assumes "email_match s" "c \<in> set s" shows "33 \<le> byte c \<and> byte c \<le> 122"
proof -
  obtain l d where ld: "Split (CHR 0x40) s = [l, d]" using assms(1)
    by (auto simp: email_match_def split: list.splits)
  obtain tld where tld: "last (Split (CHR ''.'') d) = tld" by simp
  from assms(1) ld have m: "list_all email_local_char l" "length tld + 1 < length d"
    "list_all email_domain_char (take (length d - (length tld + 1)) d)" "list_all email_tld_char tld"
    by (simp_all add: email_match_def Let_def tld)
  have "tld \<noteq> d" using m(2) by auto
  then obtain p where p: "d = p @ CHR ''.'' # tld" using Split_last [of "CHR ''.''" d] unfolding tld by blast
  then have "take (length d - (length tld + 1)) d = p" by (metis append_eq_conv_conj length_append
        length_Cons add_diff_cancel_right' Suc_eq_plus1)
  with m(3) have dp: "list_all email_domain_char p" by simp
  have "set d = set p \<union> {CHR ''.''} \<union> set tld" using arg_cong [OF p, of set] by simp
  moreover have "set s = set l \<union> {CHR 0x40} \<union> set d" using arg_cong [OF Split_two [OF ld], of set] by simp
  ultimately consider "c \<in> set l" | "c = CHR 0x40" | "c \<in> set p" | "c = CHR ''.''" | "c \<in> set tld"
    using assms(2) by blast
  then show ?thesis
  proof cases
    case 1 with m(1) show ?thesis by (auto simp: list_all_iff intro!: email_char_range(1))
  next
    case 3 with dp show ?thesis by (auto simp: list_all_iff intro!: email_char_range(2))
  next
    case 5 with m(4) show ?thesis by (auto simp: list_all_iff intro!: email_char_range(3))
  qed simp_all
qed

lemma count_EscapeString: "count_list (EscapeString s) (CHR 0x3C) = 0"
  using EscapeString_safe [of "CHR 0x3C" s] by (simp add: count_list_0_iff)

lemma buildHTML_two_tags: "count_list (buildHTML now ip f) (CHR 0x3C) = 2"
  by (simp add: buildHTML_def Let_def count_EscapeString newline_def)

text \<open>
  A submission is mailed exactly when the rate limiter lets the address through and the trimmed
  feedback is valid, and it succeeds exactly when that mail is delivered. Whatever the user wrote,
  the mail's body contains no markup but the two pre tags, its Reply-To is empty or an address
  without spaces or control characters, and its type is one of the three.
\<close>

theorem feedback_submit_spec:
  assumes "Submit allow send timeout now cmd s = (err, m, s')"
    and "f = \<lparr>fbType = cmdType cmd, fbContent = TrimSpace (cmdContent cmd), fbContact = TrimSpace (cmdContact cmd)\<rparr>"
  shows "(m \<noteq> None \<longleftrightarrow> fst (allow (cmdIP cmd) s) \<and> Validate f = None)
     \<and> (err = None \<longleftrightarrow> (\<exists>x. m = Some x \<and> send (sendTimeout timeout) x))
     \<and> (err = Some ErrRateLimited \<longleftrightarrow> \<not> fst (allow (cmdIP cmd) s))
     \<and> s' = snd (allow (cmdIP cmd) s)
     \<and> (\<forall>x. m = Some x \<longrightarrow> count_list (mailBody x) (CHR 0x3C) = 2
          \<and> (\<forall>c \<in> set (mailReplyTo x). 33 \<le> byte c \<and> byte c \<le> 122) \<and> cmdType cmd \<in> validTypes)"
proof -
  obtain ok t where a: "allow (cmdIP cmd) s = (ok, t)" by fastforce
  have nr: "Validate f \<noteq> Some ErrRateLimited" by (simp add: Validate_def Let_def)
  show ?thesis
  proof (cases ok)
    case False
    with a assms(1) show ?thesis by (auto simp: Submit_def)
  next
    case True
    show ?thesis
    proof (cases "Validate f")
      case (Some e)
      then have "Submit allow send timeout now cmd s = (Some e, None, t)"
        unfolding assms(2) using a True by (simp add: Submit_def Let_def)
      with assms(1) Some [symmetric] nr a True show ?thesis by auto
    next
      case None
      then have "cmdType cmd \<in> validTypes" using assms(2) by (auto simp: Validate_def split: if_splits)
      with a True None assms email_match_chars show ?thesis
        by (auto simp: Submit_def Let_def buildHTML_two_tags split: if_splits)
    qed
  qed
qed

definition wit_cmd :: SubmitCmd where
  "wit_cmd = \<lparr>cmdIP = ''1.2.3.4'', cmdType = ''bug'', cmdContent = ''it <b>breaks'', cmdContact = ''''\<rparr>"

theorem feedback_submit_spec_witness:
  "fst (snd (Submit (\<lambda>ip s. (False, s)) NoopSend 0 ''now'' wit_cmd ())) = None"
proof -
  obtain err m where e: "Submit (\<lambda>ip s. (False, s)) NoopSend 0 ''now'' wit_cmd () = (err, m, ())" by (metis prod_cases3 old.unit.exhaust)
  from feedback_submit_spec [OF e refl] e show ?thesis by simp
qed

text \<open>
  The feedback endpoint answers 400 to what does not bind or validate, 429 to a limited address,
  500 when the mail could not be delivered, and 200 exactly when the submission succeeded.
\<close>

theorem feedback_status:
  "\<exists>st msg. fst (HandleFeedback submit header remoteIP body s) = HttpResponse st (feedback_json (st = 200) msg)
     \<and> (st = 200 \<longleftrightarrow> (\<exists>req. bind_feedback body = Some req \<and> fst (submit \<lparr>cmdIP = extractIP header remoteIP,
           cmdType = frType req, cmdContent = frContent req, cmdContact = frContact req\<rparr> s) = None))
     \<and> (st = 429 \<longleftrightarrow> (\<exists>req. bind_feedback body = Some req \<and> fst (submit \<lparr>cmdIP = extractIP header remoteIP,
           cmdType = frType req, cmdContent = frContent req, cmdContact = frContact req\<rparr> s) = Some ErrRateLimited))
     \<and> st \<in> {200, 400, 429, 500}"
proof (cases "bind_feedback body")
  case None
  then show ?thesis by (auto simp: HandleFeedback_def)
next
  case (Some req)
  obtain e s' where "submit \<lparr>cmdIP = extractIP header remoteIP, cmdType = frType req, cmdContent = frContent req,
      cmdContact = frContact req\<rparr> s = (e, s')" by fastforce
  with Some show ?thesis
    by (auto simp: HandleFeedback_def Let_def split: option.splits feedback_error.splits)
qed

end
