(* ===== verification/Startup.thy ===== *)
theory Startup
  imports Observability App_Config Agent_Config Agent_Handlers Browser_Auth Feedback
begin

text \<open>
  The server's start (\<open>internal/interfaces/adapter/initialize\<close>): the configuration and how it is read
  with its environment references (\<open>LoadConfig\<close>), the wiring of the server's services, the engine's
  cross-origin policy, and the routes (\<open>internal/interfaces/adapter/router/router.go\<close>). The file's content, the
  YAML library, the network and the environment are arguments; a \<open>panic\<close> is an outcome.
\<close>

subsection \<open>os.ExpandEnv\<close>

definition special_var :: "char \<Rightarrow> bool" where
  "special_var c \<longleftrightarrow> c \<in> set ''*#$@!?-'' \<or> 48 \<le> byte c \<and> byte c \<le> 57"

definition alnum :: "char \<Rightarrow> bool" where
  "alnum c \<longleftrightarrow> c = CHR ''_'' \<or> 48 \<le> byte c \<and> byte c \<le> 57 \<or> 97 \<le> byte c \<and> byte c \<le> 122 \<or> 65 \<le> byte c \<and> byte c \<le> 90"

text \<open>The name after a dollar sign, and how many bytes it takes.\<close>

definition braced_name :: "string \<Rightarrow> string \<times> nat" where
  \<comment> \<open>after the opening brace; the widths count it\<close>
  "braced_name cs =
     (let name = takeWhile (\<lambda>x. x \<noteq> CHR ''}'') cs
      in if list_ex special_var (take 1 cs) \<and> take 1 (drop 1 cs) = ''}'' then (take 1 cs, 3)
         else if length name = length cs then ([], 1)
         else if name = [] then ([], 2)
         else (name, length name + 2))"

definition getShellName :: "string \<Rightarrow> string \<times> nat" where
  "getShellName s =
     (case s of
        [] \<Rightarrow> ([], 0)
      | c # cs \<Rightarrow>
          if c = CHR ''{'' then braced_name cs
          else if special_var c then ([c], 1)
          else (takeWhile alnum s, length (takeWhile alnum s)))"

function ExpandEnv :: "(string \<Rightarrow> string) \<Rightarrow> string \<Rightarrow> string" where
  "ExpandEnv getenv [] = []"
| "ExpandEnv getenv (c # cs) =
     (if c = CHR ''$'' \<and> cs \<noteq> [] then
        (case getShellName cs of
           (name, w) \<Rightarrow>
             (if name = [] \<and> w > 0 then [] else if name = [] then [c] else getenv name) @ ExpandEnv getenv (drop w cs))
      else c # ExpandEnv getenv cs)"
  by pat_completeness auto

termination
  by (relation "measure (\<lambda>(g, s). length s)") auto

lemma ExpandEnv_plain: "CHR ''$'' \<notin> set a \<Longrightarrow> ExpandEnv getenv (a @ s) = a @ ExpandEnv getenv s"
  by (induction a) auto

lemma ExpandEnv_reference:
  assumes "name \<noteq> []" "list_all alnum name"
  shows "ExpandEnv getenv (''${'' @ name @ CHR ''}'' # s) = getenv name @ ExpandEnv getenv s"
proof -
  have "\<not> alnum (CHR ''}'')" by (simp add: alnum_def)
  then have brace: "\<forall>x \<in> set name. x \<noteq> CHR ''}''" using assms(2) by (auto simp: list_all_iff)
  then have t: "takeWhile (\<lambda>x. x \<noteq> CHR ''}'') (name @ CHR ''}'' # s) = name" by (simp add: takeWhile_append2)
  moreover have "take 1 (drop 1 (name @ CHR ''}'' # s)) = ''}'' \<Longrightarrow> length name = 1"
    using assms(1) brace by (cases name; cases "tl name") auto
  moreover have "length name = 1 \<Longrightarrow> take 1 (name @ CHR ''}'' # s) = name" by simp
  ultimately have "getShellName (CHR ''{'' # name @ CHR ''}'' # s) = (name, length name + 2)"
    using assms(1) by (auto simp: getShellName_def braced_name_def Let_def)
  then show ?thesis using assms by simp
qed

subsection \<open>The configuration\<close>

record GrpcAddr =
  grHost :: string
  grPort :: string

record EtcdAddr =
  edEndpoints :: string
  edKey :: string

record AppAddr =
  apHost :: string
  apPort :: string

record ServerConfig =
  scGrpc :: GrpcAddr
  scEtcd :: EtcdAddr
  scApp :: AppAddr

record WsTarget =
  wtHost :: string
  wtPort :: string
  wtPath :: string

record PushConfig =
  PushgatewayURL :: string
  JobName :: string
  PushInterval :: int

record ClientConfig =
  ccServer :: WsTarget
  ccWeight :: int            \<comment> \<open>\<open>App.Weight\<close>\<close>
  ccMetrics :: PushConfig
  ccPool :: ContainerPoolConfig

record LoggerConfig =
  lgLevel :: string
  lgFormat :: string
  lgPath :: string
  lgEnableConsole :: bool

record MailConfig =
  mcEnabled :: bool
  mcHost :: string
  mcPort :: int
  mcUsername :: string
  mcPassword :: string
  mcFrom :: string
  mcTo :: string
  mcSendTimeout :: int

record FeedbackConfig =
  RateLimitPerMin :: int
  RateLimitPerDay :: int

record app_config =
  cfServer :: ServerConfig
  cfClient :: ClientConfig
  cfLogger :: LoggerConfig
  cfAgent :: AgentConfig
  cfAuth :: auth_config
  cfMail :: MailConfig
  cfFeedback :: FeedbackConfig

abbreviation cfAppHost :: "app_config \<Rightarrow> string" where "cfAppHost c \<equiv> apHost (scApp (cfServer c))"
abbreviation cfAppPort :: "app_config \<Rightarrow> string" where "cfAppPort c \<equiv> apPort (scApp (cfServer c))"
abbreviation cfGrpcHost :: "app_config \<Rightarrow> string" where "cfGrpcHost c \<equiv> grHost (scGrpc (cfServer c))"
abbreviation cfGrpcPort :: "app_config \<Rightarrow> string" where "cfGrpcPort c \<equiv> grPort (scGrpc (cfServer c))"
abbreviation cfEtcdKey :: "app_config \<Rightarrow> string" where "cfEtcdKey c \<equiv> edKey (scEtcd (cfServer c))"
abbreviation cfLogLevel :: "app_config \<Rightarrow> string" where "cfLogLevel c \<equiv> lgLevel (cfLogger c)"
abbreviation cfMetrics :: "app_config \<Rightarrow> PushConfig" where "cfMetrics c \<equiv> ccMetrics (cfClient c)"
abbreviation cfPool :: "app_config \<Rightarrow> ContainerPoolConfig" where "cfPool c \<equiv> ccPool (cfClient c)"

definition LoadConfig :: "(string, string) result \<Rightarrow> (string \<Rightarrow> string) \<Rightarrow> (string \<Rightarrow> (string, app_config) result)
    \<Rightarrow> (string, app_config) result" where
  \<comment> \<open>the file, the environment, and what the YAML library makes of the text\<close>
  "LoadConfig file getenv parse =
     (case file of
        Inl e \<Rightarrow> Inl e
      | Inr raw \<Rightarrow>
          (case parse (ExpandEnv getenv raw) of
             Inl e \<Rightarrow> Inl e
           | Inr c \<Rightarrow> Inr (c\<lparr>cfAuth := WithDefaults (cfAuth c)\<rparr>)))"

definition InitConfig :: "(string, string) result \<Rightarrow> (string \<Rightarrow> string) \<Rightarrow> (string \<Rightarrow> (string, app_config) result)
    \<Rightarrow> (string, app_config) result" where
  "InitConfig file getenv parse = (case LoadConfig file getenv parse of Inl e \<Rightarrow> Inl e | Inr c \<Rightarrow> Inr c)"

text \<open>The authentication service fills in the defaults again, which changes nothing.\<close>

lemma WithDefaults_idem: "WithDefaults (WithDefaults c) = WithDefaults c"
  by (simp add: WithDefaults_def Let_def)

subsection \<open>Routes\<close>

datatype endpoint =
    WsEndpoint | MetricsEndpoint | ExecuteEndpoint | FeedbackEndpoint
  | AuthLogin | AuthCallback | AuthMe | AuthLogout
  | AgentChat | AgentConfirm | AgentCancel | AgentSessions | AgentMessages

record route =
  rtMethod :: string
  rtPath :: string
  rtKey :: "string option"     \<comment> \<open>the API key its group's middleware expects\<close>
  rtEndpoint :: endpoint

definition open_route :: "string \<Rightarrow> string \<Rightarrow> endpoint \<Rightarrow> route" where
  "open_route m p e = \<lparr>rtMethod = m, rtPath = p, rtKey = None, rtEndpoint = e\<rparr>"

definition RegisterRoutes :: "route list" where
  "RegisterRoutes =
     [open_route ''GET'' ''/auth/github/login'' AuthLogin, open_route ''GET'' ''/auth/github/callback'' AuthCallback,
      open_route ''GET'' ''/auth/me'' AuthMe, open_route ''POST'' ''/auth/logout'' AuthLogout]"

definition ApiRouter :: "bool \<Rightarrow> route list" where
  \<comment> \<open>the argument: there is an authentication handler\<close>
  "ApiRouter hasAuth =
     [open_route ''GET'' ''/ws'' WsEndpoint, open_route ''GET'' ''/metrics'' MetricsEndpoint,
      open_route ''POST'' ''/execute'' ExecuteEndpoint, open_route ''POST'' ''/api/feedback'' FeedbackEndpoint]
     @ (if hasAuth then RegisterRoutes else [])"

definition agent_route :: "string \<Rightarrow> string \<Rightarrow> string \<Rightarrow> endpoint \<Rightarrow> route" where
  "agent_route key m p e = \<lparr>rtMethod = m, rtPath = ''/agent'' @ p, rtKey = Some key, rtEndpoint = e\<rparr>"

definition AgentRouter :: "string \<Rightarrow> route list" where
  "AgentRouter key =
     [agent_route key ''POST'' ''/chat'' AgentChat, agent_route key ''POST'' ''/confirm'' AgentConfirm,
      agent_route key ''POST'' ''/cancel'' AgentCancel, agent_route key ''GET'' ''/sessions'' AgentSessions,
      agent_route key ''GET'' ''/sessions/:id/messages'' AgentMessages]"

text \<open>The engine's cross-origin policy (\<open>engine.go\<close>): every request that names an origin is let through, with cookies.\<close>

record cors_config =
  AllowOriginFunc :: "string \<Rightarrow> bool"
  AllowCredentials :: bool
  AllowMethods :: "string list"
  AllowHeaders :: "string list"
  ExposeHeaders :: "string list"

definition routeEngine :: cors_config where
  "routeEngine =
     \<lparr>AllowOriginFunc = (\<lambda>origin. origin \<noteq> []), AllowCredentials = True,
      AllowMethods = [''GET'', ''POST'', ''PUT'', ''DELETE'', ''OPTIONS''],
      AllowHeaders = [''Origin'', ''Content-Type'', ''Authorization'', ''X-Agent-API-Key''],
      ExposeHeaders = [''Content-Length'']\<rparr>"

lemma routes_allowed_cross_origin:
  "r \<in> set (ApiRouter hasAuth @ AgentRouter key) \<Longrightarrow> rtMethod r \<in> set (AllowMethods routeEngine)"
  by (auto simp: ApiRouter_def AgentRouter_def RegisterRoutes_def open_route_def agent_route_def routeEngine_def split: if_splits)

text \<open>The engine's choice: a segment that starts with a colon matches any segment that is not empty.\<close>

definition path_matches :: "string \<Rightarrow> string \<Rightarrow> bool" where
  "path_matches pat p \<longleftrightarrow>
     list_all2 (\<lambda>a b. (HasPrefix a '':'' \<and> b \<noteq> []) \<or> a = b) (Split (CHR ''/'') pat) (Split (CHR ''/'') p)"

definition find_route :: "route list \<Rightarrow> string \<Rightarrow> string \<Rightarrow> route option" where
  "find_route rs m p = find (\<lambda>r. rtMethod r = m \<and> path_matches (rtPath r) p) rs"

definition serve :: "route list \<Rightarrow> (endpoint \<Rightarrow> 's \<Rightarrow> agent_response \<times> 's) \<Rightarrow> string \<Rightarrow> string \<Rightarrow> (string \<Rightarrow> string)
    \<Rightarrow> 's \<Rightarrow> agent_response \<times> 's" where
  "serve rs handle m p header s =
     (case find_route rs m p of
        None \<Rightarrow> (Http 404 JNull, s)
      | Some r \<Rightarrow>
          (case rtKey r of
             None \<Rightarrow> handle (rtEndpoint r) s
           | Some key \<Rightarrow> AgentAPIKeyMiddleware key header (handle (rtEndpoint r)) s))"

subsection \<open>The server\<close>

record feedback_wiring =
  fwRate :: rl_config
  fwMailer :: "SMTPMailer option"    \<comment> \<open>None: the mailer that sends nothing\<close>
  fwTimeout :: int

definition feedbackServiceRegister :: "app_config \<Rightarrow> feedback_wiring" where
  "feedbackServiceRegister cfg =
     \<lparr>fwRate = \<lparr>PerMinute = RateLimitPerMin (cfFeedback cfg), PerDay = RateLimitPerDay (cfFeedback cfg)\<rparr>,
      fwMailer = (if mcEnabled (cfMail cfg)
        then Some (NewSMTPMailer
          \<lparr>smtpHost = mcHost (cfMail cfg), smtpPort = mcPort (cfMail cfg), smtpUsername = mcUsername (cfMail cfg),
           smtpPassword = mcPassword (cfMail cfg), smtpFrom = mcFrom (cfMail cfg), smtpTo = mcTo (cfMail cfg),
           smtpTimeout = mcSendTimeout (cfMail cfg)\<rparr>)
        else None),
      fwTimeout = mcSendTimeout (cfMail cfg)\<rparr>"

text \<open>
  The services the controllers reach through the package variable \<open>APIs\<close>: the state of the server's
  service as it is made, the token service, the feedback service.
\<close>

record apiGroup =
  CodeRunnerSrv :: "P2CBalancer ClientManager"
  AuthSrv :: token
  FeedbackSvc :: feedback_wiring

definition InitSrbInject :: "P2CBalancer ClientManager \<Rightarrow> token \<Rightarrow> feedback_wiring \<Rightarrow> apiGroup" where
  "InitSrbInject codeRunnerSrv authSrv feedbackSvc =
     \<lparr>CodeRunnerSrv = codeRunnerSrv, AuthSrv = authSrv, FeedbackSvc = feedbackSvc\<rparr>"

definition serverServiceRegister :: "(string \<Rightarrow> string) \<Rightarrow> app_config \<Rightarrow> apiGroup option" where
  \<comment> \<open>None: \<open>NewToken\<close> ends the process\<close>
  "serverServiceRegister getenv cfg =
     (case NewToken getenv of
        None \<Rightarrow> None
      | Some tokenImpl \<Rightarrow>
          (let balanceStrategy = NewP2CBalancer;
               srv = NewServiceImpl (NewClientManagerDomainTmpl balanceStrategy)
           in Some (InitSrbInject srv tokenImpl (feedbackServiceRegister cfg))))"

record codeRunnerExecutor =
  ceTimeout :: int      \<comment> \<open>beside the server's service, of which there is one\<close>

definition NewCodeExecutor :: "int \<Rightarrow> codeRunnerExecutor" where
  "NewCodeExecutor timeout = \<lparr>ceTimeout = timeout\<rparr>"

record server_env =
  seFile :: "(string, string) result"
  seGetenv :: "string \<Rightarrow> string"
  seParse :: "string \<Rightarrow> (string, app_config) result"
  seLog :: log_env
  seAgent :: wiring_env
  seEndpoint :: string              \<comment> \<open>GitHub's address\<close>
  seEtcd :: etcd_faults
  seEtcdStore :: etcd
  seListen :: "string option"

record server_up =
  suURL :: string
  suRoutes :: "route list"
  suAgent :: "(agent_wiring \<times> codeRunnerExecutor) option"
  suAuth :: auth_service
  suAPIs :: apiGroup
  suEtcd :: "EtcdRegistry \<times> etcd"
  suGrpcServices :: "string list"

abbreviation suToken :: "server_up \<Rightarrow> token" where "suToken u \<equiv> AuthSrv (suAPIs u)"

datatype 'u outcome = Panicked string | ProcessEnds | Up 'u

definition EtcdRegister :: "server_env \<Rightarrow> app_config \<Rightarrow> (string, EtcdRegistry \<times> etcd) result" where
  "EtcdRegister env c =
     (case NewEtcdRegistry (seEtcd env) (cfEtcdKey c) (cfGrpcHost c @ '':'' @ cfGrpcPort c) of
        Inl e \<Rightarrow> Inl e
      | Inr reg \<Rightarrow>
          (case etcd_Register (seEtcd env) 10 reg (seEtcdStore env) of
             (Some e, _, _) \<Rightarrow> Inl e
           | (None, reg', st) \<Rightarrow> Inr (reg', st)))"

definition grpc_Register :: "string list" where
  "grpc_Register = [''codeRunner.v1.tokenIssuer'', ''codeRunner.v1.CodeRunner'']"

definition InitGrpc :: "server_env \<Rightarrow> app_config \<Rightarrow> (string, (EtcdRegistry \<times> etcd) \<times> string list) result" where
  "InitGrpc env c =
     (case EtcdRegister env c of
        Inl e \<Rightarrow> Inl (([CHR 0xE6, CHR 0x9C, CHR 0x8D, CHR 0xE5, CHR 0x8A, CHR 0xA1, CHR 0xE6, CHR 0xB3, CHR 0xA8, CHR 0xE5, CHR 0x86, CHR 0x8C, CHR 0xE5, CHR 0xA4, CHR 0xB1, CHR 0xE8, CHR 0xB4, CHR 0xA5]) @ e)
      | Inr reg \<Rightarrow>
          (case seListen env of
             Some e \<Rightarrow> Inl ((''grpc'' @ [CHR 0xE6, CHR 0x9C, CHR 0x8D, CHR 0xE5, CHR 0x8A, CHR 0xA1, CHR 0xE5, CHR 0x90, CHR 0xAF, CHR 0xE5, CHR 0x8A, CHR 0xA8, CHR 0xE5, CHR 0xA4, CHR 0xB1, CHR 0xE8, CHR 0xB4, CHR 0xA5]) @ e)
           | None \<Rightarrow> Inr (reg, grpc_Register)))"

text \<open>What the goroutine of the HTTP server sets up; None is the panic of a sweep's ticker.\<close>

definition http_setup :: "server_env \<Rightarrow> app_config \<Rightarrow> (route list \<times> (agent_wiring \<times> codeRunnerExecutor) option) option" where
  "http_setup env c =
     (if acEnabled (cfAgent c)
      then (case NewAgentService (seAgent env) (cfAgent c) ''.'' of
              None \<Rightarrow> None
            | Some (Inl e) \<Rightarrow> Some (ApiRouter True, None)
            | Some (Inr w) \<Rightarrow> Some (ApiRouter True @ AgentRouter (acAPIKey (cfAgent c)), Some (w, NewCodeExecutor (30 * second))))
      else Some (ApiRouter True, None))"

definition config_failed :: string where
  "config_failed =
     [CHR 0xE9, CHR 0x85, CHR 0x8D, CHR 0xE7, CHR 0xBD, CHR 0xAE, CHR 0xE6, CHR 0x96, CHR 0x87, CHR 0xE4,
      CHR 0xBB, CHR 0xB6, CHR 0xE8, CHR 0xA7, CHR 0xA3, CHR 0xE6, CHR 0x9E, CHR 0x90, CHR 0xE9, CHR
      0x94, CHR 0x99, CHR 0xE8, CHR 0xAF, CHR 0xAF]"

definition logger_failed :: string where
  "logger_failed =
     [CHR 0xE6, CHR 0x97, CHR 0xA5, CHR 0xE5, CHR 0xBF, CHR 0x97, CHR 0xE6, CHR 0x96, CHR 0x87, CHR 0xE4,
      CHR 0xBB, CHR 0xB6, CHR 0xE8, CHR 0xA7, CHR 0xA3, CHR 0xE6, CHR 0x9E, CHR 0x90, CHR 0xE9, CHR
      0x94, CHR 0x99, CHR 0xE8, CHR 0xAF, CHR 0xAF]"

definition RunServer :: "server_env \<Rightarrow> server_up outcome" where
  "RunServer env =
     (case InitConfig (seFile env) (seGetenv env) (seParse env) of
        Inl e \<Rightarrow> Panicked (config_failed @ e)
      | Inr c \<Rightarrow>
          (case InitLogger (seLog env) (cfLogLevel c) of
             Inl e \<Rightarrow> Panicked (logger_failed @ e)
           | Inr _ \<Rightarrow>
               (case serverServiceRegister (seGetenv env) c of
                  None \<Rightarrow> ProcessEnds
                | Some apis \<Rightarrow>
                    (case http_setup env c of
                       None \<Rightarrow> Panicked ''non-positive interval for NewTicker''
                     | Some (rs, w) \<Rightarrow>
                         (case InitGrpc env c of
                            Inl e \<Rightarrow> Panicked e
                          | Inr (reg, services) \<Rightarrow>
                              Up \<lparr>suURL = cfAppHost c @ '':'' @ cfAppPort c, suRoutes = rs, suAgent = w,
                                  suAuth = NewAuthService (cfAuth c) (NewGitHubClientFromConfig (seEndpoint env) (cfAuth c)),
                                  suAPIs = apis, suEtcd = reg,
                                  suGrpcServices = services\<rparr>)))))"

text \<open>
  The end of \<open>RunServer\<close>, when the gRPC server stops serving: what is logged, and etcd after the
  deferred \<open>Close\<close> of its client, with which the renewals of the lease end; nothing is unregistered.
\<close>

definition close_failed :: string where
  "close_failed =
     [CHR 0xE6, CHR 0x9C, CHR 0x8D, CHR 0xE5, CHR 0x8A, CHR 0xA1, CHR 0xE5, CHR 0x85, CHR 0xB3, CHR 0xE9,
      CHR 0x97, CHR 0xAD, CHR 0xE5, CHR 0xA4, CHR 0xB1, CHR 0xE8, CHR 0xB4, CHR 0xA5]"

definition RunServer_end :: "string option \<Rightarrow> string option \<Rightarrow> EtcdRegistry \<times> etcd \<Rightarrow> string list \<times> (EtcdRegistry \<times> etcd)" where
  "RunServer_end serveErr closeErr regd =
     (case regd of
        (reg, st) \<Rightarrow>
          ((case serveErr of None \<Rightarrow> [] | Some err \<Rightarrow> [''server-->'' @ err])
           @ (case closeErr of None \<Rightarrow> [] | Some err \<Rightarrow> [close_failed @ err]),
           reg\<lparr>eyClosed := True\<rparr>, st\<lparr>etKept := etKept st - {eyLease reg}\<rparr>))"

subsection \<open>Properties\<close>

lemma RunServer_Up:
  assumes "RunServer env = Up u"
  obtains c rs w reg services where "InitConfig (seFile env) (seGetenv env) (seParse env) = Inr c"
    "http_setup env c = Some (rs, w)" "suRoutes u = rs" "suAgent u = w"
    "serverServiceRegister (seGetenv env) c = Some (suAPIs u)" "EtcdRegister env c = Inr (suEtcd u)"
  using assms by (auto simp: RunServer_def InitGrpc_def split: sum.splits option.splits prod.splits)

lemma serverServiceRegister_Some:
  assumes "serverServiceRegister getenv c = Some apis"
  obtains "NewToken getenv = Some (AuthSrv apis)" "jwtSecret (AuthSrv apis) \<noteq> []" "password (AuthSrv apis) \<noteq> []"
    "CodeRunnerSrv apis = NewClientManagerDomainTmpl []" "FeedbackSvc apis = feedbackServiceRegister c"
  using assms that by (auto simp: serverServiceRegister_def InitSrbInject_def NewServiceImpl_def NewP2CBalancer_def NewToken_def
      split: option.splits if_splits)

lemma api_routes_open: "list_all (\<lambda>r. rtKey r = None \<and> \<not> path_matches (rtPath r) (''/agent/'' @ q)) (ApiRouter a)"
proof -
  have "Split (CHR ''/'') (''/agent/'' @ q) = [] # ''agent'' # Split (CHR ''/'') q"
    using Split_append_sep [of "CHR ''/''" "''agent''" q] by simp
  then show ?thesis by (simp add: ApiRouter_def RegisterRoutes_def open_route_def path_matches_def HasPrefix_def)
qed

lemma agent_routes_keyed: "list_all (\<lambda>r. rtKey r = Some key) (AgentRouter key)"
  by (simp add: AgentRouter_def agent_route_def)

lemma http_setup_routes:
  assumes "http_setup env c = Some (rs, w)" "r \<in> set rs"
  shows "r \<in> set (ApiRouter True) \<or> r \<in> set (AgentRouter (acAPIKey (cfAgent c))) \<and> w \<noteq> None"
  using assms by (auto simp: http_setup_def split: if_splits option.splits sum.splits)


text \<open>The HTTP route that executes code has no such guard, and none of a token.\<close>

lemma execute_needs_no_key:
  assumes "RunServer env = Up u"
  shows "serve (suRoutes u) handle ''POST'' ''/execute'' header s = handle ExecuteEndpoint s"
proof -
  from assms obtain c rs w where rs: "http_setup env c = Some (rs, w)" "suRoutes u = rs" by (elim RunServer_Up) auto
  then have "rs \<in> {ApiRouter True @ [], ApiRouter True @ AgentRouter (acAPIKey (cfAgent c))}"
    by (auto simp: http_setup_def split: if_splits option.splits sum.splits)
  then obtain more where "rs = ApiRouter True @ more" by blast
  moreover have "find (\<lambda>r. rtMethod r = ''POST'' \<and> path_matches (rtPath r) ''/execute'') (ApiRouter True @ more)
      = Some (open_route ''POST'' ''/execute'' ExecuteEndpoint)"
    by (simp add: ApiRouter_def open_route_def path_matches_def HasPrefix_def)
  ultimately show ?thesis by (simp add: serve_def find_route_def rs open_route_def)
qed

text \<open>
  A server that came up has both secrets of the token service, is registered with etcd under the
  configured key with its gRPC address and a lease that is being renewed, and serves the agent's
  routes exactly when the agent's service was built.
\<close>

theorem server_up_complete:
  assumes "RunServer env = Up u" and cfg: "InitConfig (seFile env) (seGetenv env) (seParse env) = Inr c"
  shows "jwtSecret (suToken u) \<noteq> [] \<and> password (suToken u) \<noteq> []
    \<and> etKeys (snd (suEtcd u)) (cfEtcdKey c) = Some (cfGrpcHost c @ '':'' @ cfGrpcPort c, eyLease (fst (suEtcd u)))
    \<and> eyLease (fst (suEtcd u)) \<in> etKept (snd (suEtcd u))
    \<and> (AgentChat \<in> rtEndpoint ` set (suRoutes u) \<longleftrightarrow> suAgent u \<noteq> None)"
proof -
  from assms obtain rs w where up: "http_setup env c = Some (rs, w)" "suRoutes u = rs" "suAgent u = w"
      "serverServiceRegister (seGetenv env) c = Some (suAPIs u)" "EtcdRegister env c = Inr (suEtcd u)"
    by (elim RunServer_Up) auto
  from up(4) have t: "jwtSecret (suToken u) \<noteq> [] \<and> password (suToken u) \<noteq> []" by (elim serverServiceRegister_Some) simp
  from up(5) obtain reg where reg: "NewEtcdRegistry (seEtcd env) (cfEtcdKey c) (cfGrpcHost c @ '':'' @ cfGrpcPort c) = Inr reg"
      "etcd_Register (seEtcd env) 10 reg (seEtcdStore env) = (None, suEtcd u)"
    by (auto simp: EtcdRegister_def split: sum.splits prod.splits option.splits)
  have "eyKey reg = cfEtcdKey c" "eyValue reg = cfGrpcHost c @ '':'' @ cfGrpcPort c"
    using reg(1) by (auto simp: NewEtcdRegistry_def split: option.splits)
  moreover have "etcd_Register (seEtcd env) 10 reg (seEtcdStore env) = (None, fst (suEtcd u), snd (suEtcd u))" using reg(2) by simp
  note etcd_register_ok [OF this]
  moreover have "AgentChat \<in> rtEndpoint ` set rs \<longleftrightarrow> w \<noteq> None"
    using up(1) by (auto simp: http_setup_def ApiRouter_def RegisterRoutes_def open_route_def AgentRouter_def agent_route_def
        split: if_splits option.splits sum.splits)
  ultimately show ?thesis using t up by simp
qed

definition wit_agent_cfg :: AgentConfig where
  "wit_agent_cfg = DefaultAgentConfig\<lparr>acEnabled := True, acAPIKey := ''sesame'', acClaude := \<lparr>aiAPIKey = ''k'', aiModel = [], aiBaseURL = []\<rparr>\<rparr>"

definition wit_app_cfg :: app_config where
  "wit_app_cfg =
     \<lparr>cfServer = \<lparr>scGrpc = \<lparr>grHost = ''h'', grPort = ''9''\<rparr>, scEtcd = \<lparr>edEndpoints = ''e'', edKey = ''runner''\<rparr>,
        scApp = \<lparr>apHost = ''0.0.0.0'', apPort = ''80''\<rparr>\<rparr>,
      cfClient = \<lparr>ccServer = \<lparr>wtHost = ''h'', wtPort = ''80'', wtPath = ''ws''\<rparr>, ccWeight = 3,
        ccMetrics = \<lparr>PushgatewayURL = [], JobName = [], PushInterval = 0\<rparr>,
        ccPool = \<lparr>Golang = 1, Python = 1, JavaScript = 1, Java = 1, C_lang = 1\<rparr>\<rparr>,
      cfLogger = \<lparr>lgLevel = ''info'', lgFormat = [], lgPath = [], lgEnableConsole = True\<rparr>,
      cfAgent = wit_agent_cfg, cfAuth = wit_auth_cfg,
      cfMail = \<lparr>mcEnabled = False, mcHost = [], mcPort = 0, mcUsername = [], mcPassword = [], mcFrom = [], mcTo = [],
        mcSendTimeout = 0\<rparr>,
      cfFeedback = \<lparr>RateLimitPerMin = 1, RateLimitPerDay = 2\<rparr>\<rparr>"

definition wit_server_env :: server_env where
  "wit_server_env = \<lparr>seFile = Inr ''key: ${KEY}'', seGetenv = (\<lambda>v. ''x''), seParse = (\<lambda>t. Inr wit_app_cfg),
     seLog = \<lparr>leMkdir = (\<lambda>_. None), leOpen = (\<lambda>_. None), leDate = ''2026-01-02''\<rparr>,
     seAgent = \<lparr>weModel = (\<lambda>_. None), weMkdir = (\<lambda>_. None), weSummarization = (\<lambda>_. None), weAgent = (\<lambda>_. None)\<rparr>,
     seEndpoint = ''g'', seEtcd = \<lparr>efConnect = None, efGrant = Inr 5, efPut = None, efKeepAlive = None, efRevoke = None\<rparr>,
     seEtcdStore = \<lparr>etLeases = Map.empty, etKeys = Map.empty, etKept = {}\<rparr>, seListen = None\<rparr>"

lemma wit_config: "InitConfig (seFile wit_server_env) (seGetenv wit_server_env) (seParse wit_server_env)
    = Inr (wit_app_cfg\<lparr>cfAuth := WithDefaults wit_auth_cfg\<rparr>)"
  by (simp add: InitConfig_def LoadConfig_def wit_server_env_def) (simp add: wit_app_cfg_def)

lemma wit_server_up: "\<exists>u. RunServer wit_server_env = Up u"
proof -
  have "\<exists>w. NewAgentService (seAgent wit_server_env) wit_agent_cfg ''.'' = Some (Inr w)"
    by (simp add: NewAgentService_def wit_agent_cfg_def DefaultAgentConfig_def wit_server_env_def NewProvider_def ToAIConfig_def
        NewClaudeProvider_def Let_def GetSessionTTL_def second_def in_i64_def go_quot_def)
  then show ?thesis
    unfolding RunServer_def wit_config
    by (auto simp: InitLogger_def getLogWriter_def serverServiceRegister_def NewToken_def http_setup_def InitGrpc_def EtcdRegister_def NewEtcdRegistry_def
        etcd_Register_def Let_def wit_server_env_def wit_app_cfg_def split: option.splits)
qed


theorem server_up_complete_witness:
  "\<exists>u. RunServer wit_server_env = Up u \<and> etKeys (snd (suEtcd u)) ''runner'' = Some (''h:9'', eyLease (fst (suEtcd u)))"
proof -
  obtain u where u: "RunServer wit_server_env = Up u" using wit_server_up by blast
  from server_up_complete [OF u wit_config] u show ?thesis by (simp add: wit_app_cfg_def)
qed

end
