(* ===== verification/Server_Steps.thy ===== *)
theory Server_Steps
  imports Server_Service
begin

text \<open>
  The server as a whole, interleaved: any number of asynchronous and synchronous executions, worker
  connections that come and go, acknowledgements, drains and closing sockets take turns between the
  atomic parts of \<open>Server_Service\<close>. What goes over a connection during a synchronous call is any
  change of it that does not close it (\<open>Sync_Calls\<close> has its steps). Client ids are fresh UUIDs.
  \<open>used\<close> and \<open>acked\<close> are ghost variables: the ids handed out and the acknowledgements handled so far.
\<close>

datatype exec =
    ExPicked Client ExecuteRequest
  | ExWritten Client ExecuteRequest "go_error option"
  | ExReported Client ExecuteRequest
  | ExCalling Client ExecuteRequest     \<comment> \<open>in \<open>SendSync\<close>\<close>

record 'b server =
  mgr :: "'b ClientManager"
  execs :: "nat \<rightharpoonup> exec"
  used :: "string set"
  acked :: "(string \<times> string) list"

inductive server_step :: "('b, 't) LoadBalancer \<Rightarrow> 'b server \<Rightarrow> 'b server \<Rightarrow> bool" for lb where
  connect: "i \<notin> used s \<Longrightarrow>
    server_step lb s (s\<lparr>mgr := run_start lb now i r wt (mgr s), used := insert i (used s)\<rparr>)"
| pick_client: "execs s k = None \<Longrightarrow> GetClientByBalance lb env (mgr s) = (Inr c, m) \<Longrightarrow>
    server_step lb s (s\<lparr>mgr := m, execs := (execs s)(k \<mapsto> ExPicked c req)\<rparr>)"
| no_client: "GetClientByBalance lb env (mgr s) = (Inl e, m) \<Longrightarrow> server_step lb s (s\<lparr>mgr := m\<rparr>)"
| write_message: "execs s k = Some (ExPicked c req) \<Longrightarrow> client_Send werr c req (mgr s) = (err, m) \<Longrightarrow>
    server_step lb s (s\<lparr>mgr := m, execs := (execs s)(k \<mapsto> ExWritten c req err)\<rparr>)"
| report_ok: "execs s k = Some (ExWritten c req None) \<Longrightarrow>
    server_step lb s (s\<lparr>mgr := cm_Done lb (clientId c) d False now (mgr s),
                        execs := (execs s)(k \<mapsto> ExReported c req)\<rparr>)"
| report_err: "execs s k = Some (ExWritten c req (Some e)) \<Longrightarrow>
    server_step lb s (s\<lparr>mgr := cm_Done lb (clientId c) d True now (mgr s), execs := (execs s)(k := None)\<rparr>)"
| track_request: "execs s k = Some (ExReported c req) \<Longrightarrow>
    server_step lb s (s\<lparr>mgr := TrackRequest (clientId c) (reqId req) req (mgr s), execs := (execs s)(k := None)\<rparr>)"
| call_client: "execs s k = None \<Longrightarrow> GetClientByBalance lb env (mgr s) = (Inr c, m) \<Longrightarrow>
    server_step lb s (s\<lparr>mgr := m, execs := (execs s)(k \<mapsto> ExCalling c req)\<rparr>)"
| traffic: "wsIsClosed w = wsIsClosed (conns (mgr s) r) \<Longrightarrow>
    server_step lb s (s\<lparr>mgr := (mgr s)\<lparr>conns := (conns (mgr s))(r := w)\<rparr>\<rparr>)"
| call_return: "execs s k = Some (ExCalling c req) \<Longrightarrow>
    server_step lb s (s\<lparr>mgr := cm_Done lb (clientId c) d failed now (mgr s), execs := (execs s)(k := None)\<rparr>)"
| acknowledge: "server_step lb s (s\<lparr>mgr := AcknowledgeRequest i rid (mgr s), acked := acked s @ [(i, rid)]\<rparr>)"
| drain_pending: "DrainPending i (mgr s) = (p, m) \<Longrightarrow> server_step lb s (s\<lparr>mgr := m\<rparr>)"
| remove_client: "RemoveClient lb cerr i (mgr s) = (e, m) \<Longrightarrow> server_step lb s (s\<lparr>mgr := m\<rparr>)"
| socket_close: "server_step lb s (s\<lparr>mgr := (mgr s)\<lparr>conns := (conns (mgr s))(r := snd (ws_Close cerr (conns (mgr s) r)))\<rparr>\<rparr>)"

inductive server_reach :: "('b, 't) LoadBalancer \<Rightarrow> 'b server \<Rightarrow> 'b server \<Rightarrow> bool" for lb s0 where
  here: "server_reach lb s0 s0"
| further: "server_reach lb s0 s \<Longrightarrow> server_step lb s s' \<Longrightarrow> server_reach lb s0 s'"

definition server_init :: "'b \<Rightarrow> 'b server" where
  "server_init b = \<lparr>mgr = NewClientManagerDomainTmpl b, execs = (\<lambda>_. None), used = {}, acked = []\<rparr>"

subsection \<open>In-flight accounting\<close>

text \<open>The executions that charge a client: from the pick to the report.\<close>

fun charges :: "exec \<Rightarrow> Client option" where
  "charges (ExPicked c req) = Some c"
| "charges (ExWritten c req e) = Some c"
| "charges (ExReported c req) = None"
| "charges (ExCalling c req) = Some c"

definition running_on :: "string \<Rightarrow> 'b server \<Rightarrow> nat set" where
  "running_on i s = {k. \<exists>x c. execs s k = Some x \<and> charges x = Some c \<and> clientId c = i}"

definition server_inv :: "('b \<Rightarrow> string set) \<Rightarrow> ('b \<Rightarrow> bool) \<Rightarrow> (string \<Rightarrow> 'b \<Rightarrow> int) \<Rightarrow> 'b server \<Rightarrow> bool" where
  "server_inv ids ok infl s \<longleftrightarrow> cm_inv ids ok (mgr s) \<and> finite (dom (execs s))
     \<and> dom (clients (mgr s)) \<subseteq> used s
     \<and> (\<forall>k x c. execs s k = Some x \<longrightarrow> charges x = Some c \<longrightarrow> clientId c \<in> used s)
     \<and> (\<forall>i \<in> dom (clients (mgr s)). infl i (balancer (mgr s)) = i64 (int (card (running_on i s))))"

lemma running_on_update:
  "running_on i (s\<lparr>execs := (execs s)(k := x)\<rparr>)
     = (if \<exists>y c. x = Some y \<and> charges y = Some c \<and> clientId c = i then insert k (running_on i s)
        else running_on i s - {k})"
  by (auto simp: running_on_def split: if_splits)

lemma running_on_mgr [simp]:
  "running_on i (s\<lparr>mgr := m\<rparr>) = running_on i s" "running_on i (s\<lparr>used := u\<rparr>) = running_on i s"
  "running_on i (s\<lparr>acked := a\<rparr>) = running_on i s"
  "running_on i (s\<lparr>mgr := m, execs := f\<rparr>) = running_on i (s\<lparr>execs := f\<rparr>)"
  by (simp_all add: running_on_def)

lemma finite_running: "finite (dom (execs s)) \<Longrightarrow> finite (running_on i s)"
  by (rule finite_subset [of _ "dom (execs s)"]) (auto simp: running_on_def)

lemma i64_add: "i64 (i64 x + y) = i64 (x + y)"
  by (rule i64_cong) (metis cancel_ab_semigroup_add_class.add_diff_cancel_right' i64_mod mod_0 mod_diff_left_eq
      diff_self add_diff_cancel_right mod_diff_eq)

lemma i64_int_Suc: "i64 (i64 (int n) + 1) = i64 (int (Suc n))"
  using i64_add [of "int n" 1] by (simp add: add.commute)

lemma i64_int_pred: "0 < n \<Longrightarrow> i64 (i64 (int n) - 1) = i64 (int (n - 1))"
  using i64_add [of "int n" "- 1"] by (simp add: of_nat_diff)

text \<open>A balancer that charges nothing to a node it does not have.\<close>

locale counting_balancer = balancer_table lb ids wf infl
  for lb :: "('b, 't) LoadBalancer"
    and ids :: "'b \<Rightarrow> string set"
    and wf :: "'b \<Rightarrow> bool"
    and infl :: "string \<Rightarrow> 'b \<Rightarrow> int" +
  assumes infl_absent: "i \<notin> ids b \<Longrightarrow> infl i b = 0"
    and finish_absent: "i \<notin> ids b \<Longrightarrow> lbDone lb i d failed now b = b"
begin

lemma server_invD:
  assumes "server_inv ids wf infl s"
  shows "cm_inv ids wf (mgr s)" "finite (dom (execs s))" "dom (clients (mgr s)) \<subseteq> used s"
    "execs s k = Some x \<Longrightarrow> charges x = Some c \<Longrightarrow> clientId c \<in> used s"
    "i \<in> dom (clients (mgr s)) \<Longrightarrow> infl i (balancer (mgr s)) = i64 (int (card (running_on i s)))"
    "finite (running_on i s)"
  using assms finite_running unfolding server_inv_def by blast+

lemma Done_infl:
  assumes "i \<in> ids (balancer s)"
  shows "infl j (balancer (cm_Done lb i d failed now s)) = (if j = i then i64 (infl i (balancer s) - 1) else infl j (balancer s))"
  using finish_infl [OF assms] by (simp add: cm_Done_def)

text \<open>Steps that leave the executions alone and keep the counts of the clients that remain.\<close>

lemma inv_mgr:
  assumes inv: "server_inv ids wf infl s" and m: "cm_inv ids wf m"
    and sub: "dom (clients m) \<subseteq> dom (clients (mgr s))"
    and infl: "\<And>j. j \<in> dom (clients m) \<Longrightarrow> infl j (balancer m) = infl j (balancer (mgr s))"
  shows "server_inv ids wf infl (s\<lparr>mgr := m\<rparr>)"
proof -
  have "infl j (balancer m) = i64 (int (card (running_on j s)))" if "j \<in> dom (clients m)" for j
    using server_invD(5) [OF inv, of j] sub infl [OF that] that by auto
  then show ?thesis using server_invD(2-4) [OF inv] m sub unfolding server_inv_def by auto
qed

lemma inv_same_clients:
  assumes "server_inv ids wf infl s" "clients m = clients (mgr s)" "balancer m = balancer (mgr s)"
  shows "server_inv ids wf infl (s\<lparr>mgr := m\<rparr>)"
  using assms server_invD(1) [OF assms(1)] by (intro inv_mgr) (simp_all add: cm_inv_cong [of m "mgr s"])

lemma inv_pick:
  assumes inv: "server_inv ids wf infl s" and k: "execs s k = None"
    and g: "GetClientByBalance lb env (mgr s) = (Inr c, m)"
    and x: "charges x = Some c"
  shows "server_inv ids wf infl (s\<lparr>mgr := m, execs := (execs s)(k \<mapsto> x)\<rparr>)"
proof -
  note D = server_invD [OF inv]
  have p: "pick_loop lb env maxRetryPickClient (mgr s) = (Inr c, m)" using g by (simp add: GetClientByBalance_def)
  note live = pick_loop_Inr [OF D(1) p]
  have sub: "dom (clients m) \<subseteq> dom (clients (mgr s))" using live by (metis domIff subsetI)
  have used: "clientId c \<in> used s" using live sub D(3) by blast
  have new: "k \<notin> running_on i s" for i using k by (simp add: running_on_def)
  have "infl j (balancer m) = i64 (int (card (running_on j (s\<lparr>execs := (execs s)(k \<mapsto> x)\<rparr>))))"
    if j: "j \<in> dom (clients m)" for j
  proof -
    have "infl j (balancer (mgr s)) = i64 (int (card (running_on j s)))" using D(5) j sub by blast
    then show ?thesis
      using pick_loop_infl [OF D(1) p j] new [of j] D(6) [of j] x
      by (auto simp: running_on_update i64_int_Suc simp del: of_nat_Suc)
  qed
  then show ?thesis
    using inv_GetClientByBalance [OF D(1) g] D(2, 3, 4) sub used x unfolding server_inv_def
    by (auto split: if_splits)
qed

lemma inv_write:
  assumes inv: "server_inv ids wf infl s" and k: "execs s k = Some (ExPicked c req)"
    and w: "client_Send werr c req (mgr s) = (err, m)"
  shows "server_inv ids wf infl (s\<lparr>mgr := m, execs := (execs s)(k \<mapsto> ExWritten c req err)\<rparr>)"
proof -
  note fr = client_Send_simps [OF w]
  have "running_on i (s\<lparr>execs := (execs s)(k \<mapsto> ExWritten c req err)\<rparr>) = running_on i s" for i
    using k unfolding running_on_update by (auto simp: running_on_def)
  then show ?thesis
    using server_invD [OF inv] k fr cm_inv_cong [of m "mgr s"] unfolding server_inv_def
    by (auto split: if_splits)
qed

lemma inv_report:
  assumes inv: "server_inv ids wf infl s" and k: "execs s k = Some y" "charges y = Some c"
    and x: "x = None \<or> x = Some (ExReported c req)"
  shows "server_inv ids wf infl (s\<lparr>mgr := cm_Done lb (clientId c) d failed now (mgr s), execs := (execs s)(k := x)\<rparr>)"
proof -
  note D = server_invD [OF inv]
  let ?m = "cm_Done lb (clientId c) d failed now (mgr s)"
  have k': "k \<in> running_on (clientId c) s" using k by (auto simp: running_on_def)
  have "infl j (balancer ?m) = i64 (int (card (running_on j (s\<lparr>execs := (execs s)(k := x)\<rparr>))))"
    if j: "j \<in> dom (clients (mgr s))" for j
  proof -
    have r: "running_on j (s\<lparr>execs := (execs s)(k := x)\<rparr>) = running_on j s - {k}"
      using x by (auto simp: running_on_update)
    have ids: "ids (balancer (mgr s)) = dom (clients (mgr s))" using D(1) by (simp add: cm_inv_def)
    show ?thesis
    proof (cases "j = clientId c")
      case True
      then have "infl j (balancer ?m) = i64 (i64 (int (card (running_on j s))) - 1)"
        using Done_infl [of "clientId c" "mgr s" j d failed now] D(5) [OF j] j ids by simp
      also have "\<dots> = i64 (int (card (running_on j s) - 1))"
        using k' True D(6) [of j] by (intro i64_int_pred) (auto simp: card_gt_0_iff)
      finally show ?thesis using k' True r by (simp add: card_Diff_singleton)
    next
      case False
      have "k \<notin> running_on j s" using k False by (auto simp: running_on_def)
      then have "running_on j s - {k} = running_on j s" by simp
      moreover have "infl j (balancer ?m) = infl j (balancer (mgr s))"
        using False finish_infl [of "clientId c" "balancer (mgr s)" j d failed now]
          finish_absent [of "clientId c" "balancer (mgr s)" d failed now]
        by (cases "clientId c \<in> ids (balancer (mgr s))") (auto simp: cm_Done_def)
      ultimately show ?thesis using D(5) [OF j] r by simp
    qed
  qed
  moreover have "dom (clients ?m) = dom (clients (mgr s))" by (simp add: cm_Done_def)
  ultimately show ?thesis
    using D(2, 3, 4) inv_Done [OF D(1)] x unfolding server_inv_def by (auto split: if_splits)
qed

lemma inv_connect:
  assumes inv: "server_inv ids wf infl s" and i: "i \<notin> used s"
  shows "server_inv ids wf infl (s\<lparr>mgr := run_start lb now i r wt (mgr s), used := insert i (used s)\<rparr>)"
proof -
  note D = server_invD [OF inv]
  let ?m = "run_start lb now i r wt (mgr s)"
  have m: "clients ?m = (clients (mgr s))(i \<mapsto> NewClient i r)" "balancer ?m = lbAdd lb i wt now (balancer (mgr s))"
    by (simp_all add: run_start_def AddClient_def NewClient_def Let_def)
  have "i \<notin> ids (balancer (mgr s))" using D(1, 3) i by (auto simp: cm_inv_def)
  then have "infl i (balancer ?m) = 0" using m add_infl infl_absent by simp
  moreover have "running_on i s = {}" using D(4) i by (auto simp: running_on_def)
  ultimately have "infl j (balancer ?m) = i64 (int (card (running_on j s)))" if "j \<in> dom (clients ?m)" for j
    using D(5) [of j] that m add_infl by (cases "j = i") (auto simp: in_i64_def)
  then show ?thesis
    using D(2, 3, 4) inv_run_start [OF D(1)] m unfolding server_inv_def by (auto 0 3)
qed

lemma inv_remove:
  assumes inv: "server_inv ids wf infl s" and r: "RemoveClient lb cerr i (mgr s) = (e, m)"
  shows "server_inv ids wf infl (s\<lparr>mgr := m\<rparr>)"
proof (rule inv_mgr [OF inv])
  show "cm_inv ids wf m" using inv_RemoveClient [OF server_invD(1) [OF inv], of cerr i] r by simp
  show "dom (clients m) \<subseteq> dom (clients (mgr s))"
    using r by (auto simp: RemoveClient_def GetClientById_def client_Close_def map_delete_def
        split: option.splits prod.splits if_splits)
  show "infl j (balancer m) = infl j (balancer (mgr s))" if "j \<in> dom (clients m)" for j
    using r that remove_infl [of i j]
    by (auto simp: RemoveClient_def GetClientById_def client_Close_def map_delete_def
        split: option.splits prod.splits if_splits)
qed

lemma server_inv_step:
  assumes "server_step lb s s'" and inv: "server_inv ids wf infl s"
  shows "server_inv ids wf infl s'"
  using assms(1)
proof cases
  case (connect i now r wt)
  then show ?thesis using inv_connect [OF inv] by blast
next
  case (pick_client k env c m req)
  then show ?thesis using inv_pick [OF inv] by simp
next
  case (call_client k env c m req)
  then show ?thesis using inv_pick [OF inv] by simp
next
  case (call_return k c req d failed now)
  then show ?thesis using inv_report [OF inv call_return(2), of c None] by simp
next
  case (traffic w r)
  then show ?thesis using inv_same_clients [OF inv] by simp
next
  case (no_client env e m)
  have p: "pick_loop lb env maxRetryPickClient (mgr s) = (Inl e, m)"
    using no_client by (simp add: GetClientByBalance_def)
  note i1 = server_invD(1) [OF inv]
  have "dom (clients m) \<subseteq> dom (clients (mgr s))"
    using pick_loop_clients [OF i1, of _ env maxRetryPickClient] p by (metis domIff snd_conv subsetI)
  then show ?thesis
    using no_client inv_mgr [OF inv inv_GetClientByBalance [OF i1 no_client(2)]] pick_loop_Inl_infl [OF i1 p] by blast
next
  case (write_message k c req werr err m)
  then show ?thesis using inv_write [OF inv] by blast
next
  case (report_ok k c req d now)
  then show ?thesis using inv_report [OF inv report_ok(2), of c "Some (ExReported c req)" req] by simp
next
  case (report_err k c req e d now)
  then show ?thesis using inv_report [OF inv report_err(2), of c None] by simp
next
  case (track_request k c req)
  let ?m = "TrackRequest (clientId c) (reqId req) req (mgr s)"
  have "running_on i (s\<lparr>execs := (execs s)(k := None)\<rparr>) = running_on i s" for i
    using track_request(2) by (auto simp: running_on_def)
  moreover have "server_inv ids wf infl (s\<lparr>mgr := ?m\<rparr>)" by (rule inv_same_clients [OF inv]) simp_all
  ultimately show ?thesis using track_request(1) unfolding server_inv_def by (auto split: if_splits)
next
  case (acknowledge i rid)
  have "server_inv ids wf infl (s\<lparr>mgr := AcknowledgeRequest i rid (mgr s)\<rparr>)"
    by (rule inv_same_clients [OF inv]) (simp_all add: AcknowledgeRequest_def split: option.splits)
  then show ?thesis unfolding acknowledge by (simp add: server_inv_def running_on_def)
next
  case (drain_pending i p m)
  then show ?thesis
    using inv_same_clients [OF inv, of m] by (auto simp: DrainPending_def split: option.splits)
next
  case (remove_client cerr i e m)
  then show ?thesis using inv_remove [OF inv] by blast
next
  case (socket_close r cerr)
  then show ?thesis using inv_same_clients [OF inv] by simp
qed

lemma server_inv_reach: "server_reach lb s0 s \<Longrightarrow> server_inv ids wf infl s0 \<Longrightarrow> server_inv ids wf infl s"
  by (induction rule: server_reach.induct) (auto intro: server_inv_step)

lemma server_inv_init: "ids b = {} \<Longrightarrow> wf b \<Longrightarrow> server_inv ids wf infl (server_init b)"
  by (simp add: server_inv_def server_init_def cm_inv_def NewClientManagerDomainTmpl_def)

end

interpretation cb: counting_balancer "p2c_lb F" "\<lambda>ns. set (node_ids ns)" "\<lambda>ns. distinct (node_ids ns)" inflight_of for F
proof (unfold_locales)
  show "i \<notin> set (node_ids b) \<Longrightarrow> inflight_of i b = 0" for i b by (rule inflight_absent)
  show "i \<notin> set (node_ids b) \<Longrightarrow> lbDone (p2c_lb F) i d failed now b = b" for i b d failed now
    by (simp add: p2c_lb_def P2C_Done_absent)
qed

subsection \<open>Properties\<close>

text \<open>
  C5. In every reachable state of the server, the in-flight count the balancer keeps for a
  registered worker is the number of executions that picked it and have not reported yet (as an
  \<open>int64\<close>), and the registry and the balancer agree, however connections, executions, drains and
  failing sockets interleave.
\<close>

theorem server_inflight_exact:
  assumes "server_reach (p2c_lb F) (server_init []) s"
  shows "registry_ok (mgr s)
     \<and> (\<forall>i \<in> dom (clients (mgr s)). inflight_of i (balancer (mgr s)) = i64 (int (card (running_on i s))))"
proof -
  have "server_inv (\<lambda>ns. set (node_ids ns)) (\<lambda>ns. distinct (node_ids ns)) inflight_of s"
    by (rule cb.server_inv_reach [OF assms cb.server_inv_init]) (simp_all add: node_ids_def)
  then show ?thesis by (auto simp: server_inv_def registry_ok_def)
qed

definition connected :: "P2CBalancer server" where
  \<comment> \<open>one worker has connected\<close>
  "connected = (server_init [])\<lparr>mgr := run_start (p2c_lb exact_float) 0 ''w1'' 0 1 (NewClientManagerDomainTmpl []),
     used := {''w1''}\<rparr>"

lemma reach_connected: "server_reach (p2c_lb exact_float) (server_init []) connected"
proof -
  have "server_step (p2c_lb exact_float) (server_init []) connected"
    using server_step.connect [of "''w1''" "server_init []" "p2c_lb exact_float" 0 0 1]
    by (simp add: connected_def server_init_def)
  then show ?thesis by (rule server_reach.further [OF server_reach.here])
qed

lemma connected_facts:
  "clients (mgr connected) = [''w1'' \<mapsto> NewClient ''w1'' 0]" "execs connected = (\<lambda>_. None)" "acked connected = []"
  "pendingReqs (mgr connected) = [''w1'' \<mapsto> (\<lambda>_. None)]" "\<not> client_closed (NewClient ''w1'' 0) (mgr connected)"
  by (simp_all add: connected_def server_init_def run_start_def AddClient_def NewClient_def
      NewClientManagerDomainTmpl_def client_closed_def ws_IsClosed_def NewWebsocketClientImpl_def
      ws_HeartBeat_def ws_SetAckHandler_def Let_def)

theorem server_inflight_exact_witness:
  "inflight_of ''w1'' (balancer (mgr connected)) = 0"
proof -
  have "running_on ''w1'' connected = {}" by (simp add: running_on_def connected_facts)
  then show ?thesis
    using server_inflight_exact [OF reach_connected] by (simp add: connected_facts in_i64_def)
qed

text \<open>
  An acknowledgement that overtakes the bookkeeping leaves the request pending for good: there
  is a run in which the worker acknowledges a request after it was written and before it is
  tracked, and at the end of the execution the acknowledged request is still pending (so that it is
  dispatched a second time when the worker disconnects).
\<close>

theorem early_ack_stays_pending:
  "\<exists>s1 s2 c req. server_reach (p2c_lb exact_float) (server_init []) s1
     \<and> execs s1 0 = Some (ExWritten c req None) \<and> acked s1 = []
     \<and> server_reach (p2c_lb exact_float) s1 s2
     \<and> acked s2 = [(clientId c, reqId req)] \<and> execs s2 = (\<lambda>_. None)
     \<and> pendingReqs (mgr s2) (clientId c) = Some [reqId req \<mapsto> req]"
proof -
  let ?lb = "p2c_lb exact_float"
  let ?c = "NewClient ''w1'' 0"
  have ok: "registry_ok (mgr connected)"
    unfolding connected_def by (simp add: registry_ok_def cm.inv_run_start registry_ok_new [unfolded registry_ok_def])
  have "dead (mgr connected) = {}"
    using connected_facts(1, 5) by (auto simp: dead_def split: if_splits)
  then obtain c' m1 where p: "pick_loop ?lb no_env maxRetryPickClient (mgr connected) = (Inr c', m1)"
    using cm.pick_loop_succeeds [of "mgr connected" maxRetryPickClient "''w1''" ?c exact_float no_env]
      ok connected_facts by (auto simp: registry_ok_def maxRetryPickClient_def)
  note live = cm.pick_loop_Inr [OF ok [unfolded registry_ok_def] p]
  have c': "c' = ?c" using live connected_facts(1) by (metis fun_upd_apply option.distinct(1) option.inject)
  have "GetClientByBalance ?lb no_env (mgr connected) = (Inr ?c, m1)" using p c' by (simp add: GetClientByBalance_def)
  from server_reach.further [OF reach_connected server_step.pick_client [OF _ this, of 0 zeroRequest]]
  obtain s where s: "server_reach ?lb (server_init []) s" "execs s = [0 \<mapsto> ExPicked ?c zeroRequest]" "acked s = []"
    "pendingReqs (mgr s) = [''w1'' \<mapsto> (\<lambda>_. None)]"
    using live connected_facts by auto
  obtain err m2 where w: "client_Send None ?c zeroRequest (mgr s) = (err, m2)" by fastforce
  then have fr: "err = None" "pendingReqs m2 = pendingReqs (mgr s)" using client_Send_simps by blast+
  let ?s1 = "s\<lparr>mgr := m2, execs := (execs s)(0 \<mapsto> ExWritten ?c zeroRequest None)\<rparr>"
  have r1: "server_reach ?lb (server_init []) ?s1"
    using server_reach.further [OF s(1) server_step.write_message [OF _ w, of 0]] s(2) fr by simp
  let ?s2 = "?s1\<lparr>mgr := AcknowledgeRequest ''w1'' '''' m2, acked := [(''w1'', '''')]\<rparr>"
  have r2: "server_reach ?lb ?s1 ?s2"
    using server_reach.further [OF server_reach.here server_step.acknowledge [of ?lb ?s1 "''w1''" "''''"]] s(3) by simp
  let ?s3 = "?s2\<lparr>mgr := cm_Done ?lb ''w1'' 1 False 2 (mgr ?s2), execs := (execs ?s2)(0 \<mapsto> ExReported ?c zeroRequest)\<rparr>"
  have r3: "server_reach ?lb ?s1 ?s3"
    using server_reach.further [OF r2 server_step.report_ok [of ?s2 0 ?c zeroRequest ?lb 1 2]] by (simp add: NewClient_def)
  let ?s4 = "?s3\<lparr>mgr := TrackRequest ''w1'' '''' zeroRequest (mgr ?s3), execs := (execs ?s3)(0 := None)\<rparr>"
  have r4: "server_reach ?lb ?s1 ?s4"
    using server_reach.further [OF r3 server_step.track_request [of ?s3 0 ?c zeroRequest ?lb]]
    by (simp add: NewClient_def zeroRequest_def)
  have "pendingReqs (mgr ?s4) ''w1'' = Some ['''' \<mapsto> zeroRequest]"
    using s(4) fr(2) by (auto simp: TrackRequest_def cm_Done_def AcknowledgeRequest_def map_delete_def)
  moreover have "execs ?s4 = (\<lambda>_. None)" "acked ?s4 = [(''w1'', '''')]" by (simp_all add: s(2) fun_eq_iff)
  moreover have "execs ?s1 0 = Some (ExWritten ?c zeroRequest None)" "acked ?s1 = []" by (simp_all add: s(3))
  moreover have "clientId ?c = ''w1''" "reqId zeroRequest = ''''" by (simp_all add: NewClient_def zeroRequest_def)
  ultimately show ?thesis using r1 r4 by metis
qed

subsection \<open>The operations as sequences of steps\<close>

lemma server_reach_trans: "server_reach lb s t \<Longrightarrow> server_reach lb t u \<Longrightarrow> server_reach lb s u"
  by (rotate_tac, induction rule: server_reach.induct) (auto intro: server_reach.further)

lemma server_reach_one: "server_step lb s t \<Longrightarrow> server_reach lb s t"
  by (rule server_reach.further [OF server_reach.here])

lemma serve_keeps_open: "serve fs c = (acks, c') \<Longrightarrow> wsIsClosed c' = wsIsClosed c"
proof (induction fs arbitrary: c acks)
  case (Cons f fs)
  have turn: "read_turn f c = ReadContinue a d \<Longrightarrow> wsIsClosed d = wsIsClosed c" for a d
    by (auto simp: read_turn_def split: frame.splits MsgType.splits option.splits send_result.splits)
  from Cons show ?case by (fastforce dest: turn split: read_turn.splits prod.splits option.splits)
qed simp

lemma SendSync_keeps_open: "ws_SendSync werr fs rid p c = (v, acks, c') \<Longrightarrow> wsIsClosed c' = wsIsClosed c"
  by (auto simp: ws_SendSync_def sync_register_def sync_write_def ws_write_def sync_delete_def sync_take_def
      dest!: serve_keeps_open split: prod.splits option.splits recv_result.splits)

lemma acknowledge_reach:
  "server_reach lb s (s\<lparr>mgr := apply_acks as (mgr s), acked := acked s @ as\<rparr>)"
proof (induction as arbitrary: s)
  case Nil
  then show ?case by (simp add: server_reach.here)
next
  case (Cons a as)
  obtain i rid where a: "a = (i, rid)" by fastforce
  let ?t = "s\<lparr>mgr := AcknowledgeRequest i rid (mgr s), acked := acked s @ [(i, rid)]\<rparr>"
  have "server_reach lb s ?t" by (rule server_reach_one [OF server_step.acknowledge])
  from server_reach_trans [OF this Cons.IH [of ?t]] show ?case by (simp add: a)
qed

text \<open>An execution that nothing interrupts, asynchronous or not, is a sequence of the server's steps.\<close>

lemma Execute_is_steps:
  assumes k: "execs s k = None" and e: "Execute lb e req (mgr s) = (res, m)"
  shows "server_reach lb s (s\<lparr>mgr := m\<rparr>)"
proof -
  obtain r m1 where g: "GetClientByBalance lb (pickEnv e) (mgr s) = (r, m1)" by fastforce
  show ?thesis
  proof (cases r)
    case (Inl err)
    with e g show ?thesis using server_reach_one [OF server_step.no_client] by (simp add: Execute_def)
  next
    case (Inr c)
    obtain werr m2 where w: "client_Send (writeErr e) c req m1 = (werr, m2)" by fastforce
    let ?m3 = "cm_Done lb (clientId c) (took e) (werr \<noteq> None) (nowDone e) m2"
    let ?s1 = "s\<lparr>mgr := m1, execs := (execs s)(k \<mapsto> ExPicked c req)\<rparr>"
    let ?s2 = "s\<lparr>mgr := m2, execs := (execs s)(k \<mapsto> ExWritten c req werr)\<rparr>"
    have s1: "server_step lb s ?s1" by (rule server_step.pick_client [OF k g [unfolded Inr]])
    have s2: "server_step lb ?s1 ?s2" using server_step.write_message [of ?s1 k c req _ werr m2] w by simp
    have gone: "(execs s)(k := None) = execs s" using k by (simp add: fun_eq_iff)
    show ?thesis
    proof (cases werr)
      case None
      let ?s3 = "s\<lparr>mgr := ?m3, execs := (execs s)(k \<mapsto> ExReported c req)\<rparr>"
      have s3: "server_step lb ?s2 ?s3" using server_step.report_ok [of ?s2 k c req lb "took e" "nowDone e"] None by simp
      have "server_step lb ?s3 (s\<lparr>mgr := m\<rparr>)"
        using server_step.track_request [of ?s3 k c req lb] e g Inr w None gone by (simp add: Execute_def Let_def)
      with s1 s2 s3 show ?thesis by (meson server_reach.intros)
    next
      case (Some x)
      have "server_step lb ?s2 (s\<lparr>mgr := m\<rparr>)"
        using server_step.report_err [of ?s2 k c req x lb "took e" "nowDone e"] e g Inr w Some gone by (simp add: Execute_def Let_def)
      with s1 s2 show ?thesis by (meson server_reach.intros)
    qed
  qed
qed

lemma ExecuteSync_is_steps:
  assumes k: "execs s k = None" and e: "ExecuteSync lb e arr jerr req (mgr s) = (res, m)"
  shows "\<exists>as. server_reach lb s (s\<lparr>mgr := m, acked := acked s @ as\<rparr>)"
proof -
  obtain r m1 where g: "GetClientByBalance lb (pickEnv e) (mgr s) = (r, m1)" by fastforce
  show ?thesis
  proof (cases r)
    case (Inl err)
    with e g have "server_reach lb s (s\<lparr>mgr := m, acked := acked s @ []\<rparr>)"
      using server_reach_one [OF server_step.no_client [of lb "pickEnv e" s err m1]] by (simp add: ExecuteSync_def)
    then show ?thesis by blast
  next
    case (Inr c)
    obtain v as m2 where ss: "client_SendSync (writeErr e) arr jerr c req m1 = (v, as, m2)" by (metis prod_cases3)
    obtain x w where w: "ws_SendSync (writeErr e) arr (reqId req) (request_json req) (conns m1 (wsConn c)) = (x, as, w)"
        "m2 = m1\<lparr>conns := (conns m1)(wsConn c := w)\<rparr>"
      using ss by (auto simp: client_SendSync_def split: prod.splits)
    have m: "m = cm_Done lb (clientId c) (took e) (\<not> is_ok v) (nowDone e) (apply_acks as m2)"
      using e g Inr ss by (auto simp: ExecuteSync_def)
    let ?x = "(execs s)(k \<mapsto> ExCalling c req)"
    let ?s1 = "s\<lparr>mgr := m1, execs := ?x\<rparr>"
    let ?s2 = "s\<lparr>mgr := m2, execs := ?x\<rparr>"
    let ?s3 = "s\<lparr>mgr := apply_acks as m2, execs := ?x, acked := acked s @ as\<rparr>"
    have s1: "server_step lb s ?s1" by (rule server_step.call_client [OF k g [unfolded Inr]])
    have s2: "server_step lb ?s1 ?s2"
      using server_step.traffic [of w ?s1 "wsConn c" lb] SendSync_keeps_open [OF w(1)]
      by (cases s) (simp add: w(2))
    have s3: "server_reach lb ?s2 ?s3" using acknowledge_reach [of lb ?s2 as] by (cases s) simp
    have "(execs s)(k := None) = execs s" using k by (simp add: fun_eq_iff)
    then have s4: "server_step lb ?s3 (s\<lparr>mgr := m, acked := acked s @ as\<rparr>)"
      using server_step.call_return [of ?s3 k c req lb "took e" "\<not> is_ok v" "nowDone e"]
      by (cases s) (simp add: m)
    have "server_reach lb s ?s2" using s1 s2 by (meson server_reach.intros)
    from server_reach.further [OF server_reach_trans [OF this s3] s4] show ?thesis by blast
  qed
qed

lemma Read_keeps_open: "Read err fs c = (v, acks, c') \<Longrightarrow> wsIsClosed c' = wsIsClosed c"
proof (induction fs arbitrary: c acks)
  case (Cons f fs)
  have turn: "read_turn f c = ReadContinue a d \<Longrightarrow> wsIsClosed d = wsIsClosed c" for a d
    by (auto simp: read_turn_def split: frame.splits MsgType.splits option.splits send_result.splits)
  from Cons show ?case by (fastforce dest: turn split: read_turn.splits prod.splits option.splits)
qed simp

lemma traffic_acks_reach:
  assumes "wsIsClosed w = wsIsClosed (conns (mgr s) r)"
  shows "server_reach lb s (s\<lparr>mgr := apply_acks as ((mgr s)\<lparr>conns := (conns (mgr s))(r := w)\<rparr>), acked := acked s @ as\<rparr>)"
proof -
  let ?t = "s\<lparr>mgr := (mgr s)\<lparr>conns := (conns (mgr s))(r := w)\<rparr>\<rparr>"
  have "server_reach lb s ?t" by (rule server_reach_one [OF server_step.traffic [OF assms]])
  from server_reach_trans [OF this acknowledge_reach [of lb ?t as]] show ?thesis by simp
qed

lemma run_read_is_steps:
  "\<exists>as. server_reach lb s (s\<lparr>mgr := snd (run_read err fs r (mgr s)), acked := acked s @ as\<rparr>)"
proof (induction err fs r "mgr s" arbitrary: s rule: run_read.induct)
  case (1 err fs r)
  obtain v acks w where read: "Read err fs (conns (mgr s) r) = (v, acks, w)" by (metis prod_cases3)
  let ?m = "apply_acks acks ((mgr s)\<lparr>conns := (conns (mgr s))(r := w)\<rparr>)"
  let ?t = "s\<lparr>mgr := ?m, acked := acked s @ acks\<rparr>"
  have t: "server_reach lb s ?t" by (rule traffic_acks_reach [OF Read_keeps_open [OF read]])
  show ?case
  proof (cases "\<exists>p gs. v = ReadOk p gs \<and> length gs < length fs")
    case True
    then obtain p gs where v: "v = ReadOk p gs" "length gs < length fs" by blast
    have "run_read err fs r (mgr s) = run_read err gs r ?m" by (subst run_read.simps) (simp add: read v)
    moreover have "\<exists>as. server_reach lb ?t (?t\<lparr>mgr := snd (run_read err gs r (mgr ?t)), acked := acked ?t @ as\<rparr>)"
      by (rule "1.hyps" [OF read [symmetric] refl _ v]) simp
    then obtain as where "server_reach lb ?t (?t\<lparr>mgr := snd (run_read err gs r ?m), acked := acked ?t @ as\<rparr>)" by auto
    ultimately have "server_reach lb s (s\<lparr>mgr := snd (run_read err fs r (mgr s)), acked := acked s @ (acks @ as)\<rparr>)"
      using server_reach_trans [OF t] by simp
    then show ?thesis by blast
  next
    case False
    then have "snd (run_read err fs r (mgr s)) = ?m" by (subst run_read.simps) (auto simp: read Let_def split: read_result.split)
    then show ?thesis using t by auto
  qed
qed

lemma redispatch_is_steps:
  "execs s k = None \<Longrightarrow> server_reach lb s (s\<lparr>mgr := redispatch lb envs qs (mgr s)\<rparr>)"
proof (induction qs arbitrary: s)
  case Nil
  then show ?case by (simp add: server_reach.here)
next
  case (Cons q qs)
  obtain res m where e: "Execute lb (envs (length qs)) q (mgr s) = (res, m)" by fastforce
  from Cons.IH [of "s\<lparr>mgr := m\<rparr>"] Cons.prems have "server_reach lb (s\<lparr>mgr := m\<rparr>) (s\<lparr>mgr := redispatch lb envs qs m\<rparr>)" by simp
  from server_reach_trans [OF Execute_is_steps [OF Cons.prems e] this] show ?case by (simp add: e)
qed

lemma run_exit_is_steps:
  assumes "execs s k = None"
  shows "server_reach lb s (s\<lparr>mgr := run_exit lb envs order cerr i (mgr s)\<rparr>)"
proof -
  obtain p m where d: "DrainPending i (mgr s) = (p, m)" by fastforce
  let ?t = "s\<lparr>mgr := m\<rparr>"
  let ?u = "s\<lparr>mgr := redispatch lb envs (order p) m\<rparr>"
  obtain e m' where rm: "RemoveClient lb cerr i (mgr ?u) = (e, m')" by fastforce
  have "server_reach lb s ?t" by (rule server_reach_one [OF server_step.drain_pending [OF d]])
  moreover have "server_reach lb ?t ?u" using redispatch_is_steps [of ?t k lb envs "order p"] assms by simp
  moreover have "server_reach lb ?u (s\<lparr>mgr := m'\<rparr>)" using server_reach_one [OF server_step.remove_client [OF rm]] by simp
  ultimately have "server_reach lb s (s\<lparr>mgr := m'\<rparr>)" by (meson server_reach_trans)
  then show ?thesis using d rm by (simp add: run_exit_def)
qed



end
