(* ===== verification/Feedback_Service.thy ===== *)
theory Feedback_Service
  imports Startup
begin

text \<open>
  The feedback service as the server wires it (\<open>feedbackServiceRegister\<close> and \<open>feedbackAdapter\<close> in
  \<open>internal/interfaces/adapter/initialize/service.go\<close>): the HTTP handler, the adapter, the
  submission, the rate limiter and the mailer in one operation on the limiter's state and the mails
  handed over so far, each with the address it came from.
\<close>

record feedback_call =
  fqHeader :: "string \<Rightarrow> string"
  fqRemoteIP :: string
  fqBody :: payload
  fqNow :: int
  fqDate :: string
  fqReady :: smtp_ready    \<comment> \<open>what the mailer's \<open>select\<close> finds\<close>

type_synonym feedback_state = "limiter \<times> (string \<times> mail) list"

definition wired_send :: "feedback_wiring \<Rightarrow> smtp_ready \<Rightarrow> int \<Rightarrow> mail \<Rightarrow> bool" where
  "wired_send w ready timeout m =
     (case fwMailer w of
        None \<Rightarrow> NoopSend timeout m
      | Some sm \<Rightarrow> snd (SMTP_Send sm ready m) = None)"

definition adapter_Submit :: "(int \<Rightarrow> string \<Rightarrow> 's \<Rightarrow> bool \<times> 's) \<Rightarrow> (smtp_ready \<Rightarrow> int \<Rightarrow> mail \<Rightarrow> bool) \<Rightarrow> int \<Rightarrow> feedback_call
    \<Rightarrow> SubmitCmd \<Rightarrow> 's \<times> (string \<times> mail) list \<Rightarrow> feedback_error option \<times> ('s \<times> (string \<times> mail) list)" where
  \<comment> \<open>over any rate limiter and any mailer: the service's two interfaces\<close>
  "adapter_Submit allow send timeout q cmd s =
     (case Submit (allow (fqNow q)) (send (fqReady q)) timeout (fqDate q)
             \<lparr>cmdIP = cmdIP cmd, cmdType = cmdType cmd, cmdContent = cmdContent cmd, cmdContact = cmdContact cmd\<rparr> (fst s) of
        (err, m, rl) \<Rightarrow> (err, rl, snd s @ (case m of None \<Rightarrow> [] | Some x \<Rightarrow> [(cmdIP cmd, x)])))"

definition limiter_at :: "rl_config \<Rightarrow> int \<Rightarrow> string \<Rightarrow> limiter \<Rightarrow> bool \<times> limiter" where
  "limiter_at cfg now = Allow cfg (now, now, now)"

definition feedbackAdapter_Submit :: "feedback_wiring \<Rightarrow> feedback_call \<Rightarrow> SubmitCmd \<Rightarrow> feedback_state
    \<Rightarrow> feedback_error option \<times> feedback_state" where
  "feedbackAdapter_Submit w = adapter_Submit (limiter_at (fwRate w)) (wired_send w) (fwTimeout w)"

definition endpoint_with :: "(feedback_call \<Rightarrow> SubmitCmd \<Rightarrow> 's \<Rightarrow> feedback_error option \<times> 's) \<Rightarrow> feedback_call \<Rightarrow> 's \<Rightarrow> http_response \<times> 's" where
  "endpoint_with submit q s = HandleFeedback (submit q) (fqHeader q) (fqRemoteIP q) (fqBody q) s"

fun run_with :: "(feedback_call \<Rightarrow> SubmitCmd \<Rightarrow> 's \<Rightarrow> feedback_error option \<times> 's) \<Rightarrow> feedback_call list \<Rightarrow> 's \<Rightarrow> http_response list \<times> 's" where
  "run_with submit [] s = ([], s)"
| "run_with submit (q # qs) s =
     (case endpoint_with submit q s of
        (r, s1) \<Rightarrow> (case run_with submit qs s1 of (rs, s2) \<Rightarrow> (r # rs, s2)))"

definition feedback_endpoint :: "feedback_wiring \<Rightarrow> feedback_call \<Rightarrow> feedback_state \<Rightarrow> http_response \<times> feedback_state" where
  "feedback_endpoint w = endpoint_with (feedbackAdapter_Submit w)"

definition feedback_run :: "feedback_wiring \<Rightarrow> feedback_call list \<Rightarrow> feedback_state \<Rightarrow> http_response list \<times> feedback_state" where
  "feedback_run w = run_with (feedbackAdapter_Submit w)"

definition mails_from :: "string \<Rightarrow> (string \<times> mail) list \<Rightarrow> nat" where
  "mails_from ip ms = length (filter (\<lambda>x. fst x = ip) ms)"

subsection \<open>The rate limiter the service is given\<close>

text \<open>The answers of a limiter to requests, each with its address and time.\<close>

fun ask_all :: "(int \<Rightarrow> string \<Rightarrow> 's \<Rightarrow> bool \<times> 's) \<Rightarrow> (string \<times> int) list \<Rightarrow> 's \<Rightarrow> (string \<times> bool) list \<times> 's" where
  "ask_all allow [] s = ([], s)"
| "ask_all allow ((ip, now) # rs) s =
     (case allow now ip s of
        (ok, s') \<Rightarrow> (case ask_all allow rs s' of (os, s'') \<Rightarrow> ((ip, ok) # os, s'')))"

lemma ask_all_append:
  "ask_all allow (rs @ ts) s = (case ask_all allow rs s of (os, s') \<Rightarrow> (case ask_all allow ts s' of (os', s'') \<Rightarrow> (os @ os', s'')))"
  by (induction allow rs s rule: ask_all.induct) (auto split: prod.splits)

lemma ask_all_limiter: "ask_all (limiter_at cfg) rs rl = allow_run cfg rs rl"
  by (induction cfg rs rl rule: allow_run.induct) (auto simp: limiter_at_def split: prod.split)

text \<open>A call whose body binds asks the limiter once, for the address it gives itself.\<close>

definition asks :: "feedback_call list \<Rightarrow> (string \<times> int) list" where
  "asks qs = map (\<lambda>q. (extractIP (fqHeader q) (fqRemoteIP q), fqNow q)) (filter (\<lambda>q. bind_feedback (fqBody q) \<noteq> None) qs)"

lemma HandleFeedback_state:
  "snd (HandleFeedback submit header remoteIP body s) =
     (case bind_feedback body of
        None \<Rightarrow> s
      | Some req \<Rightarrow> snd (submit \<lparr>cmdIP = extractIP header remoteIP, cmdType = frType req, cmdContent = frContent req,
                               cmdContact = frContact req\<rparr> s))"
  by (auto simp: HandleFeedback_def Let_def split: option.splits prod.splits feedback_error.splits)

text \<open>
  The interface \<open>RateLimiter\<close>: what the service relies on is that a limiter in order grants an address
  no more than \<open>per_minute\<close> requests within any minute, whatever else it is asked. Any mailer will do.
\<close>

locale rate_limiter =
  fixes allow :: "int \<Rightarrow> string \<Rightarrow> 's \<Rightarrow> bool \<times> 's"
    and in_order :: "'s \<Rightarrow> bool"
    and per_minute :: int
  assumes within_minute: "in_order s \<Longrightarrow> \<forall>r \<in> set rs. D - minute \<le> snd r \<and> snd r \<le> D \<Longrightarrow>
      int (granted ip (fst (ask_all allow rs s))) \<le> per_minute"
begin

lemma call_asks:
  assumes "endpoint_with (adapter_Submit allow send timeout) q (rl, ms) = (r, rl', ms')"
  shows "\<exists>os. ask_all allow (asks [q]) rl = (os, rl') \<and> mails_from ip ms' \<le> mails_from ip ms + granted ip os"
proof (cases "bind_feedback (fqBody q)")
  case None
  then show ?thesis using assms HandleFeedback_state [of _ "fqHeader q" "fqRemoteIP q" "fqBody q" "(rl, ms)"]
    by (simp add: asks_def endpoint_with_def granted_def) (metis order_refl snd_conv prod.inject)
next
  case (Some req)
  let ?ip = "extractIP (fqHeader q) (fqRemoteIP q)"
  let ?cmd = "\<lparr>cmdIP = ?ip, cmdType = frType req, cmdContent = frContent req, cmdContact = frContact req\<rparr>"
  obtain ok rl1 where a: "allow (fqNow q) ?ip rl = (ok, rl1)" by fastforce
  have "(rl', ms') = snd (adapter_Submit allow send timeout q ?cmd (rl, ms))"
    using assms HandleFeedback_state [of "adapter_Submit allow send timeout q" "fqHeader q" "fqRemoteIP q" "fqBody q" "(rl, ms)"] Some
    by (simp add: endpoint_with_def)
  then have "rl' = rl1 \<and> mails_from ip ms' \<le> mails_from ip ms + (if ok \<and> ip = ?ip then 1 else 0)"
    using a by (auto simp: adapter_Submit_def Submit_def Let_def mails_from_def split: option.splits if_splits bool.splits)
  with Some a show ?thesis by (auto simp: asks_def granted_def split: if_splits)
qed

lemma run_asks:
  "\<exists>os. ask_all allow (asks qs) (fst s) = (os, fst (snd (run_with (adapter_Submit allow send timeout) qs s)))
     \<and> mails_from ip (snd (snd (run_with (adapter_Submit allow send timeout) qs s))) \<le> mails_from ip (snd s) + granted ip os"
proof (induction qs arbitrary: s)
  case Nil
  then show ?case by (simp add: asks_def)
next
  case (Cons q qs)
  let ?run = "run_with (adapter_Submit allow send timeout)"
  obtain r rl1 ms1 where q: "endpoint_with (adapter_Submit allow send timeout) q s = (r, rl1, ms1)" using prod_cases3 by blast
  from call_asks [of send timeout q "fst s" "snd s" r rl1 ms1 ip] q
  obtain os1 where os1: "ask_all allow (asks [q]) (fst s) = (os1, rl1)" "mails_from ip ms1 \<le> mails_from ip (snd s) + granted ip os1"
    by auto
  from Cons.IH [of "(rl1, ms1)"] obtain os2 where
    os2: "ask_all allow (asks qs) rl1 = (os2, fst (snd (?run qs (rl1, ms1))))"
      "mails_from ip (snd (snd (?run qs (rl1, ms1)))) \<le> mails_from ip ms1 + granted ip os2" by auto
  have "asks (q # qs) = asks [q] @ asks qs" by (simp add: asks_def)
  then have "ask_all allow (asks (q # qs)) (fst s) = (os1 @ os2, fst (snd (?run (q # qs) s)))"
    using os1(1) os2(1) q by (simp add: ask_all_append split: prod.splits)
  moreover have "granted ip (os1 @ os2) = granted ip os1 + granted ip os2" by (simp add: granted_def)
  ultimately show ?case using os1(2) os2(2) q by (auto split: prod.splits)
qed

lemma mails_bounded:
  assumes "in_order (fst s)" "\<forall>q \<in> set qs. D - minute \<le> fqNow q \<and> fqNow q \<le> D"
  shows "int (mails_from ip (snd (snd (run_with (adapter_Submit allow send timeout) qs s)))) - int (mails_from ip (snd s)) \<le> per_minute"
proof -
  obtain os where os: "ask_all allow (asks qs) (fst s) = (os, fst (snd (run_with (adapter_Submit allow send timeout) qs s)))"
    "mails_from ip (snd (snd (run_with (adapter_Submit allow send timeout) qs s))) \<le> mails_from ip (snd s) + granted ip os"
    using run_asks [of qs s send timeout ip] by blast
  have "\<forall>r \<in> set (asks qs). D - minute \<le> snd r \<and> snd r \<le> D" using assms(2) by (auto simp: asks_def)
  from within_minute [OF assms(1) this, of ip] os show ?thesis by simp
qed

end

interpretation ip_limiter: rate_limiter "limiter_at cfg" "limiter_ok cfg" "2 * max 0 (PerMinute cfg)" for cfg
  by unfold_locales (simp add: ask_all_limiter rate_limit_per_minute)

text \<open>
  Whatever requests reach the feedback endpoint within a minute, and whatever the mail server
  does, at most twice the configured per-minute number of mails are handed to the mailer for one
  address; with the mailer switched off every accepted submission succeeds without one being sent.
\<close>

theorem feedback_mail_bound:
  assumes "limiter_ok (fwRate w) (fst s)" and "w = feedbackServiceRegister cfg"
    and "\<forall>q \<in> set qs. D - minute \<le> fqNow q \<and> fqNow q \<le> D"
  shows "int (mails_from ip (snd (snd (feedback_run w qs s)))) - int (mails_from ip (snd s))
           \<le> 2 * max 0 (RateLimitPerMin (cfFeedback cfg))
     \<and> (\<not> mcEnabled (cfMail cfg) \<longrightarrow> (\<forall>q cmd. fst (feedbackAdapter_Submit w q cmd s) \<noteq> Some ErrMailSend))"
proof
  show "int (mails_from ip (snd (snd (feedback_run w qs s)))) - int (mails_from ip (snd s))
      \<le> 2 * max 0 (RateLimitPerMin (cfFeedback cfg))"
    using ip_limiter.mails_bounded [of "fwRate w" s qs D ip "wired_send w" "fwTimeout w"] assms
    by (simp add: feedback_run_def feedbackAdapter_Submit_def feedbackServiceRegister_def)
  show "\<not> mcEnabled (cfMail cfg) \<longrightarrow> (\<forall>q cmd. fst (feedbackAdapter_Submit w q cmd s) \<noteq> Some ErrMailSend)"
    using assms(2) by (auto simp: feedbackAdapter_Submit_def adapter_Submit_def Submit_def Let_def wired_send_def NoopSend_def
        feedbackServiceRegister_def Validate_def split: prod.splits if_splits bool.splits option.splits)
qed

definition wit_feedback_call :: "int \<Rightarrow> feedback_call" where
  "wit_feedback_call t = \<lparr>fqHeader = (\<lambda>_. []), fqRemoteIP = ''1.2.3.4'',
     fqBody = Json (JObj [(''type'', JStr ''bug''), (''content'', JStr ''it breaks when I press run'')]),
     fqNow = t, fqDate = ''today'', fqReady = TimerFired\<rparr>"

theorem feedback_mail_bound_witness:
  "mails_from ''1.2.3.4'' (snd (snd (feedback_run (feedbackServiceRegister wit_app_cfg)
     (map wit_feedback_call [1, 2, 3, 4, 5]) (\<lambda>_. None, [])))) \<le> 2"
proof -
  have "\<forall>q \<in> set (map wit_feedback_call [1, 2, 3, 4, 5]). minute - minute \<le> fqNow q \<and> fqNow q \<le> minute"
    by (simp add: wit_feedback_call_def minute_def)
  from feedback_mail_bound [OF _ refl this, of wit_app_cfg "(\<lambda>_. None, [])" "''1.2.3.4''"] show ?thesis
    by (simp add: limiter_ok_def mails_from_def wit_app_cfg_def)
qed

text \<open>
  The header \<open>X-Real-IP\<close> is taken as it comes, on trust that a proxy sets it. A client that reaches
  the server without the proxy and claims another address in each request is let through each time.
\<close>

lemma claimed_address_not_limited:
  assumes "fqHeader q ''X-Real-IP'' = v" "v \<noteq> []" "rl (TrimSpace v) = None" "0 < PerMinute (fwRate w)" "0 < PerDay (fwRate w)"
    and "bind_feedback (fqBody q) = Some req"
  shows "\<forall>msg. fst (feedback_endpoint w q (rl, ms)) \<noteq> HttpResponse 429 msg"
proof -
  have ip: "extractIP (fqHeader q) (fqRemoteIP q) = TrimSpace v" using assms(1,2) by (simp add: extractIP_def Let_def)
  let ?cmd = "\<lparr>cmdIP = TrimSpace v, cmdType = frType req, cmdContent = frContent req, cmdContact = frContact req\<rparr>"
  have "fst (Allow (fwRate w) (fqNow q, fqNow q, fqNow q) (TrimSpace v) rl)"
    using assms(3-5) by (simp add: Allow_def take_token_def roll_def new_bucket_def minute_def day_def Let_def)
  then have "fst (feedbackAdapter_Submit w q ?cmd (rl, ms)) \<noteq> Some ErrRateLimited"
    by (auto simp: feedbackAdapter_Submit_def adapter_Submit_def limiter_at_def Submit_def Let_def Validate_def split: prod.splits if_splits bool.splits option.splits)
  with assms(6) ip show ?thesis
    by (auto simp: feedback_endpoint_def endpoint_with_def HandleFeedback_def Let_def split: prod.splits option.splits feedback_error.splits)
qed

end
