(* ===== verification/Checkpoint_Store.thy ===== *)
theory Checkpoint_Store
  imports Prelude
begin

text \<open>
  The store of interrupted runs (\<open>internal/agent/checkpoint/store.go\<close>): a map from checkpoint ids to
  data with the time they were stored, expired entries dropped when they are read and by a periodic
  sweep. Clock readings are arguments, in nanoseconds. The map is a \<open>sync.Map\<close>: every access is
  atomic, but a load followed by a delete is not, which the split operations at the end show.
\<close>

record checkpoint_item =
  ckData :: string
  ckUpdated :: int

record CheckPointStore =
  ckTTL :: int
  ckItems :: "string \<rightharpoonup> checkpoint_item"

definition NewMemoryCheckPointStore :: "int \<Rightarrow> CheckPointStore" where
  "NewMemoryCheckPointStore t = \<lparr>ckTTL = t, ckItems = Map.empty\<rparr>"

definition stale :: "int \<Rightarrow> CheckPointStore \<Rightarrow> checkpoint_item \<Rightarrow> bool" where
  "stale now s it \<longleftrightarrow> now - ckUpdated it > ckTTL s"

definition ckDelete :: "string \<Rightarrow> CheckPointStore \<Rightarrow> CheckPointStore" where
  "ckDelete i s = s\<lparr>ckItems := (ckItems s)(i := None)\<rparr>"

definition ckGet :: "int \<Rightarrow> string \<Rightarrow> CheckPointStore \<Rightarrow> string option \<times> CheckPointStore" where
  "ckGet now i s =
     (case ckItems s i of
        None \<Rightarrow> (None, s)
      | Some it \<Rightarrow> if stale now s it then (None, ckDelete i s) else (Some (ckData it), s))"

definition ckSet :: "int \<Rightarrow> string \<Rightarrow> string \<Rightarrow> CheckPointStore \<Rightarrow> CheckPointStore" where
  "ckSet now i data s = s\<lparr>ckItems := (ckItems s)(i \<mapsto> \<lparr>ckData = data, ckUpdated = now\<rparr>)\<rparr>"

fun ckSweep :: "int \<Rightarrow> string list \<Rightarrow> CheckPointStore \<Rightarrow> CheckPointStore" where
  "ckSweep now [] s = s"
| "ckSweep now (i # is) s =
     ckSweep now is (case ckItems s i of None \<Rightarrow> s | Some it \<Rightarrow> if stale now s it then ckDelete i s else s)"

subsection \<open>Interrupted runs\<close>

text \<open>The calls a runner and the sweep make, in the order of their clock readings.\<close>

datatype ck_call = CkSet int string string | CkGet int string | CkDelete string | CkSweep int "string list"

fun ck_step :: "ck_call \<Rightarrow> CheckPointStore \<Rightarrow> CheckPointStore" where
  "ck_step (CkSet now i d) s = ckSet now i d s"
| "ck_step (CkGet now i) s = snd (ckGet now i s)"
| "ck_step (CkDelete i) s = ckDelete i s"
| "ck_step (CkSweep now is) s = ckSweep now is s"

definition ck_run :: "ck_call list \<Rightarrow> CheckPointStore \<Rightarrow> CheckPointStore" where
  "ck_run cs s = foldl (\<lambda>s c. ck_step c s) s cs"

text \<open>The abstract store: what was set last, forgotten only when it is deleted.\<close>

fun spec_step :: "ck_call \<Rightarrow> (string \<rightharpoonup> string \<times> int) \<Rightarrow> (string \<rightharpoonup> string \<times> int)" where
  "spec_step (CkSet now i d) h = h(i \<mapsto> (d, now))"
| "spec_step (CkDelete i) h = h(i := None)"
| "spec_step _ h = h"

fun ck_times_upto :: "int \<Rightarrow> ck_call \<Rightarrow> bool" where
  "ck_times_upto now (CkSet t i d) \<longleftrightarrow> t \<le> now"
| "ck_times_upto now (CkGet t i) \<longleftrightarrow> t \<le> now"
| "ck_times_upto now (CkDelete i) \<longleftrightarrow> True"
| "ck_times_upto now (CkSweep t is) \<longleftrightarrow> t \<le> now"

text \<open>The concrete items are the abstract ones, less some that are stale at \<open>now\<close> already.\<close>

fun item_rel :: "int \<Rightarrow> int \<Rightarrow> checkpoint_item option \<Rightarrow> (string \<times> int) option \<Rightarrow> bool" where
  "item_rel now life (Some it) x \<longleftrightarrow> x = Some (ckData it, ckUpdated it)"
| "item_rel now life None (Some (d, t)) \<longleftrightarrow> now - t > life"
| "item_rel now life None None \<longleftrightarrow> True"

definition ck_rel :: "int \<Rightarrow> CheckPointStore \<Rightarrow> (string \<rightharpoonup> string \<times> int) \<Rightarrow> bool" where
  "ck_rel now s h \<longleftrightarrow> (\<forall>i. item_rel now (ckTTL s) (ckItems s i) (h i))"

lemma ck_ttl [simp]: "ckTTL (ckSet now i d s) = ckTTL s" "ckTTL (ckDelete i s) = ckTTL s" "ckTTL (snd (ckGet now i s)) = ckTTL s"
  by (simp_all add: ckSet_def ckDelete_def ckGet_def split: option.split)

lemma ck_sweep_ttl [simp]: "ckTTL (ckSweep now is s) = ckTTL s"
  by (induction "is" arbitrary: s) (simp_all split: option.split)

lemma ck_step_ttl [simp]: "ckTTL (ck_step c s) = ckTTL s"
  by (cases c) simp_all

lemma ck_rel_drop:
  assumes "ck_rel now s h" "ckItems s i = Some it" "stale t s it" "t \<le> now"
  shows "ck_rel now (ckDelete i s) h"
proof -
  have "h i = Some (ckData it, ckUpdated it)" using assms(1, 2) by (metis ck_rel_def item_rel.simps(1))
  moreover have "now - ckUpdated it > ckTTL s" using assms(3, 4) by (simp add: stale_def)
  ultimately show ?thesis using assms(1) by (auto simp: ck_rel_def ckDelete_def)
qed

lemma ck_rel_sweep: "ck_rel now s h \<Longrightarrow> t \<le> now \<Longrightarrow> ck_rel now (ckSweep t is s) h"
proof (induction "is" arbitrary: s)
  case (Cons i "is")
  show ?case
  proof (cases "\<exists>it. ckItems s i = Some it \<and> stale t s it")
    case True
    then obtain it where it: "ckItems s i = Some it" "stale t s it" by blast
    with Cons.IH [OF ck_rel_drop [OF Cons.prems(1) it Cons.prems(2)] Cons.prems(2)] show ?thesis by simp
  next
    case False
    then have "ckSweep t (i # is) s = ckSweep t is s" by (auto split: option.split)
    with Cons show ?thesis by simp
  qed
qed simp

lemma ck_rel_step: "ck_rel now s h \<Longrightarrow> ck_times_upto now c \<Longrightarrow> ck_rel now (ck_step c s) (spec_step c h)"
proof (cases c)
  case (CkGet t i)
  assume r: "ck_rel now s h" and t: "ck_times_upto now c"
  show ?thesis
  proof (cases "\<exists>it. ckItems s i = Some it \<and> stale t s it")
    case True
    then obtain it where it: "ckItems s i = Some it" "stale t s it" by blast
    with ck_rel_drop [OF r it] t CkGet show ?thesis by (simp add: ckGet_def)
  next
    case False
    then have "snd (ckGet t i s) = s" by (auto simp: ckGet_def split: option.split)
    with r CkGet show ?thesis by simp
  qed
next
  case (CkSet t i d)
  then show "ck_rel now s h \<Longrightarrow> ?thesis" by (auto simp: ck_rel_def ckSet_def)
next
  case (CkDelete i)
  then show "ck_rel now s h \<Longrightarrow> ?thesis" by (auto simp: ck_rel_def ckDelete_def)
next
  case (CkSweep t "is")
  then show "ck_rel now s h \<Longrightarrow> ck_times_upto now c \<Longrightarrow> ?thesis" by (simp add: ck_rel_sweep)
qed

lemma ck_rel_run:
  "ck_rel now s h \<Longrightarrow> list_all (ck_times_upto now) cs \<Longrightarrow> ck_rel now (ck_run cs s) (foldl (\<lambda>h c. spec_step c h) h cs)"
proof (induction cs arbitrary: s h)
  case (Cons c cs)
  with ck_rel_step [of now s h c] show ?case by (simp add: ck_run_def)
qed (simp add: ck_run_def)

lemma ck_run_ttl [simp]: "ckTTL (ck_run cs s) = ckTTL s"
  by (induction cs arbitrary: s) (simp_all add: ck_run_def)



subsection \<open>A read that meets a write\<close>

text \<open>The two halves of a read of a stale entry: the load that decides, and the delete.\<close>

definition ckGet_load :: "int \<Rightarrow> string \<Rightarrow> CheckPointStore \<Rightarrow> bool" where
  "ckGet_load now i s \<longleftrightarrow> (case ckItems s i of None \<Rightarrow> False | Some it \<Rightarrow> stale now s it)"

lemma ckGet_halves: "snd (ckGet now i s) = (if ckGet_load now i s then ckDelete i s else s)"
  by (auto simp: ckGet_def ckGet_load_def split: option.split)

text \<open>
  A run that is interrupted again between the two halves of a read of its old, stale checkpoint
  loses the new one.
\<close>

lemma stale_read_drops_new_checkpoint:
  assumes "ckGet_load now i s"
  shows "fst (ckGet t i (if ckGet_load now i s then ckDelete i (ckSet now i d s) else ckSet now i d s)) = None"
  using assms by (simp add: ckGet_def ckDelete_def ckSet_def)

end
