(* ===== verification/Cleanup.thy ===== *)
theory Cleanup
  imports Session_Store Checkpoint_Store
begin

text \<open>
  The cleanup goroutines of the two stores (\<open>StartCleanup\<close> in \<open>internal/agent/session/store.go\<close> and
  in \<open>internal/agent/checkpoint/store.go\<close>). Both have one contract: a tick sweeps the whole table at
  one clock reading, closing the channel ends the loop. What the rest of the program does between
  two ticks is a function on the store.
\<close>

subsection \<open>The loop\<close>

datatype 's cleaner_event =
    CleanTick int "string list"     \<comment> \<open>the clock, and the keys in the order \<open>Range\<close> visits them\<close>
  | CleanDone
  | Meanwhile "'s \<Rightarrow> 's"

fun cleaner :: "(int \<Rightarrow> string list \<Rightarrow> 's \<Rightarrow> 's) \<Rightarrow> bool \<Rightarrow> 's cleaner_event list \<Rightarrow> 's \<Rightarrow> 's" where
  \<comment> \<open>the flag: the goroutine runs\<close>
  "cleaner sweep running [] s = s"
| "cleaner sweep running (CleanTick now keys # es) s = cleaner sweep running es (if running then sweep now keys s else s)"
| "cleaner sweep running (CleanDone # es) s = cleaner sweep False es s"
| "cleaner sweep running (Meanwhile f # es) s = cleaner sweep running es (f s)"

text \<open>None: \<open>time.NewTicker\<close> panics on an interval that is not positive.\<close>

definition session_StartCleanup :: "int \<Rightarrow> FileStore cleaner_event list \<Rightarrow> FileStore \<Rightarrow> FileStore option" where
  "session_StartCleanup interval es st = (if interval \<le> 0 then None else Some (cleaner cleanExpired True es st))"

definition checkpoint_StartCleanup :: "int \<Rightarrow> CheckPointStore cleaner_event list \<Rightarrow> CheckPointStore \<Rightarrow> CheckPointStore option" where
  "checkpoint_StartCleanup interval es s = (if interval \<le> 0 then None else Some (cleaner ckSweep True es s))"

lemma cleaner_stopped: "cleaner sweep False es s = foldl (\<lambda>s e. case e of Meanwhile f \<Rightarrow> f s | _ \<Rightarrow> s) s es"
proof (induction es arbitrary: s)
  case (Cons e es)
  then show ?case by (cases e) simp_all
qed simp

lemma cleaner_append: "CleanDone \<notin> set es \<Longrightarrow> cleaner sweep r (es @ fs) s = cleaner sweep r fs (cleaner sweep r es s)"
proof (induction es arbitrary: s)
  case (Cons e es)
  then show ?case by (cases e) simp_all
qed simp

subsection \<open>The contract\<close>

text \<open>Events under which an entry is only swept: the rest of the program leaves it alone.\<close>

definition idle_for :: "(string \<Rightarrow> bool) \<Rightarrow> ('s \<Rightarrow> string \<Rightarrow> 'e option) \<Rightarrow> ('s \<Rightarrow> int \<Rightarrow> 'e \<Rightarrow> bool) \<Rightarrow> string
    \<Rightarrow> 's cleaner_event \<Rightarrow> bool" where
  "idle_for ok entry old k ev = (case ev of
      CleanTick now keys \<Rightarrow> list_all ok keys
    | CleanDone \<Rightarrow> True
    | Meanwhile f \<Rightarrow> (\<forall>s. entry (f s) k = entry s k \<and> old (f s) = old s))"

locale swept_table =
  fixes sweep :: "int \<Rightarrow> string list \<Rightarrow> 's \<Rightarrow> 's"
    and entry :: "'s \<Rightarrow> string \<Rightarrow> 'e option"
    and old :: "'s \<Rightarrow> int \<Rightarrow> 'e \<Rightarrow> bool"
    and ok :: "string \<Rightarrow> bool"
  assumes sweep_entry: "list_all ok keys \<Longrightarrow> ok k \<Longrightarrow> entry (sweep now keys s) k
      = (case entry s k of None \<Rightarrow> None | Some e \<Rightarrow> if k \<in> set keys \<and> old s now e then None else Some e)"
    and sweep_old: "old (sweep now keys s) = old s"
begin

lemma cleaner_old: "list_all (idle_for ok entry old k) es \<Longrightarrow> old (cleaner sweep r es s) = old s"
proof (induction es arbitrary: r s)
  case (Cons e es)
  then show ?case by (cases e) (auto simp: idle_for_def sweep_old)
qed simp

lemma cleaner_only_removes:
  assumes "list_all (idle_for ok entry old k) es" "ok k"
  shows "entry (cleaner sweep r es s) k \<in> {entry s k, None}"
  using assms(1)
proof (induction es arbitrary: r s)
  case (Cons e es)
  show ?case
  proof (cases e)
    case (CleanTick now keys)
    then have "entry (if r then sweep now keys s else s) k \<in> {entry s k, None}"
      using Cons.prems assms(2) by (auto simp: idle_for_def sweep_entry split: option.split)
    with CleanTick Cons.IH [of r "if r then sweep now keys s else s"] Cons.prems show ?thesis by auto
  next
    case CleanDone
    with Cons show ?thesis by simp
  next
    case (Meanwhile f)
    with Cons.IH [of r "f s"] Cons.prems show ?thesis by (simp add: idle_for_def)
  qed
qed simp

text \<open>A tick that visits an old entry removes it for good; an entry no tick finds old stays.\<close>

lemma old_entry_removed:
  assumes "list_all (idle_for ok entry old k) (es @ CleanTick now keys # fs)" "ok k" "CleanDone \<notin> set es"
    and "k \<in> set keys" "\<And>e. entry s k = Some e \<Longrightarrow> old s now e"
  shows "entry (cleaner sweep True (es @ CleanTick now keys # fs) s) k = None"
proof -
  let ?t = "cleaner sweep True es s"
  have ks: "list_all ok keys" using assms(1) by (simp add: idle_for_def)
  have "entry ?t k \<in> {entry s k, None}" using cleaner_only_removes [of k es] assms(1,2) by simp
  moreover have "old ?t = old s" using cleaner_old [of k es] assms(1) by simp
  ultimately have "entry (sweep now keys ?t) k = None"
    using assms(4,5) by (auto simp: sweep_entry [OF ks assms(2)] split: option.split)
  then have "entry (cleaner sweep True fs (sweep now keys ?t)) k = None"
    using cleaner_only_removes [of k fs True "sweep now keys ?t"] assms(1,2) by simp
  with assms(3) show ?thesis by (simp add: cleaner_append)
qed

lemma young_entry_kept:
  assumes "list_all (idle_for ok entry old k) es" "ok k" "entry s k = Some e"
    and "\<And>now keys. CleanTick now keys \<in> set es \<Longrightarrow> \<not> old s now e"
  shows "entry (cleaner sweep r es s) k = Some e"
  using assms(1,3,4)
proof (induction es arbitrary: r s)
  case (Cons ev es)
  show ?case
  proof (cases ev)
    case (CleanTick now keys)
    let ?s = "if r then sweep now keys s else s"
    have "entry ?s k = Some e"
      using CleanTick Cons.prems(1,2) Cons.prems(3) [of now keys] assms(2) by (auto simp: idle_for_def sweep_entry)
    moreover have "old ?s = old s" by (simp add: sweep_old)
    ultimately have "entry (cleaner sweep r es ?s) k = Some e" by (intro Cons.IH) (use Cons.prems in auto)
    with CleanTick show ?thesis by simp
  next
    case CleanDone
    with Cons show ?thesis by simp
  next
    case (Meanwhile f)
    then have "entry (f s) k = Some e" "old (f s) = old s" using Cons.prems(1,2) by (simp_all add: idle_for_def)
    with Meanwhile Cons.IH [of "f s" r] Cons.prems show ?thesis by simp
  qed
qed simp

end

subsection \<open>The two stores\<close>

text \<open>Of a session: its cached metadata and its two files; nothing when all three are absent.\<close>

definition session_entry :: "FileStore \<Rightarrow> string \<Rightarrow> (SessionMeta option \<times> payload option \<times> string option) option" where
  "session_entry st sid =
     (let e = (metas st sid, metaFiles st (metaPath st sid), jsonlFiles st (jsonlPath st sid))
      in if e = (None, None, None) then None else Some e)"

definition session_old :: "FileStore \<Rightarrow> int \<Rightarrow> SessionMeta option \<times> payload option \<times> string option \<Rightarrow> bool" where
  "session_old st now e = (case fst e of None \<Rightarrow> False | Some m \<Rightarrow> expired now st m)"

interpretation session_sweeps: swept_table cleanExpired session_entry session_old valid_id
proof
  fix keys k now st
  assume ok: "list_all valid_id keys" "valid_id k"
  show "session_entry (cleanExpired now keys st) k = (case session_entry st k of None \<Rightarrow> None
      | Some e \<Rightarrow> if k \<in> set keys \<and> session_old st now e then None else Some e)"
    using cleanExpired_files [OF ok, of now st] cleanExpired_metas [of now keys st k] cleanExpired_invariants [of now keys st]
    by (auto simp: session_entry_def session_old_def Let_def split: option.splits)
next
  fix now keys st
  show "session_old (cleanExpired now keys st) = session_old st"
    using cleanExpired_invariants [of now keys st] by (simp add: session_old_def expired_def fun_eq_iff split: option.split)
qed

lemma ckSweep_item:
  "ckItems (ckSweep now keys s) k
     = (case ckItems s k of None \<Rightarrow> None | Some it \<Rightarrow> if k \<in> set keys \<and> stale now s it then None else Some it)"
proof (induction keys arbitrary: s)
  case (Cons i keys)
  define s2 where "s2 = (case ckItems s i of None \<Rightarrow> s | Some it \<Rightarrow> if stale now s it then ckDelete i s else s)"
  have "stale now s2 = stale now s" by (auto simp: s2_def stale_def ckDelete_def split: option.split)
  moreover have "ckItems s2 k = (case ckItems s k of None \<Rightarrow> None | Some it \<Rightarrow> if k = i \<and> stale now s it then None else Some it)"
    by (auto simp: s2_def ckDelete_def split: option.split)
  ultimately show ?case using Cons.IH [of s2] by (auto simp: s2_def [symmetric] split: option.splits)
qed (simp split: option.split)

interpretation checkpoint_sweeps: swept_table ckSweep ckItems "\<lambda>s now it. stale now s it" "\<lambda>_. True"
  by unfold_locales (simp_all add: ckSweep_item stale_def)

abbreviation session_idle :: "string \<Rightarrow> FileStore cleaner_event \<Rightarrow> bool" where
  "session_idle \<equiv> idle_for valid_id session_entry session_old"

abbreviation checkpoint_idle :: "string \<Rightarrow> CheckPointStore cleaner_event \<Rightarrow> bool" where
  "checkpoint_idle \<equiv> idle_for (\<lambda>_. True) ckItems (\<lambda>s now it. stale now s it)"

text \<open>
  C38. What expires is collected. A session whose last activity is older than the time to live when
  a tick visits it loses its metadata and both files, and a checkpoint its data, provided nothing
  else touches it; and as long as no tick finds it expired, a session or checkpoint stays whole.
\<close>

theorem cleanup_collects_expired:
  assumes "0 < interval" and "CleanDone \<notin> set es" "CleanDone \<notin> set ces"
    and "list_all (session_idle sid) (es @ CleanTick now keys # fs)" "valid_id sid" "sid \<in> set keys"
    and "metas st sid = Some m" "now - smLastActive m > ttl st"
    and "list_all (checkpoint_idle i) (ces @ CleanTick cnow ckeys # cfs)" "i \<in> set ckeys"
    and "ckItems s i = Some it" "cnow - ckUpdated it > ckTTL s"
  shows "\<exists>st' s'. session_StartCleanup interval (es @ CleanTick now keys # fs) st = Some st'
     \<and> checkpoint_StartCleanup interval (ces @ CleanTick cnow ckeys # cfs) s = Some s'
     \<and> metas st' sid = None \<and> metaFiles st' (metaPath st' sid) = None \<and> jsonlFiles st' (jsonlPath st' sid) = None
     \<and> ckItems s' i = None
     \<and> ((\<forall>t ks. CleanTick t ks \<in> set es \<longrightarrow> t - smLastActive m \<le> ttl st) \<longrightarrow>
          session_entry (cleaner cleanExpired True es st) sid = session_entry st sid)
     \<and> ((\<forall>t ks. CleanTick t ks \<in> set ces \<longrightarrow> t - ckUpdated it \<le> ckTTL s) \<longrightarrow>
          ckItems (cleaner ckSweep True ces s) i = Some it)"
proof -
  obtain e where e: "session_entry st sid = Some e" "fst e = Some m"
    using assms(7) by (auto simp: session_entry_def Let_def)
  have "session_entry (cleaner cleanExpired True (es @ CleanTick now keys # fs) st) sid = None"
    using assms(8) e by (intro session_sweeps.old_entry_removed [OF assms(4,5,2,6)]) (auto simp: session_old_def expired_def)
  moreover have "ckItems (cleaner ckSweep True (ces @ CleanTick cnow ckeys # cfs) s) i = None"
    using assms(11,12) by (intro checkpoint_sweeps.old_entry_removed [OF assms(9) TrueI assms(3,10)]) (auto simp: stale_def)
  moreover have "session_entry (cleaner cleanExpired True es st) sid = Some e"
    if "\<forall>t ks. CleanTick t ks \<in> set es \<longrightarrow> t - smLastActive m \<le> ttl st"
    using that assms(4,5) e by (intro session_sweeps.young_entry_kept) (force simp: session_old_def expired_def)+
  moreover have "ckItems (cleaner ckSweep True ces s) i = Some it"
    if "\<forall>t ks. CleanTick t ks \<in> set ces \<longrightarrow> t - ckUpdated it \<le> ckTTL s"
    using that assms(9,11) by (intro checkpoint_sweeps.young_entry_kept) (force simp: stale_def)+
  ultimately show ?thesis using assms(1) e(1)
    by (auto simp: session_StartCleanup_def checkpoint_StartCleanup_def session_entry_def Let_def split: if_splits)
qed

definition wit_sessions :: FileStore where
  "wit_sessions = wit_store\<lparr>metas := [''a'' \<mapsto> wit_meta], metaFiles := (\<lambda>_. Some (NotJson [])), jsonlFiles := (\<lambda>_. Some [])\<rparr>"

definition wit_checkpoints :: CheckPointStore where
  "wit_checkpoints = ckSet 3 ''a'' ''data'' (NewMemoryCheckPointStore 10)"

theorem cleanup_collects_expired_witness:
  "\<exists>st' s'. session_StartCleanup 5 [CleanTick 4 [''a''], CleanTick 20 [''a'']] wit_sessions = Some st' \<and> metas st' ''a'' = None
     \<and> checkpoint_StartCleanup 5 [CleanTick 20 [''b'', ''a''], CleanDone] wit_checkpoints = Some s' \<and> ckItems s' ''a'' = None"
proof -
  have "list_all (session_idle ''a'') ([CleanTick 4 [''a'']] @ CleanTick 20 [''a''] # [])"
    "list_all (checkpoint_idle ''a'') ([] @ CleanTick 20 [''b'', ''a''] # [CleanDone])"
    by (simp_all add: idle_for_def valid_id_def)
  moreover have "metas wit_sessions ''a'' = Some wit_meta" "20 - smLastActive wit_meta > ttl wit_sessions"
    "ckItems wit_checkpoints ''a'' = Some \<lparr>ckData = ''data'', ckUpdated = 3\<rparr>" "20 - 3 > ckTTL wit_checkpoints"
    by (simp_all add: wit_sessions_def wit_meta_def wit_store_def wit_checkpoints_def ckSet_def NewMemoryCheckPointStore_def)
  ultimately show ?thesis
    using cleanup_collects_expired [of 5 "[CleanTick 4 [''a'']]" "[]" "''a''" 20 "[''a'']" "[]" wit_sessions wit_meta
        "''a''" 20 "[''b'', ''a'']" "[CleanDone]" wit_checkpoints "\<lparr>ckData = ''data'', ckUpdated = 3\<rparr>"]
    by (auto simp: valid_id_def)
qed

end
