(* ===== verification/Limiter_Janitor.thy ===== *)
theory Limiter_Janitor
  imports Rate_Limit Cleanup
begin

text \<open>
  The rate limiter with its janitor (\<open>NewIPRateLimiter\<close> and \<open>janitor\<close> in
  \<open>internal/infrastructure/ratelimit/ratelimit.go\<close>): every ten minutes the goroutine looks at each
  bucket and drops those not used for a day, while requests go on.
\<close>

subsection \<open>The goroutine\<close>

definition NewIPRateLimiter :: "rl_config \<Rightarrow> rl_config \<times> limiter" where
  "NewIPRateLimiter cfg = (cfg, Map.empty)"

definition inactive :: "int \<Rightarrow> ipBucket \<Rightarrow> bool" where
  \<comment> \<open>\<open>lastSeen.Before(cutoff)\<close>; a bucket never used has the zero time, before every cutoff\<close>
  "inactive now b = (case lastSeen b of None \<Rightarrow> True | Some t \<Rightarrow> t < now - day)"

definition janitor_visit :: "int \<Rightarrow> string \<Rightarrow> limiter \<Rightarrow> limiter" where
  "janitor_visit now ip rl = (case rl ip of None \<Rightarrow> rl | Some b \<Rightarrow> if inactive now b then rl(ip := None) else rl)"

definition janitor_sweep :: "int \<Rightarrow> string list \<Rightarrow> limiter \<Rightarrow> limiter" where
  \<comment> \<open>one tick, over the keys \<open>Range\<close> visits\<close>
  "janitor_sweep now keys rl = fold (janitor_visit now) keys rl"

definition janitor :: "limiter cleaner_event list \<Rightarrow> limiter \<Rightarrow> limiter" where
  "janitor es rl = cleaner janitor_sweep True es rl"

lemma janitor_sweep_bucket:
  "janitor_sweep now keys rl ip = (case rl ip of None \<Rightarrow> None | Some b \<Rightarrow> if ip \<in> set keys \<and> inactive now b then None else Some b)"
proof (induction keys arbitrary: rl)
  case (Cons k keys)
  have "janitor_visit now k rl ip = (case rl ip of None \<Rightarrow> None | Some b \<Rightarrow> if ip = k \<and> inactive now b then None else Some b)"
    by (auto simp: janitor_visit_def split: option.splits)
  with Cons [of "janitor_visit now k rl"] show ?case by (auto simp: janitor_sweep_def split: option.splits)
qed (simp add: janitor_sweep_def split: option.split)

lemma janitor_pass_sweep: "dom rl \<subseteq> set keys \<Longrightarrow> janitor_sweep now keys rl = janitor_pass now rl"
  by (rule ext) (auto simp: janitor_sweep_bucket janitor_pass_def inactive_def split: option.splits)

text \<open>The janitor is one more cleanup goroutine.\<close>

interpretation bucket_sweeps: swept_table janitor_sweep "\<lambda>rl. rl" "\<lambda>_ now b. inactive now b" "\<lambda>_. True"
  by unfold_locales (simp_all add: janitor_sweep_bucket)

lemma idle_bucket_collected:
  assumes "list_all (idle_for (\<lambda>_. True) (\<lambda>rl. rl) (\<lambda>_ now b. inactive now b) ip) (es @ CleanTick now keys # fs)"
    and "CleanDone \<notin> set es" "ip \<in> set keys" "\<And>b. rl ip = Some b \<Longrightarrow> inactive now b"
  shows "janitor (es @ CleanTick now keys # fs) rl ip = None"
  unfolding janitor_def by (rule bucket_sweeps.old_entry_removed [OF assms(1) TrueI assms(2,3)]) (rule assms(4))

subsection \<open>Requests and visits in any order\<close>

datatype limiter_event = Ask string int | Visit string int

fun when_of :: "limiter_event \<Rightarrow> int" where
  "when_of (Ask ip now) = now"
| "when_of (Visit ip now) = now"

fun is_ask :: "limiter_event \<Rightarrow> bool" where
  "is_ask (Ask ip now) = True"
| "is_ask (Visit ip now) = False"

fun limiter_run :: "rl_config \<Rightarrow> limiter_event list \<Rightarrow> limiter \<Rightarrow> (string \<times> bool) list \<times> limiter" where
  "limiter_run cfg [] rl = ([], rl)"
| "limiter_run cfg (Ask ip now # es) rl =
     (case Allow cfg (now, now, now) ip rl of
        (ok, rl') \<Rightarrow> (case limiter_run cfg es rl' of (os, rl'') \<Rightarrow> ((ip, ok) # os, rl'')))"
| "limiter_run cfg (Visit ip now # es) rl = limiter_run cfg es (janitor_visit now ip rl)"

text \<open>What a limiter that was swept (left) may lack: buckets that have been idle for a day at time T.\<close>

definition idle_bucket :: "rl_config \<Rightarrow> int \<Rightarrow> ipBucket \<Rightarrow> bool" where
  "idle_bucket cfg T b \<longleftrightarrow> bucket_ok cfg b \<and> (\<exists>t. lastSeen b = Some t \<and> t < T - day)"

definition swept_of :: "rl_config \<Rightarrow> int \<Rightarrow> limiter \<Rightarrow> limiter \<Rightarrow> bool" where
  "swept_of cfg T rl full \<longleftrightarrow> (\<forall>ip. rl ip = full ip \<or> rl ip = None \<and> (\<exists>b. full ip = Some b \<and> idle_bucket cfg T b))"

definition seen_by :: "rl_config \<Rightarrow> int \<Rightarrow> limiter \<Rightarrow> bool" where
  "seen_by cfg T rl \<longleftrightarrow> limiter_ok cfg rl \<and> (\<forall>ip b. rl ip = Some b \<longrightarrow> (\<exists>t \<le> T. lastSeen b = Some t))"

lemma idle_take_token:
  assumes "idle_bucket cfg T b" "T \<le> now"
  shows "take_token cfg now b = take_token cfg now (new_bucket now now)"
proof -
  obtain t where t: "lastSeen b = Some t" "t < T - day" "bucket_ok cfg b" using assms(1) by (auto simp: idle_bucket_def)
  then have "minuteReset b < now" "dayReset b < now" using assms(2) by (auto simp: bucket_ok_def day_def minute_def)
  then have "roll now (b\<lparr>lastSeen := Some now\<rparr>) = roll now ((new_bucket now now)\<lparr>lastSeen := Some now\<rparr>)"
    by (simp add: roll_def new_bucket_def Let_def minute_def day_def)
  then show ?thesis by (simp add: take_token_def)
qed

lemma idle_later: "idle_bucket cfg T b \<Longrightarrow> T \<le> now \<Longrightarrow> idle_bucket cfg now b"
  by (auto simp: idle_bucket_def)

lemma seen_by_Allow:
  assumes "seen_by cfg T rl" "T \<le> now" shows "seen_by cfg now (snd (Allow cfg (now, now, now) ip rl))"
proof -
  obtain ok b' where t: "take_token cfg now (case rl ip of Some b \<Rightarrow> b | None \<Rightarrow> new_bucket now now) = (ok, b')" by fastforce
  have "bucket_ok cfg b'"
  proof (cases "rl ip")
    case None
    with t show ?thesis using bucket_ok_take [of cfg now "new_bucket now now" ok b'] by (simp add: bucket_ok_new) (simp add: new_bucket_def)
  next
    case (Some b)
    with assms t show ?thesis using bucket_ok_take [of cfg now b ok b'] by (fastforce simp: seen_by_def limiter_ok_def)
  qed
  moreover have "lastSeen b' = Some now" using take_token_cases [OF t] by blast
  ultimately have new: "bucket_ok cfg b'" "lastSeen b' = Some now" by blast+
  have "bucket_ok cfg c \<and> (\<exists>t \<le> now. lastSeen c = Some t)" if c: "snd (Allow cfg (now, now, now) ip rl) j = Some c" for j c
  proof (cases "j = ip")
    case True
    with c new Allow_bucket [of cfg now rl ip ok b', OF t] show ?thesis by simp
  next
    case False
    with c Allow_bucket [of cfg now rl ip ok b', OF t] have "rl j = Some c" by simp
    with assms show ?thesis unfolding seen_by_def limiter_ok_def by (meson order_trans)
  qed
  then show ?thesis by (auto simp: seen_by_def limiter_ok_def)
qed

lemma swept_Allow:
  assumes "swept_of cfg T rl full" "T \<le> now"
  shows "fst (Allow cfg (now, now, now) ip rl) = fst (Allow cfg (now, now, now) ip full)
     \<and> swept_of cfg now (snd (Allow cfg (now, now, now) ip rl)) (snd (Allow cfg (now, now, now) ip full))"
proof -
  obtain ok b' where t: "take_token cfg now (case rl ip of Some b \<Rightarrow> b | None \<Rightarrow> new_bucket now now) = (ok, b')" by fastforce
  moreover have "take_token cfg now (case full ip of Some b \<Rightarrow> b | None \<Rightarrow> new_bucket now now) = (ok, b')"
    using assms(1) t idle_take_token [of cfg T _ now] assms(2) unfolding swept_of_def
    by (metis (mono_tags, lifting) option.simps(4,5))
  ultimately show ?thesis
    using assms idle_later [of cfg T _ now] by (auto simp: Allow_def swept_of_def)
qed

lemma swept_visit:
  assumes "swept_of cfg T rl full" "seen_by cfg T full" "T \<le> now"
  shows "swept_of cfg now (janitor_visit now ip rl) full"
proof -
  have "janitor_visit now ip rl k = full k \<or> janitor_visit now ip rl k = None \<and> (\<exists>b. full k = Some b \<and> idle_bucket cfg now b)" for k
  proof (cases "rl k = full k")
    case True
    have "idle_bucket cfg now b" if "full k = Some b" "inactive now b" for b
      using that assms(2) by (fastforce simp: seen_by_def limiter_ok_def idle_bucket_def inactive_def)
    with True show ?thesis by (cases "full ip") (auto simp: janitor_visit_def split: option.splits)
  next
    case False
    then obtain b where "rl k = None" "full k = Some b" "idle_bucket cfg now b"
      using assms(1,3) idle_later unfolding swept_of_def by metis
    then show ?thesis by (auto simp: janitor_visit_def split: option.splits)
  qed
  then show ?thesis unfolding swept_of_def by blast
qed

lemma seen_by_later: "seen_by cfg T rl \<Longrightarrow> T \<le> now \<Longrightarrow> seen_by cfg now rl"
  unfolding seen_by_def by (meson order_trans)

lemma limiter_run_swept:
  assumes "swept_of cfg T rl full" "seen_by cfg T full" "sorted (T # map when_of es)"
  shows "fst (limiter_run cfg es rl) = fst (limiter_run cfg (filter is_ask es) full)"
  using assms
proof (induction es arbitrary: T rl full)
  case (Cons e es)
  show ?case
  proof (cases e)
    case (Ask ip now)
    then have le: "T \<le> now" "sorted (now # map when_of es)" using Cons.prems(3) by auto
    from swept_Allow [OF Cons.prems(1) le(1), of ip] Cons.IH [OF _ seen_by_Allow [OF Cons.prems(2) le(1)] le(2)]
    show ?thesis using Ask by (simp split: prod.splits) (metis fst_conv snd_conv)
  next
    case (Visit ip now)
    then have le: "T \<le> now" "sorted (now # map when_of es)" using Cons.prems(3) by auto
    from Cons.IH [OF swept_visit [OF Cons.prems(1,2) le(1)] seen_by_later [OF Cons.prems(2) le(1)] le(2)]
    show ?thesis using Visit by simp
  qed
qed simp

text \<open>The two parts of a visit: the look at the bucket under its lock, and the removal after it.\<close>

definition visit_check :: "int \<Rightarrow> string \<Rightarrow> limiter \<Rightarrow> bool" where
  "visit_check now ip rl = (case rl ip of None \<Rightarrow> False | Some b \<Rightarrow> inactive now b)"

definition visit_drop :: "string \<Rightarrow> limiter \<Rightarrow> limiter" where
  "visit_drop ip rl = rl(ip := None)"

lemma janitor_visit_parts: "janitor_visit now ip rl = (if visit_check now ip rl then visit_drop ip rl else rl)"
  by (simp add: janitor_visit_def visit_check_def visit_drop_def split: option.split)



end
