(* ===== verification/Proto_Descriptors.thy ===== *)
theory Proto_Descriptors
  imports Grpc_Auth
begin

text \<open>
  The descriptors in the generated code (\<open>api/proto/codeRunner.pb.go\<close>, \<open>tokenIssuer.pb.go\<close>): bytes in
  the wire format of protocol buffers that say which messages, services and methods there are. They
  are read here as \<open>descriptor.proto\<close> defines them and compared with the \<open>.proto\<close> files, with the
  tags of the Go structs, and with the names of the JSON forms of \<open>Proto_Types\<close>.
\<close>

subsection \<open>The wire format\<close>

fun varint :: "nat \<Rightarrow> int list \<Rightarrow> (int \<times> int list) option" where
  \<comment> \<open>\<open>k\<close> more bytes may follow\<close>
  "varint k [] = None"
| "varint k (b # bs) =
     (if b < 128 then Some (b, bs)
      else if k = 0 then None
      else (case varint (k - 1) bs of None \<Rightarrow> None | Some (n, rest) \<Rightarrow> Some (b - 128 + 128 * n, rest)))"

lemma varint_shorter: "varint k bs = Some (n, rest) \<Longrightarrow> length rest < length bs"
  by (induction k bs arbitrary: n rest rule: varint.induct) (auto split: if_splits option.splits intro: less_SucI)

datatype wire_value = VarintValue int | BytesValue "int list"

text \<open>The fields of a message in their order; fixed-width values and groups do not occur in descriptors.\<close>

function wire_fields :: "int list \<Rightarrow> (int \<times> wire_value) list option" where
  "wire_fields bs =
     (if bs = [] then Some []
      else case varint 9 bs of
             None \<Rightarrow> None
           | Some (key, rest) \<Rightarrow>
               (case varint 9 rest of
                  None \<Rightarrow> None
                | Some (n, rest') \<Rightarrow>
                    if key mod 8 = 0 then map_option ((#) (key div 8, VarintValue n)) (wire_fields rest')
                    else if key mod 8 = 2 \<and> nat n \<le> length rest'
                    then map_option ((#) (key div 8, BytesValue (take (nat n) rest'))) (wire_fields (drop (nat n) rest'))
                    else None))"
  by pat_completeness auto

termination
  by (relation "measure length") (auto dest!: varint_shorter)

text \<open>The last occurrence of a field counts; an absent one is empty or 0.\<close>

definition bytes_of :: "int \<Rightarrow> (int \<times> wire_value) list \<Rightarrow> int list list" where
  "bytes_of k fs = concat (map (\<lambda>(n, v). case v of BytesValue bs \<Rightarrow> if n = k then [bs] else [] | VarintValue _ \<Rightarrow> []) fs)"

definition text_of :: "int \<Rightarrow> (int \<times> wire_value) list \<Rightarrow> string" where
  "text_of k fs = (case rev (bytes_of k fs) of [] \<Rightarrow> [] | bs # _ \<Rightarrow> map char_of bs)"

definition number_of :: "int \<Rightarrow> (int \<times> wire_value) list \<Rightarrow> int" where
  "number_of k fs = fold (\<lambda>(n, v) old. case v of VarintValue x \<Rightarrow> if n = k then x else old | BytesValue _ \<Rightarrow> old) fs 0"

text \<open>The messages a field holds, each read with \<open>f\<close>.\<close>

definition messages_of :: "(int list \<Rightarrow> 'd option) \<Rightarrow> int \<Rightarrow> (int \<times> wire_value) list \<Rightarrow> 'd list option" where
  "messages_of f k fs = those (map f (bytes_of k fs))"

subsection \<open>Descriptors\<close>

record field_desc =
  fdName :: string
  fdNumber :: int
  fdLabel :: int
  fdType :: int
  fdJson :: string

record message_desc =
  mdName :: string
  mdFields :: "field_desc list"

record method_desc =
  rpcName :: string
  rpcInput :: string
  rpcOutput :: string

record service_desc =
  sdName :: string
  sdMethods :: "method_desc list"

record file_desc =
  flName :: string
  flPackage :: string
  flMessages :: "message_desc list"
  flServices :: "service_desc list"
  flGoPackage :: string
  flSyntax :: string

definition decode_field :: "int list \<Rightarrow> field_desc option" where
  "decode_field bs = map_option
     (\<lambda>fs. \<lparr>fdName = text_of 1 fs, fdNumber = number_of 3 fs, fdLabel = number_of 4 fs, fdType = number_of 5 fs, fdJson = text_of 10 fs\<rparr>)
     (wire_fields bs)"

definition decode_message :: "int list \<Rightarrow> message_desc option" where
  "decode_message bs = Option.bind (wire_fields bs)
     (\<lambda>fs. map_option (\<lambda>ds. \<lparr>mdName = text_of 1 fs, mdFields = ds\<rparr>) (messages_of decode_field 2 fs))"

definition decode_method :: "int list \<Rightarrow> method_desc option" where
  "decode_method bs = map_option (\<lambda>fs. \<lparr>rpcName = text_of 1 fs, rpcInput = text_of 2 fs, rpcOutput = text_of 3 fs\<rparr>) (wire_fields bs)"

definition decode_service :: "int list \<Rightarrow> service_desc option" where
  "decode_service bs = Option.bind (wire_fields bs)
     (\<lambda>fs. map_option (\<lambda>ds. \<lparr>sdName = text_of 1 fs, sdMethods = ds\<rparr>) (messages_of decode_method 2 fs))"

definition decode_file :: "int list \<Rightarrow> file_desc option" where
  "decode_file bs = Option.bind (wire_fields bs)
     (\<lambda>fs. Option.bind (messages_of decode_message 4 fs)
        (\<lambda>ms. map_option (\<lambda>ss. \<lparr>flName = text_of 1 fs, flPackage = text_of 2 fs, flMessages = ms, flServices = ss,
             flGoPackage = (case bytes_of 8 fs of bs # _ \<Rightarrow> (case wire_fields bs of Some os \<Rightarrow> text_of 11 os | None \<Rightarrow> []) | [] \<Rightarrow> []), flSyntax = text_of 12 fs\<rparr>)
           (messages_of decode_service 6 fs)))"

subsection \<open>The descriptors of the generated code\<close>

definition codeRunner_rawDesc :: "int list" where
  "codeRunner_rawDesc =
    [0x0a, 0x10, 0x63, 0x6f, 0x64, 0x65, 0x52, 0x75, 0x6e, 0x6e, 0x65, 0x72, 0x2e, 0x70, 0x72, 0x6f, 0x74, 0x6f, 0x12, 0x0d,
     0x63, 0x6f, 0x64, 0x65, 0x52, 0x75, 0x6e, 0x6e, 0x65, 0x72, 0x2e, 0x76, 0x31, 0x22, 0x8e, 0x01, 0x0a, 0x0e, 0x45, 0x78,
     0x65, 0x63, 0x75, 0x74, 0x65, 0x52, 0x65, 0x71, 0x75, 0x65, 0x73, 0x74, 0x12, 0x0e, 0x0a, 0x02, 0x69, 0x64, 0x18, 0x01,
     0x20, 0x01, 0x28, 0x09, 0x52, 0x02, 0x69, 0x64, 0x12, 0x10, 0x0a, 0x03, 0x75, 0x69, 0x64, 0x18, 0x02, 0x20, 0x01, 0x28,
     0x0d, 0x52, 0x03, 0x75, 0x69, 0x64, 0x12, 0x1a, 0x0a, 0x08, 0x6c, 0x61, 0x6e, 0x67, 0x75, 0x61, 0x67, 0x65, 0x18, 0x03,
     0x20, 0x01, 0x28, 0x09, 0x52, 0x08, 0x6c, 0x61, 0x6e, 0x67, 0x75, 0x61, 0x67, 0x65, 0x12, 0x1c, 0x0a, 0x09, 0x63, 0x6f,
     0x64, 0x65, 0x42, 0x6c, 0x6f, 0x63, 0x6b, 0x18, 0x04, 0x20, 0x01, 0x28, 0x09, 0x52, 0x09, 0x63, 0x6f, 0x64, 0x65, 0x42,
     0x6c, 0x6f, 0x63, 0x6b, 0x12, 0x20, 0x0a, 0x0b, 0x63, 0x61, 0x6c, 0x6c, 0x42, 0x61, 0x63, 0x6b, 0x55, 0x72, 0x6c, 0x18,
     0x05, 0x20, 0x01, 0x28, 0x09, 0x52, 0x0b, 0x63, 0x61, 0x6c, 0x6c, 0x42, 0x61, 0x63, 0x6b, 0x55, 0x72, 0x6c, 0x22, 0x9b,
     0x01, 0x0a, 0x0f, 0x45, 0x78, 0x65, 0x63, 0x75, 0x74, 0x65, 0x52, 0x65, 0x73, 0x70, 0x6f, 0x6e, 0x73, 0x65, 0x12, 0x0e,
     0x0a, 0x02, 0x69, 0x64, 0x18, 0x01, 0x20, 0x01, 0x28, 0x09, 0x52, 0x02, 0x69, 0x64, 0x12, 0x10, 0x0a, 0x03, 0x75, 0x69,
     0x64, 0x18, 0x02, 0x20, 0x01, 0x28, 0x0d, 0x52, 0x03, 0x75, 0x69, 0x64, 0x12, 0x1a, 0x0a, 0x08, 0x67, 0x72, 0x70, 0x63,
     0x43, 0x6f, 0x64, 0x65, 0x18, 0x03, 0x20, 0x01, 0x28, 0x09, 0x52, 0x08, 0x67, 0x72, 0x70, 0x63, 0x43, 0x6f, 0x64, 0x65,
     0x12, 0x16, 0x0a, 0x06, 0x72, 0x65, 0x73, 0x75, 0x6c, 0x74, 0x18, 0x04, 0x20, 0x01, 0x28, 0x09, 0x52, 0x06, 0x72, 0x65,
     0x73, 0x75, 0x6c, 0x74, 0x12, 0x20, 0x0a, 0x0b, 0x63, 0x61, 0x6c, 0x6c, 0x42, 0x61, 0x63, 0x6b, 0x55, 0x72, 0x6c, 0x18,
     0x05, 0x20, 0x01, 0x28, 0x09, 0x52, 0x0b, 0x63, 0x61, 0x6c, 0x6c, 0x42, 0x61, 0x63, 0x6b, 0x55, 0x72, 0x6c, 0x12, 0x10,
     0x0a, 0x03, 0x65, 0x72, 0x72, 0x18, 0x06, 0x20, 0x01, 0x28, 0x09, 0x52, 0x03, 0x65, 0x72, 0x72, 0x32, 0x58, 0x0a, 0x0a,
     0x43, 0x6f, 0x64, 0x65, 0x52, 0x75, 0x6e, 0x6e, 0x65, 0x72, 0x12, 0x4a, 0x0a, 0x07, 0x45, 0x78, 0x65, 0x63, 0x75, 0x74,
     0x65, 0x12, 0x1d, 0x2e, 0x63, 0x6f, 0x64, 0x65, 0x52, 0x75, 0x6e, 0x6e, 0x65, 0x72, 0x2e, 0x76, 0x31, 0x2e, 0x45, 0x78,
     0x65, 0x63, 0x75, 0x74, 0x65, 0x52, 0x65, 0x71, 0x75, 0x65, 0x73, 0x74, 0x1a, 0x1e, 0x2e, 0x63, 0x6f, 0x64, 0x65, 0x52,
     0x75, 0x6e, 0x6e, 0x65, 0x72, 0x2e, 0x76, 0x31, 0x2e, 0x45, 0x78, 0x65, 0x63, 0x75, 0x74, 0x65, 0x52, 0x65, 0x73, 0x70,
     0x6f, 0x6e, 0x73, 0x65, 0x22, 0x00, 0x42, 0x09, 0x5a, 0x07, 0x2e, 0x3b, 0x70, 0x72, 0x6f, 0x74, 0x6f, 0x62, 0x06, 0x70,
     0x72, 0x6f, 0x74, 0x6f, 0x33]"

definition tokenIssuer_rawDesc :: "int list" where
  "tokenIssuer_rawDesc =
    [0x0a, 0x11, 0x74, 0x6f, 0x6b, 0x65, 0x6e, 0x49, 0x73, 0x73, 0x75, 0x65, 0x72, 0x2e, 0x70, 0x72, 0x6f, 0x74, 0x6f, 0x12,
     0x0d, 0x63, 0x6f, 0x64, 0x65, 0x52, 0x75, 0x6e, 0x6e, 0x65, 0x72, 0x2e, 0x76, 0x31, 0x22, 0x46, 0x0a, 0x14, 0x47, 0x65,
     0x6e, 0x65, 0x72, 0x61, 0x74, 0x65, 0x54, 0x6f, 0x6b, 0x65, 0x6e, 0x52, 0x65, 0x71, 0x75, 0x65, 0x73, 0x74, 0x12, 0x12,
     0x0a, 0x04, 0x6e, 0x61, 0x6d, 0x65, 0x18, 0x01, 0x20, 0x01, 0x28, 0x09, 0x52, 0x04, 0x6e, 0x61, 0x6d, 0x65, 0x12, 0x1a,
     0x0a, 0x08, 0x70, 0x61, 0x73, 0x73, 0x77, 0x6f, 0x72, 0x64, 0x18, 0x02, 0x20, 0x01, 0x28, 0x09, 0x52, 0x08, 0x70, 0x61,
     0x73, 0x73, 0x77, 0x6f, 0x72, 0x64, 0x22, 0x2d, 0x0a, 0x15, 0x47, 0x65, 0x6e, 0x65, 0x72, 0x61, 0x74, 0x65, 0x54, 0x6f,
     0x6b, 0x65, 0x6e, 0x52, 0x65, 0x73, 0x70, 0x6f, 0x6e, 0x73, 0x65, 0x12, 0x14, 0x0a, 0x05, 0x74, 0x6f, 0x6b, 0x65, 0x6e,
     0x18, 0x01, 0x20, 0x01, 0x28, 0x09, 0x52, 0x05, 0x74, 0x6f, 0x6b, 0x65, 0x6e, 0x32, 0x6b, 0x0a, 0x0b, 0x74, 0x6f, 0x6b,
     0x65, 0x6e, 0x49, 0x73, 0x73, 0x75, 0x65, 0x72, 0x12, 0x5c, 0x0a, 0x0d, 0x47, 0x65, 0x6e, 0x65, 0x72, 0x61, 0x74, 0x65,
     0x54, 0x6f, 0x6b, 0x65, 0x6e, 0x12, 0x23, 0x2e, 0x63, 0x6f, 0x64, 0x65, 0x52, 0x75, 0x6e, 0x6e, 0x65, 0x72, 0x2e, 0x76,
     0x31, 0x2e, 0x47, 0x65, 0x6e, 0x65, 0x72, 0x61, 0x74, 0x65, 0x54, 0x6f, 0x6b, 0x65, 0x6e, 0x52, 0x65, 0x71, 0x75, 0x65,
     0x73, 0x74, 0x1a, 0x24, 0x2e, 0x63, 0x6f, 0x64, 0x65, 0x52, 0x75, 0x6e, 0x6e, 0x65, 0x72, 0x2e, 0x76, 0x31, 0x2e, 0x47,
     0x65, 0x6e, 0x65, 0x72, 0x61, 0x74, 0x65, 0x54, 0x6f, 0x6b, 0x65, 0x6e, 0x52, 0x65, 0x73, 0x70, 0x6f, 0x6e, 0x73, 0x65,
     0x22, 0x00, 0x42, 0x09, 0x5a, 0x07, 0x2e, 0x3b, 0x70, 0x72, 0x6f, 0x74, 0x6f, 0x62, 0x06, 0x70, 0x72, 0x6f, 0x74, 0x6f,
     0x33]"

subsection \<open>The \<open>.proto\<close> files\<close>

text \<open>A singular field of type \<open>string\<close> (9) or \<open>uint32\<close> (13); its JSON name is its name.\<close>

definition string_of :: "string \<Rightarrow> int \<Rightarrow> field_desc" where
  "string_of name n = \<lparr>fdName = name, fdNumber = n, fdLabel = 1, fdType = 9, fdJson = name\<rparr>"

definition uint32_of :: "string \<Rightarrow> int \<Rightarrow> field_desc" where
  "uint32_of name n = \<lparr>fdName = name, fdNumber = n, fdLabel = 1, fdType = 13, fdJson = name\<rparr>"

definition codeRunner_proto :: file_desc where
  "codeRunner_proto =
     \<lparr>flName = ''codeRunner.proto'', flPackage = ''codeRunner.v1'',
      flMessages =
        [\<lparr>mdName = ''ExecuteRequest'', mdFields =
            [string_of ''id'' 1, uint32_of ''uid'' 2, string_of ''language'' 3, string_of ''codeBlock'' 4, string_of ''callBackUrl'' 5]\<rparr>,
         \<lparr>mdName = ''ExecuteResponse'', mdFields =
            [string_of ''id'' 1, uint32_of ''uid'' 2, string_of ''grpcCode'' 3, string_of ''result'' 4, string_of ''callBackUrl'' 5,
             string_of ''err'' 6]\<rparr>],
      flServices =
        [\<lparr>sdName = ''CodeRunner'', sdMethods =
            [\<lparr>rpcName = ''Execute'', rpcInput = ''.codeRunner.v1.ExecuteRequest'', rpcOutput = ''.codeRunner.v1.ExecuteResponse''\<rparr>]\<rparr>],
      flGoPackage = ''.;proto'', flSyntax = ''proto3''\<rparr>"

definition tokenIssuer_proto :: file_desc where
  "tokenIssuer_proto =
     \<lparr>flName = ''tokenIssuer.proto'', flPackage = ''codeRunner.v1'',
      flMessages =
        [\<lparr>mdName = ''GenerateTokenRequest'', mdFields = [string_of ''name'' 1, string_of ''password'' 2]\<rparr>,
         \<lparr>mdName = ''GenerateTokenResponse'', mdFields = [string_of ''token'' 1]\<rparr>],
      flServices =
        [\<lparr>sdName = ''tokenIssuer'', sdMethods =
            [\<lparr>rpcName = ''GenerateToken'', rpcInput = ''.codeRunner.v1.GenerateTokenRequest'',
              rpcOutput = ''.codeRunner.v1.GenerateTokenResponse''\<rparr>]\<rparr>],
      flGoPackage = ''.;proto'', flSyntax = ''proto3''\<rparr>"

lemma decode_codeRunner: "decode_file codeRunner_rawDesc = Some codeRunner_proto"
  by code_simp

lemma decode_tokenIssuer: "decode_file tokenIssuer_rawDesc = Some tokenIssuer_proto"
  by code_simp

end
