(* ===== verification/Redispatch.thy ===== *)
theory Redispatch
  imports Server_Service
begin

text \<open>
  What becomes of the requests a worker has not acknowledged when its connection ends (the end of
  \<open>Run\<close> in \<open>internal/application/service/server/service.go\<close>), when the connection is marked closed and
  other workers are there. \<open>Server_Service\<close> has the case in which they are lost.
\<close>

subsection \<open>One execution with a live worker to pick\<close>

definition alive :: "string \<Rightarrow> P2CBalancer ClientManager \<Rightarrow> bool" where
  "alive j s \<longleftrightarrow> (\<exists>d. clients s j = Some d \<and> \<not> client_closed d s)"

text \<open>Someone can be picked, and whoever is picked has a table of pending requests.\<close>

definition can_serve :: "P2CBalancer ClientManager \<Rightarrow> bool" where
  "can_serve s \<longleftrightarrow> registry_ok s \<and> card (dead s) \<le> 2 \<and> (\<exists>j. alive j s) \<and> (\<forall>j. alive j s \<longrightarrow> pendingReqs s j \<noteq> None)"

definition execute_msg :: "ExecuteRequest \<Rightarrow> WsMessage" where
  "execute_msg q = \<lparr>msgType = MsgTypeExecute, RequestID = reqId q, Payload = request_json q\<rparr>"

text \<open>The request is with a live worker: written to its connection, and tracked there.\<close>

definition placed :: "ExecuteRequest \<Rightarrow> string \<Rightarrow> P2CBalancer ClientManager \<Rightarrow> bool" where
  "placed q j s \<longleftrightarrow> (\<exists>d. clients s j = Some d \<and> \<not> client_closed d s \<and> execute_msg q \<in> set (wsWritten (conns s (wsConn d))))
     \<and> (\<exists>p. pendingReqs s j = Some p \<and> p (reqId q) = Some q)"

lemma finite_dead: "registry_ok s \<Longrightarrow> finite (dead s)"
  by (rule finite_subset [of _ "dom (clients s)"]) (auto simp: dead_def registry_ok_def cm_inv_def)

lemma Execute_places:
  assumes "can_serve s" and "writeErr e = None"
  obtains s' j where "Execute (p2c_lb F) e q s = (None, s')" "can_serve s'" "placed q j s'" "alive j s"
    "\<And>i. alive i s' = alive i s" "\<And>r j. placed r j s \<Longrightarrow> reqId r \<noteq> reqId q \<Longrightarrow> placed r j s'"
    "\<And>x. client_closed x s' = client_closed x s" "\<And>i. clients s' i = clients s i \<or> clients s' i = None"
proof -
  have ok: "registry_ok s" "card (dead s) < maxRetryPickClient" and tables: "\<And>j. alive j s \<Longrightarrow> pendingReqs s j \<noteq> None"
    using assms(1) by (auto simp: can_serve_def maxRetryPickClient_def)
  note inv = ok(1) [unfolded registry_ok_def]
  obtain i0 d0 where "clients s i0 = Some d0" "\<not> client_closed d0 s" using assms(1) by (auto simp: can_serve_def alive_def)
  from cm.pick_loop_succeeds [OF inv ok(2) this] obtain c s1
    where p: "pick_loop (p2c_lb F) (pickEnv e) maxRetryPickClient s = (Inr c, s1)" by blast
  note live = cm.pick_loop_Inr [OF inv p]
  have al: "alive (clientId c) s"
    using live by (auto simp: alive_def client_closed_def) (metis option.distinct(1))
  then obtain tb where tb: "pendingReqs s (clientId c) = Some tb" using tables by blast
  obtain s2 where w: "client_Send None c q s1 = (None, s2)" "conns s2 = (conns s)(wsConn c := (conns s (wsConn c))\<lparr>wsWritten :=
       wsWritten (conns s (wsConn c)) @ [execute_msg q]\<rparr>)"
    using live by (auto simp: client_Send_def ws_Send_def ws_write_def execute_msg_def)
  note fr = client_Send_simps [OF w(1)]
  let ?s' = "TrackRequest (clientId c) (reqId q) q (cm_Done (p2c_lb F) (clientId c) (took e) False (nowDone e) s2)"
  have ex: "Execute (p2c_lb F) e q s = (None, ?s')"
    using p w(1) assms(2) by (simp add: Execute_def GetClientByBalance_def Let_def)
  have pend: "pendingReqs ?s' = (pendingReqs s)(clientId c \<mapsto> tb(reqId q \<mapsto> q))"
    using fr live tb by (simp add: TrackRequest_def cm_Done_def)
  have cl: "clients ?s' = clients s1" and cn: "conns ?s' = conns s2" using fr by (simp_all add: cm_Done_def)
  have closed: "client_closed x ?s' = client_closed x s" for x using w(2) cn by (simp add: client_closed_def ws_IsClosed_def)
  have ids: "\<And>i x. clients s i = Some x \<Longrightarrow> \<not> client_closed x s \<Longrightarrow> clients s1 i = Some x"
    using live by (auto simp: dead_def) (metis option.inject)
  have old: "\<And>i x. clients s1 i = Some x \<Longrightarrow> clients s i = Some x" using live by (metis option.distinct(1))
  have alive': "alive i ?s' = alive i s" for i unfolding alive_def cl closed using ids old by blast
  have ok': "registry_ok ?s'" using cm.inv_Execute [OF inv, of F e q] ex by (simp add: registry_ok_def)
  have "dead ?s' \<subseteq> dead s" using cl closed old by (auto simp: dead_def)
  then have "card (dead ?s') \<le> 2" using card_mono [OF finite_dead [OF ok(1)]] assms(1) by (meson can_serve_def le_trans)
  moreover have "pendingReqs ?s' j \<noteq> None" if "alive j ?s'" for j using that tables [of j] alive' pend by auto
  ultimately have serve': "can_serve ?s'" using ok' assms(1) alive' by (auto simp: can_serve_def)
  have placed_here: "placed q (clientId c) ?s'"
    using live cl closed pend w(2) cn by (auto simp: placed_def client_closed_def ws_IsClosed_def)
  have stays: "placed r j ?s'" if "placed r j s" "reqId r \<noteq> reqId q" for r j
    using that ids [of j] cl closed pend w(2) cn tb by (fastforce simp: placed_def)
  have gone: "clients ?s' i = clients s i \<or> clients ?s' i = None" for i using live cl by metis
  from that [OF ex serve' placed_here al alive' stays closed gone] show thesis .
qed

subsection \<open>All of them\<close>

lemma redispatch_places:
  assumes "can_serve s" "distinct (map reqId qs)" "\<forall>n. writeErr (envs n) = None"
    and "clients s i = Some c \<or> clients s i = None" "client_closed c s"
  shows "let s' = redispatch (p2c_lb F) envs qs s
    in can_serve s' \<and> client_closed c s' \<and> (clients s' i = Some c \<or> clients s' i = None)
     \<and> (\<forall>q \<in> set qs. \<exists>j. placed q j s') \<and> (\<forall>r j. placed r j s \<longrightarrow> reqId r \<notin> reqId ` set qs \<longrightarrow> placed r j s')"
  using assms
proof (induction qs arbitrary: s)
  case Nil
  then show ?case by simp
next
  case (Cons q qs)
  from Cons.prems(3) have "writeErr (envs (length qs)) = None" by simp
  from Execute_places [OF Cons.prems(1) this, of F q] obtain s1 j where s1: "Execute (p2c_lb F) (envs (length qs)) q s = (None, s1)"
    "can_serve s1" "placed q j s1" "\<And>r j. placed r j s \<Longrightarrow> reqId r \<noteq> reqId q \<Longrightarrow> placed r j s1"
    "\<And>x. client_closed x s1 = client_closed x s" "\<And>i. clients s1 i = clients s i \<or> clients s1 i = None"
    by metis
  let ?s' = "redispatch (p2c_lb F) envs qs s1"
  have "clients s1 i = Some c \<or> clients s1 i = None" using s1(6) Cons.prems(4) by metis
  moreover have "client_closed c s1" using s1(5) Cons.prems(5) by simp
  ultimately have IH: "can_serve ?s'" "client_closed c ?s'" "clients ?s' i = Some c \<or> clients ?s' i = None"
    "\<forall>q \<in> set qs. \<exists>j. placed q j ?s'" "\<And>r j. placed r j s1 \<Longrightarrow> reqId r \<notin> reqId ` set qs \<Longrightarrow> placed r j ?s'"
    using Cons.IH [of s1] s1(2) Cons.prems(2,3) by (simp_all add: Let_def)
  have "placed q j ?s'" using IH(5) s1(3) Cons.prems(2) by simp
  then have "\<exists>j. placed q j ?s'" ..
  moreover have "redispatch (p2c_lb F) envs (q # qs) s = ?s'" by (simp add: s1(1))
  ultimately show ?case using IH s1(4) by (simp add: Let_def)
qed

lemma RemoveClient_after_close:
  assumes "clients s i = Some c \<or> clients s i = None" "client_closed c s"
  shows "clients (snd (RemoveClient lb cerr i s)) i = None"
    and "placed q j s \<Longrightarrow> j \<noteq> i \<and> placed q j (snd (RemoveClient lb cerr i s))"
proof -
  have rm: "clients s i = Some c \<Longrightarrow> RemoveClient lb cerr i s
      = (None, s\<lparr>clients := map_delete i (clients s), balancer := lbRemove lb i (balancer s)\<rparr>)"
    using RemoveClient_closed assms(2) by blast
  have none: "clients s i = None \<Longrightarrow> snd (RemoveClient lb cerr i s) = s" by (simp add: RemoveClient_def GetClientById_def)
  show "clients (snd (RemoveClient lb cerr i s)) i = None" using assms(1) rm none by auto
  show "j \<noteq> i \<and> placed q j (snd (RemoveClient lb cerr i s))" if "placed q j s"
    using that assms rm none by (auto simp: placed_def client_closed_def map_delete_def)
qed


definition two_workers :: "P2CBalancer ClientManager" where
  \<comment> \<open>the first, with a request, has lost its connection\<close>
  "two_workers =
     (let s = TrackRequest ''w1'' ''q'' (zeroRequest\<lparr>reqId := ''q''\<rparr>) (AddClient (p2c_lb exact_float) 0 (NewClient ''w2'' 1) 1 one_worker)
      in s\<lparr>conns := (conns s)(0 := snd (ws_Close None (conns s 0)))\<rparr>)"

lemma two_workers_facts:
  "clients two_workers = [''w1'' \<mapsto> NewClient ''w1'' 0, ''w2'' \<mapsto> NewClient ''w2'' 1]"
  "pendingReqs two_workers = [''w1'' \<mapsto> [''q'' \<mapsto> zeroRequest\<lparr>reqId := ''q''\<rparr>], ''w2'' \<mapsto> (\<lambda>_. None)]"
  "client_closed x two_workers = (wsConn x = 0)" "registry_ok two_workers"
proof -
  have t: "pendingReqs (AddClient (p2c_lb exact_float) 0 (NewClient ''w2'' 1) 1 one_worker)
      = [''w1'' \<mapsto> (\<lambda>_. None), ''w2'' \<mapsto> (\<lambda>_. None)]" by (simp add: AddClient_def NewClient_def one_worker_clients)
  show "clients two_workers = [''w1'' \<mapsto> NewClient ''w1'' 0, ''w2'' \<mapsto> NewClient ''w2'' 1]"
    "pendingReqs two_workers = [''w1'' \<mapsto> [''q'' \<mapsto> zeroRequest\<lparr>reqId := ''q''\<rparr>], ''w2'' \<mapsto> (\<lambda>_. None)]"
    "client_closed x two_workers = (wsConn x = 0)"
    using t by (auto simp: two_workers_def TrackRequest_def AddClient_def NewClient_def one_worker_clients client_closed_def
        ws_IsClosed_def ws_Close_def NewWebsocketClientImpl_def Let_def fun_upd_twist)
  have "registry_ok (AddClient (p2c_lb exact_float) 0 (NewClient ''w2'' 1) 1 one_worker)"
    using cm.inv_AddClient registry_ok_one_worker by (simp add: registry_ok_def)
  then show "registry_ok two_workers"
    by (simp add: two_workers_def registry_ok_def cm_inv_def TrackRequest_def Let_def split: option.splits)
qed


end
