(* ===== verification/Grpc_Stubs.thy ===== *)
theory Grpc_Stubs
  imports Proto_Descriptors Redispatch
begin

text \<open>
  The generated code around the messages (\<open>api/proto/codeRunner.pb.go\<close>, \<open>tokenIssuer.pb.go\<close>): getters,
  client stubs, method handlers and service descriptions; the server that registers both services
  behind the interceptor (\<open>internal/infrastructure/grpc/grpcRegistry.go\<close>). The runtime libraries are
  parameters: marshalling, the routing of a path to a method, and a client's connection.
\<close>

subsection \<open>Getters, which also read a nil message\<close>

record GenerateTokenResponse =
  grToken :: string

definition req_GetId :: "ExecuteRequest option \<Rightarrow> string" where
  "req_GetId x = (case x of Some r \<Rightarrow> reqId r | None \<Rightarrow> [])"

definition req_GetUid :: "ExecuteRequest option \<Rightarrow> 32 word" where
  "req_GetUid x = (case x of Some r \<Rightarrow> reqUid r | None \<Rightarrow> 0)"

definition req_GetLanguage :: "ExecuteRequest option \<Rightarrow> string" where
  "req_GetLanguage x = (case x of Some r \<Rightarrow> Language r | None \<Rightarrow> [])"

definition req_GetCodeBlock :: "ExecuteRequest option \<Rightarrow> string" where
  "req_GetCodeBlock x = (case x of Some r \<Rightarrow> CodeBlock r | None \<Rightarrow> [])"

definition req_GetCallBackUrl :: "ExecuteRequest option \<Rightarrow> string" where
  "req_GetCallBackUrl x = (case x of Some r \<Rightarrow> reqCallBackUrl r | None \<Rightarrow> [])"

definition resp_GetId :: "ExecuteResponse option \<Rightarrow> string" where
  "resp_GetId x = (case x of Some r \<Rightarrow> respId r | None \<Rightarrow> [])"

definition resp_GetUid :: "ExecuteResponse option \<Rightarrow> 32 word" where
  "resp_GetUid x = (case x of Some r \<Rightarrow> respUid r | None \<Rightarrow> 0)"

definition resp_GetGrpcCode :: "ExecuteResponse option \<Rightarrow> string" where
  "resp_GetGrpcCode x = (case x of Some r \<Rightarrow> GrpcCode r | None \<Rightarrow> [])"

definition resp_GetResult :: "ExecuteResponse option \<Rightarrow> string" where
  "resp_GetResult x = (case x of Some r \<Rightarrow> Result r | None \<Rightarrow> [])"

definition resp_GetCallBackUrl :: "ExecuteResponse option \<Rightarrow> string" where
  "resp_GetCallBackUrl x = (case x of Some r \<Rightarrow> respCallBackUrl r | None \<Rightarrow> [])"

definition resp_GetErr :: "ExecuteResponse option \<Rightarrow> string" where
  "resp_GetErr x = (case x of Some r \<Rightarrow> Err r | None \<Rightarrow> [])"

definition tokreq_GetName :: "GenerateTokenRequest option \<Rightarrow> string" where
  "tokreq_GetName x = (case x of Some r \<Rightarrow> gtName r | None \<Rightarrow> [])"

definition tokreq_GetPassword :: "GenerateTokenRequest option \<Rightarrow> string" where
  "tokreq_GetPassword x = (case x of Some r \<Rightarrow> gtPassword r | None \<Rightarrow> [])"

definition tokresp_GetToken :: "GenerateTokenResponse option \<Rightarrow> string" where
  "tokresp_GetToken x = (case x of Some r \<Rightarrow> grToken r | None \<Rightarrow> [])"

lemmas request_getter_defs = req_GetId_def req_GetUid_def req_GetLanguage_def req_GetCodeBlock_def req_GetCallBackUrl_def
lemmas response_getter_defs = resp_GetId_def resp_GetUid_def resp_GetGrpcCode_def resp_GetResult_def resp_GetCallBackUrl_def
  resp_GetErr_def

text \<open>The getters under the JSON names of their fields.\<close>

definition request_getters :: "(string \<times> (ExecuteRequest option \<Rightarrow> json)) list" where
  "request_getters =
     [(''id'', \<lambda>x. JStr (req_GetId x)), (''uid'', \<lambda>x. JNum (uint (req_GetUid x))), (''language'', \<lambda>x. JStr (req_GetLanguage x)),
      (''codeBlock'', \<lambda>x. JStr (req_GetCodeBlock x)), (''callBackUrl'', \<lambda>x. JStr (req_GetCallBackUrl x))]"

definition response_getters :: "(string \<times> (ExecuteResponse option \<Rightarrow> json)) list" where
  "response_getters =
     [(''id'', \<lambda>x. JStr (resp_GetId x)), (''uid'', \<lambda>x. JNum (uint (resp_GetUid x))), (''grpcCode'', \<lambda>x. JStr (resp_GetGrpcCode x)),
      (''result'', \<lambda>x. JStr (resp_GetResult x)), (''callBackUrl'', \<lambda>x. JStr (resp_GetCallBackUrl x)), (''err'', \<lambda>x. JStr (resp_GetErr x))]"

text \<open>What the getters read of a message, where it is not what they read of nil.\<close>

definition read_fields :: "(string \<times> ('m option \<Rightarrow> json)) list \<Rightarrow> 'm \<Rightarrow> (string \<times> json) list" where
  "read_fields gs m = map (\<lambda>(n, g). (n, g (Some m))) (filter (\<lambda>(n, g). g (Some m) \<noteq> g None) gs)"

subsection \<open>The structs and their tags\<close>

text \<open>Go name, protobuf tag and JSON tag of the fields.\<close>

type_synonym go_tags = "(string \<times> string \<times> string) list"

definition ExecuteRequest_tags :: go_tags where
  "ExecuteRequest_tags =
     [(''Id'', ''bytes,1,opt,name=id,proto3'', ''id,omitempty''),
      (''Uid'', ''varint,2,opt,name=uid,proto3'', ''uid,omitempty''),
      (''Language'', ''bytes,3,opt,name=language,proto3'', ''language,omitempty''),
      (''CodeBlock'', ''bytes,4,opt,name=codeBlock,proto3'', ''codeBlock,omitempty''),
      (''CallBackUrl'', ''bytes,5,opt,name=callBackUrl,proto3'', ''callBackUrl,omitempty'')]"

definition ExecuteResponse_tags :: go_tags where
  "ExecuteResponse_tags =
     [(''Id'', ''bytes,1,opt,name=id,proto3'', ''id,omitempty''),
      (''Uid'', ''varint,2,opt,name=uid,proto3'', ''uid,omitempty''),
      (''GrpcCode'', ''bytes,3,opt,name=grpcCode,proto3'', ''grpcCode,omitempty''),
      (''Result'', ''bytes,4,opt,name=result,proto3'', ''result,omitempty''),
      (''CallBackUrl'', ''bytes,5,opt,name=callBackUrl,proto3'', ''callBackUrl,omitempty''),
      (''Err'', ''bytes,6,opt,name=err,proto3'', ''err,omitempty'')]"

definition GenerateTokenRequest_tags :: go_tags where
  "GenerateTokenRequest_tags =
     [(''Name'', ''bytes,1,opt,name=name,proto3'', ''name,omitempty''),
      (''Password'', ''bytes,2,opt,name=password,proto3'', ''password,omitempty'')]"

definition GenerateTokenResponse_tags :: go_tags where
  "GenerateTokenResponse_tags = [(''Token'', ''bytes,1,opt,name=token,proto3'', ''token,omitempty'')]"

definition capital :: "char \<Rightarrow> char" where
  "capital c = char_of (of_char c - (32 :: nat))"

text \<open>The tags the generator writes for a described field.\<close>

definition tags_of :: "field_desc \<Rightarrow> string \<times> string \<times> string" where
  "tags_of f =
     ((case fdName f of [] \<Rightarrow> [] | c # cs \<Rightarrow> capital c # cs),
      (if fdType f = 13 then ''varint'' else ''bytes'') @ '','' @ Itoa (fdNumber f) @ (if fdLabel f = 1 then '',opt'' else '',rep'')
        @ '',name='' @ fdName f @ (if fdJson f = fdName f then [] else '',json='' @ fdJson f) @ '',proto3'',
      fdJson f @ '',omitempty'')"

subsection \<open>Services\<close>

datatype rpc_error = RpcError grpc_error | TokenError token_error | DecodeError string | Unimplemented string

text \<open>What a method handler comes to: the service's method applied to the request, or an answer without it.\<close>

datatype 'r served = Ran 'r | Failed rpc_error | Exited

fun of_intercepted :: "'r intercepted \<Rightarrow> 'r served" where
  "of_intercepted (Handled ctx r) = Ran r"
| "of_intercepted (Refused e) = Failed (RpcError e)"
| "of_intercepted ProcessExit = Exited"

type_synonym 'r interceptor = "trace_ctx \<Rightarrow> string \<Rightarrow> (trace_ctx \<Rightarrow> 'r) \<Rightarrow> 'r intercepted"

definition CodeRunner_Execute_Handler :: "(trace_ctx \<Rightarrow> ExecuteRequest \<Rightarrow> 'r) \<Rightarrow> trace_ctx \<Rightarrow> (string, ExecuteRequest) result
    \<Rightarrow> 'r interceptor option \<Rightarrow> 'r served" where
  "CodeRunner_Execute_Handler srv ctx dec ic =
     (case dec of
        Inl err \<Rightarrow> Failed (DecodeError err)
      | Inr inp \<Rightarrow>
          (case ic of
             None \<Rightarrow> Ran (srv ctx inp)
           | Some interceptor \<Rightarrow> of_intercepted (interceptor ctx ''/codeRunner.v1.CodeRunner/Execute'' (\<lambda>ctx. srv ctx inp))))"

definition TokenIssuer_GenerateToken_Handler :: "(trace_ctx \<Rightarrow> GenerateTokenRequest \<Rightarrow> 'r) \<Rightarrow> trace_ctx
    \<Rightarrow> (string, GenerateTokenRequest) result \<Rightarrow> 'r interceptor option \<Rightarrow> 'r served" where
  "TokenIssuer_GenerateToken_Handler srv ctx dec ic =
     (case dec of
        Inl err \<Rightarrow> Failed (DecodeError err)
      | Inr inp \<Rightarrow>
          (case ic of
             None \<Rightarrow> Ran (srv ctx inp)
           | Some interceptor \<Rightarrow> of_intercepted (interceptor ctx ''/codeRunner.v1.tokenIssuer/GenerateToken'' (\<lambda>ctx. srv ctx inp))))"

record 'r grpc_method =
  gmName :: string
  gmHandler :: "trace_ctx \<Rightarrow> string \<Rightarrow> 'r interceptor option \<Rightarrow> 'r served"    \<comment> \<open>with the request's bytes\<close>

record 'r grpc_service =
  gsName :: string
  gsMethods :: "'r grpc_method list"
  gsMetadata :: string

definition CodeRunner_serviceDesc :: "(string \<Rightarrow> (string, ExecuteRequest) result) \<Rightarrow> (trace_ctx \<Rightarrow> ExecuteRequest \<Rightarrow> 'r)
    \<Rightarrow> 'r grpc_service" where
  "CodeRunner_serviceDesc dec srv =
     \<lparr>gsName = ''codeRunner.v1.CodeRunner'',
      gsMethods = [\<lparr>gmName = ''Execute'', gmHandler = (\<lambda>ctx bs. CodeRunner_Execute_Handler srv ctx (dec bs))\<rparr>],
      gsMetadata = ''codeRunner.proto''\<rparr>"

definition TokenIssuer_serviceDesc :: "(string \<Rightarrow> (string, GenerateTokenRequest) result) \<Rightarrow> (trace_ctx \<Rightarrow> GenerateTokenRequest \<Rightarrow> 'r)
    \<Rightarrow> 'r grpc_service" where
  "TokenIssuer_serviceDesc dec srv =
     \<lparr>gsName = ''codeRunner.v1.tokenIssuer'',
      gsMethods = [\<lparr>gmName = ''GenerateToken'', gmHandler = (\<lambda>ctx bs. TokenIssuer_GenerateToken_Handler srv ctx (dec bs))\<rparr>],
      gsMetadata = ''tokenIssuer.proto''\<rparr>"

definition RegisterCodeRunnerServer :: "(string \<Rightarrow> (string, ExecuteRequest) result) \<Rightarrow> (trace_ctx \<Rightarrow> ExecuteRequest \<Rightarrow> 'r)
    \<Rightarrow> 'r grpc_service list \<Rightarrow> 'r grpc_service list" where
  "RegisterCodeRunnerServer dec srv s = s @ [CodeRunner_serviceDesc dec srv]"

definition RegisterTokenIssuerServer :: "(string \<Rightarrow> (string, GenerateTokenRequest) result) \<Rightarrow> (trace_ctx \<Rightarrow> GenerateTokenRequest \<Rightarrow> 'r)
    \<Rightarrow> 'r grpc_service list \<Rightarrow> 'r grpc_service list" where
  "RegisterTokenIssuerServer dec srv s = s @ [TokenIssuer_serviceDesc dec srv]"

text \<open>The server of \<open>Register\<close> in \<open>grpcRegistry.go\<close>, its services.\<close>

definition registered :: "(string \<Rightarrow> (string, GenerateTokenRequest) result) \<Rightarrow> (string \<Rightarrow> (string, ExecuteRequest) result)
    \<Rightarrow> (trace_ctx \<Rightarrow> GenerateTokenRequest \<Rightarrow> 'r) \<Rightarrow> (trace_ctx \<Rightarrow> ExecuteRequest \<Rightarrow> 'r) \<Rightarrow> 'r grpc_service list" where
  "registered decT decE auth code = RegisterCodeRunnerServer decE code (RegisterTokenIssuerServer decT auth [])"

text \<open>Names of the messages a descriptor's methods take and return, by the generated indices.\<close>

definition codeRunner_goTypes :: "string list" where
  "codeRunner_goTypes = [''.codeRunner.v1.ExecuteRequest'', ''.codeRunner.v1.ExecuteResponse'']"

definition codeRunner_depIdxs :: "nat list" where
  "codeRunner_depIdxs = [0, 1, 1, 0, 0, 0, 0]"

definition tokenIssuer_goTypes :: "string list" where
  "tokenIssuer_goTypes = [''.codeRunner.v1.GenerateTokenRequest'', ''.codeRunner.v1.GenerateTokenResponse'']"

definition tokenIssuer_depIdxs :: "nat list" where
  "tokenIssuer_depIdxs = [0, 1, 1, 0, 0, 0, 0]"

text \<open>
  The last five indices say where the sub-lists start: \<open>type_name\<close> and \<open>extendee\<close> of extensions and
  \<open>type_name\<close> of fields, here empty, then the methods' inputs, then their outputs.
\<close>

definition dep_inputs :: "string list \<Rightarrow> nat list \<Rightarrow> string list" where
  "dep_inputs tys is = (let n = length is; a = is ! (n - 4); b = is ! (n - 5) in map ((!) tys) (take (b - a) (drop a is)))"

definition dep_outputs :: "string list \<Rightarrow> nat list \<Rightarrow> string list" where
  "dep_outputs tys is = (let n = length is; b = is ! (n - 5) in map ((!) tys) (take (n - 5 - b) (drop b is)))"

text \<open>A file's description agrees with the structs, the service and the indices generated from it.\<close>

definition describes :: "file_desc \<Rightarrow> (string \<times> go_tags) list \<Rightarrow> string list \<Rightarrow> nat list \<Rightarrow> 'r grpc_service \<Rightarrow> bool" where
  "describes d structs tys is svc \<longleftrightarrow>
     map (\<lambda>m. (mdName m, map tags_of (mdFields m))) (flMessages d) = structs
     \<and> map (\<lambda>m. ''.'' @ flPackage d @ ''.'' @ mdName m) (flMessages d) = tys
     \<and> map (\<lambda>s. (flPackage d @ ''.'' @ sdName s, map rpcName (sdMethods s))) (flServices d) = [(gsName svc, map gmName (gsMethods svc))]
     \<and> concat (map (\<lambda>s. map rpcInput (sdMethods s)) (flServices d)) = dep_inputs tys is
     \<and> concat (map (\<lambda>s. map rpcOutput (sdMethods s)) (flServices d)) = dep_outputs tys is
     \<and> gsMetadata svc = flName d"

lemma to_valid_utf8_nil: "to_valid_utf8 s = [] \<longleftrightarrow> s = []"
proof
  assume v: "to_valid_utf8 s = []"
  show "s = []"
  proof (cases "rune_chunks s")
    case Nil
    then show ?thesis using concat_rune_chunks [of s] by simp
  next
    case (Cons c cs)
    then have "c \<noteq> []" "reencode c = []" using rune_chunks_nonempty [of c s] v by (simp_all add: to_valid_utf8_def)
    then show ?thesis by (auto simp: reencode_def split: list.splits if_splits)
  qed
qed (simp add: to_valid_utf8_def)


subsection \<open>A call through the server\<close>

datatype grpc_reply = ExecuteReply ExecuteResponse | TokenReply GenerateTokenResponse

type_synonym 's method_run = "'s \<Rightarrow> (rpc_error, grpc_reply) result \<times> 's"

text \<open>The two controllers as the services' implementations; the state is the code service's.\<close>

definition rpc_GenerateToken :: "jwt_lib \<Rightarrow> int \<Rightarrow> token \<Rightarrow> trace_ctx \<Rightarrow> GenerateTokenRequest \<Rightarrow> 's method_run" where
  "rpc_GenerateToken J now t ctx req s =
     (case ctl_GenerateToken J now t req of
        Inl e \<Rightarrow> (Inl (TokenError e), s)
      | Inr tk \<Rightarrow> (Inr (TokenReply \<lparr>grToken = tk\<rparr>), s))"

definition rpc_Execute :: "(ExecuteRequest \<Rightarrow> 's \<Rightarrow> go_error option \<times> 's) \<Rightarrow> trace_ctx \<Rightarrow> ExecuteRequest \<Rightarrow> 's method_run" where
  "rpc_Execute srv ctx inp s =
     (case ctl_Execute srv inp s of
        (Inl e, s') \<Rightarrow> (Inl (RpcError e), s')
      | (Inr r, s') \<Rightarrow> (Inr (ExecuteReply r), s'))"

definition services :: "(string \<Rightarrow> (string, GenerateTokenRequest) result) \<Rightarrow> (string \<Rightarrow> (string, ExecuteRequest) result)
    \<Rightarrow> jwt_lib \<Rightarrow> int \<Rightarrow> token \<Rightarrow> (ExecuteRequest \<Rightarrow> 's \<Rightarrow> go_error option \<times> 's) \<Rightarrow> 's method_run grpc_service list" where
  "services decT decE J now t srv = registered decT decE (rpc_GenerateToken J now t) (rpc_Execute srv)"

text \<open>
  The library's routing: \<open>/\<close>, the service's name, \<open>/\<close>, the method's name lead to the method's
  handler, and nothing else leads anywhere.
\<close>

type_synonym 'r handler = "trace_ctx \<Rightarrow> string \<Rightarrow> 'r interceptor option \<Rightarrow> 'r served"

definition method_path :: "'r grpc_service \<Rightarrow> 'r grpc_method \<Rightarrow> string" where
  "method_path svc m = ''/'' @ gsName svc @ ''/'' @ gmName m"

definition routes_ok :: "(string \<Rightarrow> 'r handler option) \<Rightarrow> 'r grpc_service list \<Rightarrow> bool" where
  "routes_ok route ss \<longleftrightarrow> (\<forall>path h. route path = Some h \<longleftrightarrow>
     (\<exists>svc \<in> set ss. \<exists>m \<in> set (gsMethods svc). path = method_path svc m \<and> h = gmHandler m))"

datatype 's rpc_outcome = Answer "(rpc_error, grpc_reply) result" 's | ServerExit

definition grpc_serve :: "(string \<Rightarrow> 's method_run handler option) \<Rightarrow> 's method_run interceptor \<Rightarrow> trace_ctx \<Rightarrow> string \<Rightarrow> string \<Rightarrow> 's
    \<Rightarrow> 's rpc_outcome" where
  "grpc_serve route ic ctx path bs s =
     (case route path of
        None \<Rightarrow> Answer (Inl (Unimplemented path)) s
      | Some h \<Rightarrow>
          (case h ctx bs (Some ic) of
             Ran f \<Rightarrow> (case f s of (r, s') \<Rightarrow> Answer r s')
           | Failed e \<Rightarrow> Answer (Inl e) s
           | Exited \<Rightarrow> ServerExit))"

text \<open>The interceptor of \<open>Register\<close>, for a call with the metadata \<open>md\<close>.\<close>

definition guard :: "jwt_lib \<Rightarrow> (string \<Rightarrow> string) \<Rightarrow> nat list \<Rightarrow> int \<Rightarrow> metadata option \<Rightarrow> 'r interceptor" where
  "guard J env rnd now md ctx fullMethod handler = UnaryInterceptor J env rnd now ctx md fullMethod handler"

abbreviation token_path :: string where "token_path \<equiv> ''/codeRunner.v1.tokenIssuer/GenerateToken''"
abbreviation execute_path :: string where "execute_path \<equiv> ''/codeRunner.v1.CodeRunner/Execute''"

lemma services_paths:
  "(\<exists>svc \<in> set (services decT decE J now t srv). \<exists>m \<in> set (gsMethods svc). path = method_path svc m \<and> h = gmHandler m)
   \<longleftrightarrow> path = token_path \<and> h = (\<lambda>ctx bs. TokenIssuer_GenerateToken_Handler (rpc_GenerateToken J now t) ctx (decT bs))
     \<or> path = execute_path \<and> h = (\<lambda>ctx bs. CodeRunner_Execute_Handler (rpc_Execute srv) ctx (decE bs))"
  by (simp add: services_def registered_def RegisterCodeRunnerServer_def RegisterTokenIssuerServer_def method_path_def
      CodeRunner_serviceDesc_def TokenIssuer_serviceDesc_def)

lemma routes_services:
  assumes "routes_ok route (services decT decE J now t srv)"
  shows "route path =
     (if path = token_path then Some (\<lambda>ctx bs. TokenIssuer_GenerateToken_Handler (rpc_GenerateToken J now t) ctx (decT bs))
      else if path = execute_path then Some (\<lambda>ctx bs. CodeRunner_Execute_Handler (rpc_Execute srv) ctx (decE bs)) else None)"
proof -
  have iff: "route path = Some h \<longleftrightarrow>
       path = token_path \<and> h = (\<lambda>ctx bs. TokenIssuer_GenerateToken_Handler (rpc_GenerateToken J now t) ctx (decT bs))
     \<or> path = execute_path \<and> h = (\<lambda>ctx bs. CodeRunner_Execute_Handler (rpc_Execute srv) ctx (decE bs))" for h
    using assms by (simp only: routes_ok_def services_paths)
  have "route path = None" if "path \<noteq> token_path" "path \<noteq> execute_path" using iff that by (cases "route path") blast+
  then show ?thesis using iff by auto
qed

text \<open>The token method runs without a token; the execution only behind the interceptor's checks.\<close>

lemma serve_token:
  assumes "routes_ok route (services decT decE J now t srv)"
  shows "grpc_serve route (guard J env rnd later md) ctx token_path bs s =
    (case decT bs of
       Inl err \<Rightarrow> Answer (Inl (DecodeError err)) s
     | Inr req \<Rightarrow> (case rpc_GenerateToken J now t ctx req s of (r, s') \<Rightarrow> Answer r s'))"
  by (simp add: grpc_serve_def routes_services [OF assms] TokenIssuer_GenerateToken_Handler_def guard_def UnaryInterceptor_def split: sum.split)

lemma serve_execute:
  assumes "routes_ok route (services decT decE J now t srv)"
  shows "grpc_serve route (guard J env rnd later md) ctx execute_path bs s =
    (case decE bs of
       Inl err \<Rightarrow> Answer (Inl (DecodeError err)) s
     | Inr req \<Rightarrow>
         (case UnaryInterceptor J env rnd later ctx md execute_path (\<lambda>c. rpc_Execute srv c req) of
            Handled c f \<Rightarrow> (case f s of (r, s') \<Rightarrow> Answer r s')
          | Refused e \<Rightarrow> Answer (Inl (RpcError e)) s
          | ProcessExit \<Rightarrow> ServerExit))"
  by (simp add: grpc_serve_def routes_services [OF assms] CodeRunner_Execute_Handler_def guard_def split: sum.split intercepted.split)

lemma interceptor_Handled:
  assumes "UnaryInterceptor J env rnd now ctx md path h = Handled c r" "path \<noteq> token_path"
  shows "r = h c \<and> (\<exists>m tk tks t. md = Some m \<and> m ''token'' = Some (tk # tks) \<and> NewToken env = Some t \<and> Verify J now t tk)"
  using assms by (auto simp: UnaryInterceptor_def Let_def split: option.splits list.splits if_splits)

lemma execute_answer:
  assumes "routes_ok route (services decT decE J now t srv)"
    and "grpc_serve route (guard J env rnd later md) ctx execute_path bs s = Answer r s'"
  shows "s' = s \<and> (\<exists>e. r = Inl e) \<or> (\<exists>req c. decE bs = Inr req \<and> rpc_Execute srv c req s = (r, s')
      \<and> (\<exists>m tk tks u. md = Some m \<and> m ''token'' = Some (tk # tks) \<and> NewToken env = Some u \<and> Verify J later u tk))"
proof (cases "decE bs")
  case (Inr req)
  show ?thesis
  proof (cases "UnaryInterceptor J env rnd later ctx md execute_path (\<lambda>c. rpc_Execute srv c req)")
    case (Handled c f)
    have "rpc_Execute srv c req s = (r, s')"
      using assms(2) interceptor_Handled [OF Handled] unfolding serve_execute [OF assms(1)] by (simp add: Inr Handled split: prod.splits)
    moreover have "\<exists>m tk tks u. md = Some m \<and> m ''token'' = Some (tk # tks) \<and> NewToken env = Some u \<and> Verify J later u tk"
      using interceptor_Handled [OF Handled] by simp
    ultimately show ?thesis using Inr by blast
  qed (use assms(2) Inr in \<open>auto simp: serve_execute [OF assms(1)]\<close>)
qed (use assms(2) in \<open>auto simp: serve_execute [OF assms(1)]\<close>)

lemma interceptor_lets_through:
  assumes "m ''token'' = Some (tk # tks)" "NewToken env = Some t" "Verify J now t tk"
  shows "\<exists>c. UnaryInterceptor J env rnd now ctx (Some m) path h = Handled c (h c)"
  using assms by (simp add: UnaryInterceptor_def Let_def)

text \<open>
  C4. What can be reached over gRPC. Whatever is called with whatever bytes and metadata: the code
  service's state changes, or an execution is accepted, only by the path of \<open>Execute\<close>, with a token
  whose HMAC signature under the server's secret is right and that has not expired, and a program of at
  most 64 KB; a token is given out only by the path of \<open>GenerateToken\<close> for the server's password; every
  other path is answered as unimplemented.
\<close>

theorem grpc_surface:
  assumes routes: "routes_ok route (services decT decE J now t srv)"
    and call: "grpc_serve route (guard J env rnd now md) ctx path bs s = Answer r s'"
  shows "(s' \<noteq> s \<or> (\<exists>resp. r = Inr (ExecuteReply resp)) \<longrightarrow>
       path = ''/codeRunner.v1.CodeRunner/Execute''
       \<and> (\<exists>m tk tks a c. md = Some m \<and> m ''token'' = Some (tk # tks) \<and> jwtParts J tk = Some (HMAC a, c)
            \<and> jwtSigned J (HMAC a) (env ''JWT_SECRET'') tk \<and> (\<forall>e. expires c = Some e \<longrightarrow> now < e))
       \<and> (\<exists>req. decE bs = Inr req \<and> length (CodeBlock req) \<le> 65536))
    \<and> (\<forall>tk. r = Inr (TokenReply tk) \<longrightarrow> path = ''/codeRunner.v1.tokenIssuer/GenerateToken''
         \<and> (\<exists>req. decT bs = Inr req \<and> gtPassword req = password t))
    \<and> (path \<notin> {''/codeRunner.v1.CodeRunner/Execute'', ''/codeRunner.v1.tokenIssuer/GenerateToken''} \<longrightarrow>
         r = Inl (Unimplemented path) \<and> s' = s)"
proof -
  consider (token) "path = token_path" | (code) "path = execute_path" | (other) "path \<noteq> token_path" "path \<noteq> execute_path" by blast
  then show ?thesis
  proof cases
    case token
    have "s' = s \<and> (\<forall>resp. r \<noteq> Inr (ExecuteReply resp)) \<and> (\<forall>tk. r = Inr (TokenReply tk) \<longrightarrow> (\<exists>req. decT bs = Inr req \<and> gtPassword req = password t))"
      using call unfolding token serve_token [OF routes]
      by (auto simp: rpc_GenerateToken_def ctl_GenerateToken_def svc_GenerateToken_def Public_def split: sum.splits option.splits if_splits)
    with token show ?thesis by auto
  next
    case code
    have "s' = s \<and> (\<exists>e. r = Inl e) \<or> (\<exists>req c. decE bs = Inr req \<and> rpc_Execute srv c req s = (r, s')
        \<and> (\<exists>m tk tks u. md = Some m \<and> m ''token'' = Some (tk # tks) \<and> NewToken env = Some u \<and> Verify J now u tk))"
      using execute_answer [OF routes call [unfolded code]] .
    then show ?thesis
    proof (elim disjE exE conjE)
      fix req c m tk tks u
      assume h: "decE bs = Inr req" "rpc_Execute srv c req s = (r, s')" "md = Some m" "m ''token'' = Some (tk # tks)"
        "NewToken env = Some u" "Verify J now u tk"
      have "(s' \<noteq> s \<or> (\<exists>resp. r = Inr (ExecuteReply resp)) \<longrightarrow> length (CodeBlock req) \<le> 65536) \<and> (\<forall>tk. r \<noteq> Inr (TokenReply tk))"
        using h(2) by (auto simp: rpc_Execute_def ctl_Execute_def maxCodeBlockSize_def split: option.splits if_splits prod.splits sum.splits)
      moreover have "jwtSecret u = env ''JWT_SECRET''" using h(5) by (auto simp: NewToken_def split: if_splits)
      ultimately show ?thesis using h code unfolding Verify_iff by auto
    qed (use code in auto)
  next
    case other
    with call have "r = Inl (Unimplemented path)" "s' = s" by (simp_all add: grpc_serve_def routes_services [OF routes])
    with other show ?thesis by simp
  qed
qed

text \<open>A server for the witnesses: requests are one byte long, and the routing is a table.\<close>

definition wit_execute :: ExecuteRequest where
  "wit_execute = zeroRequest\<lparr>reqId := ''q'', Language := ''go'', CodeBlock := ''x''\<rparr>"

definition wit_token_request :: GenerateTokenRequest where
  "wit_token_request = \<lparr>gtName = ''u'', gtPassword = ''p''\<rparr>"

definition wit_decE :: "string \<Rightarrow> (string, ExecuteRequest) result" where
  "wit_decE bs = (if bs = ''e'' then Inr wit_execute else Inl ''bad'')"

definition wit_decT :: "string \<Rightarrow> (string, GenerateTokenRequest) result" where
  "wit_decT bs = (if bs = ''t'' then Inr wit_token_request else Inl ''bad'')"

definition wit_route :: "int \<Rightarrow> (ExecuteRequest \<Rightarrow> 's \<Rightarrow> go_error option \<times> 's) \<Rightarrow> string \<Rightarrow> 's method_run handler option" where
  "wit_route now srv = [token_path \<mapsto> (\<lambda>ctx bs. TokenIssuer_GenerateToken_Handler
       (rpc_GenerateToken one_token_jwt now \<lparr>jwtSecret = ''k'', password = ''p''\<rparr>) ctx (wit_decT bs)),
     execute_path \<mapsto> (\<lambda>ctx bs. CodeRunner_Execute_Handler (rpc_Execute srv) ctx (wit_decE bs))]"

lemma wit_routes: "routes_ok (wit_route now srv) (services wit_decT wit_decE one_token_jwt now \<lparr>jwtSecret = ''k'', password = ''p''\<rparr> srv)"
  unfolding routes_ok_def services_paths by (auto simp: wit_route_def)

lemma wit_NewToken: "NewToken test_env = Some \<lparr>jwtSecret = ''k'', password = ''p''\<rparr>"
  by (simp add: NewToken_def test_env_def)

theorem grpc_surface_witness:
  "\<exists>r n. grpc_serve (wit_route 5 (\<lambda>q n. (None, Suc n))) (guard one_token_jwt test_env [] 5 (Some [''token'' \<mapsto> [''t'']])) None execute_path ''e'' 0
       = Answer r n \<and> n = 1 \<and> (\<exists>req. wit_decE ''e'' = Inr req \<and> length (CodeBlock req) \<le> 65536)"
proof -
  let ?srv = "\<lambda>(q :: ExecuteRequest) n. (None :: go_error option, Suc n)"
  have "Verify one_token_jwt 5 \<lparr>jwtSecret = ''k'', password = ''p''\<rparr> ''t''" by (simp add: Verify_iff one_token_jwt_def)
  from interceptor_lets_through [OF _ wit_NewToken this, of "[''token'' \<mapsto> [''t'']]" "[]" "[]" None execute_path]
  obtain c where "UnaryInterceptor one_token_jwt test_env [] 5 None (Some [''token'' \<mapsto> [''t'']]) execute_path (\<lambda>c. rpc_Execute ?srv c wit_execute)
      = Handled c (rpc_Execute ?srv c wit_execute)" by auto
  then have call: "grpc_serve (wit_route 5 ?srv) (guard one_token_jwt test_env [] 5 (Some [''token'' \<mapsto> [''t'']])) None execute_path ''e'' 0
      = Answer (Inr (ExecuteReply (zeroResponse\<lparr>respId := ''q'', GrpcCode := ''accepted''\<rparr>))) 1"
    by (simp add: serve_execute [OF wit_routes] wit_decE_def)
      (simp add: rpc_Execute_def ctl_Execute_def wit_execute_def maxCodeBlockSize_def)
  from grpc_surface [OF wit_routes call] call show ?thesis by auto
qed

subsection \<open>The client stubs\<close>

text \<open>
  A connection: \<open>Invoke\<close> marshals the request, the server answers, and what it answered comes back.
\<close>

definition call_result :: "(grpc_reply \<Rightarrow> 'o option) \<Rightarrow> 's rpc_outcome \<Rightarrow> ((rpc_error, 'o) result \<times> 's) option" where
  "call_result as out =
     (case out of
        Answer (Inl e) s \<Rightarrow> Some (Inl e, s)
      | Answer (Inr r) s \<Rightarrow> map_option (\<lambda>x. (Inr x, s)) (as r)
      | ServerExit \<Rightarrow> None)"

definition connects :: "('i \<Rightarrow> string option) \<Rightarrow> (grpc_reply \<Rightarrow> 'o option) \<Rightarrow> (string \<Rightarrow> string \<Rightarrow> 's \<Rightarrow> 's rpc_outcome)
    \<Rightarrow> (string \<Rightarrow> 'i \<Rightarrow> 's \<Rightarrow> (rpc_error, 'o) result \<times> 's) \<Rightarrow> bool" where
  "connects enc as server invoke \<longleftrightarrow> (\<forall>path inp bs s x. enc inp = Some bs \<longrightarrow> call_result as (server path bs s) = Some x \<longrightarrow> invoke path inp s = x)"

fun as_execute :: "grpc_reply \<Rightarrow> ExecuteResponse option" where
  "as_execute (ExecuteReply r) = Some r"
| "as_execute (TokenReply r) = None"

fun as_token :: "grpc_reply \<Rightarrow> GenerateTokenResponse option" where
  "as_token (ExecuteReply r) = None"
| "as_token (TokenReply r) = Some r"

definition CodeRunnerClient_Execute :: "(string \<Rightarrow> ExecuteRequest \<Rightarrow> 's \<Rightarrow> (rpc_error, ExecuteResponse) result \<times> 's)
    \<Rightarrow> ExecuteRequest \<Rightarrow> 's \<Rightarrow> (rpc_error, ExecuteResponse) result \<times> 's" where
  "CodeRunnerClient_Execute invoke inp s =
     (case invoke ''/codeRunner.v1.CodeRunner/Execute'' inp s of
        (Inl err, s') \<Rightarrow> (Inl err, s')
      | (Inr out, s') \<Rightarrow> (Inr out, s'))"

definition TokenIssuerClient_GenerateToken :: "(string \<Rightarrow> GenerateTokenRequest \<Rightarrow> 's \<Rightarrow> (rpc_error, GenerateTokenResponse) result \<times> 's)
    \<Rightarrow> GenerateTokenRequest \<Rightarrow> 's \<Rightarrow> (rpc_error, GenerateTokenResponse) result \<times> 's" where
  "TokenIssuerClient_GenerateToken invoke inp s =
     (case invoke ''/codeRunner.v1.tokenIssuer/GenerateToken'' inp s of
        (Inl err, s') \<Rightarrow> (Inl err, s')
      | (Inr out, s') \<Rightarrow> (Inr out, s'))"

lemma connects_token:
  assumes "routes_ok route (services decT decE J now t srv)"
    and "connects enc as_token (grpc_serve route (guard J env rnd later md) ctx) invoke"
    and "enc req = Some bs" "decT bs = Inr req"
  shows "TokenIssuerClient_GenerateToken invoke req s =
     (case ctl_GenerateToken J now t req of Inl e \<Rightarrow> (Inl (TokenError e), s) | Inr tk \<Rightarrow> (Inr \<lparr>grToken = tk\<rparr>, s))"
proof -
  have "call_result as_token (grpc_serve route (guard J env rnd later md) ctx token_path bs s)
      = Some (case ctl_GenerateToken J now t req of Inl e \<Rightarrow> (Inl (TokenError e), s) | Inr tk \<Rightarrow> (Inr \<lparr>grToken = tk\<rparr>, s))"
    unfolding serve_token [OF assms(1)] by (simp add: assms(4) rpc_GenerateToken_def call_result_def split: sum.split)
  with assms(2,3) have "invoke token_path req s
      = (case ctl_GenerateToken J now t req of Inl e \<Rightarrow> (Inl (TokenError e), s) | Inr tk \<Rightarrow> (Inr \<lparr>grToken = tk\<rparr>, s))"
    unfolding connects_def by blast
  then show ?thesis by (simp add: TokenIssuerClient_GenerateToken_def split: sum.split)
qed

lemma connects_execute:
  assumes "routes_ok route (services decT decE J now t srv)"
    and "connects enc as_execute (grpc_serve route (guard J env rnd later (Some m)) ctx) invoke"
    and "enc q = Some bs" "decE bs = Inr q" "length (CodeBlock q) \<le> maxCodeBlockSize"
    and "m ''token'' = Some (tk # tks)" "NewToken env = Some u" "Verify J later u tk" and "srv q s = (None, s')"
  shows "CodeRunnerClient_Execute invoke q s = (Inr (zeroResponse\<lparr>respId := reqId q, GrpcCode := ''accepted''\<rparr>), s')"
proof -
  from assms(6,7,8) have "\<exists>c. UnaryInterceptor J env rnd later ctx (Some m) execute_path (\<lambda>c. rpc_Execute srv c q) = Handled c (rpc_Execute srv c q)"
    by (rule interceptor_lets_through)
  then obtain c where "UnaryInterceptor J env rnd later ctx (Some m) execute_path (\<lambda>c. rpc_Execute srv c q) = Handled c (rpc_Execute srv c q)" ..
  then have "call_result as_execute (grpc_serve route (guard J env rnd later (Some m)) ctx execute_path bs s)
      = Some (Inr (zeroResponse\<lparr>respId := reqId q, GrpcCode := ''accepted''\<rparr>), s')"
    unfolding serve_execute [OF assms(1)] using assms(5,9) by (simp add: assms(4) rpc_Execute_def ctl_Execute_def call_result_def)
  with assms(2,3) have "invoke execute_path q s = (Inr (zeroResponse\<lparr>respId := reqId q, GrpcCode := ''accepted''\<rparr>), s')"
    unfolding connects_def by blast
  then show ?thesis by (simp add: CodeRunnerClient_Execute_def)
qed

text \<open>
  C3. From the password to a worker, through both generated clients: a token the client of the token
  issuer is given, was given for the server's password; and with this token in its metadata, the client
  of the code service has its request accepted for 24 hours, written to a live worker's connection and
  tracked there, while there is a worker to serve it and the write does not fail.
\<close>

theorem issued_token_runs_code:
  assumes jwt: "jwt_ok J" and env: "NewToken env = Some t"
    and routes: "\<And>n. routes_ok (route n) (services decT decE J n t (Execute (p2c_lb F) e))"
    and coded: "encT req = Some bt" "decT bt = Inr req" "encE q = Some be" "decE be = Inr q" "length (CodeBlock q) \<le> 65536"
    and issuer: "connects encT as_token (grpc_serve (route now) (guard J env rnd now md) ctx) invokeT"
      "TokenIssuerClient_GenerateToken invokeT req s0 = (Inr tok, s1)"
    and runner: "connects encE as_execute (grpc_serve (route later) (guard J env rnd' later (Some [''token'' \<mapsto> [grToken tok]])) ctx') invokeE"
    and time: "later < now + 24 * 3600" and workers: "can_serve s" "writeErr e = None"
  shows "gtPassword req = env ''AUTH_PASSWORD'' \<and> s1 = s0
    \<and> (\<exists>j s'. CodeRunnerClient_Execute invokeE q s = (Inr (zeroResponse\<lparr>respId := reqId q, GrpcCode := ''accepted''\<rparr>), s') \<and> placed q j s')"
proof -
  have g: "ctl_GenerateToken J now t req = Inr (grToken tok)" "s1 = s0"
    using issuer(2) connects_token [OF routes issuer(1) coded(1,2), of s0] by (auto split: sum.splits)
  note tok = issued_token_accepted [OF jwt env g(1), of later]
  obtain s' j where x: "Execute (p2c_lb F) e q s = (None, s')" "placed q j s'" using Execute_places [OF workers] by metis
  have v: "Verify J later t (grToken tok)" using tok time by simp
  have "CodeRunnerClient_Execute invokeE q s = (Inr (zeroResponse\<lparr>respId := reqId q, GrpcCode := ''accepted''\<rparr>), s')"
    by (rule connects_execute [OF routes runner coded(3,4) _ _ env v x(1)]) (use coded(5) in \<open>simp_all add: maxCodeBlockSize_def\<close>)
  with tok g(2) x(2) show ?thesis by blast
qed

definition wit_invoke :: "('i \<Rightarrow> string option) \<Rightarrow> (grpc_reply \<Rightarrow> 'o option) \<Rightarrow> (string \<Rightarrow> string \<Rightarrow> 's \<Rightarrow> 's rpc_outcome)
    \<Rightarrow> string \<Rightarrow> 'i \<Rightarrow> 's \<Rightarrow> (rpc_error, 'o) result \<times> 's" where
  "wit_invoke enc as server path inp s =
     (case enc inp of
        None \<Rightarrow> (Inl (DecodeError ''marshal''), s)
      | Some bs \<Rightarrow> (case call_result as (server path bs s) of Some x \<Rightarrow> x | None \<Rightarrow> (Inl (DecodeError ''reply''), s)))"

lemma wit_connects: "connects enc as server (wit_invoke enc as server)"
  by (simp add: connects_def wit_invoke_def)

definition wit_encE :: "ExecuteRequest \<Rightarrow> string option" where
  "wit_encE q = (if q = wit_execute then Some ''e'' else None)"

definition wit_encT :: "GenerateTokenRequest \<Rightarrow> string option" where
  "wit_encT q = (if q = wit_token_request then Some ''t'' else None)"

lemma can_serve_one_worker: "can_serve one_worker"
proof -
  have c: "client_closed x one_worker = False" if "clients one_worker i = Some x" for i x
    using that by (auto simp: client_closed_def one_worker_clients ws_IsClosed_def NewWebsocketClientImpl_def split: if_splits)
  then have "dead one_worker = {}" by (auto simp: dead_def)
  moreover have "alive ''w1'' one_worker" using c by (auto simp: alive_def one_worker_clients)
  moreover have "pendingReqs one_worker j \<noteq> None" if "alive j one_worker" for j
  proof -
    have "j = ''w1''" using that by (auto simp: alive_def one_worker_clients split: if_splits)
    then show ?thesis by (simp add: one_worker_def AddClient_def NewClient_def)
  qed
  ultimately show ?thesis using registry_ok_one_worker by (auto simp: can_serve_def)
qed

theorem issued_token_runs_code_witness:
  "\<exists>j s'. CodeRunnerClient_Execute (wit_invoke wit_encE as_execute (grpc_serve (wit_route 5 (Execute (p2c_lb exact_float) ok_env))
        (guard one_token_jwt test_env [] 5 (Some [''token'' \<mapsto> [''t'']])) None)) wit_execute one_worker
      = (Inr (zeroResponse\<lparr>respId := reqId wit_execute, GrpcCode := ''accepted''\<rparr>), s') \<and> placed wit_execute j s'"
proof -
  let ?r = "\<lambda>n. wit_route n (Execute (p2c_lb exact_float) ok_env)"
  let ?inv = "wit_invoke wit_encT as_token (grpc_serve (?r 0) (guard one_token_jwt test_env [] 0 None) None)"
  have routes: "routes_ok (?r n) (services wit_decT wit_decE one_token_jwt n \<lparr>jwtSecret = ''k'', password = ''p''\<rparr> (Execute (p2c_lb exact_float) ok_env))" for n
    by (rule wit_routes)
  have enc: "wit_encT wit_token_request = Some ''t''" "wit_decT ''t'' = Inr wit_token_request"
    "wit_encE wit_execute = Some ''e''" "wit_decE ''e'' = Inr wit_execute" "length (CodeBlock wit_execute) \<le> 65536"
    by (simp_all add: wit_encT_def wit_decT_def wit_encE_def wit_decE_def) (simp add: wit_execute_def)
  have i: "connects wit_encT as_token (grpc_serve (?r 0) (guard one_token_jwt test_env [] 0 None) None) ?inv" by (rule wit_connects)
  have "ctl_GenerateToken one_token_jwt 0 \<lparr>jwtSecret = ''k'', password = ''p''\<rparr> wit_token_request = Inr ''t''"
    by (simp add: ctl_GenerateToken_def svc_GenerateToken_def Public_def one_token_jwt_def wit_token_request_def)
  moreover have "TokenIssuerClient_GenerateToken ?inv wit_token_request one_worker
      = (case ctl_GenerateToken one_token_jwt 0 \<lparr>jwtSecret = ''k'', password = ''p''\<rparr> wit_token_request of
           Inl e \<Rightarrow> (Inl (TokenError e), one_worker) | Inr tk \<Rightarrow> (Inr \<lparr>grToken = tk\<rparr>, one_worker))"
    by (rule connects_token) (rule routes, rule i, rule enc, rule enc)
  ultimately have tok: "TokenIssuerClient_GenerateToken ?inv wit_token_request one_worker = (Inr \<lparr>grToken = ''t''\<rparr>, one_worker)" by simp
  have w: "writeErr ok_env = None" by (simp add: ok_env_def)
  have m: "connects wit_encE as_execute (grpc_serve (?r 5) (guard one_token_jwt test_env [] 5 (Some [''token'' \<mapsto> [grToken \<lparr>grToken = ''t''\<rparr>]])) None)
     (wit_invoke wit_encE as_execute (grpc_serve (?r 5) (guard one_token_jwt test_env [] 5 (Some [''token'' \<mapsto> [''t'']])) None))"
    by (simp add: wit_connects)
  from issued_token_runs_code [where route = ?r, OF jwt_ok_one_token wit_NewToken routes enc i tok m _ can_serve_one_worker w]
  show ?thesis by auto
qed

end
