(* ===== verification/Server_Start.thy ===== *)
theory Server_Start
  imports Startup Server_Steps Feedback_Service Limiter_Janitor Grpc_Stubs
begin

text \<open>
  The server from its start on: \<open>RunServer\<close> hands the controllers services whose states satisfy the
  invariants the components keep, and what its end leaves behind in etcd.
\<close>

definition started :: "server_up \<Rightarrow> P2CBalancer server" where
  "started u = \<lparr>mgr = CodeRunnerSrv (suAPIs u), execs = (\<lambda>_. None), used = {}, acked = []\<rparr>"

definition feedback_started :: "server_up \<Rightarrow> feedback_state" where
  \<comment> \<open>the feedback service's limiter, and no mail\<close>
  "feedback_started u = (snd (NewIPRateLimiter (fwRate (FeedbackSvc (suAPIs u)))), [])"

lemma started_init: "RunServer env = Up u \<Longrightarrow> started u = server_init []"
  by (elim RunServer_Up serverServiceRegister_Some) (simp add: started_def server_init_def)

lemma RunServer_feedback:
  assumes "RunServer env = Up u" "InitConfig (seFile env) (seGetenv env) (seParse env) = Inr c"
  shows "FeedbackSvc (suAPIs u) = feedbackServiceRegister c"
  using assms by (elim RunServer_Up) (auto elim!: serverServiceRegister_Some)



text \<open>The gRPC services it serves are those of \<open>Grpc_Stubs\<close>.\<close>

lemma started_services: "RunServer env = Up u \<Longrightarrow> suGrpcServices u = map gsName (registered decT decE auth code)"
  by (auto simp: RunServer_def InitGrpc_def grpc_Register_def registered_def RegisterCodeRunnerServer_def RegisterTokenIssuerServer_def
      CodeRunner_serviceDesc_def TokenIssuer_serviceDesc_def split: sum.splits option.splits prod.splits)

text \<open>
  When the server stops, its address stays in etcd: only the renewals of the lease end, and nobody
  calls \<open>Unregister\<close>. The address goes when the lease runs out.
\<close>

lemma stopped_server_still_listed:
  assumes "RunServer env = Up u" and "InitConfig (seFile env) (seGetenv env) (seParse env) = Inr c"
    and "RunServer_end serveErr closeErr (suEtcd u) = (logged, reg, st)"
  shows "etKeys st (cfEtcdKey c) = Some (cfGrpcHost c @ '':'' @ cfGrpcPort c, eyLease reg)
     \<and> eyLease reg \<notin> etKept st \<and> etKeys (revoke_lease (eyLease reg) st) (cfEtcdKey c) = None"
proof -
  from server_up_complete [OF assms(1,2)]
  have "etKeys (snd (suEtcd u)) (cfEtcdKey c) = Some (cfGrpcHost c @ '':'' @ cfGrpcPort c, eyLease (fst (suEtcd u)))" by blast
  with assms(3) show ?thesis by (auto simp: RunServer_end_def revoke_lease_def split: prod.splits)
qed

end
