(* ===== verification/Session_Locks.thy ===== *)
theory Session_Locks
  imports Prelude
begin

text \<open>
  The locks of the session store (\<open>internal/agent/session/store.go\<close>): \<open>getLock\<close> finds or makes the
  lock of a session in a \<open>sync.Map\<close>, every operation holds it while it works on the session's files,
  and \<open>Delete\<close> removes it from the map before it lets go of it. The accesses to the map and to a lock
  are atomic; goroutines interleave between them.
\<close>

datatype lock_phase =
    Waiting string nat    \<comment> \<open>the session and the lock it got for it\<close>
  | Working string nat    \<comment> \<open>between \<open>Lock\<close> and \<open>Unlock\<close>\<close>

record lock_state =
  lkTable :: "string \<rightharpoonup> nat"
  lkNext :: nat                 \<comment> \<open>locks are made one after the other\<close>
  lkHolder :: "nat \<rightharpoonup> nat"       \<comment> \<open>lock to the goroutine that holds it\<close>
  lkPhase :: "nat \<rightharpoonup> lock_phase"  \<comment> \<open>goroutines inside an operation\<close>

definition getLock :: "string \<Rightarrow> lock_state \<Rightarrow> nat \<times> lock_state" where
  "getLock sid s =
     (case lkTable s sid of
        Some l \<Rightarrow> (l, s)
      | None \<Rightarrow> (lkNext s, s\<lparr>lkTable := (lkTable s)(sid \<mapsto> lkNext s), lkNext := Suc (lkNext s)\<rparr>))"

definition no_locks :: lock_state where
  "no_locks = \<lparr>lkTable = Map.empty, lkNext = 0, lkHolder = Map.empty, lkPhase = Map.empty\<rparr>"

text \<open>\<open>del\<close>: whether the operation at hand may be \<open>Delete\<close>, which removes the entry.\<close>

inductive lock_step :: "bool \<Rightarrow> lock_state \<Rightarrow> lock_state \<Rightarrow> bool" for del where
  get: "lkPhase s g = None \<Longrightarrow> getLock sid s = (l, s') \<Longrightarrow>
    lock_step del s (s'\<lparr>lkPhase := (lkPhase s')(g \<mapsto> Waiting sid l)\<rparr>)"
| lock: "lkPhase s g = Some (Waiting sid l) \<Longrightarrow> lkHolder s l = None \<Longrightarrow>
    lock_step del s (s\<lparr>lkHolder := (lkHolder s)(l \<mapsto> g), lkPhase := (lkPhase s)(g \<mapsto> Working sid l)\<rparr>)"
| remove: "del \<Longrightarrow> lkPhase s g = Some (Working sid l) \<Longrightarrow>
    lock_step del s (s\<lparr>lkTable := (lkTable s)(sid := None)\<rparr>)"
| unlock: "lkPhase s g = Some (Working sid l) \<Longrightarrow>
    lock_step del s (s\<lparr>lkHolder := (lkHolder s)(l := None), lkPhase := (lkPhase s)(g := None)\<rparr>)"

inductive lock_reach :: "bool \<Rightarrow> lock_state \<Rightarrow> bool" for del where
  start: "lock_reach del no_locks"
| step: "lock_reach del s \<Longrightarrow> lock_step del s s' \<Longrightarrow> lock_reach del s'"

text \<open>
  In every state: the holder of a lock is the goroutine that works under it, and locks in use have
  been made. Without deletions, moreover, every goroutine has its session's lock.
\<close>

definition lock_inv :: "lock_state \<Rightarrow> bool" where
  "lock_inv s \<longleftrightarrow>
     (\<forall>g sid l. lkPhase s g = Some (Working sid l) \<longrightarrow> lkHolder s l = Some g)
   \<and> (\<forall>sid l. lkTable s sid = Some l \<longrightarrow> l < lkNext s)"

definition own_lock :: "lock_state \<Rightarrow> bool" where
  "own_lock s \<longleftrightarrow> (\<forall>g sid l. lkPhase s g \<in> {Some (Waiting sid l), Some (Working sid l)} \<longrightarrow> lkTable s sid = Some l)"

lemma getLock_cases:
  assumes "getLock sid s = (l, s')"
  shows "lkTable s' sid = Some l \<and> (\<forall>x m. lkTable s x = Some m \<longrightarrow> lkTable s' x = Some m)
    \<and> lkPhase s' = lkPhase s \<and> lkHolder s' = lkHolder s
    \<and> ((\<forall>x m. lkTable s x = Some m \<longrightarrow> m < lkNext s) \<longrightarrow> (\<forall>x m. lkTable s' x = Some m \<longrightarrow> m < lkNext s'))"
  using assms by (auto simp: getLock_def less_Suc_eq split: option.splits if_splits)

lemma lock_inv_step: "lock_step del s s' \<Longrightarrow> lock_inv s \<Longrightarrow> lock_inv s'"
proof (induction rule: lock_step.induct)
  case (get s g sid l s')
  with getLock_cases [OF get.hyps(2)] show ?case by (auto simp: lock_inv_def)
next
  case (lock s g sid l)
  then show ?case by (auto simp: lock_inv_def)
next
  case (remove s g sid l)
  then show ?case by (auto simp: lock_inv_def split: if_splits)
next
  case (unlock s g sid l)
  then show ?case by (auto simp: lock_inv_def) (metis option.inject)
qed

lemma own_lock_step: "lock_step False s s' \<Longrightarrow> own_lock s \<Longrightarrow> own_lock s'"
proof (induction rule: lock_step.induct)
  case (get s g sid l s')
  with getLock_cases [OF get.hyps(2)] show ?case by (auto simp: own_lock_def)
qed (auto simp: own_lock_def)

lemma lock_reach_inv: "lock_reach del s \<Longrightarrow> lock_inv s"
proof (induction rule: lock_reach.induct)
  case (step s s')
  then show ?case using lock_inv_step by blast
qed (simp add: lock_inv_def no_locks_def)

lemma own_lock_reach: "lock_reach False s \<Longrightarrow> own_lock s"
proof (induction rule: lock_reach.induct)
  case (step s s')
  then show ?case using own_lock_step by blast
qed (simp add: own_lock_def no_locks_def)

lemma exclusive_work:
  assumes "lock_reach False s" "lkPhase s g = Some (Working sid l)" "lkPhase s h = Some (Working sid m)"
  shows "g = h"
proof -
  have "lkTable s sid = Some l" "lkTable s sid = Some m" using own_lock_reach [OF assms(1)] assms(2,3) unfolding own_lock_def by blast+
  then have "l = m" by (metis option.inject)
  moreover have "lkHolder s l = Some g" "lkHolder s m = Some h" using lock_reach_inv [OF assms(1)] assms(2,3) by (auto simp: lock_inv_def)
  ultimately show ?thesis by simp
qed

text \<open>Three goroutines: one deletes, one got the lock before, one asks for it afterwards.\<close>

definition del_1 :: lock_state where
  "del_1 = \<lparr>lkTable = [''a'' \<mapsto> 0], lkNext = 1, lkHolder = Map.empty, lkPhase = [0 \<mapsto> Waiting ''a'' 0]\<rparr>"

definition del_2 :: lock_state where
  "del_2 = \<lparr>lkTable = [''a'' \<mapsto> 0], lkNext = 1, lkHolder = [0 \<mapsto> 0], lkPhase = [0 \<mapsto> Working ''a'' 0]\<rparr>"

definition del_3 :: lock_state where
  "del_3 = \<lparr>lkTable = Map.empty, lkNext = 1, lkHolder = [0 \<mapsto> 0], lkPhase = [0 \<mapsto> Working ''a'' 0]\<rparr>"

definition del_4 :: lock_state where
  "del_4 = \<lparr>lkTable = [''a'' \<mapsto> 1], lkNext = 2, lkHolder = [0 \<mapsto> 0], lkPhase = [0 \<mapsto> Working ''a'' 0, 1 \<mapsto> Waiting ''a'' 1]\<rparr>"

definition del_5 :: lock_state where
  "del_5 = \<lparr>lkTable = [''a'' \<mapsto> 1], lkNext = 2, lkHolder = [0 \<mapsto> 0, 1 \<mapsto> 1],
     lkPhase = [0 \<mapsto> Working ''a'' 0, 1 \<mapsto> Working ''a'' 1]\<rparr>"

lemma delete_run: "lock_reach True del_5"
proof -
  have "lock_step True no_locks del_1"
    using lock_step.get [of no_locks 0 "''a''" 0 _ True] by (simp add: no_locks_def getLock_def del_1_def)
  moreover have "lock_step True del_1 del_2"
    using lock_step.lock [of del_1 0 "''a''" 0 True] by (simp add: del_1_def del_2_def)
  moreover have "lock_step True del_2 del_3"
    using lock_step.remove [of True del_2 0 "''a''" 0] by (simp add: del_2_def del_3_def)
  moreover have "lock_step True del_3 del_4"
    using lock_step.get [of del_3 1 "''a''" 1 _ True] by (simp add: del_3_def del_4_def getLock_def numeral_2_eq_2)
  moreover have "lock_step True del_4 del_5"
    using lock_step.lock [of del_4 1 "''a''" 1 True] by (simp add: del_4_def del_5_def)
  ultimately show ?thesis by (meson lock_reach.intros)
qed

text \<open>
  While no session is deleted, no two goroutines work on the files of one session at a time. A
  deletion breaks this: it takes the lock out of the table while it still works under it, so that a
  goroutine that comes then makes a new lock and works on the same session at the same time.
\<close>

theorem session_lock_exclusion:
  "(\<forall>s g h sid l m. lock_reach False s \<longrightarrow> lkPhase s g = Some (Working sid l) \<longrightarrow> lkPhase s h = Some (Working sid m) \<longrightarrow> g = h)
   \<and> (\<exists>s g h sid l m. lock_reach True s \<and> lkPhase s g = Some (Working sid l) \<and> lkPhase s h = Some (Working sid m) \<and> g < h)"
proof (intro conjI allI impI)
  fix s g h sid l m
  assume "lock_reach False s" "lkPhase s g = Some (Working sid l)" "lkPhase s h = Some (Working sid m)"
  then show "g = h" by (rule exclusive_work)
next
  have "lkPhase del_5 0 = Some (Working ''a'' 0)" "lkPhase del_5 1 = Some (Working ''a'' 1)" by (simp_all add: del_5_def)
  with delete_run show "\<exists>s g h sid l m. lock_reach True s \<and> lkPhase s g = Some (Working sid l) \<and> lkPhase s h = Some (Working sid m) \<and> g < h"
    by (metis zero_less_one)
qed

theorem session_lock_exclusion_witness:
  "\<exists>s. lock_reach False s \<and> lkPhase s 0 = Some (Working ''a'' 0) \<and> lkPhase s 3 = None"
proof -
  have "lock_step False no_locks del_1"
    using lock_step.get [of no_locks 0 "''a''" 0 _ False] by (simp add: no_locks_def getLock_def del_1_def)
  moreover have "lock_step False del_1 del_2"
    using lock_step.lock [of del_1 0 "''a''" 0 False] by (simp add: del_1_def del_2_def)
  ultimately have r: "lock_reach False del_2" by (meson lock_reach.intros)
  have p: "lkPhase del_2 0 = Some (Working ''a'' 0)" by (simp add: del_2_def)
  have "lkPhase del_2 3 \<noteq> Some (Working ''a'' m)" for m
    using session_lock_exclusion [THEN conjunct1, rule_format, OF r p, of 3 m] by auto
  moreover have "lkPhase del_2 3 = None" by (simp add: del_2_def)
  ultimately show ?thesis using r p by blast
qed

end
