(* ===== verification/Locked_Appends.thy ===== *)
theory Locked_Appends
  imports Session_Locks
begin

text \<open>
  Appends under the session's lock (\<open>Append\<close> and \<open>Delete\<close> in \<open>internal/agent/session/store.go\<close>): the
  lines of one append are written one after the other, each write a step of its own, and other
  goroutines take steps in between. A session's log is the list of its messages here; its bytes are
  added in \<open>Locked_Files\<close>. An append that gives up counts as finished with what it has written.
\<close>

record 'm log_world =
  lwLocks :: lock_state
  lwLog :: "string \<Rightarrow> 'm list"
  lwTodo :: "nat \<Rightarrow> 'm list"        \<comment> \<open>what a goroutine has still to write\<close>
  lwWritten :: "nat \<Rightarrow> 'm list"     \<comment> \<open>what it has written since it got the lock\<close>
  lwTurns :: "string \<Rightarrow> 'm list list"    \<comment> \<open>the finished appends of a session\<close>

definition no_logs :: "'m log_world" where
  "no_logs = \<lparr>lwLocks = no_locks, lwLog = (\<lambda>_. []), lwTodo = (\<lambda>_. []), lwWritten = (\<lambda>_. []), lwTurns = (\<lambda>_. [])\<rparr>"

abbreviation phase :: "'m log_world \<Rightarrow> nat \<Rightarrow> lock_phase option" where
  "phase w g \<equiv> lkPhase (lwLocks w) g"

inductive append_step :: "bool \<Rightarrow> 'm log_world \<Rightarrow> 'm log_world \<Rightarrow> bool" for del where
  enter: "phase w g = None \<Longrightarrow> getLock sid (lwLocks w) = (l, s') \<Longrightarrow>
    append_step del w (w\<lparr>lwLocks := s'\<lparr>lkPhase := (lkPhase s')(g \<mapsto> Waiting sid l)\<rparr>, lwTodo := (lwTodo w)(g := ms)\<rparr>)"
| acquire: "phase w g = Some (Waiting sid l) \<Longrightarrow> lkHolder (lwLocks w) l = None \<Longrightarrow>
    append_step del w (w\<lparr>lwLocks := (lwLocks w)\<lparr>lkHolder := (lkHolder (lwLocks w))(l \<mapsto> g),
                             lkPhase := (lkPhase (lwLocks w))(g \<mapsto> Working sid l)\<rparr>,
                         lwWritten := (lwWritten w)(g := [])\<rparr>)"
| put: "phase w g = Some (Working sid l) \<Longrightarrow> lwTodo w g = m # ms \<Longrightarrow>
    append_step del w (w\<lparr>lwLog := (lwLog w)(sid := lwLog w sid @ [m]), lwTodo := (lwTodo w)(g := ms),
                         lwWritten := (lwWritten w)(g := lwWritten w g @ [m])\<rparr>)"
| give_up: "phase w g = Some (Working sid l) \<Longrightarrow> append_step del w (w\<lparr>lwTodo := (lwTodo w)(g := [])\<rparr>)"
    \<comment> \<open>a message that cannot be marshalled or written: \<open>Append\<close> returns early\<close>
| wipe: "del \<Longrightarrow> phase w g = Some (Working sid l) \<Longrightarrow> lwTodo w g = [] \<Longrightarrow> lwWritten w g = [] \<Longrightarrow>
    append_step del w (w\<lparr>lwLocks := (lwLocks w)\<lparr>lkTable := (lkTable (lwLocks w))(sid := None)\<rparr>,
                         lwLog := (lwLog w)(sid := []), lwTurns := (lwTurns w)(sid := [])\<rparr>)"
| release: "phase w g = Some (Working sid l) \<Longrightarrow> lwTodo w g = [] \<Longrightarrow>
    append_step del w (w\<lparr>lwLocks := (lwLocks w)\<lparr>lkHolder := (lkHolder (lwLocks w))(l := None),
                             lkPhase := (lkPhase (lwLocks w))(g := None)\<rparr>,
                         lwTurns := (lwTurns w)(sid := lwTurns w sid @ [lwWritten w g])\<rparr>)"

inductive append_reach :: "bool \<Rightarrow> 'm log_world \<Rightarrow> bool" for del where
  start: "append_reach del no_logs"
| step: "append_reach del w \<Longrightarrow> append_step del w w' \<Longrightarrow> append_reach del w'"

text \<open>Seen from the locks, these are the steps of \<open>Session_Locks\<close>.\<close>

lemma append_lock_step: "append_step del w w' \<Longrightarrow> lock_step del (lwLocks w) (lwLocks w') \<or> lwLocks w' = lwLocks w"
  by (induction rule: append_step.induct) (simp_all, (blast intro: lock_step.intros)+)

lemma append_lock_reach: "append_reach del w \<Longrightarrow> lock_reach del (lwLocks w)"
proof (induction rule: append_reach.induct)
  case start
  then show ?case by (simp add: no_logs_def lock_reach.start)
next
  case (step w w')
  then show ?case using append_lock_step lock_reach.step by metis
qed

text \<open>The log is the finished appends, and what the goroutine at work has written of its own.\<close>

definition at_work :: "'m log_world \<Rightarrow> string \<Rightarrow> nat \<Rightarrow> bool" where
  "at_work w sid g \<longleftrightarrow> (\<exists>l. phase w g = Some (Working sid l))"

definition log_inv :: "'m log_world \<Rightarrow> bool" where
  "log_inv w \<longleftrightarrow>
     (\<forall>sid g. at_work w sid g \<longrightarrow> lwLog w sid = concat (lwTurns w sid) @ lwWritten w g)
     \<and> (\<forall>sid. (\<forall>g. \<not> at_work w sid g) \<longrightarrow> lwLog w sid = concat (lwTurns w sid))"

lemma at_work_alone:
  assumes "lock_reach False (lwLocks w)" "at_work w sid g" "at_work w sid h" shows "g = h"
  using assms exclusive_work [OF assms(1)] by (auto simp: at_work_def)

lemma waiting_finds_nobody:
  assumes "lock_reach False (lwLocks w)" "phase w g = Some (Waiting sid l)" "lkHolder (lwLocks w) l = None"
  shows "\<not> at_work w sid h"
proof
  assume "at_work w sid h"
  then obtain m where h: "phase w h = Some (Working sid m)" by (auto simp: at_work_def)
  have "lkTable (lwLocks w) sid = Some l" "lkTable (lwLocks w) sid = Some m"
    using own_lock_reach [OF assms(1)] h assms(2) unfolding own_lock_def by blast+
  then have "m = l" by simp
  with h assms(3) lock_reach_inv [OF assms(1)] show False by (auto simp: lock_inv_def)
qed

lemma log_inv_step:
  assumes "append_step False w w'" "lock_reach False (lwLocks w)" "log_inv w"
  shows "log_inv w'"
  using assms(1)
proof cases
  case (enter g sid l s' ms)
  have "at_work w' = at_work w" using enter getLock_cases [OF enter(3)] by (auto simp: at_work_def fun_eq_iff)
  with enter assms(3) show ?thesis by (simp add: log_inv_def)
next
  case (acquire g sid l)
  have "at_work w' x h \<longleftrightarrow> x = sid \<and> h = g \<or> at_work w x h" for x h using acquire by (auto simp: at_work_def)
  moreover have "\<not> at_work w sid h" for h by (rule waiting_finds_nobody [OF assms(2) acquire(2,3)])
  moreover have "\<not> at_work w x g" for x using acquire(2) by (simp add: at_work_def)
  ultimately show ?thesis using acquire(1) assms(3) by (auto simp: log_inv_def)
next
  case (put g sid l m ms)
  have a: "at_work w' = at_work w" using put by (auto simp: at_work_def fun_eq_iff)
  have g: "at_work w sid g" using put(2) by (auto simp: at_work_def)
  show ?thesis unfolding log_inv_def
  proof (intro conjI allI impI)
    fix x h assume h: "at_work w' x h"
    show "lwLog w' x = concat (lwTurns w' x) @ lwWritten w' h"
    proof (cases "x = sid")
      case True
      with h g a have "h = g" using at_work_alone [OF assms(2)] by simp
      with True g put(1) assms(3) show ?thesis by (simp add: log_inv_def)
    next
      case False
      with h a put(2) have "h \<noteq> g" by (auto simp: at_work_def)
      with False h a put(1) assms(3) show ?thesis by (simp add: log_inv_def)
    qed
  next
    fix x assume h: "\<forall>h. \<not> at_work w' x h"
    with g a have "x \<noteq> sid" by auto
    with h a put(1) assms(3) show "lwLog w' x = concat (lwTurns w' x)" by (simp add: log_inv_def)
  qed
next
  case (release g sid l)
  have a: "at_work w' x h \<longleftrightarrow> at_work w x h \<and> h \<noteq> g" for x h using release by (auto simp: at_work_def)
  have g: "at_work w sid g" using release(2) by (auto simp: at_work_def)
  have only: "h = g" if "at_work w sid h" for h using at_work_alone [OF assms(2) g that] by simp
  show ?thesis unfolding log_inv_def
  proof (intro conjI allI impI)
    fix x h assume h: "at_work w' x h"
    then have "x \<noteq> sid" using a only by blast
    with h a release(1) assms(3) show "lwLog w' x = concat (lwTurns w' x) @ lwWritten w' h" by (simp add: log_inv_def)
  next
    fix x assume h: "\<forall>h. \<not> at_work w' x h"
    show "lwLog w' x = concat (lwTurns w' x)"
    proof (cases "x = sid")
      case True
      with g release(1) assms(3) show ?thesis by (simp add: log_inv_def)
    next
      case False
      then have "\<not> at_work w x g" using release(2) by (auto simp: at_work_def)
      then have "\<forall>h. \<not> at_work w x h" using h a by metis
      with False release(1) assms(3) show ?thesis by (simp add: log_inv_def)
    qed
  qed
next
  case (give_up g sid l)
  then show ?thesis using assms(3) by (simp add: log_inv_def at_work_def)
qed simp

lemma log_inv_reach: "append_reach False w \<Longrightarrow> log_inv w"
proof (induction rule: append_reach.induct)
  case start
  then show ?case by (simp add: log_inv_def no_logs_def no_locks_def at_work_def)
next
  case (step w w')
  then show ?case using log_inv_step append_lock_reach by blast
qed

text \<open>A schedule: which goroutine takes which step next. It runs on the model and gives reachable states.\<close>

datatype 'm action = Enter nat string "'m list" | Acquire nat | Put nat | Wipe nat | Release nat

fun act :: "'m action \<Rightarrow> 'm log_world \<Rightarrow> 'm log_world option" where
  "act (Enter g sid ms) w =
     (if phase w g \<noteq> None then None
      else case getLock sid (lwLocks w) of
             (l, s') \<Rightarrow> Some (w\<lparr>lwLocks := s'\<lparr>lkPhase := (lkPhase s')(g \<mapsto> Waiting sid l)\<rparr>, lwTodo := (lwTodo w)(g := ms)\<rparr>))"
| "act (Acquire g) w =
     (case phase w g of
        Some (Waiting sid l) \<Rightarrow>
          if lkHolder (lwLocks w) l \<noteq> None then None
          else Some (w\<lparr>lwLocks := (lwLocks w)\<lparr>lkHolder := (lkHolder (lwLocks w))(l \<mapsto> g),
                         lkPhase := (lkPhase (lwLocks w))(g \<mapsto> Working sid l)\<rparr>, lwWritten := (lwWritten w)(g := [])\<rparr>)
      | _ \<Rightarrow> None)"
| "act (Put g) w =
     (case (phase w g, lwTodo w g) of
        (Some (Working sid l), m # ms) \<Rightarrow>
          Some (w\<lparr>lwLog := (lwLog w)(sid := lwLog w sid @ [m]), lwTodo := (lwTodo w)(g := ms),
                  lwWritten := (lwWritten w)(g := lwWritten w g @ [m])\<rparr>)
      | _ \<Rightarrow> None)"
| "act (Wipe g) w =
     (case phase w g of
        Some (Working sid l) \<Rightarrow>
          if lwTodo w g \<noteq> [] \<or> lwWritten w g \<noteq> [] then None
          else Some (w\<lparr>lwLocks := (lwLocks w)\<lparr>lkTable := (lkTable (lwLocks w))(sid := None)\<rparr>,
                       lwLog := (lwLog w)(sid := []), lwTurns := (lwTurns w)(sid := [])\<rparr>)
      | _ \<Rightarrow> None)"
| "act (Release g) w =
     (case phase w g of
        Some (Working sid l) \<Rightarrow>
          if lwTodo w g \<noteq> [] then None
          else Some (w\<lparr>lwLocks := (lwLocks w)\<lparr>lkHolder := (lkHolder (lwLocks w))(l := None),
                         lkPhase := (lkPhase (lwLocks w))(g := None)\<rparr>,
                       lwTurns := (lwTurns w)(sid := lwTurns w sid @ [lwWritten w g])\<rparr>)
      | _ \<Rightarrow> None)"

fun schedule :: "'m action list \<Rightarrow> 'm log_world \<Rightarrow> 'm log_world option" where
  "schedule [] w = Some w"
| "schedule (a # as) w = (case act a w of None \<Rightarrow> None | Some w' \<Rightarrow> schedule as w')"

fun deletes :: "'m action \<Rightarrow> bool" where
  "deletes (Wipe g) = True"
| "deletes _ = False"

lemma act_step: "act a w = Some w' \<Longrightarrow> deletes a \<longrightarrow> del \<Longrightarrow> append_step del w w'"
  by (cases a) (auto intro: append_step.intros split: option.splits lock_phase.splits list.splits prod.splits if_splits)

lemma schedule_reach: "schedule as w = Some w' \<Longrightarrow> \<forall>a \<in> set as. deletes a \<longrightarrow> del \<Longrightarrow> append_reach del w \<Longrightarrow> append_reach del w'"
proof (induction as arbitrary: w)
  case (Cons a as)
  then obtain v where v: "act a w = Some v" "schedule as v = Some w'" by (auto split: option.splits)
  then have "append_reach del v" using Cons.prems act_step append_reach.step by (metis list.set_intros(1))
  with Cons v show ?case by simp
qed simp

definition race :: "nat action list" where
  "race = [Enter 0 ''a'' [], Acquire 0, Enter 1 ''a'' [1, 1], Wipe 0, Release 0, Acquire 1, Put 1,
           Enter 2 ''a'' [2], Acquire 2, Put 2, Put 1, Release 2, Release 1]"

text \<open>
  While no session is deleted, a session's log is at every moment the messages of its finished
  appends, one append after the other, followed by what the one at work has written: no turn is torn
  apart by another. After a deletion this no longer holds: an append that waited on the old lock and
  one that got the new one write their messages into each other's.
\<close>

theorem turns_stay_together:
  "(append_reach False w \<longrightarrow> phase w g = Some (Working sid l) \<longrightarrow> lwLog w sid = concat (lwTurns w sid) @ lwWritten w g)
   \<and> (append_reach False w \<longrightarrow> (\<forall>g l. phase w g \<noteq> Some (Working sid l)) \<longrightarrow> lwLog w sid = concat (lwTurns w sid))
   \<and> (\<exists>v :: nat log_world. append_reach True v \<and> (\<forall>g. phase v g = None) \<and> lwTurns v ''a'' = [[], [2], [1, 1]] \<and> lwLog v ''a'' = [1, 2, 1])"
proof (intro conjI impI)
  assume "append_reach False w" "phase w g = Some (Working sid l)"
  then show "lwLog w sid = concat (lwTurns w sid) @ lwWritten w g" using log_inv_reach [of w] by (auto simp: log_inv_def at_work_def)
next
  assume "append_reach False w" "\<forall>g l. phase w g \<noteq> Some (Working sid l)"
  then show "lwLog w sid = concat (lwTurns w sid)" using log_inv_reach [of w] by (auto simp: log_inv_def at_work_def)
next
  obtain v where v: "schedule race no_logs = Some v" "\<forall>g. phase v g = None" "lwTurns v ''a'' = [[], [2], [1, 1]]" "lwLog v ''a'' = [1, 2, 1]"
    by (simp add: race_def no_logs_def no_locks_def getLock_def)
  have "append_reach True v" by (rule schedule_reach [OF v(1) _ append_reach.start]) simp
  with v show "\<exists>v :: nat log_world. append_reach True v \<and> (\<forall>g. phase v g = None) \<and> lwTurns v ''a'' = [[], [2], [1, 1]] \<and> lwLog v ''a'' = [1, 2, 1]"
    by blast
qed

theorem turns_stay_together_witness:
  "\<exists>w :: nat log_world. schedule [Enter 0 ''a'' [7, 8], Acquire 0, Put 0, Enter 1 ''a'' [9]] no_logs = Some w
     \<and> lwLog w ''a'' = concat (lwTurns w ''a'') @ lwWritten w 0"
proof -
  obtain w :: "nat log_world" where w: "schedule [Enter 0 ''a'' [7, 8], Acquire 0, Put 0, Enter 1 ''a'' [9]] no_logs = Some w"
    "phase w 0 = Some (Working ''a'' 0)"
    by (simp add: no_logs_def no_locks_def getLock_def)
  have "append_reach False w" by (rule schedule_reach [OF w(1) _ append_reach.start]) simp
  with turns_stay_together [of w 0 "''a''" 0] w show ?thesis by blast
qed

end
