(* ===== verification/Locked_Files.thy ===== *)
theory Locked_Files
  imports Locked_Appends Session_Store
begin

text \<open>
  The locks of a session together with the bytes of its log (\<open>internal/agent/session/store.go\<close>): the
  steps of \<open>Locked_Appends\<close>, each write of a message adding its line to the file, and \<open>GetMessages\<close>
  reading the file under the same lock.
\<close>

record 'm file_world =
  fwLogs :: "'m log_world"
  fwFile :: "string \<Rightarrow> string"

definition no_files :: "'m file_world" where
  "no_files = \<lparr>fwLogs = no_logs, fwFile = (\<lambda>_. [])\<rparr>"

inductive file_step :: "'m file_env \<Rightarrow> bool \<Rightarrow> 'm file_world \<Rightarrow> 'm file_world \<Rightarrow> bool" for env del where
  write_line: "phase (fwLogs w) g = Some (Working sid l) \<Longrightarrow> lwTodo (fwLogs w) g = m # ms \<Longrightarrow> feEnc env m = Some data \<Longrightarrow>
    file_step env del w (w\<lparr>fwLogs := (fwLogs w)\<lparr>lwLog := (lwLog (fwLogs w))(sid := lwLog (fwLogs w) sid @ [m]),
                                   lwTodo := (lwTodo (fwLogs w))(g := ms),
                                   lwWritten := (lwWritten (fwLogs w))(g := lwWritten (fwLogs w) g @ [m])\<rparr>,
                     fwFile := (fwFile w)(sid := fwFile w sid @ data @ [newline])\<rparr>)"
| remove_file: "append_step del (fwLogs w) lw \<Longrightarrow> lwLog lw = (lwLog (fwLogs w))(sid := []) \<Longrightarrow>
    file_step env del w (w\<lparr>fwLogs := lw, fwFile := (fwFile w)(sid := [])\<rparr>)"
| lock_only: "append_step del (fwLogs w) lw \<Longrightarrow> lwLog lw = lwLog (fwLogs w) \<Longrightarrow> file_step env del w (w\<lparr>fwLogs := lw\<rparr>)"

inductive file_reach :: "'m file_env \<Rightarrow> bool \<Rightarrow> 'm file_world \<Rightarrow> bool" for env del where
  start: "file_reach env del no_files"
| step: "file_reach env del w \<Longrightarrow> file_step env del w w' \<Longrightarrow> file_reach env del w'"

text \<open>Without the bytes these are the steps of \<open>Locked_Appends\<close>, and the bytes are the encoded messages.\<close>

lemma file_append_step: "file_step env del w w' \<Longrightarrow> append_step del (fwLogs w) (fwLogs w')"
  by (induction rule: file_step.induct) (auto intro: append_step.put)

lemma encoded_snoc: "feEnc env m = Some data \<Longrightarrow> encoded env (ms @ [m]) = encoded env ms @ data @ [newline]"
  by (simp add: encoded_def)

definition bytes_ok :: "'m file_env \<Rightarrow> 'm file_world \<Rightarrow> bool" where
  "bytes_ok env w \<longleftrightarrow> (\<forall>sid. fwFile w sid = encoded env (lwLog (fwLogs w) sid))"

lemma bytes_ok_step: "file_step env del w w' \<Longrightarrow> bytes_ok env w \<Longrightarrow> bytes_ok env w'"
  by (induction rule: file_step.induct) (auto simp: bytes_ok_def encoded_snoc encoded_def)

lemma file_reach_inv: "file_reach env del w \<Longrightarrow> append_reach del (fwLogs w) \<and> bytes_ok env w"
proof (induction rule: file_reach.induct)
  case start
  then show ?case by (simp add: no_files_def append_reach.start bytes_ok_def) (simp add: no_logs_def encoded_def)
next
  case (step w w')
  then show ?case using bytes_ok_step file_append_step append_reach.step by blast
qed

lemma read_encoded: "list_all (storable env) ms \<Longrightarrow> read_log env (encoded env ms) = Some ms"
  using read_log_append [of env ms "[]" "[]"] by (simp add: terminated_def read_log_def maxToken_def)


text \<open>A schedule of \<open>Locked_Appends\<close> with its bytes.\<close>

fun act_file :: "'m file_env \<Rightarrow> 'm action \<Rightarrow> 'm file_world \<Rightarrow> 'm file_world option" where
  "act_file env (Put g) w =
     (case (phase (fwLogs w) g, lwTodo (fwLogs w) g) of
        (Some (Working sid l), m # ms) \<Rightarrow>
          (case feEnc env m of
             None \<Rightarrow> None
           | Some data \<Rightarrow> map_option (\<lambda>lw. w\<lparr>fwLogs := lw, fwFile := (fwFile w)(sid := fwFile w sid @ data @ [newline])\<rparr>) (act (Put g) (fwLogs w)))
      | _ \<Rightarrow> None)"
| "act_file env (Wipe g) w = None"
| "act_file env a w = map_option (\<lambda>lw. w\<lparr>fwLogs := lw\<rparr>) (act a (fwLogs w))"

fun schedule_file :: "'m file_env \<Rightarrow> 'm action list \<Rightarrow> 'm file_world \<Rightarrow> 'm file_world option" where
  "schedule_file env [] w = Some w"
| "schedule_file env (a # as) w = (case act_file env a w of None \<Rightarrow> None | Some w' \<Rightarrow> schedule_file env as w')"

lemma act_keeps_log: "act a lw = Some lw' \<Longrightarrow> \<forall>g. a \<noteq> Put g \<and> a \<noteq> Wipe g \<Longrightarrow> lwLog lw' = lwLog lw"
  by (cases a) (auto simp: getLock_def split: option.splits lock_phase.splits list.splits prod.splits if_splits)

lemma act_file_step: "act_file env a w = Some w' \<Longrightarrow> file_step env False w w'"
proof (cases a)
  case (Put g)
  assume "act_file env a w = Some w'"
  with Put show ?thesis
    by (auto split: option.splits lock_phase.splits list.splits intro!: file_step.write_line)
next
  case (Wipe g)
  assume "act_file env a w = Some w'"
  with Wipe show ?thesis by simp
qed (use act_keeps_log [of a "fwLogs w"] act_step [of a "fwLogs w"] in \<open>auto intro!: file_step.lock_only\<close>)

lemma schedule_file_reach: "schedule_file env as w = Some w' \<Longrightarrow> file_reach env False w \<Longrightarrow> file_reach env False w'"
proof (induction as arbitrary: w)
  case (Cons a as)
  then obtain v where v: "act_file env a w = Some v" "schedule_file env as v = Some w'" by (auto split: option.splits)
  with Cons show ?case using act_file_step file_reach.step by blast
qed simp


end
