(* ===== verification/Meta_Races.thy ===== *)
theory Meta_Races
  imports Agent_Handlers
begin

text \<open>
  Lookups of sessions that run beside other operations (\<open>internal/agent/session/store.go\<close>): \<open>GetMeta\<close>
  takes no lock. It looks into the cache, then reads the file, then stores what it read in the cache,
  and other goroutines take steps in between. The operations that hold the session's lock are atomic
  here.
\<close>

subsection \<open>The parts of a lookup\<close>

definition meta_cached :: "int \<Rightarrow> string \<Rightarrow> FileStore \<Rightarrow> SessionMeta option option" where
  \<comment> \<open>None: not in the cache\<close>
  "meta_cached now sid st = map_option (\<lambda>m. if expired now st m then None else Some m) (metas st sid)"

definition meta_on_disk :: "'m file_env \<Rightarrow> int \<Rightarrow> string \<Rightarrow> FileStore \<Rightarrow> SessionMeta option" where
  "meta_on_disk env now sid st =
     (case metaFiles st (metaPath st sid) of
        None \<Rightarrow> None
      | Some data \<Rightarrow>
          (case parse_meta env data of
             None \<Rightarrow> None
           | Some m \<Rightarrow> if expired now st m then None else Some m))"

definition meta_store :: "string \<Rightarrow> SessionMeta \<Rightarrow> FileStore \<Rightarrow> FileStore" where
  "meta_store sid m st = st\<lparr>metas := (metas st)(sid \<mapsto> m)\<rparr>"

lemma GetMeta_parts:
  "GetMeta env now sid st =
     (case meta_cached now sid st of
        Some r \<Rightarrow> (r, st)
      | None \<Rightarrow> (case meta_on_disk env now sid st of None \<Rightarrow> (None, st) | Some m \<Rightarrow> (Some m, meta_store sid m st)))"
  by (simp add: GetMeta_def meta_cached_def meta_on_disk_def meta_store_def split: option.split)

subsection \<open>Steps\<close>

datatype lookup = AtDisk string | AtStore string SessionMeta

record meta_world =
  mwStore :: FileStore
  mwLookup :: "nat \<rightharpoonup> lookup"     \<comment> \<open>goroutines past the cache, and where they are\<close>

definition meta_start :: "FileStore \<Rightarrow> meta_world" where
  "meta_start st = \<lparr>mwStore = st, mwLookup = Map.empty\<rparr>"

text \<open>\<open>del\<close>: whether sessions are deleted too. A lookup that finds its session in the cache changes nothing.\<close>

inductive meta_step :: "'m file_env \<Rightarrow> bool \<Rightarrow> meta_world \<Rightarrow> meta_world \<Rightarrow> bool" for env del where
  miss: "mwLookup w g = None \<Longrightarrow> meta_cached now sid (mwStore w) = None \<Longrightarrow>
    meta_step env del w (w\<lparr>mwLookup := (mwLookup w)(g \<mapsto> AtDisk sid)\<rparr>)"
| read: "mwLookup w g = Some (AtDisk sid) \<Longrightarrow> meta_on_disk env now sid (mwStore w) = Some m \<Longrightarrow>
    meta_step env del w (w\<lparr>mwLookup := (mwLookup w)(g \<mapsto> AtStore sid m)\<rparr>)"
| absent: "mwLookup w g = Some (AtDisk sid) \<Longrightarrow> meta_on_disk env now sid (mwStore w) = None \<Longrightarrow>
    meta_step env del w (w\<lparr>mwLookup := (mwLookup w)(g := None)\<rparr>)"
| cache: "mwLookup w g = Some (AtStore sid m) \<Longrightarrow>
    meta_step env del w (w\<lparr>mwStore := meta_store sid m (mwStore w), mwLookup := (mwLookup w)(g := None)\<rparr>)"
| create: "meta_step env del w (w\<lparr>mwStore := snd (CreateWithArticle env ts sid i a own (mwStore w))\<rparr>)"
| append: "meta_step env del w (w\<lparr>mwStore := snd (Append env now sid ms (mwStore w))\<rparr>)"
| delete: "del \<Longrightarrow> meta_step env del w (w\<lparr>mwStore := DeleteSession sid (mwStore w)\<rparr>)"

inductive meta_reach :: "'m file_env \<Rightarrow> bool \<Rightarrow> meta_world \<Rightarrow> meta_world \<Rightarrow> bool" for env del w0 where
  start: "meta_reach env del w0 w0"
| step: "meta_reach env del w0 w \<Longrightarrow> meta_step env del w w' \<Longrightarrow> meta_reach env del w0 w'"

lemma meta_reach_trans: "meta_reach env del v u \<Longrightarrow> meta_reach env del w v \<Longrightarrow> meta_reach env del w u"
  by (induction rule: meta_reach.induct) (auto intro: meta_reach.step)

subsection \<open>Without deletions the cache holds only sessions that are on the disk\<close>

definition on_disk :: "FileStore \<Rightarrow> string \<Rightarrow> bool" where
  "on_disk st sid \<longleftrightarrow> metaFiles st (metaPath st sid) \<noteq> None"

definition cache_ok :: "meta_world \<Rightarrow> bool" where
  "cache_ok w \<longleftrightarrow> (\<forall>sid. metas (mwStore w) sid \<noteq> None \<longrightarrow> on_disk (mwStore w) sid)
     \<and> (\<forall>g sid m. mwLookup w g = Some (AtStore sid m) \<longrightarrow> on_disk (mwStore w) sid)"

text \<open>An operation that adds files only and caches a session together with its file.\<close>

definition grows :: "FileStore \<Rightarrow> FileStore \<Rightarrow> bool" where
  "grows st st' \<longleftrightarrow> (\<forall>sid. on_disk st sid \<longrightarrow> on_disk st' sid)
     \<and> (\<forall>sid. metas st' sid \<noteq> None \<longrightarrow> metas st sid \<noteq> None \<or> on_disk st' sid)"

lemma cache_ok_grows: "cache_ok w \<Longrightarrow> grows (mwStore w) st \<Longrightarrow> cache_ok (w\<lparr>mwStore := st\<rparr>)"
  unfolding cache_ok_def grows_def by (simp, metis)

lemma grows_create: "grows st (snd (CreateWithArticle env ts sid i a own st))"
  by (auto simp: grows_def on_disk_def CreateWithArticle_def metaPath_def Let_def)

lemma grows_append: "grows st (snd (Append env now sid ms st))"
  by (auto simp: grows_def on_disk_def Append_def touchMeta_def metaPath_def Let_def split: prod.splits option.splits)

lemma cache_ok_step:
  assumes "meta_step env False w w'" "cache_ok w" shows "cache_ok w'"
  using assms(1)
proof cases
  case create
  then show ?thesis using cache_ok_grows [OF assms(2) grows_create] by simp
next
  case append
  then show ?thesis using cache_ok_grows [OF assms(2) grows_append] by simp
next
  case (read g sid now m)
  have "on_disk (mwStore w) sid" using read(3) by (auto simp: meta_on_disk_def on_disk_def split: option.splits)
  with read(1) assms(2) show ?thesis by (auto simp: cache_ok_def)
next
  case (cache g sid m)
  then have "on_disk (mwStore w) sid" using assms(2) unfolding cache_ok_def by blast
  moreover have "on_disk (meta_store sid m (mwStore w)) x = on_disk (mwStore w) x" for x
    by (simp add: on_disk_def meta_store_def metaPath_def)
  ultimately show ?thesis using cache(1) assms(2) by (auto simp: cache_ok_def meta_store_def)
qed (use assms(2) in \<open>auto simp: cache_ok_def\<close>)

lemma cache_ok_reach: "meta_reach env False w0 w \<Longrightarrow> cache_ok w0 \<Longrightarrow> cache_ok w"
  by (induction rule: meta_reach.induct) (auto intro: cache_ok_step)

subsection \<open>A lookup that is overtaken\<close>

text \<open>A session whose metadata the disk has and the cache has not, as after a restart.\<close>

definition only_on_disk :: "'m file_env \<Rightarrow> int \<Rightarrow> string \<Rightarrow> SessionMeta \<Rightarrow> FileStore \<Rightarrow> bool" where
  "only_on_disk env now sid m st \<longleftrightarrow> metas st sid = None \<and> meta_on_disk env now sid st = Some m"

lemma lookup_overtaken:
  assumes "only_on_disk env now sid m st" "meta_reach env del (w\<lparr>mwLookup := (mwLookup w)(g \<mapsto> AtStore sid m)\<rparr>) v"
    and "mwStore w = st" "mwLookup w = Map.empty" "mwLookup v = [g \<mapsto> AtStore sid m]"
  shows "meta_reach env del w (v\<lparr>mwStore := meta_store sid m (mwStore v), mwLookup := Map.empty\<rparr>)"
proof -
  let ?a = "w\<lparr>mwLookup := (mwLookup w)(g \<mapsto> AtDisk sid)\<rparr>"
  let ?b = "?a\<lparr>mwLookup := (mwLookup ?a)(g \<mapsto> AtStore sid m)\<rparr>"
  have "meta_step env del w ?a"
    by (rule meta_step.miss [of _ _ now]) (use assms in \<open>simp_all add: only_on_disk_def meta_cached_def\<close>)
  moreover have "meta_step env del ?a ?b" by (rule meta_step.read [of _ _ _ _ now]) (use assms in \<open>simp_all add: only_on_disk_def\<close>)
  ultimately have "meta_reach env del w ?b" by (meson meta_reach.intros)
  moreover have "meta_reach env del ?b v" using assms(2) by simp
  ultimately have r: "meta_reach env del w v" using meta_reach_trans by blast
  have "meta_step env del v (v\<lparr>mwStore := meta_store sid m (mwStore v), mwLookup := (mwLookup v)(g := None)\<rparr>)"
    by (rule meta_step.cache) (simp add: assms(5))
  with r show ?thesis using assms(5) by (metis meta_reach.step fun_upd_upd map_upd_nonempty fun_upd_triv)
qed

text \<open>The answer to a visitor who continues a session that is in the cache and has lost its files.\<close>

lemma chat_without_files:
  assumes "bind_chat body = Some req" "crSessionID req = sid" "sid \<noteq> []" "crArticle req = None"
    and "TrimSpace (crUserMessage req) \<noteq> []" "TrimSpace (crVisitorID req) \<noteq> []"
    and "metas (agStore ag) sid = Some m" "\<not> expired (atLookup clk) (agStore ag) m" "owner_ok m (crVisitorID req)"
    and "jsonlFiles (agStore ag) (jsonlPath (agStore ag) sid) = None"
  shows "chat_begin env clk uuid tok body ag = (Inl (Http 500 (message_json ''failed to load session history'')), ag)"
proof -
  have "GetMeta env (atLookup clk) sid (agStore ag) = (Some m, agStore ag)" using assms(7,8) by (simp add: GetMeta_def)
  then have "chat_setup env clk uuid body ag = (Prepared sid False (smInstruction m), ag)"
    using assms(1-6,9) by (simp add: chat_setup_def Let_def)
  then show ?thesis using assms(10) by (simp add: chat_begin_def GetMessages_def)
qed

text \<open>
  C17. As long as no session is deleted, every session in the cache has its metadata on the disk,
  however lookups and other operations interleave. A deletion breaks this: a lookup that has read a
  session's file before the deletion caches the session again after it. Its files are gone, and a
  visitor who continues it is answered with 500, and nothing changes, until it expires.
\<close>

theorem deleted_session_revived:
  assumes "only_on_disk env now sid m st" "sid \<noteq> []"
  shows "(cache_ok (meta_start st) \<longrightarrow> (\<forall>w s. meta_reach env False (meta_start st) w \<longrightarrow> metas (mwStore w) s \<noteq> None \<longrightarrow> on_disk (mwStore w) s))
     \<and> (\<exists>w. meta_reach env True (meta_start st) w \<and> mwLookup w = Map.empty \<and> metas (mwStore w) sid = Some m \<and> \<not> on_disk (mwStore w) sid \<and> ttl (mwStore w) = ttl st
         \<and> (\<forall>body req clk uuid tok ag. agStore ag = mwStore w \<longrightarrow> bind_chat body = Some req \<longrightarrow> crSessionID req = sid \<longrightarrow> crArticle req = None
              \<longrightarrow> TrimSpace (crUserMessage req) \<noteq> [] \<longrightarrow> TrimSpace (crVisitorID req) \<noteq> [] \<longrightarrow> owner_ok m (crVisitorID req)
              \<longrightarrow> \<not> expired (atLookup clk) (mwStore w) m
              \<longrightarrow> chat_begin env clk uuid tok body ag = (Inl (Http 500 (message_json ''failed to load session history'')), ag)))"
proof (intro conjI impI allI)
  fix w s assume "cache_ok (meta_start st)" "meta_reach env False (meta_start st) w" "metas (mwStore w) s \<noteq> None"
  then show "on_disk (mwStore w) s" using cache_ok_reach [of env "meta_start st" w] by (auto simp: cache_ok_def)
next
  let ?w = "meta_start st"
  let ?b = "?w\<lparr>mwLookup := (mwLookup ?w)(0 \<mapsto> AtStore sid m)\<rparr>"
  let ?v = "?b\<lparr>mwStore := DeleteSession sid st\<rparr>"
  have "meta_reach env True ?b ?v"
    using meta_reach.step [OF meta_reach.start meta_step.delete [of True env ?b sid]] by (simp add: meta_start_def)
  from lookup_overtaken [OF assms(1) this] have r: "meta_reach env True ?w (?v\<lparr>mwStore := meta_store sid m (DeleteSession sid st), mwLookup := Map.empty\<rparr>)"
    by (simp add: meta_start_def)
  let ?u = "?v\<lparr>mwStore := meta_store sid m (DeleteSession sid st), mwLookup := Map.empty\<rparr>"
  have f: "metas (mwStore ?u) sid = Some m" "\<not> on_disk (mwStore ?u) sid" "jsonlFiles (mwStore ?u) (jsonlPath (mwStore ?u) sid) = None" "ttl (mwStore ?u) = ttl st"
    by (simp_all add: meta_store_def DeleteSession_def on_disk_def metaPath_def jsonlPath_def)
  have c: "chat_begin env clk uuid tok body ag = (Inl (Http 500 (message_json ''failed to load session history'')), ag)"
    if "agStore ag = mwStore ?u" "bind_chat body = Some req" "crSessionID req = sid" "crArticle req = None"
      "TrimSpace (crUserMessage req) \<noteq> []" "TrimSpace (crVisitorID req) \<noteq> []" "owner_ok m (crVisitorID req)"
      "\<not> expired (atLookup clk) (mwStore ?u) m" for body req clk uuid tok ag
    by (rule chat_without_files [OF that(2,3) assms(2) that(4,5,6)]) (use that f in simp_all)
  show "\<exists>w. meta_reach env True ?w w \<and> mwLookup w = Map.empty \<and> metas (mwStore w) sid = Some m \<and> \<not> on_disk (mwStore w) sid \<and> ttl (mwStore w) = ttl st
         \<and> (\<forall>body req clk uuid tok ag. agStore ag = mwStore w \<longrightarrow> bind_chat body = Some req \<longrightarrow> crSessionID req = sid \<longrightarrow> crArticle req = None
              \<longrightarrow> TrimSpace (crUserMessage req) \<noteq> [] \<longrightarrow> TrimSpace (crVisitorID req) \<noteq> [] \<longrightarrow> owner_ok m (crVisitorID req)
              \<longrightarrow> \<not> expired (atLookup clk) (mwStore w) m
              \<longrightarrow> chat_begin env clk uuid tok body ag = (Inl (Http 500 (message_json ''failed to load session history'')), ag))"
    using r f c by (intro exI [of _ ?u]) simp
qed

definition race_env :: "message file_env" where
  "race_env = \<lparr>feWritable = (\<lambda>p. True), feTime = (\<lambda>t. Itoa t), feParseTime = (\<lambda>s. Some 0), feEnc = (\<lambda>m. Some ''m''), feDec = (\<lambda>s. None)\<rparr>"

definition race_store :: FileStore where
  "race_store = wit_store\<lparr>metaFiles := [metaPath wit_store ''a'' \<mapsto> Json (meta_json race_env wit_meta)]\<rparr>"

lemma race_only_on_disk: "only_on_disk race_env 5 ''a'' (coerced wit_meta) race_store"
proof -
  have "metaPath race_store ''a'' = metaPath wit_store ''a''" "ttl race_store = 10" "metas race_store = Map.empty"
    by (simp_all add: race_store_def metaPath_def) (simp_all add: wit_store_def)
  moreover have "parse_meta race_env (Json (meta_json race_env wit_meta)) = Some (coerced wit_meta)"
    by (rule parse_meta_json) (simp_all add: race_env_def wit_meta_def)
  ultimately show ?thesis
    by (simp add: only_on_disk_def meta_on_disk_def race_store_def expired_def coerced_def wit_meta_def)
qed

theorem deleted_session_revived_witness:
  "\<exists>w. meta_reach race_env True (meta_start race_store) w \<and> metas (mwStore w) ''a'' = Some (coerced wit_meta) \<and> \<not> on_disk (mwStore w) ''a''
     \<and> chat_begin race_env wit_clock [] 7 wit_chat (wit_agent\<lparr>agStore := mwStore w\<rparr>)
         = (Inl (Http 500 (message_json ''failed to load session history'')), wit_agent\<lparr>agStore := mwStore w\<rparr>)"
proof -
  have t: "TrimSpace ''hello'' \<noteq> []" "TrimSpace ''bob'' \<noteq> []" by code_simp+
  have v: "to_valid_utf8 ''bob'' = ''bob''" by code_simp
  have o: "owner_ok (coerced wit_meta) ''bob''" by (simp add: owner_ok_def coerced_def wit_meta_def v)
  have e: "\<not> expired (atLookup wit_clock) st (coerced wit_meta)" if "ttl st = ttl race_store" for st
    using that by (simp add: expired_def wit_clock_def coerced_def wit_meta_def race_store_def wit_store_def)
  from deleted_session_revived [OF race_only_on_disk] obtain w where
    w: "meta_reach race_env True (meta_start race_store) w" "metas (mwStore w) ''a'' = Some (coerced wit_meta)"
      "\<not> on_disk (mwStore w) ''a''" "ttl (mwStore w) = ttl race_store"
    and c: "\<forall>body req clk uuid tok ag. agStore ag = mwStore w \<longrightarrow> bind_chat body = Some req \<longrightarrow> crSessionID req = ''a'' \<longrightarrow> crArticle req = None
              \<longrightarrow> TrimSpace (crUserMessage req) \<noteq> [] \<longrightarrow> TrimSpace (crVisitorID req) \<noteq> [] \<longrightarrow> owner_ok (coerced wit_meta) (crVisitorID req)
              \<longrightarrow> \<not> expired (atLookup clk) (mwStore w) (coerced wit_meta)
              \<longrightarrow> chat_begin race_env clk uuid tok body ag = (Inl (Http 500 (message_json ''failed to load session history'')), ag)"
    by auto
  from c [rule_format, of "wit_agent\<lparr>agStore := mwStore w\<rparr>", OF _ wit_chat_bind _ _ _ _ _ e [OF w(4)]] w t o show ?thesis by auto
qed

text \<open>
  A second race needs no deletion: two lookups read the file, the first caches what it read, a turn is
  appended, and then the second caches its older copy. The cache forgets the turn's time, and the
  session expires as if the turn had not been.
\<close>

theorem late_lookup_forgets_activity:
  assumes "only_on_disk env now sid m st" and "fst (Append env t1 sid ms (meta_store sid m st)) = None"
  shows "\<exists>w. meta_reach env False (meta_start st) w \<and> mwLookup w = Map.empty
     \<and> mwStore w = meta_store sid m (snd (Append env t1 sid ms (meta_store sid m st)))
     \<and> (\<forall>t. t - smLastActive m > ttl st \<longrightarrow> fst (GetMeta env t sid (mwStore w)) = None)
     \<and> (\<forall>t. t - t1 \<le> ttl st \<longrightarrow> fst (GetMeta env t sid (snd (Append env t1 sid ms (meta_store sid m st)))) \<noteq> None)"
proof -
  let ?w = "meta_start st"
  let ?b = "?w\<lparr>mwLookup := (mwLookup ?w)(0 \<mapsto> AtStore sid m)\<rparr>"
  let ?c = "?b\<lparr>mwLookup := (mwLookup ?b)(1 \<mapsto> AtDisk sid)\<rparr>"
  let ?d = "?c\<lparr>mwLookup := (mwLookup ?c)(1 \<mapsto> AtStore sid m)\<rparr>"
  let ?e = "?d\<lparr>mwStore := meta_store sid m st, mwLookup := [0 \<mapsto> AtStore sid m]\<rparr>"
  let ?st = "snd (Append env t1 sid ms (meta_store sid m st))"
  have o: "metas st sid = None" "meta_on_disk env now sid st = Some m" using assms(1) by (simp_all add: only_on_disk_def)
  have "meta_step env False ?b ?c" by (rule meta_step.miss [of _ _ now]) (simp_all add: meta_start_def meta_cached_def o)
  moreover have "meta_step env False ?c ?d" by (rule meta_step.read [of _ _ _ _ now]) (simp_all add: meta_start_def o)
  moreover have "meta_step env False ?d ?e"
    using meta_step.cache [of ?d 1 sid m env False] by (simp add: meta_start_def fun_upd_twist)
  moreover have "meta_step env False ?e (?e\<lparr>mwStore := ?st\<rparr>)"
    using meta_step.append [of env False ?e t1 sid ms] by simp
  ultimately have "meta_reach env False ?b (?e\<lparr>mwStore := ?st\<rparr>)" by (meson meta_reach.intros)
  from lookup_overtaken [OF assms(1) this]
  have r: "meta_reach env False ?w \<lparr>mwStore = meta_store sid m ?st, mwLookup = Map.empty\<rparr>" by (simp add: meta_start_def)
  have "ttl ?st = ttl st" "metas ?st sid = Some (m\<lparr>smLastActive := t1\<rparr>)"
    using assms(2) by (auto simp: Append_def touchMeta_def meta_store_def Let_def split: prod.splits option.splits if_splits)
  then show ?thesis
    using r by (intro exI [of _ "\<lparr>mwStore = meta_store sid m ?st, mwLookup = Map.empty\<rparr>"])
      (auto simp: GetMeta_def expired_def meta_store_def)
qed

theorem late_lookup_forgets_activity_witness:
  "\<exists>w. meta_reach race_env False (meta_start race_store) w \<and> fst (GetMeta race_env 11 ''a'' (mwStore w)) = None"
proof -
  have "fst (Append race_env 9 ''a'' [UserMessage ''hello''] (meta_store ''a'' (coerced wit_meta) race_store)) = None"
    by (simp add: Append_def race_env_def Let_def)
  from late_lookup_forgets_activity [OF race_only_on_disk this] obtain w where
    "meta_reach race_env False (meta_start race_store) w"
    "\<forall>t. t - smLastActive (coerced wit_meta) > ttl race_store \<longrightarrow> fst (GetMeta race_env t ''a'' (mwStore w)) = None" by blast
  moreover have "smLastActive (coerced wit_meta) = 0" "ttl race_store = 10"
    by (simp_all add: coerced_def wit_meta_def race_store_def wit_store_def)
  ultimately show ?thesis by auto
qed

end
