(* ===== verification/Ws_Client.thy ===== *)
theory Ws_Client
  imports Ws_Server
begin

text \<open>
  The worker's end of the connection
  (\<open>internal/infrastructure/websocket/client/client.go\<close>): dialling, reading with automatic
  reconnection, the HTTP callback with its retries, sending and closing. Dial results, socket
  results, HTTP results and a \<open>Close\<close> by another goroutine are inputs. Connections, and the stop
  channel of each connection's heartbeat, are numbered in the order they are made; closing a stop
  channel twice would be a Go panic, which the state records as \<open>panicked\<close>.
\<close>

subsection \<open>State\<close>

definition reconnectInitialBackoff :: int where "reconnectInitialBackoff = 3"
definition reconnectMaxBackoff :: int where "reconnectMaxBackoff = 30"
definition reconnectBackoffFactor :: int where "reconnectBackoffFactor = 2"

record TargetServer =
  tsHost :: string
  tsPort :: string
  tsPath :: string
  tsQuery :: string

definition NewTargetServer :: "string \<Rightarrow> string \<Rightarrow> string \<Rightarrow> string \<Rightarrow> TargetServer" where
  "NewTargetServer h p pa q = \<lparr>tsHost = h, tsPort = p, tsPath = pa, tsQuery = q\<rparr>"

definition dial_url :: "TargetServer \<Rightarrow> string" where
  "dial_url t = ''ws://'' @ tsHost t @ '':'' @ tsPort t @ ''/'' @ tsPath t @ ''?'' @ tsQuery t"

datatype out_frame = OutMsg WsMessage | OutDuration int
  \<comment> \<open>a protocol message, or the \<open>events.Message\<close> that reports a duration\<close>

record wclient =
  target :: TargetServer
  wcConn :: "nat option"
  stopCh :: "nat option"
  wcClosed :: bool
  nextConn :: nat
  stopped :: "nat list"
    \<comment> \<open>stop channels closed so far\<close>
  hungUp :: "nat list"
    \<comment> \<open>connections closed by this side so far\<close>
  wcSent :: "(nat \<times> out_frame) list"
  panicked :: bool

definition new_wclient :: wclient where
  "new_wclient = \<lparr>target = NewTargetServer '''' '''' '''' '''', wcConn = None, stopCh = None, wcClosed = False,
     nextConn = 0, stopped = [], hungUp = [], wcSent = [], panicked = False\<rparr>"

definition close_stop :: "wclient \<Rightarrow> wclient" where
  \<comment> \<open>\<open>if i.currentStopCh != nil { close(i.currentStopCh) }\<close>\<close>
  "close_stop c =
     (case stopCh c of
        None \<Rightarrow> c
      | Some n \<Rightarrow> if n \<in> set (stopped c) then c\<lparr>panicked := True\<rparr> else c\<lparr>stopped := stopped c @ [n]\<rparr>)"

definition hang_up :: "nat \<Rightarrow> wclient \<Rightarrow> wclient" where
  "hang_up n c = c\<lparr>hungUp := hungUp c @ [n]\<rparr>"

subsection \<open>Close and connect\<close>

definition wc_Close :: "go_error option \<Rightarrow> wclient \<Rightarrow> go_error option \<times> wclient" where
  "wc_Close cerr c =
     (if wcClosed c then (None, c)
      else let c1 = (close_stop (c\<lparr>wcClosed := True\<rparr>))\<lparr>stopCh := None\<rparr>
           in case wcConn c1 of
                Some n \<Rightarrow> (cerr, (hang_up n c1)\<lparr>wcConn := None\<rparr>)
              | None \<Rightarrow> (None, c1))"

text \<open>\<open>connect\<close>: \<open>derr\<close> is the dial's error; \<open>closes\<close> says that \<open>Close\<close> ran while dialling.\<close>

definition connect :: "go_error option \<Rightarrow> bool \<Rightarrow> wclient \<Rightarrow> go_error option \<times> wclient" where
  "connect derr closes c0 =
     (let c = (if closes then snd (wc_Close None c0) else c0)
      in case derr of
           Some e \<Rightarrow> (Some e, c)
         | None \<Rightarrow>
             (let n = nextConn c; c1 = c\<lparr>nextConn := Suc n\<rparr>
              in if wcClosed c1 then (Some ClientClosed, hang_up n c1)
                 else (None, (close_stop c1)\<lparr>stopCh := Some n, wcConn := Some n\<rparr>)))"

definition Dail :: "TargetServer \<Rightarrow> go_error option \<Rightarrow> wclient \<Rightarrow> go_error option \<times> wclient" where
  "Dail t derr c = connect derr False (c\<lparr>target := t\<rparr>)"

subsection \<open>Reconnect\<close>

text \<open>
  One attempt of the endless loop: whether \<open>Close\<close> ran before its check, whether it ran while
  dialling, and the dial's error.
\<close>

record attempt =
  closeBefore :: bool
  closeDuring :: bool
  dialErr :: "go_error option"

definition next_backoff :: "int \<Rightarrow> int" where
  "next_backoff b =
     (if b < reconnectMaxBackoff
      then let b' = b * reconnectBackoffFactor in if b' > reconnectMaxBackoff then reconnectMaxBackoff else b'
      else b)"

text \<open>Result: None while the attempts run out, the error otherwise; and the sleeps, in seconds.\<close>

fun reconnect_loop :: "attempt list \<Rightarrow> int \<Rightarrow> wclient \<Rightarrow> go_error option option \<times> int list \<times> wclient" where
  "reconnect_loop [] b c = (None, [], c)"
| "reconnect_loop (a # as) b c =
     (let c1 = (if closeBefore a then snd (wc_Close None c) else c)
      in if wcClosed c1 then (Some (Some ClientClosed), [], c1)
         else case connect (dialErr a) (closeDuring a) c1 of
                (None, c2) \<Rightarrow> (Some None, [], c2)
              | (Some e, c2) \<Rightarrow>
                  (case reconnect_loop as (next_backoff b) c2 of (r, sl, c3) \<Rightarrow> (r, b # sl, c3)))"

definition reconnect :: "attempt list \<Rightarrow> wclient \<Rightarrow> go_error option option \<times> int list \<times> wclient" where
  "reconnect as c =
     (if wcClosed c then (Some (Some ClientClosed), [], c)
      else let c1 = (close_stop c)\<lparr>stopCh := None\<rparr>;
               c2 = (case wcConn c1 of Some n \<Rightarrow> (hang_up n c1)\<lparr>wcConn := None\<rparr> | None \<Rightarrow> c1)
           in reconnect_loop as reconnectInitialBackoff c2)"

subsection \<open>Read\<close>

datatype rd_event =
    RdFrame frame "go_error option"
    \<comment> \<open>a frame, and the result of writing its acknowledgement\<close>
  | RdFail "attempt list"
    \<comment> \<open>the read failed, and the attempts of the reconnection that follows\<close>

datatype rd_outcome =
    RdRequest ExecuteRequest MsgType
  | RdError go_error
  | RdPending
    \<comment> \<open>still waiting: for a message or for a connection\<close>

fun wc_Read :: "string \<Rightarrow> rd_event list \<Rightarrow> wclient \<Rightarrow> rd_outcome \<times> rd_event list \<times> wclient" where
  \<comment> \<open>\<open>jerr\<close> is the text of an unmarshalling error\<close>
  "wc_Read jerr evs c =
     (if wcClosed c then (RdError ClientClosed, evs, c)
      else case wcConn c of
             None \<Rightarrow> (RdError ClientClosed, evs, c)
           | Some n \<Rightarrow>
               (case evs of
                  [] \<Rightarrow> (RdPending, [], c)
                | RdFail as # rest \<Rightarrow>
                    (case reconnect as c of
                       (None, _, c') \<Rightarrow> (RdPending, rest, c')
                     | (Some (Some e), _, c') \<Rightarrow> (RdError e, rest, c')
                     | (Some None, _, c') \<Rightarrow> wc_Read jerr rest c')
                | RdFrame (OtherFrame d) werr # rest \<Rightarrow> (RdError (ErrForeign jerr), rest, c)
                | RdFrame (MsgFrame m) werr # rest \<Rightarrow>
                    (let c' = (if msgType m = MsgTypeExecute \<and> werr = None
                               then c\<lparr>wcSent := wcSent c @ [(n, OutMsg \<lparr>msgType = MsgTypeAck,
                                      RequestID = RequestID m, Payload = NotJson []\<rparr>)]\<rparr>
                               else c)
                     in case parse_request (Payload m) of
                          None \<Rightarrow> (RdError (ErrForeign jerr), rest, c')
                        | Some req \<Rightarrow> (RdRequest req (msgType m), rest, c'))))"

declare wc_Read.simps [simp del]

subsection \<open>Sending\<close>

definition WebsocketSend :: "go_error option \<Rightarrow> out_frame \<Rightarrow> wclient \<Rightarrow> go_error option \<times> wclient" where
  "WebsocketSend werr f c =
     (case wcConn c of
        None \<Rightarrow> (Some ClientClosed, c)
      | Some n \<Rightarrow> (case werr of Some e \<Rightarrow> (Some e, c)
                              | None \<Rightarrow> (None, c\<lparr>wcSent := wcSent c @ [(n, f)]\<rparr>)))"

definition callbackMaxRetries :: nat where "callbackMaxRetries = 3"

datatype http_out = HttpFails string | HttpStatus nat

text \<open>The retry loop from a given attempt on; its result, the posts made and the sleeps in seconds.\<close>

fun callback_loop :: "(nat \<Rightarrow> http_out) \<Rightarrow> nat \<Rightarrow> nat \<Rightarrow> go_error option \<Rightarrow> go_error option \<times> nat \<times> int list" where
  "callback_loop http n 0 lastErr = (lastErr, 0, [])"
| "callback_loop http n (Suc left) lastErr =
     (let pause = (if n > 0 then [int n] else [])
      in case http n of
           HttpFails e \<Rightarrow>
             (case callback_loop http (Suc n) left (Some (ErrForeign e)) of (r, p, sl) \<Rightarrow> (r, Suc p, pause @ sl))
         | HttpStatus st \<Rightarrow>
             if st \<noteq> 200 then
               (case callback_loop http (Suc n) left (Some ResultSendFail) of (r, p, sl) \<Rightarrow> (r, Suc p, pause @ sl))
             else (None, 1, pause))"

definition CallBackSend :: "string option \<Rightarrow> (nat \<Rightarrow> http_out) \<Rightarrow> ExecuteResponse \<Rightarrow> go_error option
    \<Rightarrow> go_error option \<times> nat \<times> int list \<times> ExecuteResponse" where
  \<comment> \<open>\<open>rerr\<close>: the error of \<open>http.NewRequest\<close>, from the callback URL; last component: the response as posted\<close>
  "CallBackSend rerr http msg err =
     (let msg' = (case err of Some e \<Rightarrow> msg\<lparr>Err := err_text e\<rparr> | None \<Rightarrow> msg)
      in case rerr of
           Some e \<Rightarrow> (Some (ErrForeign e), 0, [], msg')
         | None \<Rightarrow> (case callback_loop http 0 callbackMaxRetries None of (r, p, sl) \<Rightarrow> (r, p, sl, msg')))"

subsection \<open>Invariant of the connection's life\<close>

text \<open>
  No stop channel is closed twice, the current one is open, all others made so far are closed or
  were never used, and a closed client holds no connection.
\<close>

definition wc_inv :: "wclient \<Rightarrow> bool" where
  "wc_inv c \<longleftrightarrow> \<not> panicked c \<and> distinct (stopped c)
     \<and> (\<forall>n. stopCh c = Some n \<longrightarrow> n \<notin> set (stopped c) \<and> n < nextConn c)
     \<and> (\<forall>n \<in> set (stopped c) \<union> set (hungUp c). n < nextConn c)
     \<and> (\<forall>n. wcConn c = Some n \<longrightarrow> n \<notin> set (hungUp c) \<and> stopCh c = Some n)
     \<and> distinct (hungUp c)
     \<and> (wcClosed c \<longrightarrow> wcConn c = None \<and> stopCh c = None)"

lemma wc_inv_new: "wc_inv new_wclient"
  by (simp add: wc_inv_def new_wclient_def)

lemma wc_inv_Close [keep_inv]: "wc_inv c \<Longrightarrow> wc_inv (snd (wc_Close e c))"
  by (auto simp: wc_inv_def wc_Close_def close_stop_def hang_up_def Let_def split: option.splits)

lemma wc_Close_closed: "wcClosed (snd (wc_Close e c))"
  by (auto simp: wc_Close_def close_stop_def hang_up_def Let_def split: option.splits)

lemma wc_inv_install:
  assumes "wc_inv c" "\<not> wcClosed c"
  shows "wc_inv ((close_stop (c\<lparr>nextConn := Suc (nextConn c)\<rparr>))\<lparr>stopCh := Some (nextConn c), wcConn := Some (nextConn c)\<rparr>)"
proof (cases "stopCh c")
  case None
  with assms show ?thesis by (auto simp: wc_inv_def close_stop_def less_SucI)
next
  case (Some n)
  with assms show ?thesis by (auto simp: wc_inv_def close_stop_def less_SucI)
qed

lemma wc_inv_refuse:
  "wc_inv c \<Longrightarrow> wcClosed c \<Longrightarrow> wc_inv (hang_up (nextConn c) (c\<lparr>nextConn := Suc (nextConn c)\<rparr>))"
  by (auto simp: wc_inv_def hang_up_def less_SucI)

lemma wc_inv_connect [keep_inv]:
  assumes "wc_inv c" shows "wc_inv (snd (connect derr closes c))"
proof -
  have step: "wc_inv (snd (case derr of Some e \<Rightarrow> (Some e, d)
         | None \<Rightarrow> (let n = nextConn d; c1 = d\<lparr>nextConn := Suc n\<rparr>
              in if wcClosed c1 then (Some ClientClosed, hang_up n c1)
                 else (None, (close_stop c1)\<lparr>stopCh := Some n, wcConn := Some n\<rparr>))))" if "wc_inv d" for d
    using wc_inv_install [OF that] wc_inv_refuse [OF that] that by (auto simp: Let_def split: option.splits)
  show ?thesis unfolding connect_def Let_def [of "if closes then _ else _"]
    by (rule step) (simp add: assms wc_inv_Close)
qed

lemma wc_inv_reconnect_loop: "wc_inv c \<Longrightarrow> wc_inv (snd (snd (reconnect_loop as b c)))"
proof (induction as b c rule: reconnect_loop.induct)
  case (2 a as b c)
  let ?c1 = "if closeBefore a then snd (wc_Close None c) else c"
  have "wc_inv ?c1" using 2(2) wc_inv_Close by simp
  moreover from this have "wc_inv (snd (connect (dialErr a) (closeDuring a) ?c1))" by (rule wc_inv_connect)
  ultimately show ?case using 2(1) by (auto simp: Let_def split: prod.splits option.splits)
qed simp

lemma wc_inv_reconnect [keep_inv]: "wc_inv c \<Longrightarrow> wc_inv (snd (snd (reconnect as c)))"
proof -
  assume c: "wc_inv c"
  let ?c1 = "(close_stop c)\<lparr>stopCh := None\<rparr>"
  have "wc_inv (case wcConn ?c1 of Some n \<Rightarrow> (hang_up n ?c1)\<lparr>wcConn := None\<rparr> | None \<Rightarrow> ?c1)"
    using c by (auto simp: wc_inv_def close_stop_def hang_up_def split: option.splits)
  with c show ?thesis by (simp add: reconnect_def Let_def wc_inv_reconnect_loop)
qed

lemma wc_inv_sent [simp]: "wc_inv (c\<lparr>wcSent := x\<rparr>) = wc_inv c"
  by (simp add: wc_inv_def)

lemma wc_inv_Read [keep_inv]: "wc_inv c \<Longrightarrow> wc_inv (snd (snd (wc_Read jerr evs c)))"
proof (induction jerr evs c rule: wc_Read.induct)
  case (1 jerr evs c)
  show ?case
  proof (cases "wcClosed c \<or> wcConn c = None \<or> evs = []")
    case True
    with 1(2) show ?thesis by (subst wc_Read.simps) (auto split: option.splits)
  next
    case False
    then obtain n ev rest where n: "wcConn c = Some n" "\<not> wcClosed c" "evs = ev # rest" by (cases evs) auto
    show ?thesis
    proof (cases ev)
      case (RdFail as)
      obtain r sl c' where r: "reconnect as c = (r, sl, c')" by (metis prod_cases3)
      have "wc_inv c'" using wc_inv_reconnect [OF 1(2), of as] r by simp
      with 1(1) [OF n(2, 1, 3) RdFail r [symmetric]] n RdFail r show ?thesis
        by (subst wc_Read.simps) (auto split: option.splits)
    next
      case (RdFrame f werr)
      with n 1(2) show ?thesis
        by (subst wc_Read.simps) (auto simp: Let_def split: frame.splits option.splits)
    qed
  qed
qed

subsection \<open>Properties\<close>

datatype wc_op = ODail TargetServer "go_error option" | ORead "rd_event list" | OClose "go_error option"
  | OSend "go_error option" out_frame

fun wc_exec :: "wc_op list \<Rightarrow> wclient \<Rightarrow> wclient" where
  "wc_exec [] c = c"
| "wc_exec (ODail t derr # ops) c = wc_exec ops (snd (Dail t derr c))"
| "wc_exec (ORead evs # ops) c = wc_exec ops (snd (snd (wc_Read [] evs c)))"
| "wc_exec (OClose e # ops) c = wc_exec ops (snd (wc_Close e c))"
| "wc_exec (OSend e f # ops) c = wc_exec ops (snd (WebsocketSend e f c))"

text \<open>
  Whatever sequence of dials, reads with their reconnections, sends and closes a client goes
  through, it never closes a heartbeat's stop channel twice (a Go panic), never closes the same
  connection twice, and once closed it holds neither connection nor heartbeat.
\<close>

theorem client_lifecycle_safe:
  "\<not> panicked (wc_exec ops new_wclient) \<and> distinct (hungUp (wc_exec ops new_wclient))
   \<and> (wcClosed (wc_exec ops new_wclient) \<longrightarrow>
        wcConn (wc_exec ops new_wclient) = None \<and> stopCh (wc_exec ops new_wclient) = None)"
proof -
  have "wc_inv (wc_exec ops c)" if "wc_inv c" for c
    using that
  proof (induction ops c rule: wc_exec.induct)
    case (2 t derr ops c)
    have "wc_inv (c\<lparr>target := t\<rparr>)" using 2(2) by (simp add: wc_inv_def)
    with 2 show ?case by (simp add: Dail_def wc_inv_connect)
  next
    case (5 e f ops c)
    then show ?case by (simp add: WebsocketSend_def split: option.splits)
  qed (simp_all add: wc_inv_Read wc_inv_Close)
  from this [OF wc_inv_new] show ?thesis by (simp add: wc_inv_def)
qed

theorem client_lifecycle_safe_witness:
  "wcConn (wc_exec [ODail (NewTargetServer ''h'' ''1'' ''p'' '''') None, OClose None] new_wclient) = None"
proof -
  let ?ops = "[ODail (NewTargetServer ''h'' ''1'' ''p'' '''') None, OClose None]"
  have "wcClosed (wc_exec ?ops new_wclient)" by (simp add: wc_Close_closed)
  with client_lifecycle_safe [of ?ops] show ?thesis by blast
qed

lemma connect_ok: "\<not> wcClosed c \<Longrightarrow> connect None False c = (None, (close_stop (c\<lparr>nextConn := Suc (nextConn c)\<rparr>))
    \<lparr>stopCh := Some (nextConn c), wcConn := Some (nextConn c)\<rparr>)"
  by (simp add: connect_def Let_def)

definition backoff :: "nat \<Rightarrow> int" where
  "backoff k = min 30 (3 * 2 ^ k)"

lemma next_backoff_backoff: "next_backoff (backoff k) = backoff (Suc k)"
proof -
  have "backoff k < 30 \<longleftrightarrow> k < 4"
  proof (cases "k < 4")
    case True
    then have "k = 0 \<or> k = 1 \<or> k = 2 \<or> k = 3" by auto
    then show ?thesis by (auto simp: backoff_def)
  next
    case False
    then have "(2 :: int) ^ 4 \<le> 2 ^ k" by (intro power_increasing) auto
    with False show ?thesis by (simp add: backoff_def)
  qed
  then show ?thesis
    by (auto simp: next_backoff_def reconnectMaxBackoff_def reconnectBackoffFactor_def backoff_def Let_def min_def
        split: if_splits)
qed

lemma reconnect_loop_fails:
  assumes "\<not> wcClosed c" and "\<forall>a \<in> set as. \<not> closeBefore a \<and> \<not> closeDuring a \<and> dialErr a \<noteq> None"
  shows "reconnect_loop (as @ bs) (backoff k) c =
    (case reconnect_loop bs (backoff (k + length as)) c of (r, sl, c') \<Rightarrow> (r, map backoff [k..<k + length as] @ sl, c'))"
  using assms(2)
proof (induction as arbitrary: k)
  case Nil
  then show ?case by (simp split: prod.splits)
next
  case (Cons a as)
  from Cons.prems obtain e where a: "\<not> closeBefore a" "\<not> closeDuring a" "dialErr a = Some e" by auto
  have u: "[k..<k + length (a # as)] = k # [Suc k..<Suc k + length as]" by (simp add: upt_rec)
  have IH: "reconnect_loop (as @ bs) (next_backoff (backoff k)) c =
    (case reconnect_loop bs (backoff (k + length (a # as))) c of
       (r, sl, c') \<Rightarrow> (r, map backoff [Suc k..<Suc k + length as] @ sl, c'))"
  proof -
    from Cons.prems have "\<forall>a \<in> set as. \<not> closeBefore a \<and> \<not> closeDuring a \<and> dialErr a \<noteq> None" by simp
    from Cons.IH [OF this, of "Suc k"] show ?thesis
      by (simp only: next_backoff_backoff length_Cons add_Suc_right add_Suc)
  qed
  have "reconnect_loop ((a # as) @ bs) (backoff k) c =
      (case reconnect_loop (as @ bs) (next_backoff (backoff k)) c of (r, sl, c3) \<Rightarrow> (r, backoff k # sl, c3))"
    using a assms(1) by (simp add: connect_def)
  then show ?case unfolding u IH by (simp split: prod.splits)
qed

text \<open>
  C30. Reconnecting sleeps 3, 6, 12, 24 and then 30 seconds between failed dials, never gives up
  while the client is open, and returns without an error at the first dial that succeeds, on a
  fresh connection.
\<close>

theorem reconnect_backs_off_until_connected:
  assumes "\<not> wcClosed c" and "\<forall>a \<in> set as. \<not> closeBefore a \<and> \<not> closeDuring a \<and> dialErr a \<noteq> None"
    and "ok = \<lparr>closeBefore = False, closeDuring = False, dialErr = None\<rparr>"
  shows "fst (reconnect as c) = None
     \<and> fst (snd (reconnect as c)) = map (\<lambda>k. min 30 (3 * 2 ^ k)) [0..<length as]
     \<and> fst (reconnect (as @ ok # later) c) = Some None
     \<and> fst (snd (reconnect (as @ ok # later) c)) = map (\<lambda>k. min 30 (3 * 2 ^ k)) [0..<length as]
     \<and> wcConn (snd (snd (reconnect (as @ ok # later) c))) = Some (nextConn c)"
proof -
  have bk: "(\<lambda>k. min 30 (3 * 2 ^ k)) = backoff" by (simp add: backoff_def fun_eq_iff)
  have b0: "reconnectInitialBackoff = backoff 0" by (simp add: reconnectInitialBackoff_def backoff_def)
  define d where "d = (let c1 = (close_stop c)\<lparr>stopCh := None\<rparr>
     in case wcConn c1 of Some n \<Rightarrow> (hang_up n c1)\<lparr>wcConn := None\<rparr> | None \<Rightarrow> c1)"
  have d: "\<not> wcClosed d" "nextConn d = nextConn c"
    using assms(1) by (auto simp: d_def Let_def close_stop_def hang_up_def split: option.splits)
  have r: "reconnect x c = reconnect_loop x (backoff 0) d" for x
    using assms(1) by (simp add: reconnect_def d_def Let_def b0)
  have "reconnect_loop (ok # later) b d = (Some None, [], (close_stop (d\<lparr>nextConn := Suc (nextConn d)\<rparr>))
      \<lparr>stopCh := Some (nextConn d), wcConn := Some (nextConn d)\<rparr>)" for b
    using d(1) by (simp add: assms(3) connect_ok)
  then show ?thesis
    using reconnect_loop_fails [OF d(1) assms(2), of "[]" 0] reconnect_loop_fails [OF d(1) assms(2), of "ok # later" 0] d(2)
    unfolding r bk by simp
qed

definition failing :: attempt where
  "failing = \<lparr>closeBefore = False, closeDuring = False, dialErr = Some ErrInnerServer\<rparr>"

theorem reconnect_backs_off_until_connected_witness:
  "fst (snd (reconnect (replicate 5 failing) new_wclient)) = [3, 6, 12, 24, 30]"
proof -
  have c: "\<not> wcClosed new_wclient" by (simp add: new_wclient_def)
  have f: "\<forall>a \<in> set (replicate 5 failing). \<not> closeBefore a \<and> \<not> closeDuring a \<and> dialErr a \<noteq> None"
    by (simp add: failing_def)
  from reconnect_backs_off_until_connected [OF c f refl] show ?thesis
    by (simp add: numeral_eq_Suc upt_rec)
qed

lemma reconnect_loop_error:
  "reconnect_loop as b c = (Some (Some e), sl, c') \<Longrightarrow> e = ClientClosed \<and> wcClosed c'"
proof (induction as b c arbitrary: sl rule: reconnect_loop.induct)
  case (2 a as b c)
  then show ?case by (auto simp: Let_def split: prod.splits option.splits if_splits)
qed simp

lemma reconnect_loop_success:
  "reconnect_loop as b c = (Some None, sl, c') \<Longrightarrow> \<not> wcClosed c' \<and> wcConn c' \<noteq> None"
proof (induction as b c arbitrary: sl rule: reconnect_loop.induct)
  case (2 a as b c)
  have "connect derr cl d = (None, d') \<Longrightarrow> \<not> wcClosed d' \<and> wcConn d' \<noteq> None" for derr cl d d'
    by (auto simp: connect_def Let_def close_stop_def split: option.splits if_splits)
  with 2 show ?case by (auto simp: Let_def split: prod.splits option.splits if_splits)
qed simp

lemma reconnect_outcome:
  "reconnect as c = (Some r, sl, c') \<Longrightarrow>
     (r = Some ClientClosed \<and> wcClosed c') \<or> (r = None \<and> \<not> wcClosed c' \<and> wcConn c' \<noteq> None)"
  using reconnect_loop_error reconnect_loop_success
  by (cases r) (fastforce simp: reconnect_def Let_def split: if_splits)+

text \<open>
  Reading heals itself: on a connected, open client it fails only with ClientClosed, on a client
  that was closed meanwhile, or on a message that does not unmarshal; a lost connection alone never
  makes it fail.
\<close>

theorem read_fails_only_when_closed:
  assumes "wcConn c \<noteq> None" and "wc_Read jerr evs c = (RdError e, rest, c')"
  shows "(e = ClientClosed \<and> wcClosed c')
     \<or> (e = ErrForeign jerr \<and> (\<exists>f werr. RdFrame f werr \<in> set evs \<and>
          (case f of OtherFrame d \<Rightarrow> True | MsgFrame m \<Rightarrow> parse_request (Payload m) = None)))"
  using assms
proof (induction jerr evs c rule: wc_Read.induct)
  case (1 jerr evs c)
  show ?case
  proof (cases "wcClosed c \<or> evs = []")
    case True
    with "1.prems" show ?thesis by (subst (asm) wc_Read.simps) (auto split: option.splits if_splits)
  next
    case False
    with "1.prems"(1) obtain n ev es where n: "wcConn c = Some n" "\<not> wcClosed c" "evs = ev # es" by (cases evs) auto
    show ?thesis
    proof (cases ev)
      case (RdFail as)
      obtain r sl d where r: "reconnect as c = (r, sl, d)" by (metis prod_cases3)
      show ?thesis
      proof (cases r)
        case None
        with "1.prems"(2) n RdFail r show ?thesis by (subst (asm) wc_Read.simps) simp
      next
        case (Some q)
        from reconnect_outcome [OF r [unfolded Some]] show ?thesis
        proof
          assume "q = Some ClientClosed \<and> wcClosed d"
          with "1.prems"(2) n RdFail r Some show ?thesis by (subst (asm) wc_Read.simps) simp
        next
          assume q: "q = None \<and> \<not> wcClosed d \<and> wcConn d \<noteq> None"
          then have "wc_Read jerr es d = (RdError e, rest, c')"
            using "1.prems"(2) n RdFail r Some by (subst (asm) wc_Read.simps) simp
          from "1.IH" [OF n(2, 1, 3) RdFail r [symmetric], of None sl, OF _ _ _ _ this] q Some
          have "(e = ClientClosed \<and> wcClosed c') \<or> (e = ErrForeign jerr \<and> (\<exists>f werr. RdFrame f werr \<in> set es \<and>
             (case f of OtherFrame d \<Rightarrow> True | MsgFrame m \<Rightarrow> parse_request (Payload m) = None)))" by simp
          then show ?thesis unfolding n(3) by (meson list.set_intros(2))
        qed
      qed
    next
      case (RdFrame f werr)
      with "1.prems"(2) n show ?thesis
        by (subst (asm) wc_Read.simps) (auto simp: Let_def split: frame.splits option.splits)
    qed
  qed
qed

theorem read_fails_only_when_closed_witness:
  "wc_Read ''x'' [RdFail [\<lparr>closeBefore = True, closeDuring = False, dialErr = None\<rparr>]] (snd (connect None False new_wclient))
     = (RdError ClientClosed, [], snd (wc_Close None ((snd (connect None False new_wclient))
          \<lparr>stopCh := None, stopped := [0], hungUp := [0], wcConn := None\<rparr>)))
   \<and> wcClosed (snd (wc_Close None ((snd (connect None False new_wclient))
          \<lparr>stopCh := None, stopped := [0], hungUp := [0], wcConn := None\<rparr>)))"
proof -
  let ?c = "snd (connect None False new_wclient)"
  have conn: "wcConn ?c \<noteq> None" by (simp add: connect_ok new_wclient_def)
  have r: "wc_Read ''x'' [RdFail [\<lparr>closeBefore = True, closeDuring = False, dialErr = None\<rparr>]] ?c
     = (RdError ClientClosed, [], snd (wc_Close None (?c\<lparr>stopCh := None, stopped := [0], hungUp := [0], wcConn := None\<rparr>)))"
    by (subst wc_Read.simps) (simp add: connect_ok new_wclient_def close_stop_def reconnect_def hang_up_def wc_Close_def Let_def)
  from read_fails_only_when_closed [OF conn r] r show ?thesis by (auto simp: wc_Close_closed)
qed

text \<open>
  C33. The callback is posted at most three times, 1 and 2 seconds apart: it succeeds exactly when one
  of the three posts is answered with status 200, stops at the first such answer, and otherwise
  returns the error of the last post. An unusable URL is never posted to. The posted response
  carries the execution's error text.
\<close>

theorem callback_retries:
  "(case CallBackSend None http msg err of (r, posts, sleeps, posted) \<Rightarrow>
      (r = None \<longleftrightarrow> (\<exists>k < 3. http k = HttpStatus 200))
      \<and> posts = (if http 0 = HttpStatus 200 then 1 else if http 1 = HttpStatus 200 then 2 else 3)
      \<and> sleeps = take (posts - 1) [1, 2]
      \<and> (r \<noteq> None \<longrightarrow> r = Some (case http 2 of HttpFails e \<Rightarrow> ErrForeign e | HttpStatus st \<Rightarrow> ResultSendFail))
      \<and> posted = (case err of None \<Rightarrow> msg | Some e \<Rightarrow> msg\<lparr>Err := err_text e\<rparr>))
   \<and> (\<exists>m. CallBackSend (Some e) http msg err = (Some (ErrForeign e), 0, [], m))"
proof -
  have all: "(\<exists>k < 3. P k) \<longleftrightarrow> P 0 \<or> P 1 \<or> P (2 :: nat)" for P
    by (auto simp: numeral_3_eq_3 less_Suc_eq numeral_2_eq_2)
  show ?thesis
    unfolding all CallBackSend_def callbackMaxRetries_def
    by (cases "http 0"; cases "http (Suc 0)"; cases "http 2")
      (auto simp: numeral_3_eq_3 Let_def numeral_2_eq_2 split: option.splits)
qed

theorem callback_retries_witness:
  "fst (CallBackSend None (\<lambda>k. HttpStatus 500) zeroResponse None) = Some ResultSendFail"
proof -
  obtain r posts sl m where "CallBackSend None (\<lambda>k. HttpStatus 500) zeroResponse None = (r, posts, sl, m)"
    by (metis prod_cases4)
  with callback_retries [of "\<lambda>k. HttpStatus 500" zeroResponse None, THEN conjunct1] show ?thesis by simp
qed

end
