(* ===== verification/Ws_Heartbeat.thy ===== *)
theory Ws_Heartbeat
  imports Ws_Client
begin

text \<open>
  The worker's read deadline and heartbeat (\<open>connect\<close> and \<open>heartBeat\<close> in
  \<open>internal/infrastructure/websocket/client/client.go\<close>) together with the worker's loop
  (\<open>internal/application/service/client/service.go\<close>), which runs a program between two reads. Times
  are nanoseconds. The reads of the websocket library are a parameter: what the code relies on, as
  the library and Go's \<open>net\<close> document it, is \<open>socket_laws\<close>.
\<close>

subsection \<open>Handlers and heartbeat\<close>

definition wc_pingPeriod :: int where "wc_pingPeriod = 30 * 10 ^ 9"
definition wc_pongWait :: int where "wc_pongWait = 60 * 10 ^ 9"

text \<open>How the write of a pong ends.\<close>

datatype pong_write = PongSent | PongCloseSent | PongTimeout | PongFails go_error

definition connect_deadline :: "int \<Rightarrow> int" where
  "connect_deadline now = now + wc_pongWait"

definition pong_handler :: "int \<Rightarrow> int" where
  "pong_handler now = now + wc_pongWait"

definition ping_handler :: "int \<Rightarrow> pong_write \<Rightarrow> go_error option \<times> int" where
  \<comment> \<open>the handler's error, and the new read deadline\<close>
  "ping_handler now w =
     (case w of PongFails e \<Rightarrow> (Some e, now + wc_pongWait) | _ \<Rightarrow> (None, now + wc_pongWait))"

text \<open>The heartbeat goroutine: what its \<open>select\<close> sees, in order; the pings it wrote, and whether it still runs.\<close>

datatype hb_event = HbTick "go_error option" | HbStop

fun heartBeat :: "hb_event list \<Rightarrow> nat \<times> bool" where
  "heartBeat [] = (0, True)"
| "heartBeat (HbTick None # es) = (case heartBeat es of (n, b) \<Rightarrow> (Suc n, b))"
| "heartBeat (HbTick (Some e) # es) = (0, False)"
| "heartBeat (HbStop # es) = (0, False)"

subsection \<open>Reading\<close>

datatype wire =
    WPing pong_write     \<comment> \<open>a ping, and how the pong's write will end\<close>
  | WPong
  | WMessage frame
  | WBroken              \<comment> \<open>the connection ends\<close>

record arrival =
  arrAt :: int
  arrBuffered :: bool    \<comment> \<open>taken off the socket together with what came before it\<close>
  arrWire :: wire

datatype read_end = ReadMsg frame | ReadDeadline | ReadHandlerFails go_error | ReadBroken

type_synonym socket_read =
  "(int \<Rightarrow> pong_write \<Rightarrow> go_error option \<times> int) \<Rightarrow> (int \<Rightarrow> int) \<Rightarrow> int \<Rightarrow> int \<Rightarrow> arrival list
     \<Rightarrow> read_end \<times> int \<times> int \<times> arrival list"
  \<comment> \<open>ping handler, pong handler, time, deadline, what arrives; how the read ends, when, the deadline then, what is left\<close>

definition in_time :: "int \<Rightarrow> int \<Rightarrow> arrival \<Rightarrow> bool" where
  "in_time now dl a \<longleftrightarrow> (arrBuffered a \<and> arrAt a \<le> now) \<or> max now (arrAt a) < dl"

text \<open>
  What the code relies on: control frames are handled inside a read, in order; a read whose
  deadline has passed fails, also when data waits in the socket; an error of a handler ends the read.
\<close>

definition socket_laws :: "socket_read \<Rightarrow> bool" where
  "socket_laws rd \<longleftrightarrow>
     (\<forall>pih poh now dl. rd pih poh now dl [] = (ReadDeadline, max now dl, dl, []))
   \<and> (\<forall>pih poh now dl a as. \<not> in_time now dl a \<longrightarrow> rd pih poh now dl (a # as) = (ReadDeadline, max now dl, dl, a # as))
   \<and> (\<forall>pih poh now dl a as. in_time now dl a \<longrightarrow>
        (\<forall>f. arrWire a = WMessage f \<longrightarrow> rd pih poh now dl (a # as) = (ReadMsg f, max now (arrAt a), dl, as))
      \<and> (arrWire a = WBroken \<longrightarrow> rd pih poh now dl (a # as) = (ReadBroken, max now (arrAt a), dl, as))
      \<and> (arrWire a = WPong \<longrightarrow>
           rd pih poh now dl (a # as) = rd pih poh (max now (arrAt a)) (poh (max now (arrAt a))) as)
      \<and> (\<forall>w dl'. arrWire a = WPing w \<longrightarrow> pih (max now (arrAt a)) w = (None, dl') \<longrightarrow>
           rd pih poh now dl (a # as) = rd pih poh (max now (arrAt a)) dl' as)
      \<and> (\<forall>w e dl'. arrWire a = WPing w \<longrightarrow> pih (max now (arrAt a)) w = (Some e, dl') \<longrightarrow>
           rd pih poh now dl (a # as) = (ReadHandlerFails e, max now (arrAt a), dl', as)))"

subsection \<open>The loop\<close>

text \<open>
  Reads with the turns between them: \<open>ds\<close> is how long the turns take, one after the other. What was
  read and when, and how and when the reading of this connection ended, if it did.
\<close>

fun link_serve :: "socket_read \<Rightarrow> int list \<Rightarrow> int \<Rightarrow> int \<Rightarrow> arrival list
    \<Rightarrow> (int \<times> frame) list \<times> (read_end \<times> int) option" where
  "link_serve rd [] now dl as = ([], None)"
| "link_serve rd (d # ds) now dl as =
     (case rd ping_handler pong_handler now dl as of
        (ReadMsg f, t, dl', rest) \<Rightarrow>
          (case link_serve rd ds (t + d) dl' rest of (fs, e) \<Rightarrow> ((t, f) # fs, e))
      | (e, t, dl', rest) \<Rightarrow> ([], Some (e, t)))"

text \<open>The life of a connection made at \<open>now\<close>.\<close>

definition serve_link :: "socket_read \<Rightarrow> int list \<Rightarrow> int \<Rightarrow> arrival list
    \<Rightarrow> (int \<times> frame) list \<times> (read_end \<times> int) option" where
  "serve_link rd ds now as = link_serve rd ds now (connect_deadline now) as"

definition pong_written :: "pong_write \<Rightarrow> bool" where
  "pong_written p = (case p of PongFails e \<Rightarrow> False | _ \<Rightarrow> True)"

text \<open>
  The load a connection bears: control frames come at most a ping period apart, the connection does
  not break, and the turns begun between two of them take less than a ping period together.
\<close>

fun keeps_up :: "int \<Rightarrow> int \<Rightarrow> int list \<Rightarrow> arrival list \<Rightarrow> bool" where
  "keeps_up c w ds [] = True"
| "keeps_up c w ds (a # as) =
     (arrAt a \<le> c + wc_pingPeriod
    \<and> (case arrWire a of
         WPing p \<Rightarrow> pong_written p \<and> keeps_up (arrAt a) 0 ds as
       | WPong \<Rightarrow> keeps_up (arrAt a) 0 ds as
       | WBroken \<Rightarrow> False
       | WMessage f \<Rightarrow>
           (case ds of [] \<Rightarrow> True | d # ds' \<Rightarrow> 0 \<le> d \<and> w + d < wc_pingPeriod \<and> keeps_up c (w + d) ds' as)))"

fun messages :: "arrival list \<Rightarrow> frame list" where
  "messages [] = []"
| "messages (a # as) = (case arrWire a of WMessage f \<Rightarrow> f # messages as | _ \<Rightarrow> messages as)"

text \<open>When the last control frame arrived; \<open>c\<close> where none did.\<close>

fun last_contact :: "int \<Rightarrow> arrival list \<Rightarrow> int" where
  "last_contact c [] = c"
| "last_contact c (a # as) = (case arrWire a of WPing p \<Rightarrow> last_contact (arrAt a) as
     | WPong \<Rightarrow> last_contact (arrAt a) as | _ \<Rightarrow> last_contact c as)"

subsection \<open>Properties\<close>

lemma heartBeat_ends: "heartBeat (es @ HbStop # fs) = (fst (heartBeat es), False)"
  by (induction es rule: heartBeat.induct) (auto split: prod.splits)

lemma heartBeat_pings:
  "fst (heartBeat es) = length (takeWhile (\<lambda>e. e = HbTick None) es) \<and> (snd (heartBeat es) \<longleftrightarrow> (\<forall>e \<in> set es. e = HbTick None))"
  by (induction es rule: heartBeat.induct) (auto split: prod.splits)

lemma rd_idle: "socket_laws rd \<Longrightarrow> rd pih poh now dl [] = (ReadDeadline, max now dl, dl, [])"
  by (simp add: socket_laws_def)

lemma rd_late: "socket_laws rd \<Longrightarrow> \<not> in_time now dl a \<Longrightarrow> rd pih poh now dl (a # as) = (ReadDeadline, max now dl, dl, a # as)"
  by (simp add: socket_laws_def)

lemma rd_msg:
  "socket_laws rd \<Longrightarrow> in_time now dl a \<Longrightarrow> arrWire a = WMessage f \<Longrightarrow>
     rd pih poh now dl (a # as) = (ReadMsg f, max now (arrAt a), dl, as)"
  by (simp add: socket_laws_def)

lemma serve_pong:
  "socket_laws rd \<Longrightarrow> in_time now dl a \<Longrightarrow> arrWire a = WPong \<Longrightarrow>
     link_serve rd ds now dl (a # as) = link_serve rd ds (max now (arrAt a)) (max now (arrAt a) + wc_pongWait) as"
  by (cases ds) (simp_all add: socket_laws_def pong_handler_def)

lemma serve_ping:
  assumes "socket_laws rd" "in_time now dl a" "arrWire a = WPing w" "pong_written w"
  shows "link_serve rd ds now dl (a # as) = link_serve rd ds (max now (arrAt a)) (max now (arrAt a) + wc_pongWait) as"
proof -
  have "ping_handler t w = (None, t + wc_pongWait)" for t
    using assms(4) by (simp add: pong_written_def ping_handler_def split: pong_write.splits)
  with assms(1-3) show ?thesis by (cases ds) (simp_all add: socket_laws_def)
qed

lemma serve_msg:
  "socket_laws rd \<Longrightarrow> in_time now dl a \<Longrightarrow> arrWire a = WMessage f \<Longrightarrow>
     link_serve rd (d # ds) now dl (a # as) =
       (case link_serve rd ds (max now (arrAt a) + d) dl as of (fs, e) \<Rightarrow> ((max now (arrAt a), f) # fs, e))"
  by (simp add: rd_msg)

text \<open>\<open>h\<close>: when the last control frame was handled.\<close>

lemma serve_keeps_up:
  assumes "socket_laws rd" and "keeps_up c w ds as" and "0 \<le> w" "w < wc_pingPeriod" and "c \<le> h" "now \<le> h + wc_pingPeriod + w"
    and "link_serve rd ds now (h + wc_pongWait) as = (fs, e)"
  shows "map snd fs = take (length ds) (messages as)
    \<and> (\<forall>r t. e = Some (r, t) \<longrightarrow> r = ReadDeadline \<and> length (messages as) < length ds \<and> last_contact c as + wc_pongWait \<le> t)"
  using assms(2-)
proof (induction as arbitrary: c w ds h now fs e)
  case Nil
  then show ?case by (cases ds) (auto simp: rd_idle [OF assms(1)])
next
  case (Cons a as)
  note hyp = Cons.prems
  show ?case
  proof (cases ds)
    case Nil
    with hyp(6) show ?thesis by simp
  next
    case (Cons d ds')
    let ?t = "max now (arrAt a)"
    have near: "arrAt a \<le> c + wc_pingPeriod" using hyp(1) by simp
    have ok: "in_time now (h + wc_pongWait) a"
      using near hyp(3-5) by (simp add: in_time_def wc_pongWait_def wc_pingPeriod_def)
    have control: ?thesis if w: "keeps_up (arrAt a) 0 ds as"
      "link_serve rd ds now (h + wc_pongWait) (a # as) = link_serve rd ds ?t (?t + wc_pongWait) as"
      "messages (a # as) = messages as" "last_contact c (a # as) = last_contact (arrAt a) as"
      using Cons.IH [OF w(1), of ?t ?t fs e] hyp(6) w(2) unfolding w(3,4) by (simp add: wc_pingPeriod_def)
    show ?thesis
    proof (cases "arrWire a")
      case (WPing p)
      with hyp(1) show ?thesis by (intro control) (simp_all add: serve_ping [OF assms(1) ok WPing])
    next
      case WPong
      with hyp(1) show ?thesis by (intro control) (simp_all add: serve_pong [OF assms(1) ok WPong])
    next
      case WBroken
      with hyp(1) show ?thesis by simp
    next
      case (WMessage f)
      obtain gs e' where g: "link_serve rd ds' (?t + d) (h + wc_pongWait) as = (gs, e')" by fastforce
      have k: "0 \<le> d" "w + d < wc_pingPeriod" "keeps_up c (w + d) ds' as" using hyp(1) WMessage Cons by simp_all
      have "?t + d \<le> h + wc_pingPeriod + (w + d)" using near hyp(2,4,5) by simp
      note IH = Cons.IH [OF k(3) _ k(2) hyp(4) this g]
      have fs: "fs = (?t, f) # gs" "e = e'"
        using hyp(6) unfolding Cons serve_msg [OF assms(1) ok WMessage] g by simp_all
      show ?thesis using IH k(1) hyp(2) WMessage unfolding fs Cons by simp
    qed
  qed
qed

text \<open>A reader that obeys the laws.\<close>

fun net_read :: socket_read where
  "net_read pih poh now dl [] = (ReadDeadline, max now dl, dl, [])"
| "net_read pih poh now dl (a # as) =
     (let t = max now (arrAt a)
      in if \<not> in_time now dl a then (ReadDeadline, max now dl, dl, a # as)
         else case arrWire a of
                WMessage f \<Rightarrow> (ReadMsg f, t, dl, as)
              | WBroken \<Rightarrow> (ReadBroken, t, dl, as)
              | WPong \<Rightarrow> net_read pih poh t (poh t) as
              | WPing w \<Rightarrow> (case pih t w of
                    (None, dl') \<Rightarrow> net_read pih poh t dl' as
                  | (Some e, dl') \<Rightarrow> (ReadHandlerFails e, t, dl', as)))"

lemma net_read_laws: "socket_laws net_read"
  unfolding socket_laws_def by (intro conjI allI impI) (simp_all add: Let_def)

text \<open>
  C29. The worker keeps its connection while the turns it begins between two control frames take less
  than 30 seconds together: every message it has a turn for is read, in order, and the connection is
  given up only by the deadline, a minute or more after the last control frame came. The bound is
  exact: messages do not move the deadline, and a turn of 30 seconds, the limit of a run, begun just
  before the next ping makes the following read fail, whatever a healthy server sent meanwhile.
\<close>

theorem worker_keeps_link:
  assumes "socket_laws rd"
  shows "(\<forall>now ds as fs e. keeps_up now 0 ds as \<longrightarrow> serve_link rd ds now as = (fs, e) \<longrightarrow>
       map snd fs = take (length ds) (messages as)
       \<and> (\<forall>r t. e = Some (r, t) \<longrightarrow> r = ReadDeadline \<and> length (messages as) < length ds
              \<and> last_contact now as + wc_pongWait \<le> t))
     \<and> (\<forall>now d d' ds f m ping rest. wc_pingPeriod \<le> d \<longrightarrow>
          arrAt m = now + wc_pingPeriod \<longrightarrow> arrWire m = WMessage f \<longrightarrow>
          arrAt ping = now + wc_pingPeriod \<longrightarrow> \<not> arrBuffered ping \<longrightarrow>
          serve_link rd (d # d' # ds) now (m # ping # rest) =
            ([(now + wc_pingPeriod, f)], Some (ReadDeadline, now + wc_pingPeriod + d)))"
proof (intro conjI allI impI)
  fix now ds as fs e
  assume "keeps_up now 0 ds as" and "serve_link rd ds now as = (fs, e)"
  then have "map snd fs = take (length ds) (messages as)
    \<and> (\<forall>r t. e = Some (r, t) \<longrightarrow> r = ReadDeadline \<and> length (messages as) < length ds \<and> last_contact now as + wc_pongWait \<le> t)"
    by (intro serve_keeps_up [OF assms, of now 0 ds as now now])
      (simp_all add: serve_link_def connect_deadline_def wc_pingPeriod_def)
  then show "map snd fs = take (length ds) (messages as)"
    and "\<And>r t. e = Some (r, t) \<Longrightarrow> r = ReadDeadline"
    and "\<And>r t. e = Some (r, t) \<Longrightarrow> length (messages as) < length ds"
    and "\<And>r t. e = Some (r, t) \<Longrightarrow> last_contact now as + wc_pongWait \<le> t" by blast+
next
  fix now d d' :: int and ds f and m ping :: arrival and rest
  assume d: "wc_pingPeriod \<le> d" and m: "arrAt m = now + wc_pingPeriod" "arrWire m = WMessage f"
    and ping: "arrAt ping = now + wc_pingPeriod" "\<not> arrBuffered ping"
  have now_m: "max now (arrAt m) = now + wc_pingPeriod" by (simp add: m wc_pingPeriod_def)
  have "in_time now (connect_deadline now) m"
    by (simp add: in_time_def m connect_deadline_def wc_pingPeriod_def wc_pongWait_def)
  note first = serve_msg [OF assms this m(2), unfolded now_m]
  have "\<not> in_time (now + wc_pingPeriod + d) (connect_deadline now) ping"
    and late: "max (now + wc_pingPeriod + d) (connect_deadline now) = now + wc_pingPeriod + d"
    using d ping by (simp_all add: in_time_def connect_deadline_def wc_pingPeriod_def wc_pongWait_def)
  then have "link_serve rd (d' # ds) (now + wc_pingPeriod + d) (connect_deadline now) (ping # rest)
      = ([], Some (ReadDeadline, now + wc_pingPeriod + d))"
    by (simp add: rd_late [OF assms])
  then show "serve_link rd (d # d' # ds) now (m # ping # rest) =
      ([(now + wc_pingPeriod, f)], Some (ReadDeadline, now + wc_pingPeriod + d))"
    by (simp only: serve_link_def first prod.case)
qed

text \<open>A connection with a ping every half minute: a run of 20 s keeps it, one of 30 s loses it.\<close>

definition half_minute :: int where "half_minute = 30 * 10 ^ 9"

definition wit_arrivals :: "arrival list" where
  "wit_arrivals = [\<lparr>arrAt = half_minute, arrBuffered = False, arrWire = WMessage (OtherFrame ''p'')\<rparr>,
     \<lparr>arrAt = half_minute, arrBuffered = False, arrWire = WPing PongSent\<rparr>,
     \<lparr>arrAt = 2 * half_minute, arrBuffered = False, arrWire = WMessage (OtherFrame ''q'')\<rparr>]"

theorem worker_keeps_link_witness:
  "map snd (fst (serve_link net_read [20 * 10 ^ 9, 5] 0 wit_arrivals)) = [OtherFrame ''p'', OtherFrame ''q'']
   \<and> serve_link net_read [30 * 10 ^ 9, 5] 0 wit_arrivals =
       ([(half_minute, OtherFrame ''p'')], Some (ReadDeadline, 2 * half_minute))"
proof
  have "keeps_up 0 0 [20 * 10 ^ 9, 5] wit_arrivals"
    by (simp add: wit_arrivals_def half_minute_def wc_pingPeriod_def pong_written_def)
  moreover obtain fs e where s: "serve_link net_read [20 * 10 ^ 9, 5] 0 wit_arrivals = (fs, e)" by fastforce
  ultimately have "map snd fs = messages wit_arrivals"
    using worker_keeps_link [OF net_read_laws, THEN conjunct1, rule_format, of 0 "[20 * 10 ^ 9, 5]" wit_arrivals fs e]
    by (simp add: wit_arrivals_def)
  with s show "map snd (fst (serve_link net_read [20 * 10 ^ 9, 5] 0 wit_arrivals)) = [OtherFrame ''p'', OtherFrame ''q'']"
    by (simp add: wit_arrivals_def)
  show "serve_link net_read [30 * 10 ^ 9, 5] 0 wit_arrivals =
       ([(half_minute, OtherFrame ''p'')], Some (ReadDeadline, 2 * half_minute))"
    using worker_keeps_link [OF net_read_laws, THEN conjunct2, rule_format,
        of "30 * 10 ^ 9" "hd wit_arrivals" 0 "OtherFrame ''p''" "wit_arrivals ! 1" 5 "[]" "[wit_arrivals ! 2]"]
    by (simp add: wit_arrivals_def half_minute_def wc_pingPeriod_def)
qed

end
