(* ===== verification/Metrics.thy ===== *)
theory Metrics
  imports Prelude
begin

text \<open>
  The Prometheus metrics the program declares and registers when it starts
  (\<open>internal/infrastructure/metrics/metrics.go\<close>), and the places that use them. The client library
  panics on a name that is registered twice, on histogram buckets that do not increase, and on a
  number of label values that is not the metric's; these are its documented rules. Bucket bounds are
  in thousandths.
\<close>

datatype metric_kind =
    CounterVec "string list"
  | HistogramVec "int list" "string list"
  | GaugeVec "string list"
  | Gauge

record metric =
  mName :: string
  mHelp :: string
  mKind :: metric_kind

definition CodeExecutionTotal :: metric where
  "CodeExecutionTotal =
     \<lparr>mName = ''code_execution_total'', mHelp = ''Total number of code executions, labeled by language and status.'',
      mKind = CounterVec [''language'', ''status'']\<rparr>"

definition CodeExecutionDuration :: metric where
  "CodeExecutionDuration =
     \<lparr>mName = ''code_execution_duration_seconds'',
      mHelp = ''Duration of successful code executions in seconds, labeled by language.'',
      mKind = HistogramVec [100, 500, 1000, 2000, 5000, 10000, 30000] [''language'']\<rparr>"

definition WSClientsConnected :: metric where
  "WSClientsConnected =
     \<lparr>mName = ''ws_clients_connected'', mHelp = ''Number of currently connected WebSocket worker clients.'', mKind = Gauge\<rparr>"

definition PoolIdleGauge :: metric where
  "PoolIdleGauge =
     \<lparr>mName = ''container_pool_idle_count'', mHelp = ''Number of idle containers in pool, labeled by language.'',
      mKind = GaugeVec [''language'']\<rparr>"

definition PoolAcquireDuration :: metric where
  "PoolAcquireDuration =
     \<lparr>mName = ''container_pool_acquire_duration_seconds'', mHelp = ''Duration of acquiring a container from pool.'',
      mKind = HistogramVec [1, 10, 100, 500, 1000, 5000] [''language'']\<rparr>"

definition PoolReplenishTotal :: metric where
  "PoolReplenishTotal =
     \<lparr>mName = ''container_pool_replenish_total'', mHelp = ''Total container replenish attempts, labeled by language and result.'',
      mKind = CounterVec [''language'', ''result'']\<rparr>"

text \<open>\<open>def\<close>: the library's default buckets.\<close>

definition AgentChatDuration :: "int list \<Rightarrow> metric" where
  "AgentChatDuration def =
     \<lparr>mName = ''agent_chat_duration_seconds'', mHelp = ''Duration of agent chat requests'', mKind = HistogramVec def [''status'']\<rparr>"

definition AgentToolCalls :: metric where
  "AgentToolCalls =
     \<lparr>mName = ''agent_tool_calls_total'', mHelp = ''Total number of agent tool calls'',
      mKind = CounterVec [''tool_name'', ''status'']\<rparr>"

definition AgentSessionsActive :: metric where
  "AgentSessionsActive =
     \<lparr>mName = ''agent_sessions_active'', mHelp = ''Number of active agent sessions'', mKind = Gauge\<rparr>"

text \<open>\<open>init\<close>: the metrics registered, or the panic.\<close>

definition buckets_ok :: "metric \<Rightarrow> bool" where
  "buckets_ok m = (case mKind m of HistogramVec bs ls \<Rightarrow> sorted_wrt (<) bs | _ \<Rightarrow> True)"

fun MustRegister :: "metric list \<Rightarrow> metric list \<Rightarrow> metric list option" where
  "MustRegister reg [] = Some reg"
| "MustRegister reg (m # ms) = (if mName m \<in> mName ` set reg then None else MustRegister (reg @ [m]) ms)"

definition metrics_init :: "int list \<Rightarrow> metric list option" where
  "metrics_init def =
     (let ms = [CodeExecutionTotal, CodeExecutionDuration, WSClientsConnected, PoolIdleGauge, PoolAcquireDuration,
                PoolReplenishTotal, AgentChatDuration def, AgentToolCalls, AgentSessionsActive]
      in if list_all buckets_ok ms then MustRegister [] ms else None)"

text \<open>\<open>WithLabelValues\<close>: the series of a metric, or the panic.\<close>

definition WithLabelValues :: "metric \<Rightarrow> string list \<Rightarrow> (string \<times> (string \<times> string) list) option" where
  "WithLabelValues m vs =
     (let ls = (case mKind m of CounterVec ls \<Rightarrow> ls | HistogramVec bs ls \<Rightarrow> ls | GaugeVec ls \<Rightarrow> ls | Gauge \<Rightarrow> [])
      in if length vs = length ls then Some (mName m, zip ls vs) else None)"

text \<open>
  With increasing default buckets the start-up registers all nine metrics, and no use in the program
  gives a metric the wrong number of labels. Acquiring a container makes a series for the language it
  is asked for before it is known to exist: two unknown languages are two series, kept for ever.
\<close>

theorem metrics_never_panic:
  assumes "sorted_wrt (<) def"
  shows "\<exists>reg. metrics_init def = Some reg \<and> length reg = 9 \<and> distinct (map mName reg)
     \<and> WithLabelValues PoolAcquireDuration [lang] \<noteq> None \<and> WithLabelValues PoolIdleGauge [lang] \<noteq> None
     \<and> WithLabelValues PoolReplenishTotal [lang, result] \<noteq> None \<and> WithLabelValues CodeExecutionDuration [lang] \<noteq> None
     \<and> WithLabelValues CodeExecutionTotal [lang, status] \<noteq> None \<and> WithLabelValues (AgentChatDuration def) [status] \<noteq> None
     \<and> (l1 \<noteq> l2 \<longrightarrow> WithLabelValues PoolAcquireDuration [l1] \<noteq> WithLabelValues PoolAcquireDuration [l2])"
  using assms
  by (simp add: metrics_init_def Let_def buckets_ok_def WithLabelValues_def CodeExecutionTotal_def CodeExecutionDuration_def
      WSClientsConnected_def PoolIdleGauge_def PoolAcquireDuration_def PoolReplenishTotal_def AgentChatDuration_def
      AgentToolCalls_def AgentSessionsActive_def)

theorem metrics_never_panic_witness: "metrics_init [5, 10, 25] \<noteq> None"
  using metrics_never_panic [of "[5, 10, 25]"] by fastforce

end
