(* ===== verification/Sync_Calls.thy ===== *)
theory Sync_Calls
  imports Ws_Server
begin

text \<open>
  Synchronous calls and the read loop of one server connection, interleaved: any number of
  \<open>SendSync\<close> calls and the reader take turns between the atomic parts of \<open>Ws_Server\<close>. The
  reader's lookup in \<open>pendingSync\<close> and its send on the channel are two steps. \<open>received\<close> is a ghost
  variable, the result messages read so far.
\<close>

subsection \<open>Steps\<close>

datatype call =
    CallWriting string nat payload
  | CallWaiting string nat
  | CallReturning string "(go_error, payload) result"
  | CallDone string "(go_error, payload) result"

datatype reader = RdIdle | RdLoaded nat payload

record sync_state =
  sConn :: WebsocketClientImpl
  calls :: "nat \<rightharpoonup> call"
  reader :: reader
  received :: "(string \<times> payload) list"

definition sync_init :: "sync_state" where
  "sync_init = \<lparr>sConn = NewWebsocketClientImpl, calls = (\<lambda>_. None), reader = RdIdle, received = []\<rparr>"

inductive sync_step :: "sync_state \<Rightarrow> sync_state \<Rightarrow> bool" where
  start: "calls s k = None \<Longrightarrow> sync_register rid (sConn s) = (r, c) \<Longrightarrow>
    sync_step s (s\<lparr>sConn := c, calls := (calls s)(k \<mapsto> CallWriting rid r p)\<rparr>)"
| write_ok: "calls s k = Some (CallWriting rid r p) \<Longrightarrow> sync_write None rid p (sConn s) = (None, c) \<Longrightarrow>
    sync_step s (s\<lparr>sConn := c, calls := (calls s)(k \<mapsto> CallWaiting rid r)\<rparr>)"
| write_err: "calls s k = Some (CallWriting rid r p) \<Longrightarrow> sync_write (Some e) rid p (sConn s) = (Some e, c) \<Longrightarrow>
    sync_step s (s\<lparr>sConn := c, calls := (calls s)(k \<mapsto> CallReturning rid (Inl e))\<rparr>)"
| take: "calls s k = Some (CallWaiting rid r) \<Longrightarrow> sync_take r (sConn s) = Some (p, c) \<Longrightarrow>
    sync_step s (s\<lparr>sConn := c, calls := (calls s)(k \<mapsto> CallReturning rid (Inr p))\<rparr>)"
| timeout: "calls s k = Some (CallWaiting rid r) \<Longrightarrow>
    sync_step s (s\<lparr>calls := (calls s)(k \<mapsto> CallReturning rid (Inl (ErrSendSyncTimeout rid)))\<rparr>)"
| cleanup: "calls s k = Some (CallReturning rid v) \<Longrightarrow>
    sync_step s (s\<lparr>sConn := sync_delete rid (sConn s), calls := (calls s)(k \<mapsto> CallDone rid v)\<rparr>)"
| load: "reader s = RdIdle \<Longrightarrow> pendingSync (sConn s) rid = Some r \<Longrightarrow>
    sync_step s (s\<lparr>reader := RdLoaded r p, received := received s @ [(rid, p)]\<rparr>)"
| drop: "reader s = RdIdle \<Longrightarrow> pendingSync (sConn s) rid = None \<Longrightarrow>
    sync_step s (s\<lparr>received := received s @ [(rid, p)]\<rparr>)"
| deliver: "reader s = RdLoaded r p \<Longrightarrow> chan_send (chans (sConn s) r) p = Sent ch \<Longrightarrow>
    sync_step s (s\<lparr>reader := RdIdle, sConn := (sConn s)\<lparr>chans := (chans (sConn s))(r := ch)\<rparr>\<rparr>)"

inductive sync_reach :: "sync_state \<Rightarrow> sync_state \<Rightarrow> bool" for s0 where
  base: "sync_reach s0 s0"
| step: "sync_reach s0 s \<Longrightarrow> sync_step s s' \<Longrightarrow> sync_reach s0 s'"

inductive_cases sync_stepE: "sync_step s s'"

text \<open>The two reader steps in a row are the read loop's turn on a result message.\<close>

lemma load_deliver_is_read_turn:
  assumes "msgType m = MsgTypeResult" and "pendingSync c (RequestID m) = Some r"
    and "chan_send (chans c r) (Payload m) = Sent ch"
  shows "read_turn (MsgFrame m) c = ReadContinue None (c\<lparr>chans := (chans c)(r := ch)\<rparr>)"
  using assms by (simp add: read_turn_def)

subsection \<open>Invariant\<close>

text \<open>
  Channel references are handed out once. \<open>owner\<close> names the request id each reference was made for;
  all that reaches a channel, and all a call returns, came in a result message of that id, and a
  channel never holds more than it was sent.
\<close>

fun call_ref :: "call \<Rightarrow> (string \<times> nat) option" where
  "call_ref (CallWriting i r p) = Some (i, r)"
| "call_ref (CallWaiting i r) = Some (i, r)"
| "call_ref _ = None"

fun call_value :: "call \<Rightarrow> (string \<times> payload) option" where
  "call_value (CallReturning i (Inr p)) = Some (i, p)"
| "call_value (CallDone i (Inr p)) = Some (i, p)"
| "call_value _ = None"

definition loaded :: "nat \<Rightarrow> sync_state \<Rightarrow> nat" where
  "loaded r s = (case reader s of RdLoaded r' p \<Rightarrow> if r' = r then 1 else 0 | RdIdle \<Rightarrow> 0)"

definition ref_ok :: "(nat \<Rightarrow> string) \<Rightarrow> sync_state \<Rightarrow> nat \<Rightarrow> bool" where
  "ref_ok owner s r \<longleftrightarrow>
     (\<forall>p \<in> set (buf (chans (sConn s) r)). (owner r, p) \<in> set (received s))
     \<and> length (buf (chans (sConn s) r)) + loaded r s \<le> count_list (map fst (received s)) (owner r)
     \<and> cap (chans (sConn s) r) = 1 \<and> \<not> chanClosed (chans (sConn s) r)"

definition sync_inv :: "(nat \<Rightarrow> string) \<Rightarrow> sync_state \<Rightarrow> bool" where
  "sync_inv owner s \<longleftrightarrow>
     (\<forall>k c i r. calls s k = Some c \<longrightarrow> call_ref c = Some (i, r) \<longrightarrow> owner r = i \<and> r < nextChan (sConn s))
     \<and> (\<forall>k c v. calls s k = Some c \<longrightarrow> call_value c = Some v \<longrightarrow> v \<in> set (received s))
     \<and> (\<forall>i r. pendingSync (sConn s) i = Some r \<longrightarrow> owner r = i \<and> r < nextChan (sConn s))
     \<and> (\<forall>r p. reader s = RdLoaded r p \<longrightarrow> (owner r, p) \<in> set (received s) \<and> r < nextChan (sConn s))
     \<and> (\<forall>r < nextChan (sConn s). ref_ok owner s r)"

lemma sync_inv_init: "sync_inv owner sync_init"
  by (simp add: sync_inv_def sync_init_def NewWebsocketClientImpl_def)

lemma sync_invD:
  assumes "sync_inv owner s"
  shows "calls s k = Some c \<Longrightarrow> call_ref c = Some (i, r) \<Longrightarrow> owner r = i \<and> r < nextChan (sConn s)"
    and "calls s k = Some c \<Longrightarrow> call_value c = Some v \<Longrightarrow> v \<in> set (received s)"
    and "pendingSync (sConn s) i = Some r \<Longrightarrow> owner r = i \<and> r < nextChan (sConn s)"
    and "reader s = RdLoaded r p \<Longrightarrow> (owner r, p) \<in> set (received s) \<and> r < nextChan (sConn s)"
    and "r < nextChan (sConn s) \<Longrightarrow> ref_ok owner s r"
  using assms unfolding sync_inv_def by blast+

lemma sync_invI:
  assumes "\<And>k c i r. calls s k = Some c \<Longrightarrow> call_ref c = Some (i, r) \<Longrightarrow> owner r = i \<and> r < nextChan (sConn s)"
    and "\<And>k c v. calls s k = Some c \<Longrightarrow> call_value c = Some v \<Longrightarrow> v \<in> set (received s)"
    and "\<And>i r. pendingSync (sConn s) i = Some r \<Longrightarrow> owner r = i \<and> r < nextChan (sConn s)"
    and "\<And>r p. reader s = RdLoaded r p \<Longrightarrow> (owner r, p) \<in> set (received s) \<and> r < nextChan (sConn s)"
    and "\<And>r. r < nextChan (sConn s) \<Longrightarrow> ref_ok owner s r"
  shows "sync_inv owner s"
  using assms unfolding sync_inv_def by blast

lemma ref_ok_cong:
  "chans (sConn s') r = chans (sConn s) r \<Longrightarrow> received s' = received s \<Longrightarrow> reader s' = reader s
     \<Longrightarrow> owner' r = owner r \<Longrightarrow> ref_ok owner' s' r = ref_ok owner s r"
  by (simp add: ref_ok_def loaded_def)

lemma inv_start:
  assumes inv: "sync_inv owner s" and reg: "sync_register rid (sConn s) = (r, c)"
  shows "sync_inv (owner(r := rid)) (s\<lparr>sConn := c, calls := (calls s)(k \<mapsto> CallWriting rid r p)\<rparr>)"
    (is "sync_inv ?o ?s")
proof (rule sync_invI)
  note D = sync_invD [OF inv]
  have r: "r = nextChan (sConn s)"
    and c: "c = (sConn s)\<lparr>chans := (chans (sConn s))(r := make_chan 1), nextChan := Suc r,
                    pendingSync := (pendingSync (sConn s))(rid \<mapsto> r)\<rparr>"
    using reg by (auto simp: sync_register_def)
  show "?o r' = i \<and> r' < nextChan (sConn ?s)"
    if "calls ?s k' = Some c'" "call_ref c' = Some (i, r')" for k' c' i r'
    using that D(1) [of k' c' i r'] r c by (auto split: if_splits)
  show "v \<in> set (received ?s)" if "calls ?s k' = Some c'" "call_value c' = Some v" for k' c' v
    using that D(2) [of k' c' v] by (auto split: if_splits)
  show "?o r' = i \<and> r' < nextChan (sConn ?s)" if "pendingSync (sConn ?s) i = Some r'" for i r'
    using that D(3) [of i r'] r c by (auto split: if_splits)
  show "(?o r', q) \<in> set (received ?s) \<and> r' < nextChan (sConn ?s)" if "reader ?s = RdLoaded r' q" for r' q
    using that D(4) [of r' q] r c by auto
  show "ref_ok ?o ?s r'" if r': "r' < nextChan (sConn ?s)" for r'
  proof (cases "r' = r")
    case True
    have "loaded r s = 0" using D(4) [of r] r by (auto simp: loaded_def split: reader.splits)
    with True c show ?thesis by (simp add: ref_ok_def loaded_def)
  next
    case False
    with r' r c have "ref_ok owner s r'" using D(5) [of r'] by auto
    with False c show ?thesis by (simp add: ref_ok_def loaded_def)
  qed
qed

text \<open>Steps of a call that leave channels, registrations and the reader alone.\<close>

lemma inv_call:
  assumes inv: "sync_inv owner s" and old: "calls s k = Some c0"
    and c': "c' = sConn s \<or> (\<exists>rid. c' = sync_delete rid (sConn s)) \<or> (\<exists>w. c' = (sConn s)\<lparr>wsWritten := w\<rparr>)"
    and ref: "\<And>i r. call_ref c1 = Some (i, r) \<Longrightarrow> call_ref c0 = Some (i, r)"
    and val: "\<And>v. call_value c1 = Some v \<Longrightarrow> call_value c0 = Some v"
  shows "sync_inv owner (s\<lparr>sConn := c', calls := (calls s)(k \<mapsto> c1)\<rparr>)" (is "sync_inv _ ?s")
proof (rule sync_invI)
  note D = sync_invD [OF inv]
  have same: "chans c' = chans (sConn s)" "nextChan c' = nextChan (sConn s)"
    "\<And>i r. pendingSync c' i = Some r \<Longrightarrow> pendingSync (sConn s) i = Some r"
    using c' by (auto simp: sync_delete_def map_delete_def split: if_splits)
  show "owner r = i \<and> r < nextChan (sConn ?s)" if "calls ?s j = Some c" "call_ref c = Some (i, r)" for j c i r
    using that same D(1) [of j c i r] D(1) [OF old ref [of i r]] by (auto split: if_splits)
  show "v \<in> set (received ?s)" if "calls ?s j = Some c" "call_value c = Some v" for j c v
    using that D(2) [of j c v] D(2) [OF old val [of v]] by (auto split: if_splits)
  show "owner r = i \<and> r < nextChan (sConn ?s)" if "pendingSync (sConn ?s) i = Some r" for i r
    using D(3) [of i r] same that by simp
  show "(owner r, q) \<in> set (received ?s) \<and> r < nextChan (sConn ?s)" if "reader ?s = RdLoaded r q" for r q
    using D(4) [of r q] same that by simp
  show "ref_ok owner ?s r" if "r < nextChan (sConn ?s)" for r
    using D(5) [of r] same that ref_ok_cong [of ?s r s owner owner] by simp
qed

lemma inv_take:
  assumes inv: "sync_inv owner s" and old: "calls s k = Some (CallWaiting rid r)"
    and t: "sync_take r (sConn s) = Some (p, c)"
  shows "sync_inv owner (s\<lparr>sConn := c, calls := (calls s)(k \<mapsto> CallReturning rid (Inr p))\<rparr>)" (is "sync_inv _ ?s")
proof (rule sync_invI)
  note D = sync_invD [OF inv]
  obtain ch where ch: "chan_recv (chans (sConn s) r) = Received p ch"
    and c: "c = (sConn s)\<lparr>chans := (chans (sConn s))(r := ch)\<rparr>"
    using t by (auto simp: sync_take_def split: recv_result.splits)
  have r: "owner r = rid" "r < nextChan (sConn s)" using D(1) [OF old] by auto
  have b: "buf (chans (sConn s) r) = p # buf ch" "cap ch = cap (chans (sConn s) r)"
    "chanClosed ch = chanClosed (chans (sConn s) r)" using chan_recv_ReceivedD [OF ch] by auto
  have ok: "ref_ok owner s r" using D(5) r by simp
  show "owner r' = i \<and> r' < nextChan (sConn ?s)" if "calls ?s j = Some c'" "call_ref c' = Some (i, r')" for j c' i r'
    using that D(1) [of j c' i r'] c by (auto split: if_splits)
  show "v \<in> set (received ?s)" if "calls ?s j = Some c'" "call_value c' = Some v" for j c' v
    using that D(2) [of j c' v] ok b r by (auto simp: ref_ok_def split: if_splits)
  show "owner r' = i \<and> r' < nextChan (sConn ?s)" if "pendingSync (sConn ?s) i = Some r'" for i r'
    using D(3) [of i r'] c that by simp
  show "(owner r', q) \<in> set (received ?s) \<and> r' < nextChan (sConn ?s)" if "reader ?s = RdLoaded r' q" for r' q
    using D(4) [of r' q] c that by simp
  show "ref_ok owner ?s r'" if "r' < nextChan (sConn ?s)" for r'
    using D(5) [of r'] ok b c that by (cases "r' = r") (auto simp: ref_ok_def loaded_def)
qed

lemma inv_receive:
  assumes inv: "sync_inv owner s" and idle: "reader s = RdIdle"
    and rd: "rd = RdIdle \<or> (\<exists>r. rd = RdLoaded r p \<and> pendingSync (sConn s) rid = Some r)"
  shows "sync_inv owner (s\<lparr>reader := rd, received := received s @ [(rid, p)]\<rparr>)" (is "sync_inv _ ?s")
proof (rule sync_invI)
  note D = sync_invD [OF inv]
  show "owner r = i \<and> r < nextChan (sConn ?s)" if "calls ?s j = Some c" "call_ref c = Some (i, r)" for j c i r
    using that D(1) [of j c i r] by simp
  show "v \<in> set (received ?s)" if "calls ?s j = Some c" "call_value c = Some v" for j c v
    using that D(2) [of j c v] by simp
  show "owner r = i \<and> r < nextChan (sConn ?s)" if "pendingSync (sConn ?s) i = Some r" for i r
    using D(3) [of i r] that by simp
  show "(owner r, q) \<in> set (received ?s) \<and> r < nextChan (sConn ?s)" if "reader ?s = RdLoaded r q" for r q
    using D(3) [of rid r] rd that by auto
  show "ref_ok owner ?s r" if "r < nextChan (sConn ?s)" for r
    using D(5) [of r] D(3) [of rid r] rd idle that by (auto simp: ref_ok_def loaded_def)
qed

lemma inv_deliver:
  assumes inv: "sync_inv owner s" and rd: "reader s = RdLoaded r p"
    and snd: "chan_send (chans (sConn s) r) p = Sent ch"
  shows "sync_inv owner (s\<lparr>reader := RdIdle, sConn := (sConn s)\<lparr>chans := (chans (sConn s))(r := ch)\<rparr>\<rparr>)"
    (is "sync_inv _ ?s")
proof (rule sync_invI)
  note D = sync_invD [OF inv]
  have ch: "ch = (chans (sConn s) r)\<lparr>buf := buf (chans (sConn s) r) @ [p]\<rparr>" using chan_send_SentD [OF snd] by simp
  show "owner r' = i \<and> r' < nextChan (sConn ?s)" if "calls ?s j = Some c" "call_ref c = Some (i, r')" for j c i r'
    using that D(1) [of j c i r'] by simp
  show "v \<in> set (received ?s)" if "calls ?s j = Some c" "call_value c = Some v" for j c v
    using that D(2) [of j c v] by simp
  show "owner r' = i \<and> r' < nextChan (sConn ?s)" if "pendingSync (sConn ?s) i = Some r'" for i r'
    using D(3) [of i r'] that by simp
  show "(owner r', q) \<in> set (received ?s) \<and> r' < nextChan (sConn ?s)" if "reader ?s = RdLoaded r' q" for r' q
    using that by simp
  show "ref_ok owner ?s r'" if "r' < nextChan (sConn ?s)" for r'
    using D(5) [of r'] D(4) [OF rd] rd ch that by (cases "r' = r") (auto simp: ref_ok_def loaded_def)
qed

lemma sync_inv_step:
  assumes "sync_step s s'" and inv: "sync_inv owner s"
  shows "\<exists>owner'. sync_inv owner' s'"
  using assms(1)
proof cases
  case (start k rid r c p)
  then show ?thesis using inv_start [OF inv] by blast
next
  case (write_ok k rid r p c)
  then show ?thesis
    using inv_call [OF inv write_ok(2), of c "CallWaiting rid r"] by (auto simp: sync_write_def ws_write_def)
next
  case (write_err k rid r p e c)
  then show ?thesis
    using inv_call [OF inv write_err(2), of c "CallReturning rid (Inl e)"] by (auto simp: sync_write_def ws_write_def)
next
  case (take k rid r p c)
  then show ?thesis using inv_take [OF inv] by blast
next
  case (timeout k rid r)
  have "s\<lparr>sConn := sConn s\<rparr> = s" by simp
  then show ?thesis
    using inv_call [OF inv timeout(2), of "sConn s" "CallReturning rid (Inl (ErrSendSyncTimeout rid))"] timeout(1)
    by auto
next
  case (cleanup k rid v)
  have "call_value (CallDone rid v) = call_value (CallReturning rid v)" by (cases v) simp_all
  then show ?thesis
    using inv_call [OF inv cleanup(2), of "sync_delete rid (sConn s)" "CallDone rid v"] cleanup(1) by auto
next
  case (load rid r p)
  then show ?thesis using inv_receive [OF inv] by blast
next
  case (drop rid p)
  have "s\<lparr>reader := RdIdle\<rparr> = s" using drop(2) by simp
  then show ?thesis using inv_receive [OF inv drop(2), of RdIdle] drop(1) by auto
next
  case (deliver r p ch)
  then show ?thesis using inv_deliver [OF inv] by blast
qed

lemma sync_inv_reach: "sync_reach sync_init s \<Longrightarrow> \<exists>owner. sync_inv owner s"
  by (induction rule: sync_reach.induct) (auto intro: sync_inv_init sync_inv_step)

subsection \<open>Properties\<close>

text \<open>
  C9. A synchronous call returns only what the worker sent in a result message that carries this
  call's own request id, in every interleaving of calls and read loop, even when ids repeat.
\<close>

theorem sync_returns_own_result:
  assumes "sync_reach sync_init s" and "calls s k = Some (CallDone rid (Inr p))"
  shows "(rid, p) \<in> set (received s)"
proof -
  obtain owner where "sync_inv owner s" using sync_inv_reach [OF assms(1)] by blast
  from sync_invD(2) [OF this assms(2)] show ?thesis by simp
qed

text \<open>
  C28. As long as no request id occurs in two result messages, the read loop never blocks on the
  channel of a synchronous call, so acknowledgements and heartbeats of the connection keep being
  handled.
\<close>

theorem sync_reader_never_blocks:
  assumes "sync_reach sync_init s" and "distinct (map fst (received s))" and "reader s = RdLoaded r p"
  shows "\<exists>s'. sync_step s s' \<and> reader s' = RdIdle"
proof -
  obtain owner where inv: "sync_inv owner s" using sync_inv_reach [OF assms(1)] by blast
  note ok = sync_invD(5) [OF inv, of r] and ld = sync_invD(4) [OF inv assms(3)]
  have "count_list (map fst (received s)) (owner r) \<le> 1"
    using distinct_count_le_1 [OF assms(2)] by (metis count_mset)
  moreover have "Suc (length (buf (chans (sConn s) r))) \<le> count_list (map fst (received s)) (owner r)"
    using ok ld assms(3) by (simp add: ref_ok_def loaded_def)
  ultimately have "length (buf (chans (sConn s) r)) = 0" by linarith
  then have "buf (chans (sConn s) r) = []" by simp
  then obtain ch where "chan_send (chans (sConn s) r) p = Sent ch"
    using ok ld by (auto simp: chan_send_def ref_ok_def)
  from sync_step.deliver [OF assms(3) this] show ?thesis by (intro exI conjI, assumption) simp
qed

text \<open>A run in which one call is sent, answered twice and timed out.\<close>

definition run_registered :: sync_state where
  "run_registered = sync_init\<lparr>sConn := snd (sync_register ''q'' NewWebsocketClientImpl),
     calls := [0 \<mapsto> CallWriting ''q'' 0 (NotJson [])]\<rparr>"

definition run_waiting :: sync_state where
  "run_waiting = run_registered\<lparr>sConn := snd (sync_write None ''q'' (NotJson []) (sConn run_registered)),
     calls := [0 \<mapsto> CallWaiting ''q'' 0]\<rparr>"

definition run_loaded :: sync_state where
  "run_loaded = run_waiting\<lparr>reader := RdLoaded 0 (NotJson ''1''), received := [(''q'', NotJson ''1'')]\<rparr>"

lemma reach_registered: "sync_reach sync_init run_registered"
proof -
  have "sync_step sync_init run_registered"
    using sync_step.start [of sync_init 0 "''q''" 0 "snd (sync_register ''q'' NewWebsocketClientImpl)" "NotJson []"]
    by (simp add: run_registered_def sync_init_def sync_register_def NewWebsocketClientImpl_def)
  then show ?thesis by (rule sync_reach.step [OF sync_reach.base])
qed

lemma reach_waiting: "sync_reach sync_init run_waiting"
proof -
  have "sync_step run_registered run_waiting"
    using sync_step.write_ok [of run_registered 0 "''q''" 0 "NotJson []" "sConn run_waiting"]
    by (simp add: run_registered_def run_waiting_def sync_write_def ws_write_def)
  then show ?thesis by (rule sync_reach.step [OF reach_registered])
qed

lemma waiting_pending: "pendingSync (sConn run_waiting) ''q'' = Some 0" "reader run_waiting = RdIdle"
  "chans (sConn run_waiting) 0 = make_chan 1" "nextChan (sConn run_waiting) = 1" "received run_waiting = []"
  "calls run_waiting = [0 \<mapsto> CallWaiting ''q'' 0]"
  by (simp_all add: run_waiting_def run_registered_def sync_write_def ws_write_def sync_register_def
      NewWebsocketClientImpl_def sync_init_def)

lemma reach_loaded: "sync_reach sync_init run_loaded"
proof -
  have "sync_step run_waiting run_loaded"
    using sync_step.load [of run_waiting "''q''" 0 "NotJson ''1''"] waiting_pending
    by (simp add: run_loaded_def)
  then show ?thesis by (rule sync_reach.step [OF reach_waiting])
qed

theorem sync_reader_never_blocks_witness: "\<exists>s'. sync_step run_loaded s' \<and> reader s' = RdIdle"
  by (rule sync_reader_never_blocks [OF reach_loaded]) (simp_all add: run_loaded_def)

text \<open>The second answer arrives after the timeout and before the call deregisters.\<close>

definition run_delivered :: sync_state where
  "run_delivered = run_loaded\<lparr>reader := RdIdle, sConn := (sConn run_loaded)\<lparr>chans :=
     (chans (sConn run_loaded))(0 := (make_chan 1)\<lparr>buf := [NotJson ''1'']\<rparr>)\<rparr>\<rparr>"

lemma reach_delivered: "sync_reach sync_init run_delivered"
proof -
  have "sync_step run_loaded run_delivered"
    using sync_step.deliver [of run_loaded 0 "NotJson ''1''" "(make_chan 1)\<lparr>buf := [NotJson ''1'']\<rparr>"]
    by (simp add: run_delivered_def run_loaded_def waiting_pending chan_send_def)
  then show ?thesis by (rule sync_reach.step [OF reach_loaded])
qed

lemma reach_taken:
  "\<exists>s. sync_reach sync_init s \<and> calls s 0 = Some (CallDone ''q'' (Inr (NotJson ''1'')))
     \<and> received s = [(''q'', NotJson ''1'')]"
proof -
  have call: "calls run_delivered 0 = Some (CallWaiting ''q'' 0)"
    by (simp add: run_delivered_def run_loaded_def run_waiting_def)
  have "sync_take 0 (sConn run_delivered) = Some (NotJson ''1'', (sConn run_delivered)\<lparr>chans :=
      (chans (sConn run_delivered))(0 := make_chan 1)\<rparr>)"
    by (simp add: sync_take_def run_delivered_def chan_recv_def make_chan_def)
  from sync_reach.step [OF reach_delivered sync_step.take [OF call this]] obtain s where
    s: "sync_reach sync_init s" "calls s 0 = Some (CallReturning ''q'' (Inr (NotJson ''1'')))"
    "received s = [(''q'', NotJson ''1'')]"
    by (auto simp: run_delivered_def run_loaded_def intro!: that)
  from sync_reach.step [OF s(1) sync_step.cleanup [OF s(2)]] s(3) show ?thesis by fastforce
qed

theorem sync_returns_own_result_witness:
  "\<exists>s. sync_reach sync_init s \<and> (''q'', NotJson ''1'') \<in> set (received s)"
proof -
  obtain s where "sync_reach sync_init s" "calls s 0 = Some (CallDone ''q'' (Inr (NotJson ''1'')))"
    using reach_taken by blast
  then show ?thesis using sync_returns_own_result by blast
qed

text \<open>A reader that waits for room in a channel whose call has gone waits forever.\<close>

definition reader_abandoned :: "nat \<Rightarrow> payload \<Rightarrow> sync_state \<Rightarrow> bool" where
  "reader_abandoned r p s \<longleftrightarrow> reader s = RdLoaded r p \<and> r < nextChan (sConn s)
     \<and> cap (chans (sConn s) r) \<le> length (buf (chans (sConn s) r))
     \<and> (\<forall>k c i. calls s k = Some c \<longrightarrow> call_ref c \<noteq> Some (i, r))"

lemma reader_abandoned_step:
  assumes "sync_step s s'" "reader_abandoned r p s" shows "reader_abandoned r p s'"
  using assms
proof cases
  case (start k rid r' c q)
  with assms(2) show ?thesis by (auto simp: reader_abandoned_def sync_register_def)
next
  case (write_ok k rid r' q c)
  with assms(2) show ?thesis by (fastforce simp: reader_abandoned_def sync_write_def ws_write_def)
next
  case (write_err k rid r' q e c)
  with assms(2) show ?thesis by (auto simp: reader_abandoned_def sync_write_def ws_write_def)
next
  case (take k rid r' q c)
  then have "r' \<noteq> r" using assms(2) by (force simp: reader_abandoned_def)
  with take assms(2) show ?thesis by (auto simp: reader_abandoned_def sync_take_def split: recv_result.splits)
next
  case (cleanup k rid v)
  with assms(2) show ?thesis by (auto simp: reader_abandoned_def sync_delete_def)
next
  case (deliver r' q ch)
  with assms(2) show ?thesis by (auto simp: reader_abandoned_def chan_send_def split: if_splits)
qed (auto simp: reader_abandoned_def)

lemma reader_abandoned_reach: "sync_reach s s' \<Longrightarrow> reader_abandoned r p s \<Longrightarrow> reader_abandoned r p s'"
  by (induction rule: sync_reach.induct) (auto intro: reader_abandoned_step)

text \<open>
  A duplicate answer can stop the read loop for good: there is a reachable state, with one call
  that timed out after its first answer was buffered and a second answer in the reader's hands,
  from which the reader never gets free again, whatever the calls do.
\<close>

theorem sync_reader_can_block_forever:
  "\<exists>s. sync_reach sync_init s \<and> (\<forall>s'. sync_reach s s' \<longrightarrow> reader s' \<noteq> RdIdle)"
proof -
  let ?s1 = "run_delivered\<lparr>reader := RdLoaded 0 (NotJson ''2''),
     received := received run_delivered @ [(''q'', NotJson ''2'')]\<rparr>"
  let ?s2 = "?s1\<lparr>calls := (calls ?s1)(0 \<mapsto> CallReturning ''q'' (Inl (ErrSendSyncTimeout ''q'')))\<rparr>"
  have call: "calls run_delivered = [0 \<mapsto> CallWaiting ''q'' 0]"
    by (simp add: run_delivered_def run_loaded_def run_waiting_def)
  have "reader run_delivered = RdIdle" "pendingSync (sConn run_delivered) ''q'' = Some 0"
    by (simp_all add: run_delivered_def run_loaded_def waiting_pending)
  from sync_reach.step [OF reach_delivered sync_step.load [OF this]]
  have "sync_reach sync_init ?s1" by simp
  moreover have "sync_step ?s1 ?s2"
    using sync_step.timeout [of ?s1 0 "''q''" 0] call by simp
  ultimately have r2: "sync_reach sync_init ?s2" by (rule sync_reach.step)
  have "reader_abandoned 0 (NotJson ''2'') ?s2"
    by (auto simp: reader_abandoned_def call run_delivered_def run_loaded_def waiting_pending split: if_splits)
  then have "reader_abandoned 0 (NotJson ''2'') s'" if "sync_reach ?s2 s'" for s'
    using reader_abandoned_reach [OF that] by blast
  with r2 show ?thesis by (auto simp: reader_abandoned_def intro!: exI [of _ ?s2])
qed

theorem sync_reader_can_block_forever_witness:
  "\<exists>s. sync_reach sync_init s \<and> reader s \<noteq> RdIdle"
  using sync_reader_can_block_forever sync_reach.base by blast

subsection \<open>One call on its own\<close>

text \<open>A frame that is not the result of this call.\<close>

definition passes :: "string \<Rightarrow> frame \<Rightarrow> bool" where
  "passes rid f = (case f of OtherFrame d \<Rightarrow> True
     | MsgFrame m \<Rightarrow> \<not> (msgType m = MsgTypeResult \<and> RequestID m = rid))"

lemma serve_passes:
  "\<forall>f \<in> set fs. passes rid f \<Longrightarrow> pendingSync c = [rid \<mapsto> r] \<Longrightarrow>
     \<exists>acks. serve (fs @ gs) c = (case serve gs c of (as, c') \<Rightarrow> (acks @ as, c'))"
proof (induction fs)
  case (Cons f fs)
  then obtain acks where IH: "serve (fs @ gs) c = (case serve gs c of (as, c') \<Rightarrow> (acks @ as, c'))"
    by auto
  have "(\<exists>p. read_turn f c = ReadReturn p) \<or> (\<exists>a. read_turn f c = ReadContinue a c)"
    using Cons.prems by (auto simp: passes_def read_turn_def split: frame.splits MsgType.splits)
  then show ?case
  proof
    assume "\<exists>p. read_turn f c = ReadReturn p"
    with IH show ?thesis by auto
  next
    assume "\<exists>a. read_turn f c = ReadContinue a c"
    then obtain a where "read_turn f c = ReadContinue a c" ..
    with IH show ?thesis
      by (cases "serve gs c") (auto split: option.splits intro: exI [of _ "case a of None \<Rightarrow> acks | Some x \<Rightarrow> x # acks"])
  qed
qed (auto split: prod.splits)

lemma ws_SendSync_cases:
  assumes "pendingSync c = (\<lambda>_. None)" and "\<forall>f \<in> set fs. passes rid f"
    and "m = \<lparr>msgType = MsgTypeResult, RequestID = rid, Payload = res\<rparr>"
  shows "fst (ws_SendSync None (fs @ [MsgFrame m]) rid p c) = Inr res
     \<and> fst (ws_SendSync None fs rid p c) = Inl (ErrSendSyncTimeout rid)
     \<and> fst (ws_SendSync (Some e) fs rid p c) = Inl e
     \<and> (\<forall>werr arr. pendingSync (snd (snd (ws_SendSync werr arr rid p c))) rid = None)
     \<and> wsWritten (snd (snd (ws_SendSync None (fs @ [MsgFrame m]) rid p c)))
         = wsWritten c @ [\<lparr>msgType = MsgTypeExecuteSync, RequestID = rid, Payload = p\<rparr>]"
proof -
  obtain r c2 where reg: "sync_register rid c = (r, snd (sync_register rid c))" and w: "sync_write None rid p (snd (sync_register rid c)) = (None, c2)"
    and c2: "pendingSync c2 = [rid \<mapsto> r]" "chans c2 r = make_chan 1"
      "wsWritten c2 = wsWritten c @ [\<lparr>msgType = MsgTypeExecuteSync, RequestID = rid, Payload = p\<rparr>]"
    using assms(1) by (simp add: sync_register_def sync_write_def ws_write_def)
  have turn: "read_turn (MsgFrame m) c2
      = ReadContinue None (c2\<lparr>chans := (chans c2)(r := (make_chan 1)\<lparr>buf := [res]\<rparr>)\<rparr>)"
    using c2 assms(3) by (simp add: read_turn_def chan_send_def)
  obtain acks where got: "serve (fs @ [MsgFrame m]) c2
      = (acks, c2\<lparr>chans := (chans c2)(r := (make_chan 1)\<lparr>buf := [res]\<rparr>)\<rparr>)"
    using serve_passes [OF assms(2) c2(1), of "[MsgFrame m]"] turn by auto
  obtain acks' where none: "serve fs c2 = (acks', c2)"
    using serve_passes [OF assms(2) c2(1), of "[]"] by auto
  have "pendingSync (snd (snd (ws_SendSync werr arr rid p c))) rid = None" for werr arr
    by (auto simp: ws_SendSync_def sync_delete_def split: prod.splits option.splits)
  moreover have "fst (ws_SendSync (Some e) fs rid p c) = Inl e"
    by (simp add: ws_SendSync_def sync_write_def ws_write_def split: prod.splits)
  moreover have "ws_SendSync None arr rid p c = (case serve arr c2 of
        (acks, c3) \<Rightarrow> (case sync_take r c3 of
             Some (res, c4) \<Rightarrow> (Inr res, acks, sync_delete rid c4)
           | None \<Rightarrow> (Inl (ErrSendSyncTimeout rid), acks, sync_delete rid c3)))" for arr
    unfolding ws_SendSync_def using w by (subst reg) simp
  ultimately show ?thesis
    using c2 by (simp add: got none sync_take_def chan_recv_def sync_delete_def make_chan_def)
qed

text \<open>
  On an idle connection \<open>SendSync\<close> writes one execute_sync message and returns the payload of
  the first result message for its id among whatever else arrives before its timer fires, the
  timeout error when there is none, and the write's error when the message could not be written;
  in every case it leaves no registration behind.
\<close>

theorem send_sync_outcome:
  assumes "pendingSync c = (\<lambda>_. None)" and "\<forall>f \<in> set fs. passes rid f"
    and "m = \<lparr>msgType = MsgTypeResult, RequestID = rid, Payload = res\<rparr>"
  shows "fst (ws_SendSync None (fs @ [MsgFrame m]) rid p c) = Inr res
     \<and> fst (ws_SendSync None fs rid p c) = Inl (ErrSendSyncTimeout rid)
     \<and> fst (ws_SendSync (Some e) fs rid p c) = Inl e
     \<and> (\<forall>werr arr. pendingSync (snd (snd (ws_SendSync werr arr rid p c))) rid = None)
     \<and> wsWritten (snd (snd (ws_SendSync None (fs @ [MsgFrame m]) rid p c)))
         = wsWritten c @ [\<lparr>msgType = MsgTypeExecuteSync, RequestID = rid, Payload = p\<rparr>]"
  using assms by (rule ws_SendSync_cases)

theorem send_sync_outcome_witness:
  "fst (ws_SendSync None [MsgFrame \<lparr>msgType = MsgTypeAck, RequestID = ''q'', Payload = NotJson []\<rparr>,
       MsgFrame \<lparr>msgType = MsgTypeResult, RequestID = ''q'', Payload = NotJson ''42''\<rparr>] ''q'' (NotJson []) NewWebsocketClientImpl)
     = Inr (NotJson ''42'')"
proof -
  have i: "pendingSync NewWebsocketClientImpl = (\<lambda>_. None)" by (simp add: NewWebsocketClientImpl_def)
  have p: "\<forall>f \<in> set [MsgFrame \<lparr>msgType = MsgTypeAck, RequestID = ''q'', Payload = NotJson []\<rparr>]. passes ''q'' f"
    by (simp add: passes_def)
  from send_sync_outcome [OF i p refl, of "NotJson ''42''" "NotJson []" ErrInnerServer] show ?thesis by simp
qed

end
