(* ===== verification/Worker.thy ===== *)
theory Worker
  imports Ws_Client Run_Code Sync_Calls
begin

text \<open>
  The worker (\<open>internal/application/service/client/service.go\<close>,
  \<open>internal/domain/client/entity/innerServer.go\<close>): it reads a request, runs it in a container,
  reports the duration, and answers over the WebSocket or by HTTP callback. A nil response that is
  dereferenced is a Go panic, \<open>WorkerPanic\<close>. The last part joins the worker's answers with the
  server's waiting call.
\<close>

subsection \<open>The inner server\<close>

record worker =
  wkPool :: ContainerPool
  wkClient :: wclient
  wkPosts :: "ExecuteResponse list"
    \<comment> \<open>responses handed to the HTTP callback\<close>

text \<open>What one request reads from outside: the run, the two writes, the callback URL and the posts.\<close>

record turn_env =
  teRun :: run_env
  teDurErr :: "go_error option"
  teResErr :: "go_error option"
  teUrlErr :: "string option"
  teHttp :: "nat \<Rightarrow> http_out"

definition sendResponseDuration :: "go_error option \<Rightarrow> int \<Rightarrow> wclient \<Rightarrow> go_error option \<times> wclient" where
  "sendResponseDuration werr d c = WebsocketSend werr (OutDuration d) c"

text \<open>\<open>InnerServerDomainImpl.RunCode\<close>: the response pointer (None: nil), the error, the state.\<close>

definition inner_RunCode :: "turn_env \<Rightarrow> ExecuteRequest \<Rightarrow> worker
    \<Rightarrow> (ExecuteResponse option \<times> go_error option \<times> worker) option" where
  "inner_RunCode e q w =
     (case RunCode (teRun e) (wkPool w) q of
        None \<Rightarrow> None
      | Some r \<Rightarrow>
          let w1 = w\<lparr>wkPool := runPool r\<rparr>
          in if runErr r \<noteq> None then Some (Some (runResp r), runErr r, w1)
             else case sendResponseDuration (teDurErr e) (runDuration r) (wkClient w1) of
                    (Some err, c) \<Rightarrow> Some (None, Some err, w1\<lparr>wkClient := c\<rparr>)
                  | (None, c) \<Rightarrow> Some (Some (runResp r), None, w1\<lparr>wkClient := c\<rparr>))"

definition with_err :: "go_error option \<Rightarrow> ExecuteResponse \<Rightarrow> ExecuteResponse" where
  "with_err err r = (case err of Some e \<Rightarrow> r\<lparr>Err := err_text e\<rparr> | None \<Rightarrow> r)"

definition SendResult :: "go_error option \<Rightarrow> ExecuteResponse \<Rightarrow> go_error option \<Rightarrow> wclient
    \<Rightarrow> go_error option \<times> wclient" where
  "SendResult werr r err c =
     (let r' = with_err err r
      in WebsocketSend werr (OutMsg \<lparr>msgType = MsgTypeResult, RequestID = respId r', Payload = response_json r'\<rparr>) c)"

definition inner_Send :: "turn_env \<Rightarrow> ExecuteResponse \<Rightarrow> go_error option \<Rightarrow> go_error option \<times> ExecuteResponse" where
  "inner_Send e r err =
     (case CallBackSend (teUrlErr e) (teHttp e) r err of (res, posts, sleeps, posted) \<Rightarrow> (res, posted))"

subsection \<open>The service loop\<close>

datatype turn = WorkerPanic | WorkerBlocked | WorkerNext worker

definition worker_turn :: "turn_env \<Rightarrow> ExecuteRequest \<Rightarrow> MsgType \<Rightarrow> worker \<Rightarrow> turn" where
  "worker_turn e q t w =
     (case inner_RunCode e q w of
        None \<Rightarrow> WorkerBlocked
      | Some (None, err, w1) \<Rightarrow> WorkerPanic
      | Some (Some r, err, w1) \<Rightarrow>
          (if t = MsgTypeExecuteSync
           then WorkerNext (w1\<lparr>wkClient := snd (SendResult (teResErr e) r err (wkClient w1))\<rparr>)
           else WorkerNext (w1\<lparr>wkPosts := wkPosts w1 @ [snd (inner_Send e r err)]\<rparr>)))"

datatype worker_end = Stopped go_error | Panicked | Waiting

fun worker_run :: "string \<Rightarrow> turn_env list \<Rightarrow> rd_event list \<Rightarrow> worker \<Rightarrow> worker_end \<times> worker" where
  \<comment> \<open>\<open>Run\<close> after its dial, one environment for each request it handles\<close>
  "worker_run jerr [] evs w = (Waiting, w)"
| "worker_run jerr (e # es) evs w =
     (case wc_Read jerr evs (wkClient w) of
        (RdPending, rest, c) \<Rightarrow> (Waiting, w\<lparr>wkClient := c\<rparr>)
      | (RdError err, rest, c) \<Rightarrow> (Stopped err, w\<lparr>wkClient := c\<rparr>)
      | (RdRequest q t, rest, c) \<Rightarrow>
          (case worker_turn e q t (w\<lparr>wkClient := c\<rparr>) of
             WorkerPanic \<Rightarrow> (Panicked, w\<lparr>wkClient := c\<rparr>)
           | WorkerBlocked \<Rightarrow> (Waiting, w\<lparr>wkClient := c\<rparr>)
           | WorkerNext w' \<Rightarrow> worker_run jerr es rest w'))"

definition worker_dail :: "string \<Rightarrow> string \<Rightarrow> string \<Rightarrow> int \<Rightarrow> go_error option \<Rightarrow> worker
    \<Rightarrow> go_error option \<times> worker" where
  "worker_dail host port path wt derr w =
     (case Dail (NewTargetServer host port path (''weight='' @ Itoa wt)) derr (wkClient w) of
        (e, c) \<Rightarrow> (e, w\<lparr>wkClient := c\<rparr>))"

subsection \<open>Runs keep the request's identity\<close>

lemma run_resp_id:
  assumes "RunCode env p q = Some r"
  shows "respId (runResp r) = reqId q \<and> respCallBackUrl (runResp r) = reqCallBackUrl q \<and> respUid (runResp r) = reqUid q"
proof -
  have slot: "respId (runResp (runWithSlot env p' q' slot)) = reqId q'
      \<and> respCallBackUrl (runResp (runWithSlot env p' q' slot)) = reqCallBackUrl q'
      \<and> respUid (runResp (runWithSlot env p' q' slot)) = reqUid q'" for p' q' slot
    by (simp add: runWithSlot_def Let_def finishRun_def initResponse_def split: prod.splits sum.splits)
  with assms show ?thesis
    by (auto simp: RunCode_def Let_def initResponse_def split: prod.splits acquire_result.splits)
qed

lemma SendResult_sent:
  "wcConn c = Some n \<Longrightarrow> SendResult None r err c = (None, c\<lparr>wcSent := wcSent c
     @ [(n, OutMsg \<lparr>msgType = MsgTypeResult, RequestID = respId r, Payload = response_json (with_err err r)\<rparr>)]\<rparr>)"
  by (simp add: SendResult_def WebsocketSend_def Let_def with_err_def split: option.splits)


subsection \<open>Properties\<close>

lemma sync_turn_sent:
  assumes "RunCode (teRun e) (wkPool w) q = Some r" and "wcConn (wkClient w) = Some n"
    and "runErr r = None \<longrightarrow> teDurErr e = None" and "teResErr e = None"
  shows "\<exists>w'. worker_turn e q MsgTypeExecuteSync w = WorkerNext w' \<and> wkPosts w' = wkPosts w
     \<and> wcSent (wkClient w') = wcSent (wkClient w)
         @ (if runErr r = None then [(n, OutDuration (runDuration r))] else [])
         @ [(n, OutMsg \<lparr>msgType = MsgTypeResult, RequestID = reqId q, Payload = response_json (with_err (runErr r) (runResp r))\<rparr>)]"
proof (cases "runErr r = None")
  case True
  with assms show ?thesis
    by (simp add: worker_turn_def inner_RunCode_def Let_def sendResponseDuration_def WebsocketSend_def
        SendResult_sent run_resp_id [OF assms(1)])
next
  case False
  with assms show ?thesis
    by (auto simp: worker_turn_def inner_RunCode_def Let_def SendResult_sent run_resp_id [OF assms(1)])
qed

lemma posted_response: "snd (inner_Send e x err) = with_err err x"
  by (simp add: inner_Send_def CallBackSend_def with_err_def Let_def split: prod.splits option.splits)

lemma with_err_simps [simp]:
  "respId (with_err err x) = respId x" "respCallBackUrl (with_err err x) = respCallBackUrl x"
  by (simp_all add: with_err_def split: option.splits)

lemma async_turn_posted:
  assumes "RunCode (teRun e) (wkPool w) q = Some r" and "wcConn (wkClient w) = Some n"
    and "runErr r = None \<longrightarrow> teDurErr e = None"
  shows "\<exists>w'. worker_turn e q MsgTypeExecute w = WorkerNext w' \<and> wkPosts w' = wkPosts w @ [with_err (runErr r) (runResp r)]
     \<and> (\<forall>m. OutMsg m \<notin> set (map snd (drop (length (wcSent (wkClient w))) (wcSent (wkClient w')))))"
proof (cases "runErr r = None")
  case True
  with assms show ?thesis
    by (simp add: worker_turn_def inner_RunCode_def Let_def sendResponseDuration_def WebsocketSend_def posted_response)
next
  case False
  with assms show ?thesis
    by (auto simp: worker_turn_def inner_RunCode_def Let_def posted_response)
qed

text \<open>
  The worker answers a synchronous request with exactly one result message, under the request's
  own id and carrying the run's error text when it failed, preceded by the duration when it
  succeeded, and posts nothing; it answers an asynchronous request with exactly one callback to the
  request's URL and no result message. This holds as long as the writes succeed.
\<close>

theorem worker_answers_once:
  assumes "RunCode (teRun e) (wkPool w) q = Some r" and "wcConn (wkClient w) = Some n"
    and "runErr r = None \<longrightarrow> teDurErr e = None" and "teResErr e = None"
  shows "(\<exists>w'. worker_turn e q MsgTypeExecuteSync w = WorkerNext w' \<and> wkPosts w' = wkPosts w
        \<and> wcSent (wkClient w') = wcSent (wkClient w)
            @ (if runErr r = None then [(n, OutDuration (runDuration r))] else [])
            @ [(n, OutMsg \<lparr>msgType = MsgTypeResult, RequestID = reqId q,
                           Payload = response_json (with_err (runErr r) (runResp r))\<rparr>)])
     \<and> (\<exists>w' posted. worker_turn e q MsgTypeExecute w = WorkerNext w' \<and> wkPosts w' = wkPosts w @ [posted]
        \<and> posted = with_err (runErr r) (runResp r) \<and> respId posted = reqId q \<and> respCallBackUrl posted = reqCallBackUrl q
        \<and> (\<forall>m. OutMsg m \<in> set (map snd (drop (length (wcSent (wkClient w))) (wcSent (wkClient w')))) \<longrightarrow> False))"
proof
  show "\<exists>w'. worker_turn e q MsgTypeExecuteSync w = WorkerNext w' \<and> wkPosts w' = wkPosts w
        \<and> wcSent (wkClient w') = wcSent (wkClient w)
            @ (if runErr r = None then [(n, OutDuration (runDuration r))] else [])
            @ [(n, OutMsg \<lparr>msgType = MsgTypeResult, RequestID = reqId q,
                           Payload = response_json (with_err (runErr r) (runResp r))\<rparr>)]"
    by (rule sync_turn_sent [OF assms])
  show "\<exists>w' posted. worker_turn e q MsgTypeExecute w = WorkerNext w' \<and> wkPosts w' = wkPosts w @ [posted]
        \<and> posted = with_err (runErr r) (runResp r) \<and> respId posted = reqId q \<and> respCallBackUrl posted = reqCallBackUrl q
        \<and> (\<forall>m. OutMsg m \<in> set (map snd (drop (length (wcSent (wkClient w))) (wcSent (wkClient w')))) \<longrightarrow> False)"
    using async_turn_posted [OF assms(1-3)] run_resp_id [OF assms(1)] by auto
qed

text \<open>A worker with one Go container and an open connection, for the witnesses.\<close>

definition wit_worker :: worker where
  "wit_worker = \<lparr>wkPool = small_pool, wkClient = new_wclient\<lparr>wcConn := Some 0\<rparr>, wkPosts = []\<rparr>"

definition wit_turn :: turn_env where
  "wit_turn = \<lparr>teRun = wit_env, teDurErr = None, teResErr = None, teUrlErr = None, teHttp = (\<lambda>_. HttpStatus 200)\<rparr>"

lemma wit_wire: "wire_request wit_req = wit_req"
  by (simp add: wire_request_def wit_req_def to_valid_utf8_ascii ascii_def)

theorem worker_answers_once_witness:
  "\<exists>w'. worker_turn wit_turn wit_req MsgTypeExecute wit_worker = WorkerNext w' \<and> length (wkPosts w') = 1"
proof -
  obtain r where r: "RunCode (teRun wit_turn) (wkPool wit_worker) wit_req = Some r" "runErr r = None"
    using wit_run by (auto simp: wit_turn_def wit_worker_def)
  have c: "wcConn (wkClient wit_worker) = Some 0" "wkPosts wit_worker = []" by (simp_all add: wit_worker_def)
  have e: "runErr r = None \<longrightarrow> teDurErr wit_turn = None" "teResErr wit_turn = None" by (simp_all add: wit_turn_def)
  from worker_answers_once [OF r(1) c(1) e, THEN conjunct2] c(2) show ?thesis by fastforce
qed

text \<open>
  The worker dereferences a nil response, and dies, exactly when a program ran successfully and
  its duration could not be written to the server.
\<close>

theorem worker_panics_iff:
  "worker_turn e q t w = WorkerPanic \<longleftrightarrow>
     (\<exists>r. RunCode (teRun e) (wkPool w) q = Some r \<and> runErr r = None
        \<and> (wcConn (wkClient w) = None \<or> teDurErr e \<noteq> None))"
  by (auto simp: worker_turn_def inner_RunCode_def Let_def sendResponseDuration_def WebsocketSend_def
      split: option.splits prod.splits)

theorem worker_panics_iff_witness:
  "worker_turn (wit_turn\<lparr>teDurErr := Some ErrInnerServer\<rparr>) wit_req MsgTypeExecute wit_worker = WorkerPanic"
proof -
  obtain r where "RunCode wit_env small_pool wit_req = Some r" "runErr r = None" using wit_run by blast
  then have "\<exists>r. RunCode (teRun (wit_turn\<lparr>teDurErr := Some ErrInnerServer\<rparr>)) (wkPool wit_worker) wit_req = Some r
      \<and> runErr r = None \<and> (wcConn (wkClient wit_worker) = None \<or> teDurErr (wit_turn\<lparr>teDurErr := Some ErrInnerServer\<rparr>) \<noteq> None)"
    by (simp add: wit_turn_def wit_worker_def)
  then show ?thesis by (simp only: worker_panics_iff)
qed

text \<open>
  What the server's socket receives: \<open>events.Message\<close> unmarshals into a \<open>WsMessage\<close> too, because
  its key Type matches the tag type in a different case; it has no request id and no payload.
\<close>

definition to_frame :: "out_frame \<Rightarrow> frame" where
  "to_frame f = (case f of
     OutMsg m \<Rightarrow> MsgFrame (m\<lparr>RequestID := to_valid_utf8 (RequestID m)\<rparr>)
   | OutDuration d \<Rightarrow> MsgFrame \<lparr>msgType = msgTypeOf ''responseDuration'', RequestID = [], Payload = NotJson []\<rparr>)"

text \<open>
  C1. End to end: when the worker handles the request of a waiting synchronous call (as it arrives
  over the wire) and its writes succeed, the frames it writes give that call, on an idle server
  connection, the response of this very run: its payload unmarshals into the run's response, with
  the request's id and the run's error text.
\<close>

theorem sync_execution_end_to_end:
  assumes "ascii (reqId q)" and "pendingSync c = (\<lambda>_. None)"
    and "RunCode (teRun e) (wkPool w) (wire_request q) = Some r" and "wcConn (wkClient w) = Some n"
    and "runErr r = None \<longrightarrow> teDurErr e = None" and "teResErr e = None"
    and "worker_turn e (wire_request q) MsgTypeExecuteSync w = WorkerNext w'"
  shows "\<exists>p resp. fst (ws_SendSync None
        (map (\<lambda>x. to_frame (snd x)) (drop (length (wcSent (wkClient w))) (wcSent (wkClient w'))))
        (reqId q) (request_json q) c) = Inr p
     \<and> parse_response p = Some resp \<and> resp = wire_response (with_err (runErr r) (runResp r)) \<and> respId resp = reqId q"
proof -
  have id: "reqId (wire_request q) = reqId q" using assms(1) by (simp add: wire_request_def to_valid_utf8_ascii)
  let ?resp = "with_err (runErr r) (runResp r)"
  let ?m = "\<lparr>msgType = MsgTypeResult, RequestID = reqId q, Payload = response_json ?resp\<rparr>"
  let ?fs = "map to_frame (if runErr r = None then [OutDuration (runDuration r)] else [])"
  have frames: "map (\<lambda>x. to_frame (snd x)) (drop (length (wcSent (wkClient w))) (wcSent (wkClient w'))) = ?fs @ [MsgFrame ?m]"
    using sync_turn_sent [OF assms(3-6)] assms(1, 7) by (auto simp: id to_frame_def to_valid_utf8_ascii)
  have "\<forall>f \<in> set ?fs. passes (reqId q) f" by (auto simp: passes_def to_frame_def msgTypeOf_def)
  from ws_SendSync_cases [OF assms(2) this, of ?m "response_json ?resp" "request_json q" ErrInnerServer]
  have "fst (ws_SendSync None (?fs @ [MsgFrame ?m]) (reqId q) (request_json q) c) = Inr (response_json ?resp)" by simp
  moreover have "respId (wire_response ?resp) = reqId q"
    using run_resp_id [OF assms(3)] id assms(1)
    by (simp add: wire_response_def with_err_def to_valid_utf8_ascii split: option.splits)
  moreover have "parse_response (response_json ?resp) = Some (wire_response ?resp)"
    by (rule response_json_parses)
  ultimately show ?thesis unfolding frames by auto
qed


theorem sync_execution_end_to_end_witness:
  "\<exists>w' p resp. worker_turn wit_turn wit_req MsgTypeExecuteSync wit_worker = WorkerNext w'
     \<and> fst (ws_SendSync None
        (map (\<lambda>x. to_frame (snd x)) (drop (length (wcSent (wkClient wit_worker))) (wcSent (wkClient w'))))
        ''r1'' (request_json wit_req) NewWebsocketClientImpl) = Inr p
     \<and> parse_response p = Some resp \<and> respId resp = ''r1''"
proof -
  obtain r where r: "RunCode (teRun wit_turn) (wkPool wit_worker) (wire_request wit_req) = Some r" "runErr r = None"
    using wit_run by (auto simp: wit_turn_def wit_worker_def wit_wire)
  have c: "wcConn (wkClient wit_worker) = Some 0" by (simp add: wit_worker_def)
  have e: "runErr r = None \<longrightarrow> teDurErr wit_turn = None" "teResErr wit_turn = None" by (simp_all add: wit_turn_def)
  obtain w' where w': "worker_turn wit_turn (wire_request wit_req) MsgTypeExecuteSync wit_worker = WorkerNext w'"
    using sync_turn_sent [OF r(1) c e] by blast
  have i: "ascii (reqId wit_req)" "pendingSync NewWebsocketClientImpl = (\<lambda>_. None)"
    by (simp_all add: wit_req_def ascii_def NewWebsocketClientImpl_def)
  have id: "reqId wit_req = ''r1''" by (simp add: wit_req_def)
  from sync_execution_end_to_end [OF i r(1) c e w'] w' show ?thesis unfolding wit_wire id by blast
qed

end
