(* ===== verification/Async_Delivery.thy ===== *)
theory Async_Delivery
  imports Server_Service Worker
begin

text \<open>
  An asynchronous request across both processes: the server writes it to a worker and notes it as
  pending, the worker acknowledges it when it reads it, the server's read loop takes it off the
  table, and the worker runs it and posts the result to the request's callback address
  (\<open>application/service/server\<close>, \<open>websocket/client\<close>, \<open>websocket/server\<close>, \<open>application/service/client\<close>).
\<close>

text \<open>Every registered client has its acknowledgement callback and its table of pending requests.\<close>

definition tracking_ok :: "'b ClientManager \<Rightarrow> bool" where
  "tracking_ok s \<longleftrightarrow>
     (\<forall>i c. clients s i = Some c \<longrightarrow> wsAckHandler (conns s (wsConn c)) = Some i \<and> pendingReqs s i \<noteq> None)"

lemma tracking_ok_run_start:
  assumes "tracking_ok s" and "\<forall>j c. clients s j = Some c \<longrightarrow> wsConn c \<noteq> r"
  shows "tracking_ok (run_start lb now i r wt s)"
  using assms
  by (auto simp: tracking_ok_def run_start_def Let_def AddClient_def NewClient_def ws_HeartBeat_def ws_SetAckHandler_def)

lemma Execute_accepted:
  assumes "registry_ok s" and "Execute (p2c_lb F) e req s = (None, s')"
  obtains c where "clients s (clientId c) = Some c" "clients s' (clientId c) = Some c"
    "conns s' = (conns s)(wsConn c := (conns s (wsConn c))\<lparr>wsWritten := wsWritten (conns s (wsConn c))
       @ [\<lparr>msgType = MsgTypeExecute, RequestID = reqId req, Payload = request_json req\<rparr>]\<rparr>)"
    "pendingReqs s' = (case pendingReqs s (clientId c) of None \<Rightarrow> pendingReqs s
       | Some m \<Rightarrow> (pendingReqs s)(clientId c \<mapsto> m(reqId req \<mapsto> req)))"
  using assms(1) [unfolded registry_ok_def] assms(2)
proof (cases rule: cm.Execute_cases)
  case (picked c s1 s2)
  have p: "pick_loop (p2c_lb F) (pickEnv e) maxRetryPickClient s = (Inr c, s1)"
    using picked(1) by (simp add: GetClientByBalance_def)
  note live = cm.pick_loop_Inr [OF assms(1) [unfolded registry_ok_def] p]
  note sent = client_Send_simps [OF picked(2)]
  have e: "exec_env.writeErr e = None" using picked(3) by simp
  show thesis
  proof (rule that)
    show "clients s (clientId c) = Some c" using live by (metis option.distinct(1))
    show "clients s' (clientId c) = Some c" using picked(4) sent live by (simp add: Let_def cm_Done_def e)
    show "conns s' = (conns s)(wsConn c := (conns s (wsConn c))\<lparr>wsWritten := wsWritten (conns s (wsConn c))
       @ [\<lparr>msgType = MsgTypeExecute, RequestID = reqId req, Payload = request_json req\<rparr>]\<rparr>)"
      using picked(2, 4) live e by (auto simp: Let_def cm_Done_def client_Send_def ws_Send_def ws_write_def)
    show "pendingReqs s' = (case pendingReqs s (clientId c) of None \<Rightarrow> pendingReqs s
       | Some m \<Rightarrow> (pendingReqs s)(clientId c \<mapsto> m(reqId req \<mapsto> req)))"
      using picked(4) sent live by (auto simp: Let_def cm_Done_def e TrackRequest_def split: option.splits)
  qed
qed simp

text \<open>The worker's read of an execute message, with its acknowledgement.\<close>

lemma read_execute:
  assumes "wcConn cl = Some n" "\<not> wcClosed cl" and "msgType m = MsgTypeExecute" "parse_request (Payload m) = Some q"
  shows "wc_Read jerr (RdFrame (MsgFrame m) None # rest) cl = (RdRequest q MsgTypeExecute, rest,
    cl\<lparr>wcSent := wcSent cl @ [(n, OutMsg \<lparr>msgType = MsgTypeAck, RequestID = RequestID m, Payload = NotJson []\<rparr>)]\<rparr>)"
  using assms by (subst wc_Read.simps) simp

lemma run_read_ack:
  assumes "wsAckHandler (conns s r) = Some i" and "msgType m = MsgTypeAck"
  shows "snd (run_read err [MsgFrame m] r s) = AcknowledgeRequest i (RequestID m) s"
  using assms by (subst run_read.simps) (simp add: read_turn_def)

definition execute_message :: "ExecuteRequest \<Rightarrow> WsMessage" where
  "execute_message req = \<lparr>msgType = MsgTypeExecute, RequestID = reqId req, Payload = request_json req\<rparr>"

definition ack_of :: "ExecuteRequest \<Rightarrow> out_frame" where
  "ack_of req = OutMsg \<lparr>msgType = MsgTypeAck, RequestID = reqId req, Payload = NotJson []\<rparr>"

lemma worker_reads:
  assumes "ascii (reqId req)" and "wcConn (wkClient w) = Some n" "\<not> wcClosed (wkClient w)"
  shows "wc_Read jerr (RdFrame (to_frame (OutMsg (execute_message req))) None # rest) (wkClient w)
    = (RdRequest (wire_request req) MsgTypeExecute, rest, (wkClient w)\<lparr>wcSent := wcSent (wkClient w) @ [(n, ack_of req)]\<rparr>)"
  using read_execute [OF assms(2,3), of "execute_message req" "wire_request req" jerr rest]
  by (simp add: to_frame_def execute_message_def request_json_roundtrip ack_of_def to_valid_utf8_ascii [OF assms(1)])

lemma worker_posts:
  assumes "ascii (reqId req)" and "wcConn (wkClient w) = Some n"
    and "RunCode (teRun e) (wkPool w) (wire_request req) = Some r" "runErr r = None \<longrightarrow> teDurErr e = None"
  shows "\<exists>w' posted. worker_turn e (wire_request req) MsgTypeExecute (w\<lparr>wkClient := (wkClient w)\<lparr>wcSent := x\<rparr>\<rparr>) = WorkerNext w'
     \<and> wkPosts w' = wkPosts w @ [posted] \<and> posted = with_err (runErr r) (runResp r)
     \<and> respId posted = reqId req \<and> respCallBackUrl posted = to_valid_utf8 (reqCallBackUrl req)"
  using async_turn_posted [of e "w\<lparr>wkClient := (wkClient w)\<lparr>wcSent := x\<rparr>\<rparr>" "wire_request req" r n] assms(2-4)
    run_resp_id [OF assms(3)] to_valid_utf8_ascii [OF assms(1)]
  by (auto simp: wire_request_def)

lemma ack_clears:
  assumes "ascii (reqId req)" and "wsAckHandler (conns s r) = Some i" and "pendingReqs s i = Some t"
  shows "fst (DrainPending i (snd (run_read err [to_frame (ack_of req)] r s))) = (fst (DrainPending i s))(reqId req := None)"
  using run_read_ack [OF assms(2), of "\<lparr>msgType = MsgTypeAck, RequestID = reqId req, Payload = NotJson []\<rparr>" err] assms(3)
  by (simp add: to_frame_def ack_of_def to_valid_utf8_ascii [OF assms(1)] DrainPending_def AcknowledgeRequest_def map_delete_def)


text \<open>One worker that has connected to an empty server.\<close>

definition wit_server :: "P2CBalancer ClientManager" where
  "wit_server = run_start (p2c_lb exact_float) 0 ''w1'' 0 1 (NewClientManagerDomainTmpl [])"

lemma wit_server_ok: "registry_ok wit_server" "tracking_ok wit_server"
proof -
  have "tracking_ok (NewClientManagerDomainTmpl [])" by (simp add: tracking_ok_def NewClientManagerDomainTmpl_def)
  then show "tracking_ok wit_server"
    unfolding wit_server_def by (rule tracking_ok_run_start) (simp add: NewClientManagerDomainTmpl_def)
  show "registry_ok wit_server"
    unfolding wit_server_def by (simp add: registry_ok_def cm.inv_run_start registry_ok_new [unfolded registry_ok_def])
qed

lemma wit_server_parts:
  "clients wit_server = [''w1'' \<mapsto> NewClient ''w1'' 0]" "balancer wit_server = [newP2CNode ''w1'' 1 0]"
  "wsIsClosed (conns wit_server (wsConn (NewClient ''w1'' 0))) = False"
  by (simp_all add: wit_server_def run_start_def Let_def AddClient_def NewClientManagerDomainTmpl_def p2c_lb_def P2C_Add_def
      NewClient_def ws_HeartBeat_def ws_SetAckHandler_def NewWebsocketClientImpl_def)

lemma wit_server_pick: "\<exists>b. GetClientByBalance (p2c_lb exact_float) no_env wit_server = (Inr (NewClient ''w1'' 0), wit_server\<lparr>balancer := b\<rparr>)"
  by (simp add: GetClientByBalance_def maxRetryPickClient_def numeral_3_eq_3 p2c_lb_def P2C_Get_def
      wit_server_parts no_env_def pick_id_def Let_def newP2CNode_def client_closed_def ws_IsClosed_def) (rule exI, rule refl)

lemma wit_server_accepts: "fst (Execute (p2c_lb exact_float) ok_env req wit_server) = None"
  using wit_server_pick by (auto simp: Execute_def ok_env_def client_Send_def ws_Send_def ws_write_def Let_def)


end
