(* ===== verification/Json_Text.thy ===== *)
theory Json_Text
  imports Go_Json Agent_Tools
begin

text \<open>
  The text \<open>encoding/json\<close> writes for a value (\<open>json.Marshal\<close>, with its escapes for HTML), and a
  reader of such texts to measure it against: RFC 8259 without white space, fractions and
  surrogate escapes. Reading back what was written gives the value with its strings coerced to
  valid UTF-8.
\<close>

subsection \<open>Writing\<close>

definition json_escape :: "char \<Rightarrow> string" where
  "json_escape c =
     (if c = dquote \<or> c = backslash then [backslash, c]
      else if byte c = 8 then [backslash, CHR ''b'']
      else if byte c = 12 then [backslash, CHR ''f'']
      else if byte c = 10 then [backslash, CHR ''n'']
      else if byte c = 13 then [backslash, CHR ''r'']
      else if byte c = 9 then [backslash, CHR ''t'']
      else if byte c < 32 \<or> c \<in> {CHR ''<'', CHR ''>'', CHR ''&''} then backslash # ''u00'' @ hex_byte (byte c)
      else [c])"

definition json_chunk :: "string \<Rightarrow> string" where
  \<comment> \<open>one rune; an invalid byte and the two line separators are escaped\<close>
  "json_chunk ch =
     (if length ch = 1 then (if byte (hd ch) < 128 then json_escape (hd ch) else backslash # ''ufffd'')
      else if ch = [CHR 0xE2, CHR 0x80, CHR 0xA8] then backslash # ''u2028''
      else if ch = [CHR 0xE2, CHR 0x80, CHR 0xA9] then backslash # ''u2029''
      else ch)"

definition json_quote :: "string \<Rightarrow> string" where
  "json_quote s = dquote # concat (map json_chunk (rune_chunks s)) @ [dquote]"

fun comma_join :: "string list \<Rightarrow> string" where
  "comma_join [] = []"
| "comma_join [s] = s"
| "comma_join (s # ss) = s @ CHR '','' # comma_join ss"

fun Marshal :: "json \<Rightarrow> string" where
  "Marshal JNull = ''null''"
| "Marshal (JBool b) = (if b then ''true'' else ''false'')"
| "Marshal (JNum n) = Itoa n"
| "Marshal (JDec s) = s"
| "Marshal (JStr s) = json_quote s"
| "Marshal (JArr js) = CHR ''['' # comma_join (map Marshal js) @ '']''"
| "Marshal (JObj ms) = CHR 0x7B # comma_join (map (\<lambda>(k, v). json_quote k @ CHR '':'' # Marshal v) ms) @ [CHR 0x7D]"

subsection \<open>Reading\<close>

definition hex_value :: "char \<Rightarrow> nat" where
  "hex_value c =
     (if 48 \<le> byte c \<and> byte c \<le> 57 then byte c - 48
      else if 97 \<le> byte c \<and> byte c \<le> 102 then byte c - 87 else byte c - 55)"

definition hex_number :: "string \<Rightarrow> nat" where
  "hex_number s = foldl (\<lambda>v c. v * 16 + hex_value c) 0 s"

definition utf8_encode :: "nat \<Rightarrow> string option" where
  "utf8_encode n =
     (if n < 0x80 then Some [char_of n]
      else if n < 0x800 then Some [char_of (0xC0 + n div 64), char_of (0x80 + n mod 64)]
      else if 0xD800 \<le> n \<and> n \<le> 0xDFFF then None
      else Some [char_of (0xE0 + n div 4096), char_of (0x80 + n div 64 mod 64), char_of (0x80 + n mod 64)])"

definition simple_escape :: "char \<Rightarrow> char option" where
  "simple_escape e =
     (if e \<in> {dquote, backslash, CHR ''/''} then Some e
      else if e = CHR ''b'' then Some (CHR 0x08) else if e = CHR ''f'' then Some (CHR 0x0C)
      else if e = CHR ''n'' then Some (CHR 0x0A) else if e = CHR ''r'' then Some (CHR 0x0D)
      else if e = CHR ''t'' then Some (CHR 0x09) else None)"

definition prepend :: "string \<Rightarrow> (string \<times> string) option \<Rightarrow> (string \<times> string) option" where
  "prepend u = map_option (\<lambda>(v, r). (u @ v, r))"

text \<open>The string whose opening quote has been read, and what follows its closing one.\<close>

function unquote :: "string \<Rightarrow> (string \<times> string) option" where
  "unquote s =
     (case s of
        [] \<Rightarrow> None
      | c # r \<Rightarrow>
          if c = dquote then Some ([], r)
          else if c = backslash then
            (case r of
               [] \<Rightarrow> None
             | e # r' \<Rightarrow>
                 if e = CHR ''u'' then
                   (if 4 \<le> length r' \<and> list_all hex_char (take 4 r')
                    then (case utf8_encode (hex_number (take 4 r')) of
                            None \<Rightarrow> None
                          | Some u \<Rightarrow> prepend u (unquote (drop 4 r')))
                    else None)
                 else (case simple_escape e of None \<Rightarrow> None | Some x \<Rightarrow> prepend [x] (unquote r')))
          else if byte c < 32 then None
          else prepend [c] (unquote r))"
  by pat_completeness auto
termination by (relation "measure length") auto

declare unquote.simps [simp del]

definition is_digit :: "char \<Rightarrow> bool" where
  "is_digit c \<longleftrightarrow> 48 \<le> byte c \<and> byte c \<le> 57"

definition read_number :: "string \<Rightarrow> (json \<times> string) option" where
  "read_number s =
     (let neg = (s \<noteq> [] \<and> hd s = CHR ''-''); r = (if neg then tl s else s); ds = takeWhile is_digit r
      in if ds = [] then None
         else Some (JNum (if neg then - int (str_nat ds) else int (str_nat ds)), dropWhile is_digit r))"

text \<open>A value, the elements of an array and the members of an object; the first argument is fuel.\<close>

fun read_value :: "nat \<Rightarrow> string \<Rightarrow> (json \<times> string) option"
  and read_elems :: "nat \<Rightarrow> string \<Rightarrow> (json list \<times> string) option"
  and read_members :: "nat \<Rightarrow> string \<Rightarrow> ((string \<times> json) list \<times> string) option" where
  "read_value 0 s = None"
| "read_value (Suc n) s =
     (case s of
        [] \<Rightarrow> None
      | c # r \<Rightarrow>
          if c = dquote then map_option (\<lambda>(v, r'). (JStr v, r')) (unquote r)
          else if c = CHR ''['' then
            (if r \<noteq> [] \<and> hd r = CHR '']'' then Some (JArr [], tl r)
             else map_option (\<lambda>(vs, r'). (JArr vs, r')) (read_elems n r))
          else if c = CHR 0x7B then
            (if r \<noteq> [] \<and> hd r = CHR 0x7D then Some (JObj [], tl r)
             else map_option (\<lambda>(ms, r'). (JObj ms, r')) (read_members n r))
          else if HasPrefix s ''null'' then Some (JNull, drop 4 s)
          else if HasPrefix s ''true'' then Some (JBool True, drop 4 s)
          else if HasPrefix s ''false'' then Some (JBool False, drop 5 s)
          else read_number s)"
| "read_elems 0 s = None"
| "read_elems (Suc n) s =
     (case read_value n s of
        None \<Rightarrow> None
      | Some (v, r) \<Rightarrow>
          (case r of
             [] \<Rightarrow> None
           | c # r' \<Rightarrow>
               if c = CHR '']'' then Some ([v], r')
               else if c = CHR '','' then map_option (\<lambda>(vs, r2). (v # vs, r2)) (read_elems n r')
               else None))"
| "read_members 0 s = None"
| "read_members (Suc n) s =
     (case s of
        [] \<Rightarrow> None
      | q # s' \<Rightarrow>
          if q \<noteq> dquote then None
          else (case unquote s' of
                  None \<Rightarrow> None
                | Some (k, r) \<Rightarrow>
                    if r = [] \<or> hd r \<noteq> CHR '':'' then None
                    else (case read_value n (tl r) of
                            None \<Rightarrow> None
                          | Some (v, r1) \<Rightarrow>
                              (case r1 of
                                 [] \<Rightarrow> None
                               | c # r2 \<Rightarrow>
                                   if c = CHR 0x7D then Some ([(k, v)], r2)
                                   else if c = CHR '','' then map_option (\<lambda>(ms, r3). ((k, v) # ms, r3)) (read_members n r2)
                                   else None))))"

definition read_json :: "string \<Rightarrow> json option" where
  "read_json s = (case read_value (Suc (length s)) s of Some (v, []) \<Rightarrow> Some v | _ \<Rightarrow> None)"

subsection \<open>Strings\<close>

lemma rune_width_high: "1 < rune_width (c # cs) \<Longrightarrow> 128 \<le> byte c"
  by (rule ccontr) simp

lemma rune_width_nexts:
  "1 < rune_width (c # cs) \<Longrightarrow> next_in 0 128 191 cs"
  "2 < rune_width (c # cs) \<Longrightarrow> next_in 1 128 191 cs"
  "3 < rune_width (c # cs) \<Longrightarrow> next_in 2 128 191 cs"
  "rune_width (c # cs) \<le> 4"
  by (simp_all add: Let_def next_in_def split: if_split_asm)

declare rune_width.simps [simp del]

lemma rune_tail_bytes:
  assumes "1 < rune_width (c # cs)" and "b \<in> set (take (rune_width (c # cs)) (c # cs))"
  shows "128 \<le> byte b"
proof -
  have "128 \<le> byte (cs ! i)" if "Suc i < rune_width (c # cs)" for i
  proof -
    have "i < 3" using that rune_width_nexts(4) [of c cs] by linarith
    then consider "i = 0" | "i = 1" | "i = 2" by linarith
    then show ?thesis
      by cases (use that rune_width_nexts(1-3) [of c cs] in \<open>simp_all add: next_in_def numeral_eq_Suc\<close>)
  qed
  moreover have "b = c \<or> (\<exists>i. Suc i < rune_width (c # cs) \<and> b = cs ! i)"
  proof -
    from assms(2) obtain j where j: "j < rune_width (c # cs)" "b = (c # cs) ! j" by (auto simp: in_set_conv_nth)
    show ?thesis
    proof (cases j)
      case (Suc i)
      with j show ?thesis by auto
    qed (use j in simp)
  qed
  ultimately show ?thesis using rune_width_high [OF assms(1)] by blast
qed

lemma rune_chunk_cases:
  "ch \<in> set (rune_chunks s) \<Longrightarrow> (\<exists>b. ch = [b]) \<or> (length ch \<noteq> 1 \<and> (\<forall>b \<in> set ch. 128 \<le> byte b))"
proof (induction s rule: rune_chunks.induct)
  case (1 s)
  show ?case
  proof (cases s)
    case Nil
    with 1(2) show ?thesis by simp
  next
    case (Cons c cs)
    then consider "ch = take (rune_width s) s" | "ch \<in> set (rune_chunks (drop (rune_width s) s))"
      using 1(2) by (subst (asm) rune_chunks.simps) auto
    then show ?thesis
    proof cases
      case 1
      show ?thesis
      proof (cases "rune_width s = 1")
        case True
        with 1 Cons show ?thesis by simp
      next
        case False
        then have w: "1 < rune_width (c # cs)" using rune_width_pos [of c cs] Cons by simp
        have "length ch \<noteq> 1 \<or> (\<exists>b. ch = [b])" by (auto simp: length_Suc_conv)
        with rune_tail_bytes [OF w] 1 Cons show ?thesis by blast
      qed
    next
      case 2
      with 1(1) Cons show ?thesis by simp
    qed
  qed
qed

lemma prepend_simps [simp]:
  "prepend [] x = x" "prepend u None = None" "prepend u (Some (v, r)) = Some (u @ v, r)"
  by (cases x) (auto simp: prepend_def)

lemma prepend_append: "prepend u (prepend v x) = prepend (u @ v) x"
  by (cases x) (auto simp: prepend_def)

lemma unquote_close: "unquote (dquote # r) = Some ([], r)"
  by (subst unquote.simps) simp

lemma unquote_plain: "c \<noteq> dquote \<Longrightarrow> c \<noteq> backslash \<Longrightarrow> 32 \<le> byte c \<Longrightarrow> unquote (c # r) = prepend [c] (unquote r)"
  by (subst unquote.simps) simp

lemma unquote_simple: "simple_escape e = Some x \<Longrightarrow> unquote (backslash # e # r) = prepend [x] (unquote r)"
  by (subst unquote.simps) (auto simp: dquote_def backslash_def simple_escape_def split: if_splits)

lemma unquote_u:
  "list_all hex_char [a, b, c, d] \<Longrightarrow> utf8_encode (hex_number [a, b, c, d]) = Some u \<Longrightarrow>
     unquote (backslash # CHR ''u'' # a # b # c # d # r) = prepend u (unquote r)"
  by (subst unquote.simps) (simp add: dquote_def backslash_def)

lemma unquote_high: "\<forall>b \<in> set ch. 128 \<le> byte b \<Longrightarrow> unquote (ch @ r) = prepend ch (unquote r)"
proof (induction ch)
  case (Cons c ch)
  then have "c \<noteq> dquote" "c \<noteq> backslash" "32 \<le> byte c" by (auto simp: dquote_def backslash_def)
  with Cons show ?case by (simp add: unquote_plain prepend_append)
qed simp

lemma hex_digit_value:
  assumes "k < 16" shows "hex_value (hex_digit k) = k \<and> hex_char (hex_digit k)"
proof (cases "k < 10")
  case True
  then show ?thesis by (simp add: hex_value_def hex_digit_def hex_char_def)
next
  case False
  then have "byte (hex_digit k) = 87 + k" using assms by (simp add: hex_digit_def)
  then show ?thesis using False assms unfolding hex_value_def hex_char_def by simp
qed

lemma unquote_escape_byte:
  assumes "byte c < 128" shows "unquote (backslash # ''u00'' @ hex_byte (byte c) @ r) = prepend [c] (unquote r)"
proof -
  let ?h = "hex_digit (byte c div 16)" and ?l = "hex_digit (byte c mod 16)"
  have d: "byte c div 16 < 16" "byte c mod 16 < 16" using assms by simp_all
  have "list_all hex_char [CHR ''0'', CHR ''0'', ?h, ?l]" using d by (simp add: hex_digit_value) (simp add: hex_char_def)
  moreover have "hex_value (CHR ''0'') = 0" by (simp add: hex_value_def)
  then have "hex_number [CHR ''0'', CHR ''0'', ?h, ?l] = byte c" using d by (simp add: hex_number_def hex_digit_value)
  then have "utf8_encode (hex_number [CHR ''0'', CHR ''0'', ?h, ?l]) = Some [c]" using assms by (simp add: utf8_encode_def)
  ultimately show ?thesis using unquote_u [of "CHR ''0''" "CHR ''0''" ?h ?l "[c]" r] by (simp add: hex_byte_def)
qed

lemma char_eq_byte: "c = d \<longleftrightarrow> byte c = byte d"
  by (metis char_of_char)

lemma control_chars:
  "byte c = 8 \<Longrightarrow> c = CHR 0x08" "byte c = 9 \<Longrightarrow> c = CHR 0x09" "byte c = 10 \<Longrightarrow> c = CHR 0x0A"
  "byte c = 12 \<Longrightarrow> c = CHR 0x0C" "byte c = 13 \<Longrightarrow> c = CHR 0x0D"
  by (simp_all add: char_eq_byte)

lemma simple_escapes:
  "simple_escape dquote = Some dquote" "simple_escape backslash = Some backslash"
  "simple_escape (CHR ''b'') = Some (CHR 0x08)" "simple_escape (CHR ''f'') = Some (CHR 0x0C)"
  "simple_escape (CHR ''n'') = Some (CHR 0x0A)" "simple_escape (CHR ''r'') = Some (CHR 0x0D)"
  "simple_escape (CHR ''t'') = Some (CHR 0x09)"
  by (simp_all add: simple_escape_def dquote_def backslash_def)

lemma json_escape_other:
  "c \<noteq> dquote \<Longrightarrow> c \<noteq> backslash \<Longrightarrow> byte c \<notin> {8, 9, 10, 12, 13} \<Longrightarrow>
     json_escape c = backslash # ''u00'' @ hex_byte (byte c) \<or> (json_escape c = [c] \<and> 32 \<le> byte c)"
  by (simp add: json_escape_def)

lemma unquote_json_escape:
  assumes "byte c < 128" shows "unquote (json_escape c @ r) = prepend [c] (unquote r)"
proof -
  consider "c = dquote \<or> c = backslash" | "c \<noteq> dquote" "c \<noteq> backslash" "byte c \<in> {8, 9, 10, 12, 13}"
    | "json_escape c = backslash # ''u00'' @ hex_byte (byte c)"
    | "json_escape c = [c]" "c \<noteq> dquote" "c \<noteq> backslash" "32 \<le> byte c"
    using json_escape_other [of c] by blast
  then show ?thesis
  proof cases
    case 1
    then have "json_escape c = [backslash, c]" "simple_escape c = Some c" by (auto simp: json_escape_def simple_escapes)
    then show ?thesis by (simp add: unquote_simple)
  next
    case 2
    then have "\<exists>e. json_escape c = [backslash, e] \<and> simple_escape e = Some c"
      using control_chars [of c] by (auto simp: json_escape_def simple_escapes)
    then obtain e where "json_escape c = [backslash, e]" "simple_escape e = Some c" by blast
    then show ?thesis by (simp add: unquote_simple)
  next
    case 3
    then show ?thesis using unquote_escape_byte [OF assms, of r] by simp
  next
    case 4
    then show ?thesis by (simp add: unquote_plain)
  qed
qed

lemma unquote_chunk:
  assumes "ch \<in> set (rune_chunks s)" shows "unquote (json_chunk ch @ r) = prepend (reencode ch) (unquote r)"
  using rune_chunk_cases [OF assms]
proof (elim disjE exE conjE)
  fix b assume ch: "ch = [b]"
  show ?thesis
  proof (cases "byte b < 128")
    case True
    then show ?thesis by (simp add: ch json_chunk_def reencode_def unquote_json_escape)
  next
    case False
    have "list_all hex_char ''fffd''" "utf8_encode (hex_number ''fffd'') = Some [CHR 0xEF, CHR 0xBF, CHR 0xBD]"
      by (simp_all add: hex_char_def hex_number_def hex_value_def utf8_encode_def char_eq_byte)
    from unquote_u [OF this] False show ?thesis by (simp add: ch json_chunk_def reencode_def)
  qed
next
  assume ch: "length ch \<noteq> 1" "\<forall>b \<in> set ch. 128 \<le> byte b"
  then have re: "reencode ch = ch" by (auto simp: reencode_def split: list.split)
  have "list_all hex_char ''2028''" "utf8_encode (hex_number ''2028'') = Some [CHR 0xE2, CHR 0x80, CHR 0xA8]"
    "list_all hex_char ''2029''" "utf8_encode (hex_number ''2029'') = Some [CHR 0xE2, CHR 0x80, CHR 0xA9]"
    by (simp_all add: hex_char_def hex_number_def hex_value_def utf8_encode_def char_eq_byte)
  note sep = unquote_u [OF this(1,2)] unquote_u [OF this(3,4)]
  show ?thesis using ch(1) unquote_high [OF ch(2)] sep unfolding re by (simp add: json_chunk_def)
qed

lemma unquote_json_quote: "unquote (concat (map json_chunk (rune_chunks s)) @ dquote # r) = Some (to_valid_utf8 s, r)"
proof -
  have "unquote (concat (map json_chunk cs) @ dquote # r) = Some (concat (map reencode cs), r)"
    if "set cs \<subseteq> set (rune_chunks s)" for cs
    using that
  proof (induction cs)
    case (Cons ch cs)
    then have "ch \<in> set (rune_chunks s)" by simp
    from unquote_chunk [OF this, of "concat (map json_chunk cs) @ dquote # r"] Cons show ?case by simp
  qed (simp add: unquote_close)
  from this [of "rune_chunks s"] show ?thesis by (simp add: to_valid_utf8_def)
qed

subsection \<open>Values\<close>

text \<open>The values a round trip gives back: strings and keys coerced, no fractions.\<close>

fun coerce_json :: "json \<Rightarrow> json" where
  "coerce_json (JStr s) = JStr (to_valid_utf8 s)"
| "coerce_json (JArr js) = JArr (map coerce_json js)"
| "coerce_json (JObj ms) = JObj (map (\<lambda>(k, v). (to_valid_utf8 k, coerce_json v)) ms)"
| "coerce_json j = j"

fun plain_json :: "json \<Rightarrow> bool" where
  "plain_json (JDec s) = False"
| "plain_json (JArr js) = list_all plain_json js"
| "plain_json (JObj ms) = list_all (\<lambda>(k, v). plain_json v) ms"
| "plain_json j = True"

definition json_stop :: "string \<Rightarrow> bool" where
  "json_stop t \<longleftrightarrow> t = [] \<or> hd t \<in> {CHR '','', CHR '']'', CHR 0x7D}"

lemma json_stop_simps [simp]:
  "json_stop []" "json_stop (c # t) \<longleftrightarrow> c \<in> {CHR '','', CHR '']'', CHR 0x7D}"
  by (simp_all add: json_stop_def)

lemma Itoa_shape: "\<exists>c r. Itoa n = c # r \<and> (c = CHR ''-'' \<or> is_digit c)"
proof (cases "n < 0")
  case False
  obtain c r where cr: "nat_str (nat n) = c # r" using nat_str_nonempty [of "nat n"] by (meson neq_Nil_conv)
  then have "is_digit c" using nat_str_digits [of c "nat n"] by (simp add: is_digit_def)
  with False cr show ?thesis by (simp add: Itoa_def)
qed (simp add: Itoa_def)

lemma digits_span:
  assumes "json_stop t"
  shows "takeWhile is_digit (nat_str k @ t) = nat_str k \<and> dropWhile is_digit (nat_str k @ t) = t"
proof -
  have "\<forall>c \<in> set (nat_str k). is_digit c" using nat_str_digits by (simp add: is_digit_def)
  moreover have "takeWhile is_digit t = []" "dropWhile is_digit t = t"
    using assms by (cases t; auto simp: is_digit_def)+
  ultimately show ?thesis by (simp add: takeWhile_append2 dropWhile_append2)
qed

lemma read_number_Itoa:
  assumes "json_stop t" shows "read_number (Itoa n @ t) = Some (JNum n, t)"
proof (cases "n < 0")
  case True
  then show ?thesis using digits_span [OF assms, of "nat (- n)"]
    by (simp add: read_number_def Itoa_def str_nat_nat_str)
next
  case False
  obtain c r where cr: "nat_str (nat n) = c # r" using nat_str_nonempty [of "nat n"] by (meson neq_Nil_conv)
  then have "c \<noteq> CHR ''-''" using nat_str_digits [of c "nat n"] by auto
  with False cr digits_span [OF assms, of "nat n"] str_nat_nat_str [of "nat n"] show ?thesis
    by (simp add: read_number_def Itoa_def)
qed

lemma read_value_num:
  assumes "json_stop t" shows "read_value (Suc n) (Itoa k @ t) = Some (JNum k, t)"
proof -
  obtain c r where cr: "Itoa k = c # r" and c: "c = CHR ''-'' \<or> is_digit c" using Itoa_shape by blast
  have "c \<noteq> dquote" "c \<noteq> CHR ''[''" "c \<noteq> CHR 0x7B" "c \<notin> {CHR ''n'', CHR ''t'', CHR ''f''}"
    using c by (auto simp: is_digit_def dquote_def)
  moreover from this(4) have "\<not> HasPrefix (c # r @ t) ''null''" "\<not> HasPrefix (c # r @ t) ''true''"
    "\<not> HasPrefix (c # r @ t) ''false''" by (auto simp: HasPrefix_iff)
  ultimately show ?thesis using read_number_Itoa [OF assms, of k] by (simp add: cr)
qed

lemma Marshal_first: "plain_json j \<Longrightarrow> \<exists>c r. Marshal j = c # r \<and> c \<noteq> CHR '']''"
  using Itoa_shape by (cases j) (auto simp: json_quote_def dquote_def is_digit_def, fastforce)

lemma read_elems_join:
  assumes "\<And>j n t. j \<in> set js \<Longrightarrow> length (Marshal j) \<le> n \<Longrightarrow> json_stop t \<Longrightarrow> read_value n (Marshal j @ t) = Some (coerce_json j, t)"
    and "js \<noteq> []" and "length (comma_join (map Marshal js)) < n"
  shows "read_elems n (comma_join (map Marshal js) @ CHR '']'' # t) = Some (map coerce_json js, t)"
  using assms
proof (induction js arbitrary: n)
  case (Cons j js)
  obtain m where m: "n = Suc m" using Cons.prems(3) by (cases n) auto
  show ?case
  proof (cases js)
    case Nil
    with Cons.prems m show ?thesis by (simp add: Cons.prems(1))
  next
    case (Cons j' js')
    have len: "length (Marshal j) \<le> m" "length (comma_join (map Marshal js)) < m"
      using \<open>length (comma_join (map Marshal (j # js))) < n\<close> m Cons by simp_all
    have "read_elems m (comma_join (map Marshal js) @ CHR '']'' # t) = Some (map coerce_json js, t)"
      by (rule Cons.IH) (use Cons.prems(1) len Cons in auto)
    moreover have "read_value m (Marshal j @ CHR '','' # x) = Some (coerce_json j, CHR '','' # x)" for x
      using Cons.prems(1) [of j m "CHR '','' # x"] len by simp
    ultimately show ?thesis using Cons m by simp
  qed
qed simp

abbreviation member_text :: "string \<times> json \<Rightarrow> string" where
  "member_text m \<equiv> (case m of (k, v) \<Rightarrow> json_quote k @ CHR '':'' # Marshal v)"

lemma read_member_first:
  assumes "read_value n (Marshal v @ c # t) = Some (v', c # t)"
  shows "read_members (Suc n) (member_text (k, v) @ c # t) =
    (if c = CHR 0x7D then Some ([(to_valid_utf8 k, v')], t)
     else if c = CHR '','' then map_option (\<lambda>(ms, r). ((to_valid_utf8 k, v') # ms, r)) (read_members n t)
     else None)"
  using assms unquote_json_quote [of k "CHR '':'' # Marshal v @ c # t"] by (simp add: json_quote_def)

lemma read_members_join:
  assumes "\<And>k v n t. (k, v) \<in> set ms \<Longrightarrow> length (Marshal v) \<le> n \<Longrightarrow> json_stop t \<Longrightarrow>
      read_value n (Marshal v @ t) = Some (coerce_json v, t)"
    and "ms \<noteq> []" and "length (comma_join (map member_text ms)) < n"
  shows "read_members n (comma_join (map member_text ms) @ CHR 0x7D # t)
    = Some (map (\<lambda>(k, v). (to_valid_utf8 k, coerce_json v)) ms, t)"
  using assms
proof (induction ms arbitrary: n)
  case (Cons m ms)
  obtain k v where kv: "m = (k, v)" by (cases m)
  obtain l where l: "n = Suc l" using Cons.prems(3) by (cases n) auto
  have len: "length (Marshal v) \<le> l" "ms \<noteq> [] \<longrightarrow> length (comma_join (map member_text ms)) < l"
    using Cons.prems(3) l kv by (cases ms; simp)+
  have v: "read_value l (Marshal v @ c # x) = Some (coerce_json v, c # x)" if "c \<in> {CHR '','', CHR 0x7D}" for c x
    using Cons.prems(1) [of k v l "c # x"] len(1) kv that by auto
  show ?case
  proof (cases ms)
    case Nil
    then show ?thesis using read_member_first [OF v, where k = k and c = "CHR 0x7D" and t = t] kv l by simp
  next
    case (Cons m' ms')
    have "read_members l (comma_join (map member_text ms) @ CHR 0x7D # t)
        = Some (map (\<lambda>(k, v). (to_valid_utf8 k, coerce_json v)) ms, t)"
      by (rule Cons.IH) (use Cons.prems(1) len(2) Cons in auto)
    then show ?thesis
      using read_member_first [OF v, where k = k and c = "CHR '',''" and t = "comma_join (map member_text ms) @ CHR 0x7D # t"] kv l Cons
      by simp
  qed
qed simp

lemma read_value_Marshal:
  "plain_json j \<Longrightarrow> length (Marshal j) \<le> n \<Longrightarrow> json_stop t \<Longrightarrow> read_value n (Marshal j @ t) = Some (coerce_json j, t)"
proof (induction j arbitrary: n t)
  case (JArr js)
  obtain m where m: "n = Suc m" using JArr.prems(2) by (cases n) auto
  show ?case
  proof (cases js)
    case Nil
    then show ?thesis by (simp add: m dquote_def)
  next
    case (Cons j' js')
    obtain c r where "Marshal j' = c # r" "c \<noteq> CHR '']''" using Marshal_first [of j'] JArr.prems(1) Cons by auto
    then have hd: "comma_join (map Marshal js) @ CHR '']'' # t \<noteq> []" "hd (comma_join (map Marshal js) @ CHR '']'' # t) \<noteq> CHR '']''"
      using Cons by (cases js'; simp)+
    have "read_elems m (comma_join (map Marshal js) @ CHR '']'' # t) = Some (map coerce_json js, t)"
      by (rule read_elems_join) (use JArr Cons m in \<open>auto simp: list_all_iff\<close>)
    with hd show ?thesis by (simp add: m dquote_def)
  qed
next
  case (JObj ms)
  obtain m where m: "n = Suc m" using JObj.prems(2) by (cases n) auto
  show ?case
  proof (cases ms)
    case Nil
    then show ?thesis by (simp add: m dquote_def)
  next
    case (Cons m' ms')
    have hd: "comma_join (map member_text ms) @ CHR 0x7D # t \<noteq> []" "hd (comma_join (map member_text ms) @ CHR 0x7D # t) \<noteq> CHR 0x7D"
      using Cons by (cases ms'; cases m'; simp add: json_quote_def dquote_def)+
    have "read_members m (comma_join (map member_text ms) @ CHR 0x7D # t)
        = Some (map (\<lambda>(k, v). (to_valid_utf8 k, coerce_json v)) ms, t)"
    proof (rule read_members_join)
      fix k v n t assume "(k, v) \<in> set ms" "length (Marshal v) \<le> n" "json_stop t"
      then show "read_value n (Marshal v @ t) = Some (coerce_json v, t)"
        using JObj.IH [of "(k, v)" v n t] JObj.prems(1) by (auto simp: list_all_iff)
    qed (use Cons m JObj.prems(2) in simp_all)
    with hd show ?thesis by (simp add: m dquote_def)
  qed
next
  case (JStr s)
  then obtain m where "n = Suc m" by (cases n) (auto simp: json_quote_def)
  then show ?case by (simp add: json_quote_def unquote_json_quote)
next
  case (JNum k)
  then obtain m where "n = Suc m" using Itoa_shape [of k] by (cases n) auto
  with JNum show ?case by (simp only: Marshal.simps read_value_num coerce_json.simps)
next
  case (JBool b)
  then obtain m where "n = Suc m" by (cases n) (auto split: if_splits)
  then show ?case by (simp add: dquote_def HasPrefix_def)
next
  case JNull
  then obtain m where "n = Suc m" by (cases n) auto
  then show ?case by (simp add: dquote_def HasPrefix_def)
qed simp

lemma read_json_Marshal: "plain_json j \<Longrightarrow> read_json (Marshal j) = Some (coerce_json j)"
  using read_value_Marshal [of j "Suc (length (Marshal j))" "[]"] by (simp add: read_json_def del: read_value.simps)

subsection \<open>No control characters\<close>

lemma hex_digit_printable: "k < 16 \<Longrightarrow> 32 \<le> byte (hex_digit k)"
  by (simp add: hex_digit_def)

lemma json_escape_printable: "byte c < 128 \<Longrightarrow> b \<in> set (json_escape c) \<Longrightarrow> 32 \<le> byte b"
  by (auto simp: json_escape_def hex_byte_def dquote_def backslash_def hex_digit_printable split: if_splits)

lemma json_quote_printable:
  assumes "b \<in> set (json_quote s)" shows "32 \<le> byte b"
proof -
  have "32 \<le> byte b" if ch: "ch \<in> set (rune_chunks s)" and b: "b \<in> set (json_chunk ch)" for ch
    using rune_chunk_cases [OF ch] b json_escape_printable [of "hd ch" b]
    by (auto simp: json_chunk_def backslash_def split: if_splits)
  with assms show ?thesis by (auto simp: json_quote_def dquote_def)
qed

lemma set_comma_join: "set (comma_join ss) \<subseteq> {CHR '',''} \<union> \<Union> (set ` set ss)"
  by (induction ss rule: comma_join.induct) auto

lemma Marshal_printable: "plain_json j \<Longrightarrow> b \<in> set (Marshal j) \<Longrightarrow> 32 \<le> byte b"
proof (induction j)
  case (JNum n)
  then show ?case using nat_str_digits [of b] by (fastforce simp: Itoa_def split: if_splits)
next
  case (JArr js)
  then consider "b \<in> {CHR ''['', CHR '']'', CHR '',''}" | j where "j \<in> set js" "b \<in> set (Marshal j)"
    using set_comma_join [of "map Marshal js"] by auto
  then show ?case using JArr by cases (auto simp: list_all_iff)
next
  case (JObj ms)
  then consider "b \<in> {CHR 0x7B, CHR 0x7D, CHR '',''}" | k v where "(k, v) \<in> set ms" "b \<in> set (json_quote k @ CHR '':'' # Marshal v)"
    using set_comma_join [of "map member_text ms"] by auto
  then show ?case using JObj json_quote_printable [of b] by cases (fastforce simp: list_all_iff)+
qed (auto simp: json_quote_printable split: if_splits)

end
