(* ===== verification/Sse_Stream.thy ===== *)
theory Sse_Stream
  imports Agent_Handlers Json_Text
begin

text \<open>
  The bytes of an event stream (\<open>sseEvent\<close> and \<open>sseKeepAlive\<close> in
  \<open>internal/agent/handler/chat.go\<close>), the goroutine that keeps a chat's connection alive, and what a
  browser's \<open>EventSource\<close> makes of the stream: its parsing rules, as the HTML standard gives them, are
  the reference the writer is measured against.
\<close>

subsection \<open>Writing\<close>

definition LF :: char where "LF = CHR 0x0A"
definition CR :: char where "CR = CHR 0x0D"

definition omit_empty :: "string \<Rightarrow> string \<Rightarrow> (string \<times> json) list" where
  "omit_empty name s = (if s = [] then [] else [(name, JStr s)])"

definition proposal_json :: "ProposalInfo \<Rightarrow> json" where
  "proposal_json p =
     JObj [(''proposal_id'', JStr (prID p)), (''code'', JStr (prCode p)),
           (''language'', JStr (prLanguage p)), (''description'', JStr (prDescription p))]"

text \<open>\<open>tcj\<close>: how the agent library's tool calls are encoded.\<close>

definition payload_json :: "(toolcall \<Rightarrow> json) \<Rightarrow> ssePayload \<Rightarrow> json" where
  "payload_json tcj p =
     JObj ([(''type'', JStr (spType p))]
           @ omit_empty ''content'' (spContent p)
           @ (if spToolCalls p = [] then [] else [(''tool_calls'', JArr (map tcj (spToolCalls p)))])
           @ omit_empty ''error'' (spError p)
           @ (case spProposal p of None \<Rightarrow> [] | Some pr \<Rightarrow> [(''proposal'', proposal_json pr)])
           @ omit_empty ''session_id'' (spSessionID p))"

definition sseEvent :: "(toolcall \<Rightarrow> json) \<Rightarrow> string \<Rightarrow> ssePayload \<Rightarrow> string" where
  "sseEvent tcj event payload = ''event: '' @ event @ [LF] @ ''data: '' @ Marshal (payload_json tcj payload) @ [LF, LF]"

definition sseKeepAlive :: string where
  "sseKeepAlive = '': keepalive'' @ [LF, LF]"

datatype sse_write = EventWrite sse | KeepAliveWrite

definition write_text :: "(toolcall \<Rightarrow> json) \<Rightarrow> sse_write \<Rightarrow> string" where
  "write_text tcj w = (case w of EventWrite (ev, p) \<Rightarrow> sseEvent tcj ev p | KeepAliveWrite \<Rightarrow> sseKeepAlive)"

fun events_of :: "sse_write list \<Rightarrow> sse list" where
  "events_of [] = []"
| "events_of (EventWrite e # ws) = e # events_of ws"
| "events_of (KeepAliveWrite # ws) = events_of ws"

subsection \<open>Reading\<close>

text \<open>Lines end with CR LF, CR or LF.\<close>

fun unify_eol :: "string \<Rightarrow> string" where
  "unify_eol [] = []"
| "unify_eol (c # s) =
     (if c = CR then LF # unify_eol (if s \<noteq> [] \<and> hd s = LF then tl s else s) else c # unify_eol s)"

definition stream_lines :: "string \<Rightarrow> string list" where
  \<comment> \<open>an unfinished last line does not count\<close>
  "stream_lines s = butlast (Split LF (unify_eol s))"

definition sse_field :: "string \<Rightarrow> string \<times> string" where
  "sse_field l =
     (takeWhile (\<lambda>c. c \<noteq> CHR '':'') l,
      case dropWhile (\<lambda>c. c \<noteq> CHR '':'') l of
        [] \<Rightarrow> []
      | _ # v \<Rightarrow> if v \<noteq> [] \<and> hd v = CHR '' '' then tl v else v)"

text \<open>The buffers of the event type and the data, and the lines: the events dispatched.\<close>

fun sse_parse :: "string \<Rightarrow> string \<Rightarrow> string list \<Rightarrow> (string \<times> string) list" where
  "sse_parse ev dat [] = []"
| "sse_parse ev dat (l # ls) =
     (if l = [] then
        (if dat = [] then sse_parse [] [] ls
         else (if ev = [] then ''message'' else ev, butlast dat) # sse_parse [] [] ls)
      else if hd l = CHR '':'' then sse_parse ev dat ls
      else case sse_field l of
             (f, v) \<Rightarrow>
               if f = ''event'' then sse_parse v dat ls
               else if f = ''data'' then sse_parse ev (dat @ v @ [LF]) ls
               else sse_parse ev dat ls)"

definition read_stream :: "string \<Rightarrow> (string \<times> string) list" where
  "read_stream s = sse_parse [] [] (stream_lines s)"

text \<open>What a listener gets: the event's name and its data as JSON.\<close>

definition browser_events :: "string \<Rightarrow> (string \<times> json option) list" where
  "browser_events s = map (\<lambda>(ev, d). (ev, read_json d)) (read_stream s)"

subsection \<open>The round trip\<close>

definition event_name :: "string \<Rightarrow> bool" where
  "event_name ev \<longleftrightarrow> ev \<noteq> [] \<and> LF \<notin> set ev \<and> CR \<notin> set ev"

lemma plain_payload: "\<forall>c. plain_json (tcj c) \<Longrightarrow> plain_json (payload_json tcj p)"
  by (auto simp: payload_json_def omit_empty_def proposal_json_def list_all_iff split: option.splits)

lemma Marshal_one_line: "plain_json j \<Longrightarrow> LF \<notin> set (Marshal j) \<and> CR \<notin> set (Marshal j)"
  using Marshal_printable [of j LF] Marshal_printable [of j CR] by (auto simp: LF_def CR_def)

lemma Marshal_nonempty: "Marshal (JObj ms) \<noteq> []"
  by simp

lemma unify_eol_id: "CR \<notin> set s \<Longrightarrow> unify_eol s = s"
  by (induction s rule: unify_eol.induct) auto

definition write_lines :: "(toolcall \<Rightarrow> json) \<Rightarrow> sse_write \<Rightarrow> string list" where
  "write_lines tcj w =
     (case w of EventWrite (ev, p) \<Rightarrow> [''event: '' @ ev, ''data: '' @ Marshal (payload_json tcj p), []]
              | KeepAliveWrite \<Rightarrow> ['': keepalive'', []])"

definition write_ok :: "sse_write \<Rightarrow> bool" where
  "write_ok w = (case w of EventWrite (ev, p) \<Rightarrow> event_name ev | KeepAliveWrite \<Rightarrow> True)"

lemma Split_write:
  assumes "\<forall>c. plain_json (tcj c)" and "write_ok w"
  shows "Split LF (write_text tcj w @ s) = write_lines tcj w @ Split LF s \<and> CR \<notin> set (write_text tcj w)"
proof (cases w)
  case (EventWrite e)
  obtain ev p where e: "e = (ev, p)" by (cases e)
  note m = Marshal_one_line [OF plain_payload [OF assms(1)], of p]
  have "LF \<notin> set (''event: '' @ ev)" "LF \<notin> set (''data: '' @ Marshal (payload_json tcj p))"
    using assms(2) m by (auto simp: write_ok_def EventWrite e event_name_def) (auto simp: LF_def)
  note cut = this [THEN Split_append_sep]
  have "Split LF (write_text tcj w @ s)
      = Split LF ((''event: '' @ ev) @ LF # ((''data: '' @ Marshal (payload_json tcj p)) @ LF # [] @ LF # s))"
    by (simp add: write_text_def EventWrite e sseEvent_def)
  also have "\<dots> = write_lines tcj w @ Split LF s"
    unfolding cut by (simp add: write_lines_def EventWrite e)
  finally show ?thesis using assms(2) m
    by (auto simp: write_text_def EventWrite e sseEvent_def write_ok_def event_name_def) (auto simp: LF_def CR_def)
next
  case KeepAliveWrite
  have "LF \<notin> set '': keepalive''" by (simp add: LF_def)
  from Split_append_sep [OF this, of "LF # s"] show ?thesis
    by (simp add: KeepAliveWrite write_text_def write_lines_def sseKeepAlive_def) (simp add: LF_def CR_def)
qed

lemma stream_lines_writes:
  assumes "\<forall>c. plain_json (tcj c)" and "list_all write_ok ws"
  shows "stream_lines (concat (map (write_text tcj) ws)) = concat (map (write_lines tcj) ws)"
proof -
  have "Split LF (concat (map (write_text tcj) ws)) = concat (map (write_lines tcj) ws) @ [[]]
      \<and> CR \<notin> set (concat (map (write_text tcj) ws))"
    using assms(2) by (induction ws) (use Split_write [OF assms(1)] in auto)
  then show ?thesis by (simp add: stream_lines_def unify_eol_id)
qed

lemma sse_parse_write:
  assumes "write_ok w"
  shows "sse_parse [] [] (write_lines tcj w @ ls)
    = map (\<lambda>(ev, p). (ev, Marshal (payload_json tcj p))) (events_of [w]) @ sse_parse [] [] ls"
proof (cases w)
  case (EventWrite e)
  obtain ev p where e: "e = (ev, p)" by (cases e)
  have "sse_field (''event: '' @ ev) = (''event'', ev)" "sse_field (''data: '' @ m) = (''data'', m)" for m
    by (simp_all add: sse_field_def)
  then show ?thesis using assms
    by (simp add: EventWrite e write_lines_def write_ok_def event_name_def payload_json_def)
qed (simp add: write_lines_def)

lemma read_stream_writes:
  assumes "\<forall>c. plain_json (tcj c)" and "list_all write_ok ws"
  shows "read_stream (concat (map (write_text tcj) ws)) = map (\<lambda>(ev, p). (ev, Marshal (payload_json tcj p))) (events_of ws)"
proof -
  have "sse_parse [] [] (concat (map (write_lines tcj) ws)) = map (\<lambda>(ev, p). (ev, Marshal (payload_json tcj p))) (events_of ws)"
    using assms(2)
  proof (induction ws)
    case (Cons w ws)
    then have "write_ok w" "list_all write_ok ws" by simp_all
    moreover have "events_of (w # ws) = events_of [w] @ events_of ws" by (cases w) simp_all
    ultimately show ?case using sse_parse_write Cons.IH by simp
  qed simp
  then show ?thesis by (simp add: read_stream_def stream_lines_writes [OF assms])
qed

subsection \<open>The handlers' streams\<close>

definition handler_events :: "string set" where
  "handler_events = {''session_created'', ''message'', ''stream_chunk'', ''tool_result'', ''interrupt'', ''error'', ''done''}"

lemma handler_event_name: "ev \<in> handler_events \<Longrightarrow> event_name ev"
  by (auto simp: handler_events_def event_name_def LF_def CR_def)

abbreviation handler_stream :: "sse list \<Rightarrow> bool" where
  "handler_stream evs \<equiv> list_all (\<lambda>e. fst e \<in> handler_events) evs"

lemma agent_loop_events: "handler_stream (fst (agent_loop typed cm sid evs ag))"
proof (induction typed cm sid evs ag rule: agent_loop.induct)
  case (2 typed cm sid ev evs ag)
  obtain out1 ag1 where c: "capture_interrupt typed sid (evInterrupted ev) ag = (out1, ag1)" by fastforce
  obtain out2 ms where h: "handle_output typed cm (evOutput ev) = (out2, ms)" by fastforce
  have "handler_stream out1"
    using c by (auto simp: capture_interrupt_def handler_events_def Let_def split: option.splits)
  moreover have "handler_stream out2"
    using h by (auto simp: handle_output_def handler_events_def Let_def list_all_iff split: event_output.splits if_splits)
  moreover have "evErr ev = None \<Longrightarrow> handler_stream (fst (agent_loop typed cm sid evs ag1))"
    using "2.IH" [OF _ c [symmetric] h [symmetric]] by simp
  ultimately show ?case
    by (cases "evErr ev") (auto simp: c h handler_events_def split: prod.splits)
qed simp

lemma chat_begin_refusal: "fst (chat_begin env clk uuid tok body ag) = Inl r \<Longrightarrow> \<exists>code j. r = Http code j"
  by (auto simp: chat_begin_def Let_def split: prod.splits chat_setup.splits option.splits)

lemma chat_finish_events:
  assumes "fst (chat_finish env clk cm sid isNew user evs ag) = Stream evs'" shows "handler_stream evs'"
proof -
  obtain out ms ag1 where l: "agent_loop True cm sid evs ag = (out, ms, ag1)" by (metis prod_cases3)
  then have "handler_stream out" using agent_loop_events [of True cm sid evs ag] by simp
  with assms show ?thesis by (auto simp: chat_finish_def l Let_def handler_events_def)
qed

lemma confirm_finish_events:
  assumes "fst (confirm_finish env clk ip cm resume sid iid p res ag) = Stream evs'" shows "handler_stream evs'"
proof (cases "resume sid iid (result_text res)")
  case (Inl err)
  with assms show ?thesis by (auto simp: confirm_finish_def Let_def handler_events_def)
next
  case (Inr evs)
  have "handler_stream out" if "agent_loop False cm sid evs a = (out, ms, a1)" for a out ms a1
    using agent_loop_events [of False cm sid evs a] that by simp
  moreover have "''message'' \<in> handler_events" "''done'' \<in> handler_events" by (simp_all add: handler_events_def)
  ultimately show ?thesis using Inr assms
    by (auto simp: confirm_finish_def Let_def split: prod.splits)
qed

lemma chat_stream_events:
  assumes "fst (ChatHandler env clk cm runner uuid tok body ag) = Stream evs" shows "handler_stream evs"
proof -
  obtain r ag1 where b: "chat_begin env clk uuid tok body ag = (r, ag1)" by fastforce
  show ?thesis
  proof (cases r)
    case (Inl h)
    with b chat_begin_refusal [of env clk uuid tok body ag h] assms show ?thesis by (auto simp: ChatHandler_def)
  next
    case (Inr x)
    obtain sid isNew msgs where x: "x = (sid, isNew, msgs)" by (cases x)
    show ?thesis by (rule chat_finish_events) (use assms in \<open>simp add: ChatHandler_def b Inr x\<close>)
  qed
qed

lemma confirm_stream_events:
  assumes "fst (ConfirmHandler env clk ip cm resume exec tok body ag s) = Stream evs" shows "handler_stream evs"
proof -
  obtain r ag1 where b: "confirm_begin env clk tok body ag = (r, ag1)" by fastforce
  show ?thesis
  proof (cases r)
    case (Inl h)
    with b confirm_begin_Inl [of env clk tok body ag h ag1] assms show ?thesis by (auto simp: ConfirmHandler_def)
  next
    case (Inr x)
    obtain sid iid p where x: "x = (sid, iid, p)" by (cases x)
    obtain res s' where e: "exec (confirm_request p) s = (res, s')" by fastforce
    show ?thesis
      by (rule confirm_finish_events [of env clk ip cm resume sid iid p res ag1]) (use assms in \<open>simp add: ConfirmHandler_def b Inr x e split: prod.splits\<close>)
  qed
qed

text \<open>
  C19. Whatever a chat or a confirmation streams, and however keep-alive comments fall between its
  events, a browser reads exactly these events, in order: each with its name, and with data that
  parses as JSON to the payload, its strings coerced to valid UTF-8. Nothing a visitor, a program or
  the model writes can end an event or start another.
\<close>

theorem stream_reaches_browser:
  assumes "\<forall>c. plain_json (tcj c)"
    and "fst (ChatHandler env clk cm runner uuid tok body ag) = Stream evs
       \<or> fst (ConfirmHandler env clk ip cm resume exec tok body ag s) = Stream evs"
    and "events_of ws = evs"
  shows "browser_events (concat (map (write_text tcj) ws)) = map (\<lambda>(ev, p). (ev, Some (coerce_json (payload_json tcj p)))) evs"
proof -
  have names: "handler_stream evs" using assms(2) by (elim disjE) (erule chat_stream_events, erule confirm_stream_events)
  have "list_all write_ok ws"
    using names unfolding assms(3) [symmetric]
    by (induction ws rule: events_of.induct) (auto simp: write_ok_def handler_event_name)
  from read_stream_writes [OF assms(1) this] show ?thesis
    by (simp add: browser_events_def assms(3) read_json_Marshal [OF plain_payload [OF assms(1)]] case_prod_beta comp_def)
qed

text \<open>A turn with one message, and a keep-alive comment in the middle of its stream.\<close>

definition wit_chat_stream :: "sse list" where
  "wit_chat_stream = [(''message'', payload_for True ''message'' (UserMessage ''hi'')), (''done'', no_payload\<lparr>spType := ''done''\<rparr>)]"

lemma wit_chat_response:
  "fst (ChatHandler wit_msg_env wit_clock (\<lambda>_. None)
      (\<lambda>_. [\<lparr>evErr = None, evInterrupted = [], evOutput = Whole (UserMessage ''hi'')\<rparr>]) [] 7 wit_chat wit_agent)
    = Stream wit_chat_stream"
  by (simp add: ChatHandler_def wit_chat_begin chat_finish_def capture_interrupt_def root_interrupt_def
      handle_output_def Let_def wit_chat_stream_def) (simp add: UserMessage_def)

theorem stream_reaches_browser_witness:
  "browser_events (sseEvent (\<lambda>c. JNull) ''message'' (payload_for True ''message'' (UserMessage ''hi'')) @ sseKeepAlive
       @ sseEvent (\<lambda>c. JNull) ''done'' (no_payload\<lparr>spType := ''done''\<rparr>))
   = [(''message'', Some (JObj [(''type'', JStr ''message''), (''content'', JStr ''hi'')])),
      (''done'', Some (JObj [(''type'', JStr ''done'')]))]"
proof -
  have a: "ascii ''message''" "ascii ''hi''" "ascii ''type''" "ascii ''content''" "ascii ''done''" by (simp_all add: ascii_def)
  have p: "\<forall>c. plain_json ((\<lambda>c. JNull) c)" by simp
  have e: "events_of [EventWrite (wit_chat_stream ! 0), KeepAliveWrite, EventWrite (wit_chat_stream ! 1)] = wit_chat_stream"
    by (simp add: wit_chat_stream_def)
  have "browser_events (concat (map (write_text (\<lambda>c. JNull))
        [EventWrite (wit_chat_stream ! 0), KeepAliveWrite, EventWrite (wit_chat_stream ! 1)]))
      = map (\<lambda>(ev, p). (ev, Some (coerce_json (payload_json (\<lambda>c. JNull) p)))) wit_chat_stream"
    by (rule stream_reaches_browser [OF p disjI1 [OF wit_chat_response] e])
  then show ?thesis
    by (simp add: write_text_def wit_chat_stream_def payload_json_def payload_for_def UserMessage_def no_payload_def
        omit_empty_def to_valid_utf8_ascii a)
qed

end
