(* ===== verification/Keep_Alive.thy ===== *)
theory Keep_Alive
  imports Sse_Stream
begin

text \<open>
  The goroutine that writes a comment to a chat's stream every five seconds
  (\<open>internal/agent/handler/chat.go\<close>), next to the handler that writes the events. Both write through
  the handler's \<open>gin.Context\<close>, which gin takes back when the handler returns and hands to a later
  request: its documentation tells handlers to give goroutines a copy. A write is taken as atomic,
  although nothing in the code makes it so.
\<close>

datatype ka_phase =
    KaSelect     \<comment> \<open>at the \<open>select\<close> on the ticker and \<open>kaStop\<close>\<close>
  | KaTicked     \<comment> \<open>past it, on the ticker's case\<close>
  | KaReturned

datatype chat_phase = ChatRunning | ChatClosing | ChatReturned

record chat_conn =
  kaPhase :: ka_phase
  kaStop :: bool                       \<comment> \<open>whether the channel is closed\<close>
  chatPhase :: chat_phase
  ctxRequest :: nat                    \<comment> \<open>the request the context serves; the chat is 0\<close>
  bodies :: "nat \<Rightarrow> sse_write list"    \<comment> \<open>what was written to each request's response\<close>

definition chat_started :: "sse list \<Rightarrow> chat_conn" where
  \<comment> \<open>the goroutine starts after the event of a new session\<close>
  "chat_started evs =
     \<lparr>kaPhase = KaSelect, kaStop = False, chatPhase = ChatRunning, ctxRequest = 0,
      bodies = (\<lambda>_. [])(0 := map EventWrite evs)\<rparr>"

definition ctx_write :: "sse_write \<Rightarrow> chat_conn \<Rightarrow> chat_conn" where
  "ctx_write w s = s\<lparr>bodies := (bodies s)(ctxRequest s := bodies s (ctxRequest s) @ [w])\<rparr>"

text \<open>
  \<open>wait\<close>: whether the handler waits for the goroutine's end before it returns; the code does not.
  When both cases of the \<open>select\<close> are ready, Go takes either.
\<close>

inductive ka_step :: "bool \<Rightarrow> chat_conn \<Rightarrow> chat_conn \<Rightarrow> bool" for wait where
  event: "chatPhase s \<noteq> ChatReturned \<Longrightarrow> ka_step wait s (ctx_write (EventWrite e) s)"
| close: "chatPhase s = ChatRunning \<Longrightarrow> ka_step wait s (s\<lparr>chatPhase := ChatClosing, kaStop := True\<rparr>)"
| finish: "chatPhase s = ChatClosing \<Longrightarrow> wait \<longrightarrow> kaPhase s = KaReturned \<Longrightarrow> ka_step wait s (s\<lparr>chatPhase := ChatReturned\<rparr>)"
| reuse: "chatPhase s = ChatReturned \<Longrightarrow> ka_step wait s (s\<lparr>ctxRequest := Suc (ctxRequest s)\<rparr>)"
| other: "ctxRequest s \<noteq> 0 \<Longrightarrow> ka_step wait s (ctx_write (EventWrite e) s)"
| tick: "kaPhase s = KaSelect \<Longrightarrow> ka_step wait s (s\<lparr>kaPhase := KaTicked\<rparr>)"
| comment: "kaPhase s = KaTicked \<Longrightarrow> ka_step wait s ((ctx_write KeepAliveWrite s)\<lparr>kaPhase := KaSelect\<rparr>)"
| stop: "kaPhase s = KaSelect \<Longrightarrow> kaStop s \<Longrightarrow> ka_step wait s (s\<lparr>kaPhase := KaReturned\<rparr>)"

inductive ka_reach :: "bool \<Rightarrow> chat_conn \<Rightarrow> bool" for wait where
  start: "ka_reach wait (chat_started evs)"
| step: "ka_reach wait s \<Longrightarrow> ka_step wait s s' \<Longrightarrow> ka_reach wait s'"

definition ka_inv :: "chat_conn \<Rightarrow> bool" where
  "ka_inv s \<longleftrightarrow> (chatPhase s \<noteq> ChatReturned \<longrightarrow> ctxRequest s = 0 \<and> (\<forall>n. n \<noteq> 0 \<longrightarrow> bodies s n = []))
     \<and> (kaPhase s = KaReturned \<longrightarrow> kaStop s)"

definition quiet :: "chat_conn \<Rightarrow> bool" where
  \<comment> \<open>no comment in another request's response, and none to come once the handler has returned\<close>
  "quiet s \<longleftrightarrow> (\<forall>n. n \<noteq> 0 \<longrightarrow> KeepAliveWrite \<notin> set (bodies s n)) \<and> (chatPhase s = ChatReturned \<longrightarrow> kaPhase s = KaReturned)"

lemma ka_inv_step: "ka_step wait s s' \<Longrightarrow> ka_inv s \<Longrightarrow> ka_inv s'"
  by (induction rule: ka_step.induct) (auto simp: ka_inv_def ctx_write_def)

lemma ka_inv_reach: "ka_reach wait s \<Longrightarrow> ka_inv s"
proof (induction rule: ka_reach.induct)
  case (step s s')
  then show ?case using ka_inv_step by blast
qed (simp add: ka_inv_def chat_started_def)

lemma quiet_step: "ka_step True s s' \<Longrightarrow> ka_inv s \<Longrightarrow> quiet s \<Longrightarrow> quiet s'"
  by (induction rule: ka_step.induct) (auto simp: quiet_def ka_inv_def ctx_write_def split: if_splits)

lemma quiet_reach: "ka_reach True s \<Longrightarrow> quiet s"
proof (induction rule: ka_reach.induct)
  case (step s s')
  then show ?case using quiet_step ka_inv_reach by blast
qed (simp add: quiet_def chat_started_def)

text \<open>The goroutine has passed its \<open>select\<close> when the handler returns.\<close>

lemma late_comment:
  "\<exists>s. ka_reach False s \<and> ctxRequest s = 1 \<and> KeepAliveWrite \<in> set (bodies s 1)"
proof -
  let ?s = "chat_started []"
  let ?t = "?s\<lparr>kaPhase := KaTicked\<rparr>"
  let ?c = "?t\<lparr>chatPhase := ChatClosing, kaStop := True\<rparr>"
  let ?f = "?c\<lparr>chatPhase := ChatReturned\<rparr>"
  let ?r = "?f\<lparr>ctxRequest := Suc (ctxRequest ?f)\<rparr>"
  let ?k = "(ctx_write KeepAliveWrite ?r)\<lparr>kaPhase := KaSelect\<rparr>"
  have "ka_step False ?s ?t" by (rule ka_step.tick) (simp add: chat_started_def)
  moreover have "ka_step False ?t ?c" by (rule ka_step.close) (simp add: chat_started_def)
  moreover have "ka_step False ?c ?f" by (rule ka_step.finish) simp_all
  moreover have "ka_step False ?f ?r" by (rule ka_step.reuse) simp
  moreover have "ka_step False ?r ?k" by (rule ka_step.comment) simp
  ultimately have "ka_reach False ?k" by (meson ka_reach.intros)
  moreover have "ctxRequest ?k = 1" "KeepAliveWrite \<in> set (bodies ?k 1)" by (simp_all add: ctx_write_def chat_started_def)
  ultimately show ?thesis by blast
qed

text \<open>
  Until the chat's handler returns, the goroutine writes to the chat's own response only. After
  that it can write a comment into the response of the next request that gets the context, since the
  handler does not wait for it; a handler that waited could not cause this.
\<close>

theorem keep_alive_leaks:
  "(\<forall>wait s n. ka_reach wait s \<longrightarrow> chatPhase s \<noteq> ChatReturned \<longrightarrow> n \<noteq> 0 \<longrightarrow> bodies s n = [])
   \<and> (\<exists>s. ka_reach False s \<and> KeepAliveWrite \<in> set (bodies s 1))
   \<and> (\<forall>s n. ka_reach True s \<longrightarrow> n \<noteq> 0 \<longrightarrow> KeepAliveWrite \<notin> set (bodies s n))"
  using ka_inv_reach late_comment quiet_reach unfolding ka_inv_def quiet_def by blast

theorem keep_alive_leaks_witness:
  "\<exists>s. ka_reach False s \<and> bodies s 0 = [KeepAliveWrite] \<and> bodies s 3 = []"
proof -
  let ?s = "chat_started []"
  let ?k = "(ctx_write KeepAliveWrite (?s\<lparr>kaPhase := KaTicked\<rparr>))\<lparr>kaPhase := KaSelect\<rparr>"
  have "ka_step False ?s (?s\<lparr>kaPhase := KaTicked\<rparr>)" by (rule ka_step.tick) (simp add: chat_started_def)
  moreover have "ka_step False (?s\<lparr>kaPhase := KaTicked\<rparr>) ?k" by (rule ka_step.comment) simp
  ultimately have r: "ka_reach False ?k" by (meson ka_reach.intros)
  have "chatPhase ?k \<noteq> ChatReturned" "bodies ?k 0 = [KeepAliveWrite]" by (simp_all add: ctx_write_def chat_started_def)
  with keep_alive_leaks [THEN conjunct1, rule_format, OF r, of 3] r show ?thesis by (intro exI [of _ ?k]) simp
qed

end
