(* ===== verification/Run_Cancels.thy ===== *)
theory Run_Cancels
  imports Agent_Handlers
begin

text \<open>
  The table of cancel functions (\<open>svc.Cancels\<close>, a \<open>sync.Map\<close>) under concurrent requests. A run
  stores its function under its session when it begins (\<open>chat.go\<close>, \<open>confirm.go\<close>) and deletes the
  session's entry, whichever it is, when it ends. A cancel request (\<open>cancel.go\<close>) takes the entry out
  first; then it either calls the function or, for another visitor's session, puts it back. Each of
  these is one atomic step, and steps of different requests interleave.
\<close>

subsection \<open>Steps\<close>

record cancel_state =
  csTable :: "string \<rightharpoonup> nat"
  csRuns :: "nat \<rightharpoonup> string"       \<comment> \<open>the runs going on\<close>
  csStarted :: "nat \<rightharpoonup> string"    \<comment> \<open>the session of every run begun so far\<close>
  csCancelled :: "nat set"
  csHeld :: "(string \<times> nat) set"  \<comment> \<open>entries taken out by a cancel request that is not done\<close>

definition no_runs :: cancel_state where
  "no_runs = \<lparr>csTable = Map.empty, csRuns = Map.empty, csStarted = Map.empty, csCancelled = {}, csHeld = {}\<rparr>"

definition run_begin :: "string \<Rightarrow> nat \<Rightarrow> cancel_state \<Rightarrow> cancel_state" where
  "run_begin sid tok s = s\<lparr>csTable := (csTable s)(sid \<mapsto> tok), csRuns := (csRuns s)(tok \<mapsto> sid), csStarted := (csStarted s)(tok \<mapsto> sid)\<rparr>"

definition run_end :: "string \<Rightarrow> nat \<Rightarrow> cancel_state \<Rightarrow> cancel_state" where
  "run_end sid tok s =
     s\<lparr>csTable := (csTable s)(sid := None), csRuns := (csRuns s)(tok := None), csCancelled := insert tok (csCancelled s)\<rparr>"

definition cancel_take :: "string \<Rightarrow> nat \<Rightarrow> cancel_state \<Rightarrow> cancel_state" where
  "cancel_take sid tok s = s\<lparr>csTable := (csTable s)(sid := None), csHeld := insert (sid, tok) (csHeld s)\<rparr>"

definition cancel_put_back :: "string \<Rightarrow> nat \<Rightarrow> cancel_state \<Rightarrow> cancel_state" where
  "cancel_put_back sid tok s = s\<lparr>csTable := (csTable s)(sid \<mapsto> tok), csHeld := csHeld s - {(sid, tok)}\<rparr>"

definition cancel_call :: "string \<Rightarrow> nat \<Rightarrow> cancel_state \<Rightarrow> cancel_state" where
  "cancel_call sid tok s = s\<lparr>csCancelled := insert tok (csCancelled s), csHeld := csHeld s - {(sid, tok)}\<rparr>"

text \<open>
  \<open>serial\<close>: a run of a session begins only when no other one is going on and no cancel request for
  the session is half way. The code does not see to that.
\<close>

inductive cancel_step :: "bool \<Rightarrow> cancel_state \<Rightarrow> cancel_state \<Rightarrow> bool" for serial where
  begins: "csStarted s tok = None \<Longrightarrow> serial \<longrightarrow> sid \<notin> ran (csRuns s) \<and> sid \<notin> fst ` csHeld s
    \<Longrightarrow> cancel_step serial s (run_begin sid tok s)"
| ends: "csRuns s tok = Some sid \<Longrightarrow> cancel_step serial s (run_end sid tok s)"
| taken: "csTable s sid = Some tok \<Longrightarrow> cancel_step serial s (cancel_take sid tok s)"
| put_back: "(sid, tok) \<in> csHeld s \<Longrightarrow> cancel_step serial s (cancel_put_back sid tok s)"
| called: "(sid, tok) \<in> csHeld s \<Longrightarrow> cancel_step serial s (cancel_call sid tok s)"

definition cancel_reach :: "bool \<Rightarrow> cancel_state \<Rightarrow> bool" where
  "cancel_reach serial s \<longleftrightarrow> (cancel_step serial)\<^sup>*\<^sup>* no_runs s"

lemma cancel_reach_induct [consumes 1, case_names init step]:
  assumes "cancel_reach serial s" and "P no_runs"
    and "\<And>s t. cancel_reach serial s \<Longrightarrow> P s \<Longrightarrow> cancel_step serial s t \<Longrightarrow> P t"
  shows "P s"
  using assms(1) unfolding cancel_reach_def
  by (induction rule: rtranclp_induct) (use assms(2,3) cancel_reach_def in blast)+

lemma cancel_reach_step: "cancel_reach serial s \<Longrightarrow> cancel_step serial s t \<Longrightarrow> cancel_reach serial t"
  unfolding cancel_reach_def by (rule rtranclp.rtrancl_into_rtrancl)

lemmas cancel_ops = run_begin_def run_end_def cancel_take_def cancel_put_back_def cancel_call_def

subsection \<open>Every entry belongs to its session\<close>

definition entries_ok :: "cancel_state \<Rightarrow> bool" where
  "entries_ok s \<longleftrightarrow>
     (\<forall>sid tok. csTable s sid = Some tok \<longrightarrow> csStarted s tok = Some sid)
     \<and> (\<forall>(sid, tok) \<in> csHeld s. csStarted s tok = Some sid)
     \<and> (\<forall>tok sid. csRuns s tok = Some sid \<longrightarrow> csStarted s tok = Some sid)"

lemma entries_ok_step:
  assumes "cancel_step serial s t" "entries_ok s"
  shows "entries_ok t"
  using assms(1)
proof cases
  case (begins tok sid)
  with assms(2) show ?thesis by (auto simp: entries_ok_def run_begin_def)
next
  case (ends tok sid)
  with assms(2) show ?thesis by (auto simp: entries_ok_def run_end_def)
next
  case (taken sid tok)
  with assms(2) show ?thesis by (auto simp: entries_ok_def cancel_take_def)
next
  case (put_back sid tok)
  with assms(2) show ?thesis by (auto simp: entries_ok_def cancel_put_back_def)
next
  case (called sid tok)
  with assms(2) show ?thesis by (auto simp: entries_ok_def cancel_call_def)
qed

lemma entries_ok_reach: "cancel_reach serial s \<Longrightarrow> entries_ok s"
proof (induction rule: cancel_reach_induct)
  case init
  then show ?case by (simp add: entries_ok_def no_runs_def)
next
  case (step s t)
  then show ?case using entries_ok_step by blast
qed

definition serial_ok :: "cancel_state \<Rightarrow> bool" where
  "serial_ok s \<longleftrightarrow>
     (\<forall>a b sid. csRuns s a = Some sid \<and> csRuns s b = Some sid \<longrightarrow> a = b)
     \<and> (\<forall>a b sid. csRuns s a = Some sid \<and> csTable s sid = Some b \<longrightarrow> a = b)
     \<and> (\<forall>a b sid. csRuns s a = Some sid \<and> (sid, b) \<in> csHeld s \<longrightarrow> a = b)
     \<and> (\<forall>a sid. csRuns s a = Some sid \<and> a \<notin> csCancelled s \<and> (sid, a) \<notin> csHeld s \<longrightarrow> csTable s sid = Some a)"

lemma serial_ok_step:
  assumes "cancel_step True s t" "serial_ok s" "entries_ok s"
  shows "serial_ok t"
  using assms(1)
proof cases
  case (begins tok sid)
  then have "csRuns s x \<noteq> Some sid" "(sid, x) \<notin> csHeld s" "csRuns s tok = None" for x
    using assms(3) by (auto simp: entries_ok_def ran_def image_iff) (metis not_Some_eq option.distinct(1))
  with assms(2) begins show ?thesis by (auto simp: serial_ok_def run_begin_def)
next
  case (ends tok sid)
  with assms(2) show ?thesis by (auto simp: serial_ok_def run_end_def)
next
  case (taken sid tok)
  with assms(2) show ?thesis by (auto simp: serial_ok_def cancel_take_def)
next
  case (put_back sid tok)
  then have only: "csRuns s a = Some sid \<Longrightarrow> tok = a" for a using assms(2) unfolding serial_ok_def by blast
  from assms(2) put_back show ?thesis
    by (auto intro: only simp: serial_ok_def cancel_put_back_def)
next
  case (called sid tok)
  with assms(2) show ?thesis
    by (auto simp: serial_ok_def cancel_call_def)
qed

lemma serial_ok_reach: "cancel_reach True s \<Longrightarrow> serial_ok s"
proof (induction rule: cancel_reach_induct)
  case init
  then show ?case by (simp add: serial_ok_def no_runs_def)
next
  case (step s t)
  then show ?case using serial_ok_step entries_ok_reach by blast
qed



subsection \<open>The handlers take these steps\<close>

text \<open>The table of the agent's state is the table of the model.\<close>

lemma chat_begin_table:
  "chat_begin env clk uuid tok body ag = (Inr (sid, n, ms), ag1) \<Longrightarrow> csTable s = Cancels ag
     \<Longrightarrow> Cancels ag1 = csTable (run_begin sid tok s)"
proof -
  assume a: "chat_begin env clk uuid tok body ag = (Inr (sid, n, ms), ag1)" "csTable s = Cancels ag"
  have "Cancels ag2 = Cancels ag" if "chat_setup env clk uuid body ag = (r, ag2)" for r ag2
    using that by (auto simp: chat_setup_def setup_create_def Let_def split: option.splits prod.splits if_splits)
  then have s: "Cancels (snd (chat_setup env clk uuid body ag)) = Cancels ag" by (metis prod.collapse)
  obtain c ag2 where c: "chat_setup env clk uuid body ag = (c, ag2)" by fastforce
  show ?thesis
  proof (cases c)
    case (Refused code msg)
    with a(1) c show ?thesis by (simp add: chat_begin_def)
  next
    case (Prepared sid' isNew instruction)
    obtain past e where "GetMessages env sid' (agStore ag2) = (past, e)" by fastforce
    with a Prepared c s show ?thesis by (cases e) (auto simp: chat_begin_def run_begin_def Let_def)
  qed
qed

lemma chat_finish_table:
  "chat_finish env clk cm sid isNew user evs ag = (r, ag1) \<Longrightarrow> csTable s = Cancels ag \<Longrightarrow> Cancels ag1 = csTable (run_end sid tok s)"
  by (auto simp: chat_finish_def run_end_def Let_def dest!: agent_loop_frame split: prod.splits)

lemma confirm_begin_table:
  "confirm_begin env clk tok body ag = (Inr (sid, i, p), ag1) \<Longrightarrow> csTable s = Cancels ag
     \<Longrightarrow> Cancels ag1 = csTable (run_begin sid tok s)"
  using confirm_begin_Inr [of env clk tok body ag sid i p ag1] by (auto simp: run_begin_def)

lemma CancelHandler_table:
  assumes "decode_struct cancel_fields \<lparr>caSessionID = [], caVisitorID = []\<rparr> body = Some req" "TrimSpace (caSessionID req) \<noteq> []"
    and "csTable s = Cancels ag" "csCancelled s = agCancelled ag" "Cancels ag (caSessionID req) = Some tok"
    and "CancelHandler env clk body ag = (r, ag1)"
  defines "t \<equiv> cancel_take (caSessionID req) tok s"
  shows "if r = Http 200 (message_json ''cancelled'')
         then Cancels ag1 = csTable (cancel_call (caSessionID req) tok t) \<and> agCancelled ag1 = csCancelled (cancel_call (caSessionID req) tok t)
         else Cancels ag1 = csTable (cancel_put_back (caSessionID req) tok t) \<and> agCancelled ag1 = csCancelled t"
proof -
  let ?bad = "\<lambda>found. case found of Some meta \<Rightarrow> \<not> owner_ok meta (caVisitorID req) | None \<Rightarrow> False"
  obtain found st where g: "GetMeta env (atLookup clk) (caSessionID req) (agStore ag) = (found, st)" by fastforce
  show ?thesis
  proof (cases "?bad found")
    case True
    with assms(1,2,5,6) g have "r \<noteq> Http 200 (message_json ''cancelled'')"
      "Cancels ag1 = (Cancels ag)(caSessionID req \<mapsto> tok)" "agCancelled ag1 = agCancelled ag"
      by (auto simp: CancelHandler_def Let_def)
    with assms(3,4) show ?thesis by (simp add: t_def cancel_take_def cancel_put_back_def)
  next
    case False
    with assms(1,2,5,6) g have "r = Http 200 (message_json ''cancelled'')"
      "Cancels ag1 = (Cancels ag)(caSessionID req := None)" "agCancelled ag1 = insert tok (agCancelled ag)"
      by (auto simp: CancelHandler_def Let_def split: option.splits)
    with assms(3,4) show ?thesis by (simp add: t_def cancel_take_def cancel_call_def)
  qed
qed

end
