(* ===== verification/Torn_Writes.thy ===== *)
theory Torn_Writes
  imports Session_Store Json_Text
begin

text \<open>
  Writes of the session store that fail half way (\<open>internal/agent/session/store.go\<close>): a full disk or a
  crash leaves a prefix of the bytes. Here every write has its outcome as an argument; with all
  of them done the operations are those of \<open>Session_Store\<close>.
\<close>

subsection \<open>Operations\<close>

datatype line_write = LineWritten | LineTorn nat     \<comment> \<open>the bytes that reached the file\<close>
datatype meta_write = MetaWritten | MetaRefused | MetaTorn nat

fun append_writes :: "'m file_env \<Rightarrow> string \<Rightarrow> ('m \<times> line_write) list \<Rightarrow> string \<Rightarrow> store_error option \<times> string" where
  "append_writes env p [] raw = (None, raw)"
| "append_writes env p ((m, w) # ms) raw =
     (case feEnc env m of
        None \<Rightarrow> (Some MarshalFailed, raw)
      | Some data \<Rightarrow>
          (case w of
             LineWritten \<Rightarrow> append_writes env p ms (raw @ data @ [newline])
           | LineTorn n \<Rightarrow> (Some (WriteFailed p), raw @ take n (data @ [newline]))))"

text \<open>\<open>os.WriteFile\<close> empties the file before it writes; what is left of a torn document is not JSON.\<close>

definition write_meta :: "'m file_env \<Rightarrow> meta_write \<Rightarrow> string \<Rightarrow> SessionMeta \<Rightarrow> FileStore \<Rightarrow> FileStore" where
  "write_meta env w sid m st =
     (case w of
        MetaRefused \<Rightarrow> st
      | MetaWritten \<Rightarrow> st\<lparr>metaFiles := (metaFiles st)(metaPath st sid \<mapsto> Json (meta_json env m))\<rparr>
      | MetaTorn n \<Rightarrow> st\<lparr>metaFiles := (metaFiles st)(metaPath st sid \<mapsto> NotJson (take n (Marshal (meta_json env m))))\<rparr>)"

definition touchMeta_io :: "'m file_env \<Rightarrow> meta_write \<Rightarrow> int \<Rightarrow> string \<Rightarrow> FileStore \<Rightarrow> FileStore" where
  "touchMeta_io env w now sid st =
     (case metas st sid of
        None \<Rightarrow> st
      | Some m \<Rightarrow>
          (let m' = m\<lparr>smLastActive := now\<rparr> in write_meta env w sid m' (st\<lparr>metas := (metas st)(sid \<mapsto> m')\<rparr>)))"

definition Append_io :: "'m file_env \<Rightarrow> meta_write \<Rightarrow> int \<Rightarrow> string \<Rightarrow> ('m \<times> line_write) list \<Rightarrow> FileStore
    \<Rightarrow> store_error option \<times> FileStore" where
  "Append_io env w now sid msgs st =
     (if \<not> feWritable env (jsonlPath st sid) then (Some (OpenFailed (jsonlPath st sid)), st)
      else let raw = (case jsonlFiles st (jsonlPath st sid) of None \<Rightarrow> [] | Some r \<Rightarrow> r)
           in case append_writes env (jsonlPath st sid) msgs raw of
                (e, raw') \<Rightarrow>
                  (let st' = st\<lparr>jsonlFiles := (jsonlFiles st)(jsonlPath st sid \<mapsto> raw')\<rparr>
                   in case e of Some err \<Rightarrow> (Some err, st') | None \<Rightarrow> (None, touchMeta_io env w now sid st')))"

definition CreateWithArticle_io :: "'m file_env \<Rightarrow> meta_write \<Rightarrow> int \<times> int \<Rightarrow> string \<Rightarrow> string \<Rightarrow> string \<Rightarrow> string
    \<Rightarrow> FileStore \<Rightarrow> store_error option \<times> FileStore" where
  "CreateWithArticle_io env w now sid instruction articleID ownerID st =
     (let meta = \<lparr>smID = sid, smOwner = ownerID, smInstruction = instruction, smArticle = articleID,
                  smCreated = fst now, smLastActive = snd now\<rparr>;
          st1 = write_meta env w sid meta st
      in if w \<noteq> MetaWritten then (Some (WriteFailed (metaPath st sid)), st1)
         else if \<not> feWritable env (jsonlPath st sid) then (Some (CreateFailed (jsonlPath st sid)), st1)
         else (None, st1\<lparr>jsonlFiles := (jsonlFiles st1)(jsonlPath st sid \<mapsto> []), metas := (metas st1)(sid \<mapsto> meta)\<rparr>))"

definition whole_meta :: "'m file_env \<Rightarrow> FileStore \<Rightarrow> string \<Rightarrow> meta_write" where
  "whole_meta env st sid = (if feWritable env (metaPath st sid) then MetaWritten else MetaRefused)"

lemma append_writes_whole: "append_writes env p (map (\<lambda>m. (m, LineWritten)) ms) raw = append_lines env ms raw"
  by (induction ms arbitrary: raw) (simp_all split: option.split)

lemma Append_io_whole: "Append_io env (whole_meta env st sid) now sid (map (\<lambda>m. (m, LineWritten)) ms) st = Append env now sid ms st"
  by (auto simp: Append_io_def Append_def append_writes_whole touchMeta_io_def touchMeta_def write_meta_def whole_meta_def Let_def
      split: prod.split option.split)

lemma CreateWithArticle_io_whole:
  "CreateWithArticle_io env (whole_meta env st sid) now sid instruction articleID ownerID st
     = CreateWithArticle env now sid instruction articleID ownerID st"
  by (simp add: CreateWithArticle_io_def CreateWithArticle_def write_meta_def whole_meta_def Let_def)

subsection \<open>A torn line\<close>

lemma read_log_line:
  assumes "terminated raw" "read_log env raw = Some ms" "newline \<notin> set t" "length t < maxToken"
  shows "read_log env (raw @ t) = Some (ms @ decode_lines env [dropCR t])"
    and "read_log env (raw @ t @ [newline]) = Some (ms @ decode_lines env [dropCR t])"
proof -
  obtain ps where ps: "Split newline raw = ps @ [[]]" "\<And>r. Split newline (raw @ r) = ps @ Split newline r"
    using Split_terminated [OF assms(1)] by blast
  have small: "\<not> (\<exists>p \<in> set ps. length p \<ge> maxToken)"
    using scan_too_long [of _ "ps @ [[]]"] assms(2) by (fastforce simp: read_log_def ps(1) split: prod.splits if_splits)
  have scan: "scan_pieces (ps @ qs) = (map dropCR ps @ fst (scan_pieces qs), snd (scan_pieces qs))" if "qs \<noteq> []" for qs
    using scan_pieces_append [OF that, of ps] small by simp
  have ms: "ms = decode_lines env (map dropCR ps)"
    using assms(2) scan [of "[[]]"] by (simp add: read_log_def ps(1) maxToken_def)
  have "Split newline t = [t]" "Split newline (t @ [newline]) = [t, []]"
    using Split_no_sep [OF assms(3)] Split_append_sep [OF assms(3), of "[]"] by simp_all
  with ms assms(4) show "read_log env (raw @ t) = Some (ms @ decode_lines env [dropCR t])"
    "read_log env (raw @ t @ [newline]) = Some (ms @ decode_lines env [dropCR t])"
    by (simp_all add: read_log_def ps(2) scan decode_lines_append dropCR_def maxToken_def)
qed

text \<open>Messages as short strings, for the examples: a letter m in front and a full stop at the end.\<close>

definition torn_env :: "string file_env" where
  "torn_env = \<lparr>feWritable = (\<lambda>p. True), feTime = (\<lambda>t. Itoa t), feParseTime = (\<lambda>s. None),
     feEnc = (\<lambda>m. Some (CHR ''m'' # m @ ''.'')),
     feDec = (\<lambda>s. if length s = 3 \<and> hd s = CHR ''m'' then Some [s ! 1] else None)\<rparr>"

definition torn_store :: FileStore where
  "torn_store = wit_store\<lparr>metas := [''a'' \<mapsto> wit_meta], jsonlFiles := [jsonlPath wit_store ''a'' \<mapsto> []]\<rparr>"

lemma append_writes_torn:
  "list_all (storable env) ms \<Longrightarrow> feEnc env m = Some data \<Longrightarrow>
     append_writes env p (map (\<lambda>m. (m, LineWritten)) ms @ (m, LineTorn n) # rest) raw
       = (Some (WriteFailed p), raw @ encoded env ms @ take n (data @ [newline]))"
  by (induction ms arbitrary: raw) (auto simp: storable_def encoded_def split: option.splits)

lemma terminated_encoded: "terminated raw \<Longrightarrow> terminated (raw @ encoded env ms)"
  by (induction ms rule: rev_induct) (simp_all add: encoded_def terminated_def)

text \<open>
  An append whose write fails in the middle of a line reports the error, and everything written
  before that line stays readable. But the rest of the line stays in the file, without its end: the next message
  is appended to it with success, and what later reads find in place of both is what the two pieces
  decode to together; when that is not a message, the new one is lost.
\<close>

theorem torn_append_swallows_next:
  assumes "logs_ok st" "history env st sid = Some past" "feWritable env (jsonlPath st sid)"
    and "list_all (storable env) ms" "storable env m" "feEnc env m = Some data" "n \<le> length data"
    and "Append_io env w t sid (map (\<lambda>m. (m, LineWritten)) ms @ (m, LineTorn n) # rest) st = (e, st1)"
    and "storable env m2" "feEnc env m2 = Some data2" "n + length data2 < maxToken"
    and "Append env t2 sid [m2] st1 = (e2, st2)"
  shows "e \<noteq> None \<and> history env st1 sid = Some (past @ ms @ decode_lines env [dropCR (take n data)])
     \<and> e2 = None \<and> history env st2 sid = Some (past @ ms @ decode_lines env [take n data @ data2])"
proof -
  obtain raw where raw: "jsonlFiles st (jsonlPath st sid) = Some raw" "read_log env raw = Some past" "terminated raw"
    using assms(1,2) by (auto simp: history_read logs_ok_def bind_eq_Some_conv)
  let ?raw1 = "raw @ encoded env ms" and ?t = "take n data"
  have d: "newline \<notin> set ?t" "length ?t < maxToken" "newline \<notin> set data2" "data2 \<noteq> []" "last data2 \<noteq> CHR 0x0D"
    using assms(5-7,9-11) by (auto simp: storable_def dest: in_set_takeD)
  have past: "read_log env ?raw1 = Some (past @ ms)" by (rule read_log_append [OF assms(4) raw(3,2)])
  have st1: "e = Some (WriteFailed (jsonlPath st sid))" "st1 = st\<lparr>jsonlFiles := (jsonlFiles st)(jsonlPath st sid \<mapsto> ?raw1 @ ?t)\<rparr>"
    using assms(3,8) append_writes_torn [OF assms(4,6)] raw(1) assms(7) by (simp_all add: Append_io_def)
  have p: "jsonlPath st1 sid = jsonlPath st sid" by (simp add: st1(2))
  have h1: "history env st1 sid = Some ((past @ ms) @ decode_lines env [dropCR ?t])"
    unfolding st1(2) history_update
    using read_log_line(1) [OF terminated_encoded [OF raw(3)] past d(1,2)] by simp
  have e2: "e2 = None" "jsonlFiles st2 (jsonlPath st2 sid) = Some (?raw1 @ (?t @ data2) @ [newline])"
    using assms(3,10,12) unfolding Append_def p st1(2) by (auto simp: Let_def)
  have "dropCR (?t @ data2) = ?t @ data2" using d(4,5) by (simp add: dropCR_def)
  moreover have "newline \<notin> set (?t @ data2)" "length (?t @ data2) < maxToken" using d assms(11) by auto
  ultimately have "history env st2 sid = Some ((past @ ms) @ decode_lines env [?t @ data2])"
    using read_log_line(2) [OF terminated_encoded [OF raw(3)] past, of "?t @ data2"] by (simp add: history_read e2(2))
  with h1 e2 st1(1) show ?thesis by simp
qed

theorem torn_append_swallows_next_witness:
  "\<exists>st1 st2. fst (Append_io torn_env MetaWritten 1 ''a'' [(''x'', LineWritten), (''y'', LineTorn 1)] torn_store) \<noteq> None
     \<and> st1 = snd (Append_io torn_env MetaWritten 1 ''a'' [(''x'', LineWritten), (''y'', LineTorn 1)] torn_store)
     \<and> Append torn_env 2 ''a'' [''z''] st1 = (None, st2) \<and> history torn_env st2 ''a'' = Some [''x'']"
proof -
  have l: "logs_ok torn_store" by (simp add: logs_ok_def terminated_def torn_store_def)
  have h: "history torn_env torn_store ''a'' = Some []"
    by (simp add: history_read torn_store_def read_log_def maxToken_def jsonlPath_def)
  have w: "feWritable torn_env (jsonlPath torn_store ''a'')" by (simp add: torn_env_def)
  have s: "list_all (storable torn_env) [''x'']" "storable torn_env ''y''" "storable torn_env ''z''"
    by (simp_all add: storable_def torn_env_def maxToken_def newline_def)
  have e: "feEnc torn_env ''y'' = Some ''my.''" "feEnc torn_env ''z'' = Some ''mz.''" by (simp_all add: torn_env_def)
  obtain e1 st1 where a: "Append_io torn_env MetaWritten 1 ''a'' (map (\<lambda>m. (m, LineWritten)) [''x''] @ (''y'', LineTorn 1) # []) torn_store = (e1, st1)"
    by fastforce
  obtain e2 st2 where b: "Append torn_env 2 ''a'' [''z''] st1 = (e2, st2)" by fastforce
  have "decode_lines torn_env [take 1 ''my.'' @ ''mz.''] = []" by (simp add: torn_env_def)
  with torn_append_swallows_next [OF l h w s(1,2) e(1) _ a s(3) e(2) _ b] a b show ?thesis
    by (auto simp: maxToken_def)
qed

subsection \<open>A torn document\<close>

text \<open>
  The metadata are rewritten in place after every append, and a failure is not noticed. When that
  write stops half way, the messages are there and the running process still finds the session; but
  after a restart the session is not found, although its log is whole.
\<close>

theorem torn_metadata_forgets_session:
  assumes "logs_ok st" "history env st sid = Some past" "feWritable env (jsonlPath st sid)" "list_all (storable env) ms"
    and "metas st sid = Some m" and "Append_io env (MetaTorn n) t sid (map (\<lambda>m. (m, LineWritten)) ms) st = (e, st1)"
  shows "e = None \<and> history env st1 sid = Some (past @ ms)
     \<and> fst (GetMeta env now sid st1) = (if now - t > ttl st then None else Some (m\<lparr>smLastActive := t\<rparr>))
     \<and> fst (GetMeta env now sid (NewFileStore (baseDir st) life st1)) = None
     \<and> history env (NewFileStore (baseDir st) life st1) sid = Some (past @ ms)"
proof -
  obtain raw where raw: "jsonlFiles st (jsonlPath st sid) = Some raw" "read_log env raw = Some past" "terminated raw"
    using assms(1,2) by (auto simp: history_read logs_ok_def bind_eq_Some_conv)
  let ?m = "m\<lparr>smLastActive := t\<rparr>"
  have st1: "e = None" "st1 = st\<lparr>jsonlFiles := (jsonlFiles st)(jsonlPath st sid \<mapsto> raw @ encoded env ms), metas := (metas st)(sid \<mapsto> ?m),
      metaFiles := (metaFiles st)(metaPath st sid \<mapsto> NotJson (take n (Marshal (meta_json env ?m))))\<rparr>"
    using assms(3,5,6) append_lines_storable [OF assms(4)] raw(1)
    by (simp_all add: Append_io_def append_writes_whole touchMeta_io_def write_meta_def Let_def)
  have "read_log env (raw @ encoded env ms) = Some (past @ ms)" by (rule read_log_append [OF assms(4) raw(3,2)])
  then have "history env st1 sid = Some (past @ ms)" "history env (NewFileStore (baseDir st) life st1) sid = Some (past @ ms)"
    by (simp_all add: st1(2) history_read jsonlPath_def NewFileStore_def)
  moreover have "parse_meta env (NotJson s) = None" for s by (simp add: parse_meta_def decode_struct_def)
  ultimately show ?thesis by (simp add: st1 GetMeta_def expired_def NewFileStore_def metaPath_def)
qed

theorem torn_metadata_forgets_session_witness:
  "fst (GetMeta torn_env 2 ''a'' (NewFileStore ''/d'' 10 (snd (Append_io torn_env (MetaTorn 3) 1 ''a'' [(''x'', LineWritten)] torn_store)))) = None"
proof -
  have l: "logs_ok torn_store" by (simp add: logs_ok_def terminated_def torn_store_def)
  have h: "history torn_env torn_store ''a'' = Some []"
    by (simp add: history_read torn_store_def read_log_def maxToken_def jsonlPath_def)
  have w: "feWritable torn_env (jsonlPath torn_store ''a'')" "baseDir torn_store = ''/d''" "metas torn_store ''a'' = Some wit_meta"
    by (simp_all add: torn_env_def torn_store_def wit_store_def)
  have s: "list_all (storable torn_env) [''x'']" by (simp add: storable_def torn_env_def maxToken_def newline_def)
  obtain e st1 where a: "Append_io torn_env (MetaTorn 3) 1 ''a'' (map (\<lambda>m. (m, LineWritten)) [''x'']) torn_store = (e, st1)" by fastforce
  from torn_metadata_forgets_session [OF l h w(1) s w(3) a, of 2 10] a w(2) show ?thesis by simp
qed

end
