(* ===== verification/Smtp_Delivery.thy ===== *)
theory Smtp_Delivery
  imports Feedback_Service Go_Channel
begin

text \<open>
  The SMTP mailer at work (\<open>SMTPMailer.Send\<close> in \<open>internal/infrastructure/mail/smtp_mailer.go\<close>): a
  goroutine hands the message to the mail library and posts the outcome to a channel of one slot,
  while the caller waits for the channel, the context or a timer, whichever is ready first. The
  library's delivery may take any time; \<open>snAccepted\<close> says whether it has delivered the message.
\<close>

datatype delivery =
    Delivering
  | Outcome "string option"    \<comment> \<open>\<open>DialAndSend\<close> has returned; the send on the channel is to come\<close>
  | Posted

record smtp_run =
  snNow :: int
  snCancelled :: bool                       \<comment> \<open>the request's own context has ended\<close>
  snDelivery :: delivery
  snChan :: "string option chan"
  snAccepted :: bool
  snResult :: "smtp_error option option"    \<comment> \<open>what \<open>Send\<close> has returned\<close>

text \<open>
  \<open>deadline\<close> is the end of the context \<open>Submit\<close> makes for the call, \<open>timer\<close> the time the mailer's own
  timer fires.
\<close>

definition send_started :: "int \<Rightarrow> smtp_run" where
  "send_started now = \<lparr>snNow = now, snCancelled = False, snDelivery = Delivering, snChan = make_chan 1, snAccepted = False, snResult = None\<rparr>"

definition ctx_done :: "int \<Rightarrow> smtp_run \<Rightarrow> bool" where
  "ctx_done deadline s \<longleftrightarrow> snCancelled s \<or> deadline \<le> snNow s"

inductive smtp_step :: "SMTPMailer \<Rightarrow> int \<Rightarrow> int \<Rightarrow> smtp_run \<Rightarrow> smtp_run \<Rightarrow> bool" for sm deadline timer where
  time: "snNow s \<le> t \<Longrightarrow> smtp_step sm deadline timer s (s\<lparr>snNow := t\<rparr>)"
| cancel: "smtp_step sm deadline timer s (s\<lparr>snCancelled := True\<rparr>)"
| delivered: "snDelivery s = Delivering \<Longrightarrow>
    smtp_step sm deadline timer s (s\<lparr>snDelivery := Outcome None, snAccepted := True\<rparr>)"
| refused: "snDelivery s = Delivering \<Longrightarrow> smtp_step sm deadline timer s (s\<lparr>snDelivery := Outcome (Some e)\<rparr>)"
| post: "snDelivery s = Outcome r \<Longrightarrow> chan_put (snChan s) r = Some ch \<Longrightarrow>
    smtp_step sm deadline timer s (s\<lparr>snDelivery := Posted, snChan := ch\<rparr>)"
| on_ctx: "snResult s = None \<Longrightarrow> ctx_done deadline s \<Longrightarrow>
    smtp_step sm deadline timer s (s\<lparr>snResult := Some (Some SendCancelled)\<rparr>)"
| on_timer: "snResult s = None \<Longrightarrow> timer \<le> snNow s \<Longrightarrow>
    smtp_step sm deadline timer s (s\<lparr>snResult := Some (Some (SendTimeout (sendTimeout (smtpTimeout (smCfg sm)))))\<rparr>)"
| on_result: "snResult s = None \<Longrightarrow> chan_take (snChan s) = Some (r, ch) \<Longrightarrow>
    smtp_step sm deadline timer s (s\<lparr>snResult := Some (map_option DialError r), snChan := ch\<rparr>)"

inductive smtp_reach :: "SMTPMailer \<Rightarrow> int \<Rightarrow> int \<Rightarrow> smtp_run \<Rightarrow> bool" for sm deadline timer where
  start: "smtp_reach sm deadline timer (send_started now)"
| step: "smtp_reach sm deadline timer s \<Longrightarrow> smtp_step sm deadline timer s s' \<Longrightarrow> smtp_reach sm deadline timer s'"

definition smtp_inv :: "SMTPMailer \<Rightarrow> smtp_run \<Rightarrow> bool" where
  "smtp_inv sm s \<longleftrightarrow> \<not> chanClosed (snChan s) \<and> cap (snChan s) = 1
     \<and> (snDelivery s \<noteq> Posted \<longrightarrow> buf (snChan s) = [])
     \<and> (None \<in> set (buf (snChan s)) \<or> snDelivery s = Outcome None \<longrightarrow> snAccepted s)
     \<and> (snResult s = Some None \<longrightarrow> snAccepted s)
     \<and> (\<forall>v. snResult s = Some v \<longrightarrow> (\<exists>ready. \<forall>m. v = snd (SMTP_Send sm ready m)))"

lemma SMTP_Send_outcomes:
  "snd (SMTP_Send sm CtxDone m) = Some SendCancelled"
  "snd (SMTP_Send sm TimerFired m) = Some (SendTimeout (sendTimeout (smtpTimeout (smCfg sm))))"
  "snd (SMTP_Send sm (Delivered r) m) = map_option DialError r"
  by (simp_all add: SMTP_Send_def)

lemma smtp_inv_step:
  assumes "smtp_step sm deadline timer s s'" "smtp_inv sm s"
  shows "smtp_inv sm s'"
  using assms(1)
proof cases
  case (post r ch)
  from post(3) have "buf ch = buf (snChan s) @ [r]" "cap ch = cap (snChan s)" "\<not> chanClosed ch"
    by (auto simp: chan_put_def dest!: chan_send_SentD split: send_result.splits)
  with post assms(2) show ?thesis by (auto simp: smtp_inv_def)
next
  case (on_result r ch)
  from on_result(3) have b: "buf (snChan s) = r # buf ch" "cap ch = cap (snChan s)" "chanClosed ch = chanClosed (snChan s)"
    by (auto simp: chan_take_def dest!: chan_recv_ReceivedD split: recv_result.splits)
  have "\<exists>ready. \<forall>m. map_option DialError r = snd (SMTP_Send sm ready m)" using SMTP_Send_outcomes(3) by metis
  with on_result(1,2) b assms(2) show ?thesis by (auto simp: smtp_inv_def)
next
  case on_ctx
  have "\<exists>ready. \<forall>m. Some SendCancelled = snd (SMTP_Send sm ready m)" using SMTP_Send_outcomes(1) by metis
  with on_ctx assms(2) show ?thesis by (auto simp: smtp_inv_def)
next
  case on_timer
  have "\<exists>ready. \<forall>m. Some (SendTimeout (sendTimeout (smtpTimeout (smCfg sm)))) = snd (SMTP_Send sm ready m)"
    using SMTP_Send_outcomes(2) by metis
  with on_timer assms(2) show ?thesis by (auto simp: smtp_inv_def)
qed (use assms(2) in \<open>auto simp: smtp_inv_def\<close>)

lemma smtp_inv_reach: "smtp_reach sm deadline timer s \<Longrightarrow> smtp_inv sm s"
proof (induction rule: smtp_reach.induct)
  case (step s s')
  then show ?case using smtp_inv_step by blast
qed (simp add: smtp_inv_def send_started_def)

text \<open>The context ends, the call returns, and then the library delivers the message.\<close>

lemma late_delivery: "\<exists>t. smtp_reach sm deadline timer t \<and> snResult t = Some (Some SendCancelled) \<and> snAccepted t"
proof -
  let ?s = "send_started 0"
  let ?c = "?s\<lparr>snCancelled := True\<rparr>"
  let ?r = "?c\<lparr>snResult := Some (Some SendCancelled)\<rparr>"
  let ?d = "?r\<lparr>snDelivery := Outcome None, snAccepted := True\<rparr>"
  have "smtp_step sm deadline timer ?s ?c" by (rule smtp_step.cancel)
  moreover have "smtp_step sm deadline timer ?c ?r" by (rule smtp_step.on_ctx) (simp_all add: send_started_def ctx_done_def)
  moreover have "smtp_step sm deadline timer ?r ?d" by (rule smtp_step.delivered) (simp add: send_started_def)
  ultimately have "smtp_reach sm deadline timer ?d" by (meson smtp_reach.intros)
  then show ?thesis by (intro exI [of _ ?d]) simp
qed

text \<open>
  C34. The mailer's goroutine never blocks on its channel, so it always ends. Once the timer has
  fired the call can return at every moment until it does, and what it returns is what \<open>SMTP_Send\<close>
  gives for one of the three ready cases. No error means that the mail was delivered. An error does
  not mean that it was not: a mail reported as failed can be delivered afterwards.
\<close>

theorem mail_send_outcome:
  assumes "smtp_reach sm deadline timer s"
  shows "(\<forall>r. snDelivery s = Outcome r \<longrightarrow> (\<exists>ch. chan_put (snChan s) r = Some ch))
     \<and> (timer \<le> snNow s \<longrightarrow> snResult s = None \<longrightarrow>
          (\<exists>s'. smtp_step sm deadline timer s s' \<and> snResult s' \<noteq> None)
          \<and> (\<forall>s'. smtp_step sm deadline timer s s' \<longrightarrow> snResult s' \<noteq> None \<or> timer \<le> snNow s'))
     \<and> (\<forall>v. snResult s = Some v \<longrightarrow> (\<exists>ready. \<forall>m. v = snd (SMTP_Send sm ready m)) \<and> (v = None \<longrightarrow> snAccepted s))
     \<and> (\<exists>t. smtp_reach sm deadline timer t \<and> snResult t = Some (Some SendCancelled) \<and> snAccepted t)"
proof (intro conjI allI impI)
  fix r assume "snDelivery s = Outcome r"
  then show "\<exists>ch. chan_put (snChan s) r = Some ch"
    using smtp_inv_reach [OF assms] gochan.put_ok [of "snChan s" r] by (auto simp: smtp_inv_def)
next
  assume "timer \<le> snNow s" "snResult s = None"
  then show "\<exists>s'. smtp_step sm deadline timer s s' \<and> snResult s' \<noteq> None"
    by (intro exI conjI) (erule (1) smtp_step.on_timer [rotated], simp)
  show "snResult s' \<noteq> None \<or> timer \<le> snNow s'" if "smtp_step sm deadline timer s s'" for s'
    using that \<open>timer \<le> snNow s\<close> by cases auto
next
  fix v assume "snResult s = Some v"
  then show "\<exists>ready. \<forall>m. v = snd (SMTP_Send sm ready m)" "v = None \<Longrightarrow> snAccepted s"
    using smtp_inv_reach [OF assms] by (auto simp: smtp_inv_def)
next
  show "\<exists>t. smtp_reach sm deadline timer t \<and> snResult t = Some (Some SendCancelled) \<and> snAccepted t" by (rule late_delivery)
qed

definition wit_mailer :: SMTPMailer where
  "wit_mailer = NewSMTPMailer \<lparr>smtpHost = ''mail'', smtpPort = 465, smtpUsername = ''u'', smtpPassword = ''p'',
     smtpFrom = ''a'', smtpTo = ''b'', smtpTimeout = 0\<rparr>"

theorem mail_send_outcome_witness:
  "\<exists>s. smtp_reach wit_mailer 5 5 s \<and> snDelivery s = Outcome (Some ''refused'') \<and> chan_put (snChan s) (Some ''refused'') \<noteq> None"
proof -
  let ?s = "(send_started 0)\<lparr>snDelivery := Outcome (Some ''refused'')\<rparr>"
  have "smtp_step wit_mailer 5 5 (send_started 0) ?s" by (rule smtp_step.refused) (simp add: send_started_def)
  then have r: "smtp_reach wit_mailer 5 5 ?s" by (meson smtp_reach.intros)
  then show ?thesis using mail_send_outcome [OF r] by (intro exI [of _ ?s]) auto
qed

text \<open>
  A visitor whose submission was answered with 500 may submit it again; both mails can arrive. The
  answer to the first is the one the endpoint gives when the context ends first.
\<close>

lemma failed_submission_delivered:
  assumes "fwMailer w = Some sm" "bind_feedback (fqBody q) = Some req" "fqReady q = CtxDone"
    and "fst (Allow (fwRate w) (fqNow q, fqNow q, fqNow q) (extractIP (fqHeader q) (fqRemoteIP q)) rl)"
    and "Validate \<lparr>fbType = frType req, fbContent = TrimSpace (frContent req), fbContact = TrimSpace (frContact req)\<rparr> = None"
  shows "fst (feedback_endpoint w q (rl, ms)) = HttpResponse 500 (feedback_json False (feedback_text ErrMailSend))
     \<and> (\<exists>t. smtp_reach sm deadline timer t \<and> snResult t = Some (snd (SMTP_Send sm CtxDone m)) \<and> snAccepted t)"
proof
  show "fst (feedback_endpoint w q (rl, ms)) = HttpResponse 500 (feedback_json False (feedback_text ErrMailSend))"
    using assms by (auto simp: feedback_endpoint_def endpoint_with_def HandleFeedback_def Let_def feedbackAdapter_Submit_def
        adapter_Submit_def limiter_at_def Submit_def wired_send_def
        SMTP_Send_def split: prod.splits)
  show "\<exists>t. smtp_reach sm deadline timer t \<and> snResult t = Some (snd (SMTP_Send sm CtxDone m)) \<and> snAccepted t"
    using late_delivery by (simp add: SMTP_Send_outcomes)
qed

end
