(* ===== verification/Docker_Client.thy ===== *)
theory Docker_Client
  imports Docker_Exec Container_Pool App_Config
begin

text \<open>
  The construction of the worker's Docker client (\<open>NewDockerClient\<close> in
  \<open>internal/infrastructure/containerBasic/container.go\<close>): the pool, and for every slot its
  directory and its container. \<open>order\<close> is the order in which the map of sizes is visited.
\<close>

datatype setup_call = Mkdir string | Docker docker_call

record dockerContainerClient =
  dcLanguage :: "string list"
  dcImages :: "string \<Rightarrow> string"
  dcPool :: ContainerPool

definition setup_slot :: "docker \<Rightarrow> string \<Rightarrow> nat \<Rightarrow> setup_call list" where
  \<comment> \<open>a directory that cannot be made is only logged\<close>
  "setup_slot d lang i =
     Mkdir (''/app/tmp/'' @ langHostDir lang @ ''-'' @ Itoa (int i))
     # map Docker (ensureContainerExistsByName d (containerImages lang @ ''-'' @ Itoa (int i)))"

definition setup_language :: "docker \<Rightarrow> (string \<times> int) list \<Rightarrow> string \<Rightarrow> setup_call list" where
  "setup_language d sizes lang =
     concat (map (setup_slot d lang) [0..<nat (case map_of sizes lang of Some n \<Rightarrow> n | None \<Rightarrow> 0)])"

definition NewDockerClient :: "docker \<Rightarrow> string option \<Rightarrow> (string \<times> int) list \<Rightarrow> ContainerPoolConfig
    \<Rightarrow> (dockerContainerClient \<times> setup_call list) option" where
  \<comment> \<open>None: the client cannot be made, a panic\<close>
  "NewDockerClient d clientErr order cfg =
     (if clientErr \<noteq> None then None
      else case newContainerPool order containerImages of
             None \<Rightarrow> None
           | Some pool \<Rightarrow>
               Some (\<lparr>dcLanguage = supportedLanguages, dcImages = containerImages, dcPool = pool\<rparr>,
                     concat (map (setup_language d (ToPoolSizes cfg)) supportedLanguages)))"

definition AcquireSlot :: "dockerContainerClient \<Rightarrow> string \<Rightarrow> bool \<Rightarrow> bool \<Rightarrow> acquire_result \<times> dockerContainerClient" where
  "AcquireSlot c lang dn preferDone =
     (case Acquire (dcPool c) lang dn preferDone of (r, p) \<Rightarrow> (r, c\<lparr>dcPool := p\<rparr>))"

definition ReleaseSlot :: "dockerContainerClient \<Rightarrow> string \<Rightarrow> ContainerSlot \<Rightarrow> bool \<Rightarrow> release_result \<times> dockerContainerClient" where
  "ReleaseSlot c lang slot healthy =
     (case Release (dcPool c) lang slot healthy of (r, p) \<Rightarrow> (r, c\<lparr>dcPool := p\<rparr>))"

lemma sizes_order:
  assumes "mset order = mset (ToPoolSizes cfg)"
  shows "map_of (rev order) lang = map_of (ToPoolSizes cfg) lang"
proof -
  have "distinct (map fst (ToPoolSizes cfg))" unfolding ToPoolSizes_keys by simp
  moreover have "mset (map fst order) = mset (map fst (ToPoolSizes cfg))" using assms by (metis mset_map)
  ultimately have "distinct (map fst (rev order))" by (metis distinct_rev mset_eq_imp_distinct_iff rev_map)
  moreover have "set (rev order) = set (ToPoolSizes cfg)" using assms by (metis mset_eq_setD set_rev)
  ultimately show ?thesis using \<open>distinct (map fst (ToPoolSizes cfg))\<close> by (metis map_of_eqI image_set list.set_map map_of_eq_Some_iff map_of_eq_None_iff not_Some_eq)
qed

lemma sizes_supported: "lang \<in> set supportedLanguages \<longleftrightarrow> map_of (ToPoolSizes cfg) lang \<noteq> None"
proof -
  have "map_of (ToPoolSizes cfg) lang \<noteq> None \<longleftrightarrow> lang \<in> set (map fst (ToPoolSizes cfg))" by (simp add: map_of_eq_None_iff)
  then show ?thesis unfolding ToPoolSizes_keys by (auto simp: supportedLanguages_def)
qed

lemma pool_made:
  assumes "mset order = mset (ToPoolSizes cfg)"
  shows "\<exists>ps. newContainerPool order containerImages = Some \<lparr>pools = ps, closed = False\<rparr>
    \<and> (\<forall>lang. case map_of (ToPoolSizes cfg) lang of None \<Rightarrow> ps lang = None
         | Some n \<Rightarrow> 1 \<le> n \<and> (\<exists>lp. ps lang = Some lp \<and> buf (idle lp) = slots_for containerImages lang n))"
proof -
  have "0 \<le> n" if "(l, n) \<in> set order" for l n
    using ToPoolSizes_positive [of l n cfg] that mset_eq_setD [OF assms] by simp
  then obtain ps where ps: "newPools containerImages order Map.empty = Some ps" using newPools_total by blast
  have "case map_of (ToPoolSizes cfg) lang of None \<Rightarrow> ps lang = None
      | Some n \<Rightarrow> 1 \<le> n \<and> (\<exists>lp. ps lang = Some lp \<and> buf (idle lp) = slots_for containerImages lang n)" for lang
  proof (cases "map_of (ToPoolSizes cfg) lang")
    case None
    then show ?thesis using newPools_SomeD [OF ps, of lang] by (simp add: sizes_order [OF assms])
  next
    case (Some n)
    then have n: "1 \<le> n" by (rule ToPoolSizes_positive [OF map_of_SomeD])
    have "ps lang = newLangPool containerImages lang n"
      using newPools_SomeD [OF ps, of lang] Some by (simp add: sizes_order [OF assms])
    with n Some show ?thesis by (simp add: newLangPool_ok)
  qed
  with ps show ?thesis by (simp add: newContainerPool_def)
qed

lemma setup_slot_included:
  assumes "map_of (ToPoolSizes cfg) lang = Some n" and "i < nat n"
  shows "set (setup_slot d lang i) \<subseteq> set (concat (map (setup_language d (ToPoolSizes cfg)) supportedLanguages))"
proof -
  have "set (setup_slot d lang i) \<subseteq> set (setup_language d (ToPoolSizes cfg) lang)"
    using assms by (auto simp: setup_language_def)
  moreover have "lang \<in> set supportedLanguages" using sizes_supported [of lang cfg] assms(1) by simp
  ultimately show ?thesis by (simp only: set_concat set_map) blast
qed

lemma slot_prepared:
  assumes "map_of (ToPoolSizes cfg) lang = Some n" and "s \<in> set (slots_for containerImages lang n)"
  shows "Mkdir (HostPath s) \<in> set (concat (map (setup_language d (ToPoolSizes cfg)) supportedLanguages))
    \<and> set (map Docker (ensureContainerExistsByName d (slotName s))) \<subseteq> set (concat (map (setup_language d (ToPoolSizes cfg)) supportedLanguages))"
proof -
  from assms(2) obtain i where i: "i < nat n" "s = mkSlot (containerImages lang) (langHostDir lang) i" by (auto simp: slots_for_def)
  have "Mkdir (HostPath s) \<in> set (setup_slot d lang i)"
    "set (map Docker (ensureContainerExistsByName d (slotName s))) \<subseteq> set (setup_slot d lang i)"
    by (auto simp: setup_slot_def i(2) mkSlot_def)
  with setup_slot_included [OF assms(1) i(1), of d] show ?thesis by (blast intro: subset_trans)
qed

text \<open>
  When the client comes up, the pool has every supported language with at least one idle slot,
  and every idle slot has been prepared: its directory was made and its container looked up, and
  started when it was not running.
\<close>

theorem pool_slots_prepared:
  assumes "mset order = mset (ToPoolSizes cfg)"
  shows "\<exists>c calls. NewDockerClient d None order cfg = Some (c, calls)
     \<and> (\<forall>lang. lang \<in> set supportedLanguages \<longleftrightarrow> pools (dcPool c) lang \<noteq> None)
     \<and> (\<forall>lang lp. pools (dcPool c) lang = Some lp \<longrightarrow> buf (idle lp) \<noteq> []
          \<and> (\<forall>s. s \<in> set (buf (idle lp)) \<longrightarrow> Mkdir (HostPath s) \<in> set calls
               \<and> set (map Docker (ensureContainerExistsByName d (slotName s))) \<subseteq> set calls))"
proof -
  obtain ps where ps: "newContainerPool order containerImages = Some \<lparr>pools = ps, closed = False\<rparr>"
      "\<And>lang. case map_of (ToPoolSizes cfg) lang of None \<Rightarrow> ps lang = None
         | Some n \<Rightarrow> 1 \<le> n \<and> (\<exists>lp. ps lang = Some lp \<and> buf (idle lp) = slots_for containerImages lang n)"
    using pool_made [OF assms] by blast
  let ?calls = "concat (map (setup_language d (ToPoolSizes cfg)) supportedLanguages)"
  have "lang \<in> set supportedLanguages \<longleftrightarrow> ps lang \<noteq> None" for lang
    using sizes_supported [of lang cfg] ps(2) [of lang] by (auto split: option.splits)
  moreover have "buf (idle lp) \<noteq> [] \<and> (\<forall>s. s \<in> set (buf (idle lp)) \<longrightarrow> Mkdir (HostPath s) \<in> set ?calls
      \<and> set (map Docker (ensureContainerExistsByName d (slotName s))) \<subseteq> set ?calls)" if lp: "ps lang = Some lp" for lang lp
  proof -
    from ps(2) [of lang] lp obtain n where n: "map_of (ToPoolSizes cfg) lang = Some n" "1 \<le> n" "buf (idle lp) = slots_for containerImages lang n"
      by (auto split: option.splits)
    have "length (buf (idle lp)) = nat n" by (simp only: n(3) length_slots_for)
    then have "buf (idle lp) \<noteq> []" using n(2) by (cases "buf (idle lp)") simp_all
    then show ?thesis using slot_prepared [OF n(1)] n(3) by auto
  qed
  ultimately show ?thesis using ps(1) by (simp add: NewDockerClient_def)
qed

definition two_go_slots :: ContainerPoolConfig where
  "two_go_slots = \<lparr>Golang = 2, Python = 0, JavaScript = 1, Java = 1, C_lang = 1\<rparr>"

theorem pool_slots_prepared_witness:
  "\<forall>d. \<exists>c calls lp. NewDockerClient d None (rev (ToPoolSizes two_go_slots)) two_go_slots = Some (c, calls)
     \<and> pools (dcPool c) ''java'' = Some lp \<and> buf (idle lp) \<noteq> []"
proof
  fix d
  have "''java'' \<in> set supportedLanguages" by (simp add: supportedLanguages_def)
  then show "\<exists>c calls lp. NewDockerClient d None (rev (ToPoolSizes two_go_slots)) two_go_slots = Some (c, calls)
     \<and> pools (dcPool c) ''java'' = Some lp \<and> buf (idle lp) \<noteq> []"
    using pool_slots_prepared [of "rev (ToPoolSizes two_go_slots)" two_go_slots d]
    by (metis mset_rev not_Some_eq)
qed

end
