(* ===== verification/Worker_Start.thy ===== *)
theory Worker_Start
  imports Startup Docker_Client Worker Json_Text
begin

text \<open>
  The worker's start and end (\<open>RunClient\<close> and \<open>clientServiceRegister\<close> in
  \<open>internal/interfaces/adapter/initialize\<close>, \<open>Run\<close> in
  \<open>internal/application/service/client/service.go\<close>), the choice of the mode in
  \<open>cmd/api/main.go\<close>, and the way the worker's weight takes from its configuration to the server's
  handler: the query string of the dialled URL, as \<open>net/url\<close> reads it.
\<close>

subsection \<open>Start\<close>

text \<open>
  What the worker reads from outside: the Docker client, the order a map is visited in, the host's
  name, the dial, and what \<open>Run\<close> reads for each request.
\<close>

record worker_world =
  wwDocker :: docker
  wwDockerErr :: "string option"
  wwOrder :: "(string \<times> int) list"
  wwHostname :: string
  wwDialErr :: "go_error option"
  wwJsonErr :: string
  wwTurns :: "turn_env list"
  wwFrames :: "rd_event list"

definition docker_failed :: string where
  "docker_failed = ''docker'' @ [CHR 0xE5, CHR 0xAE, CHR 0xA2, CHR 0xE6, CHR 0x88, CHR 0xB7, CHR 0xE7, CHR 0xAB, CHR 0xAF,
     CHR 0xE5, CHR 0x88, CHR 0x9B, CHR 0xE5, CHR 0xBB, CHR 0xBA, CHR 0xE5, CHR 0xA4, CHR 0xB1, CHR 0xE8, CHR 0xB4, CHR 0xA5]"

definition clientServiceRegister :: "worker_world \<Rightarrow> ContainerPoolConfig \<Rightarrow> (worker \<times> setup_call list) option" where
  "clientServiceRegister ww poolCfg =
     (case NewDockerClient (wwDocker ww) (wwDockerErr ww) (wwOrder ww) poolCfg of
        None \<Rightarrow> None
      | Some (dockerClient, prepared) \<Rightarrow>
          Some (\<lparr>wkPool = dcPool dockerClient, wkClient = new_wclient, wkPosts = []\<rparr>, prepared))"

definition worker_Run :: "worker_world \<Rightarrow> ClientConfig \<Rightarrow> worker \<Rightarrow> worker_end \<times> worker" where
  \<comment> \<open>\<open>Run\<close>: the dial, then the read loop\<close>
  "worker_Run ww c w =
     (case worker_dail (wtHost (ccServer c)) (wtPort (ccServer c)) (wtPath (ccServer c)) (ccWeight c) (wwDialErr ww) w of
        (Some e, w') \<Rightarrow> (Stopped e, w')
      | (None, w') \<Rightarrow> worker_run (wwJsonErr ww) (wwTurns ww) (wwFrames ww) w')"

record worker_up =
  wuWorker :: worker
  wuSetup :: "setup_call list"
  wuPusher :: "pusher option"
  wuRun :: "worker_end \<times> worker"

definition RunClient :: "server_env \<Rightarrow> worker_world \<Rightarrow> worker_up outcome" where
  "RunClient env ww =
     (case InitConfig (seFile env) (seGetenv env) (seParse env) of
        Inl e \<Rightarrow> Startup.Panicked (config_failed @ e)
      | Inr c \<Rightarrow>
          (case InitLogger (seLog env) (cfLogLevel c) of
             Inl e \<Rightarrow> Startup.Panicked (logger_failed @ e)
           | Inr _ \<Rightarrow>
               (case clientServiceRegister ww (cfPool c) of
                  None \<Rightarrow> Startup.Panicked (docker_failed @ (case wwDockerErr ww of Some e \<Rightarrow> e | None \<Rightarrow> []))
                | Some (srv, prepared) \<Rightarrow>
                    Up \<lparr>wuWorker = srv, wuSetup = prepared,
                        wuPusher = StartPusher (PushgatewayURL (cfMetrics c)) (JobName (cfMetrics c)) (wwHostname ww)
                                     (PushInterval (cfMetrics c)),
                        wuRun = worker_Run ww (cfClient c) srv\<rparr>)))"

definition main_mode :: "server_env \<Rightarrow> worker_world \<Rightarrow> (server_up outcome, worker_up outcome) result" where
  "main_mode env ww = (if seGetenv env ''APP_MODE'' = ''server'' then Inl (RunServer env) else Inr (RunClient env ww))"

text \<open>
  The logger's message for a log file it cannot open says that the console alone is used; but the
  server, and the worker, then end in a panic.
\<close>

lemma log_file_failure_panics:
  assumes "InitConfig (seFile env) (seGetenv env) (seParse env) = Inr c" "leMkdir (seLog env) ''logs'' \<noteq> None"
  shows "RunServer env = Startup.Panicked (logger_failed @ log_file_failed)
     \<and> RunClient env ww = Startup.Panicked (logger_failed @ log_file_failed)"
  using assms by (simp add: RunServer_def RunClient_def InitLogger_def getLogWriter_def)

subsection \<open>The weight on its way to the server\<close>

text \<open>\<open>url.QueryUnescape\<close> and the first value of a key in \<open>url.ParseQuery\<close>; a pair that does not parse is left out.\<close>

fun QueryUnescape :: "string \<Rightarrow> string option" where
  "QueryUnescape [] = Some []"
| "QueryUnescape (c # cs) =
     (if c = CHR ''%'' then
        (case cs of
           a # b # r \<Rightarrow> if is_hex a \<and> is_hex b then map_option (\<lambda>t. char_of (hex_number [a, b]) # t) (QueryUnescape r) else None
         | _ \<Rightarrow> None)
      else map_option (\<lambda>t. (if c = CHR ''+'' then CHR '' '' else c) # t) (QueryUnescape cs))"

definition query_pair :: "string \<Rightarrow> (string \<times> string) option" where
  "query_pair piece =
     (if CHR 0x3B \<in> set piece \<or> piece = [] then None
      else case (QueryUnescape (before_char (CHR ''='') piece), QueryUnescape (after_char (CHR ''='') piece)) of
             (Some k, Some v) \<Rightarrow> Some (k, v)
           | _ \<Rightarrow> None)"

definition Query :: "string \<Rightarrow> string \<Rightarrow> string" where
  \<comment> \<open>gin's \<open>c.Query(key)\<close> of the raw query\<close>
  "Query key rawQuery =
     (case map_of (List.map_filter query_pair (Split (CHR ''&'') rawQuery)) key of Some v \<Rightarrow> v | None \<Rightarrow> [])"

definition raw_query :: "string \<Rightarrow> string" where
  \<comment> \<open>of a URL, the part between the question mark and the fragment\<close>
  "raw_query u = after_char (CHR ''?'') (before_char (CHR 0x23) u)"

lemma QueryUnescape_plain: "CHR ''%'' \<notin> set s \<Longrightarrow> CHR ''+'' \<notin> set s \<Longrightarrow> QueryUnescape s = Some s"
  by (induction s) auto

lemma before_after_char:
  "c \<notin> set a \<Longrightarrow> before_char c (a @ c # b) = a" "c \<notin> set a \<Longrightarrow> before_char c a = a" "c \<notin> set a \<Longrightarrow> after_char c (a @ c # b) = b"
  unfolding before_char_def after_char_def by (induction a) auto

lemma Itoa_chars: "c \<in> set (Itoa n) \<Longrightarrow> c = CHR ''-'' \<or> 48 \<le> byte c \<and> byte c \<le> 57"
  using nat_str_digits by (auto simp: Itoa_def split: if_splits)

lemma Itoa_plain: "c \<in> {CHR ''%'', CHR ''+'', CHR ''&'', CHR ''='', CHR 0x3B, CHR 0x23} \<Longrightarrow> c \<notin> set (Itoa n)"
  by (auto dest: Itoa_chars)

lemma Split_none: "c \<notin> set s \<Longrightarrow> Split c s = [s]"
  by (induction s) auto

lemma Query_weight: "Query ''weight'' (''weight='' @ Itoa n) = Itoa n"
proof -
  have "Split (CHR ''&'') (''weight='' @ Itoa n) = [''weight='' @ Itoa n]"
    by (rule Split_none) (simp add: Itoa_plain)
  moreover have "before_char (CHR ''='') (''weight='' @ Itoa n) = ''weight''" "after_char (CHR ''='') (''weight='' @ Itoa n) = Itoa n"
    using before_after_char(1,3) [of "CHR ''=''" "''weight''" "Itoa n"] by simp_all
  moreover have "QueryUnescape (Itoa n) = Some (Itoa n)" "QueryUnescape ''weight'' = Some ''weight''"
    by (rule QueryUnescape_plain; simp add: Itoa_plain)+
  ultimately have "List.map_filter query_pair (Split (CHR ''&'') (''weight='' @ Itoa n)) = [(''weight'', Itoa n)]"
    by (simp add: List.map_filter_def query_pair_def Itoa_plain)
  then show ?thesis by (simp add: Query_def)
qed

text \<open>Nothing the worker does later changes the server it dials.\<close>

named_theorems target_kept

lemma close_stop_target [target_kept]: "target (close_stop c) = target c"
  by (simp add: close_stop_def split: option.splits)

lemma wc_Close_target [target_kept]: "target (snd (wc_Close e c)) = target c"
  by (auto simp: wc_Close_def hang_up_def Let_def target_kept split: option.splits prod.splits)

lemma connect_target [target_kept]: "connect e closes c = (r, c') \<Longrightarrow> target c' = target c"
  by (auto simp: connect_def Let_def hang_up_def target_kept split: option.splits if_splits)

lemma reconnect_loop_target: "reconnect_loop as b c = (r, sl, c') \<Longrightarrow> target c' = target c"
proof (induction as arbitrary: b c r sl c')
  case (Cons a as)
  let ?c = "if closeBefore a then snd (wc_Close None c) else c"
  have t: "target ?c = target c" by (simp add: target_kept)
  show ?case
  proof (cases "wcClosed ?c")
    case True
    with Cons.prems t show ?thesis by (auto simp: Let_def split: if_splits)
  next
    case False
    obtain e c2 where c2: "connect (dialErr a) (closeDuring a) ?c = (e, c2)" by fastforce
    obtain r3 sl3 c3 where c3: "reconnect_loop as (next_backoff b) c2 = (r3, sl3, c3)" using prod_cases3 by blast
    from Cons.IH [OF c3] connect_target [OF c2] t Cons.prems False c2 c3 show ?thesis
      by (auto simp: Let_def split: option.splits)
  qed
qed simp

lemma reconnect_target [target_kept]: "reconnect as c = (r, sl, c') \<Longrightarrow> target c' = target c"
  by (auto simp: reconnect_def Let_def hang_up_def target_kept dest!: reconnect_loop_target split: if_splits option.splits)

lemma wc_Read_target: "wc_Read jerr evs c = (r, rest, c') \<Longrightarrow> target c' = target c"
proof (induction jerr evs c arbitrary: r rest c' rule: wc_Read.induct)
  case (1 jerr evs c)
  show ?case
  proof (cases "wcClosed c \<or> wcConn c = None \<or> evs = []")
    case True
    with "1.prems" show ?thesis by (subst (asm) wc_Read.simps) (auto split: option.splits if_splits)
  next
    case False
    then obtain n ev es where ev: "\<not> wcClosed c" "wcConn c = Some n" "evs = ev # es" by (cases evs) auto
    show ?thesis
    proof (cases ev)
      case (RdFrame f werr)
      with ev "1.prems" show ?thesis
        by (subst (asm) wc_Read.simps) (auto simp: Let_def split: frame.splits option.splits if_splits)
    next
      case (RdFail as)
      obtain a sl d where d: "reconnect as c = (a, sl, d)" using prod_cases3 by blast
      have "target d = target c" by (rule reconnect_target [OF d])
      moreover have "c' = d \<or> a = Some None \<and> wc_Read jerr es d = (r, rest, c')"
        using "1.prems" ev RdFail d by (subst (asm) wc_Read.simps) (auto split: option.splits)
      moreover have "a = Some None \<Longrightarrow> wc_Read jerr es d = (r, rest, c') \<Longrightarrow> target c' = target d"
        using "1.IH" [OF ev(1,2,3) RdFail] ev RdFail d by (auto simp del: wc_Read.simps)
      ultimately show ?thesis by auto
    qed
  qed
qed

lemma WebsocketSend_target [target_kept]: "WebsocketSend werr f c = (e, c') \<Longrightarrow> target c' = target c"
  by (auto simp: WebsocketSend_def split: option.splits)

lemma worker_turn_target: "worker_turn e q t w = WorkerNext w' \<Longrightarrow> target (wkClient w') = target (wkClient w)"
proof -
  assume *: "worker_turn e q t w = WorkerNext w'"
  have run: "inner_RunCode e q w = Some (r, err, w1) \<Longrightarrow> target (wkClient w1) = target (wkClient w)" for r err w1
    by (auto simp: inner_RunCode_def Let_def sendResponseDuration_def dest!: WebsocketSend_target split: option.splits if_splits prod.splits)
  have "target (snd (SendResult x r err c)) = target c" for x r err c
    by (metis SendResult_def WebsocketSend_target prod.collapse)
  with * run show ?thesis by (auto simp: worker_turn_def split: option.splits if_splits prod.splits)
qed

lemma worker_run_target: "target (wkClient (snd (worker_run jerr es evs w))) = target (wkClient w)"
proof (induction jerr es evs w rule: worker_run.induct)
  case (2 jerr e es evs w)
  obtain r rest c where c: "wc_Read jerr evs (wkClient w) = (r, rest, c)" using prod_cases3 by blast
  show ?case
  proof (cases r)
    case (RdRequest q t)
    with c 2 wc_Read_target [OF c] show ?thesis
      by (auto dest!: worker_turn_target split: turn.splits)
  qed (use c wc_Read_target [OF c] in simp_all)
qed simp

text \<open>
  C31. The weight in the worker's configuration arrives: whatever the worker has done meanwhile,
  reconnections included, the query of the URL it dials makes the server's handler run the
  connection with exactly that weight.
\<close>

theorem worker_weight_arrives:
  assumes "InitConfig (seFile env) (seGetenv env) (seParse env) = Inr c" and "RunClient env ww = Up u"
    and "in_i64 (ccWeight (cfClient c))"
    and "\<forall>ch \<in> {CHR ''?'', CHR 0x23}. ch \<notin> set (wtHost (ccServer (cfClient c)))
           \<and> ch \<notin> set (wtPort (ccServer (cfClient c))) \<and> ch \<notin> set (wtPath (ccServer (cfClient c)))"
  shows "HandleServer run (Query ''weight'' (raw_query (dial_url (target (wkClient (snd (wuRun u))))))) True s
    = (case run (ccWeight (cfClient c)) (fst s + 1, snd s) of (_, (g, s')) \<Rightarrow> (Some (ccWeight (cfClient c)), (g - 1, s')))"
proof -
  let ?srv = "ccServer (cfClient c)" and ?q = "''weight='' @ Itoa (ccWeight (cfClient c))"
  let ?t = "NewTargetServer (wtHost ?srv) (wtPort ?srv) (wtPath ?srv) ?q"
  have "wuRun u = worker_Run ww (cfClient c) (wuWorker u)"
    using assms(1,2) by (auto simp: RunClient_def split: sum.splits option.splits)
  then have t: "target (wkClient (snd (wuRun u))) = ?t"
    by (auto simp: worker_Run_def worker_dail_def Dail_def worker_run_target split: prod.splits option.splits dest!: connect_target)
  let ?a = "''ws://'' @ wtHost ?srv @ '':'' @ wtPort ?srv @ ''/'' @ wtPath ?srv"
  have u: "dial_url ?t = ?a @ CHR ''?'' # ?q" by (simp add: dial_url_def NewTargetServer_def)
  have "CHR 0x23 \<notin> set (?a @ CHR ''?'' # ?q)" "CHR ''?'' \<notin> set ?a" using assms(4) by (simp_all add: Itoa_plain)
  then have "raw_query (dial_url ?t) = ?q" unfolding u raw_query_def by (simp only: before_after_char not_False_eq_True)
  then have "Query ''weight'' (raw_query (dial_url ?t)) = Itoa (ccWeight (cfClient c))" by (simp only: Query_weight)
  then show ?thesis unfolding t using parse_weight_roundtrip assms(3) by (simp add: HandleServer_def)
qed

definition wit_world :: "docker \<Rightarrow> worker_world" where
  "wit_world d = \<lparr>wwDocker = d, wwDockerErr = None, wwOrder = ToPoolSizes (cfPool wit_app_cfg), wwHostname = ''w1'',
     wwDialErr = None, wwJsonErr = ''j'', wwTurns = [], wwFrames = []\<rparr>"

lemma wit_worker_up: "\<exists>u. RunClient wit_server_env (wit_world d) = Up u"
proof -
  obtain p where "newContainerPool (ToPoolSizes (cfPool wit_app_cfg)) containerImages = Some p"
    using pool_made [OF refl, of "cfPool wit_app_cfg"] by blast
  then show ?thesis
    unfolding RunClient_def wit_config
    by (simp add: InitLogger_def getLogWriter_def Let_def clientServiceRegister_def NewDockerClient_def wit_world_def)
      (simp add: wit_server_env_def)
qed

theorem worker_weight_arrives_witness:
  "\<forall>d. \<exists>u. RunClient wit_server_env (wit_world d) = Up u
     \<and> fst (HandleServer (\<lambda>w s. (None, s)) (Query ''weight'' (raw_query (dial_url (target (wkClient (snd (wuRun u))))))) True
            (0, True)) = Some 3"
proof
  fix d
  obtain u where u: "RunClient wit_server_env (wit_world d) = Up u" using wit_worker_up by blast
  have "ccWeight (cfClient (wit_app_cfg\<lparr>cfAuth := WithDefaults wit_auth_cfg\<rparr>)) = 3"
    "ccServer (cfClient (wit_app_cfg\<lparr>cfAuth := WithDefaults wit_auth_cfg\<rparr>)) = \<lparr>wtHost = ''h'', wtPort = ''80'', wtPath = ''ws''\<rparr>"
    by (simp_all add: wit_app_cfg_def)
  with worker_weight_arrives [OF wit_config u, of "\<lambda>w s. (None, s)" "(0, True)"] u
  show "\<exists>u. RunClient wit_server_env (wit_world d) = Up u
     \<and> fst (HandleServer (\<lambda>w s. (None, s)) (Query ''weight'' (raw_query (dial_url (target (wkClient (snd (wuRun u))))))) True
            (0, True)) = Some 3"
    by (simp add: in_i64_def)
qed

subsection \<open>The end\<close>

text \<open>
  On SIGINT or SIGTERM a goroutine stops the pusher, closes the pool and exits the process. The
  pusher is a goroutine of its own: it pushes on its ticks, and once more when it sees the stop
  channel closed. The steps interleave until the process has exited.
\<close>

datatype shutdown_phase = Running | StopPushed | PoolClosed | Exited

record worker_process =
  wpPhase :: shutdown_phase
  wpPusher :: bool           \<comment> \<open>the pusher's goroutine runs\<close>
  wpPushes :: nat
  wpFinal :: nat             \<comment> \<open>those made after the stop\<close>
  wpPool :: "ContainerPool option"   \<comment> \<open>None: closing a channel twice, a panic\<close>

inductive shutdown_step :: "string list \<Rightarrow> worker_process \<Rightarrow> worker_process \<Rightarrow> bool" for order where
  sd_stop: "wpPhase p = Running \<Longrightarrow> shutdown_step order p (p\<lparr>wpPhase := StopPushed\<rparr>)"
| sd_close: "wpPhase p = StopPushed \<Longrightarrow> wpPool p = Some cp
    \<Longrightarrow> shutdown_step order p (p\<lparr>wpPhase := PoolClosed, wpPool := Close_pool order cp\<rparr>)"
| sd_exit: "wpPhase p = PoolClosed \<Longrightarrow> wpPool p = Some cp \<Longrightarrow> shutdown_step order p (p\<lparr>wpPhase := Exited\<rparr>)"
| sd_tick: "wpPhase p \<noteq> Exited \<Longrightarrow> wpPusher p \<Longrightarrow> shutdown_step order p (p\<lparr>wpPushes := wpPushes p + 1\<rparr>)"
| sd_final: "wpPhase p \<in> {StopPushed, PoolClosed} \<Longrightarrow> wpPusher p
    \<Longrightarrow> shutdown_step order p (p\<lparr>wpPusher := False, wpPushes := wpPushes p + 1, wpFinal := wpFinal p + 1\<rparr>)"

abbreviation shutdown_steps :: "string list \<Rightarrow> worker_process \<Rightarrow> worker_process \<Rightarrow> bool" where
  "shutdown_steps order \<equiv> (shutdown_step order)\<^sup>*\<^sup>*"

definition signalled :: "worker_up \<Rightarrow> ContainerPool \<Rightarrow> worker_process" where
  \<comment> \<open>when the signal arrives; the second argument is the pool at that time\<close>
  "signalled u cp = \<lparr>wpPhase = Running, wpPusher = (wuPusher u \<noteq> None), wpPushes = 0, wpFinal = 0, wpPool = Some cp\<rparr>"

definition shutdown_inv :: "ContainerPool \<Rightarrow> ContainerPool \<Rightarrow> worker_process \<Rightarrow> bool" where
  "shutdown_inv cp cp' p \<longleftrightarrow>
     wpPool p = Some (if wpPhase p \<in> {Running, StopPushed} then cp else cp') \<and> wpFinal p \<le> (if wpPusher p then 0 else 1)"

lemma shutdown_inv_step:
  "shutdown_step order p q \<Longrightarrow> Close_pool order cp = Some cp' \<Longrightarrow> shutdown_inv cp cp' p \<Longrightarrow> shutdown_inv cp cp' q"
  by (induction rule: shutdown_step.induct) (auto simp: shutdown_inv_def split: if_splits)

lemma shutdown_inv_steps:
  assumes "shutdown_steps order p q" "Close_pool order cp = Some cp'" "shutdown_inv cp cp' p"
  shows "shutdown_inv cp cp' q"
  using assms(1,3) by (induction rule: rtranclp_induct) (auto intro: shutdown_inv_step [OF _ assms(2)])

lemma three_steps: "r a b \<Longrightarrow> r b c \<Longrightarrow> r c d \<Longrightarrow> r\<^sup>*\<^sup>* a d"
  by (simp add: converse_rtranclp_into_rtranclp r_into_rtranclp)

text \<open>
  When the process exits after a signal, its pool is closed and the pusher has pushed after the stop
  at most once; but nobody waits for that push, so the process can exit without it.
\<close>

theorem last_push_not_awaited:
  assumes "Close_pool order cp = Some cp'"
  shows "(\<forall>q. shutdown_steps order (signalled u cp) q \<and> wpPhase q = Exited \<longrightarrow> wpPool q = Some cp' \<and> closed cp' \<and> wpFinal q \<le> 1)
     \<and> (\<exists>q. shutdown_steps order (signalled u cp) q \<and> wpPhase q = Exited \<and> wpPushes q = 0)
     \<and> (wuPusher u \<noteq> None \<longrightarrow> (\<exists>q. shutdown_steps order (signalled u cp) q \<and> wpPhase q = Exited \<and> wpFinal q = 1))"
proof (intro conjI allI impI)
  have init: "shutdown_inv cp cp' (signalled u cp)" by (simp add: shutdown_inv_def signalled_def)
  fix q assume q: "shutdown_steps order (signalled u cp) q \<and> wpPhase q = Exited"
  then have "shutdown_inv cp cp' q" using shutdown_inv_steps [OF _ assms init] by blast
  with q show "wpPool q = Some cp'" "wpFinal q \<le> 1" by (auto simp: shutdown_inv_def split: if_splits)
  show "closed cp'" using assms by (auto simp: Close_pool_def)
next
  let ?p0 = "signalled u cp"
  let ?p1 = "?p0\<lparr>wpPhase := StopPushed\<rparr>"
  let ?p2 = "?p1\<lparr>wpPhase := PoolClosed, wpPool := Close_pool order cp\<rparr>"
  let ?p3 = "?p1\<lparr>wpPusher := False, wpPushes := wpPushes ?p1 + 1, wpFinal := wpFinal ?p1 + 1\<rparr>"
  let ?p4 = "?p3\<lparr>wpPhase := PoolClosed, wpPool := Close_pool order cp\<rparr>"
  have 1: "shutdown_step order ?p0 ?p1" by (rule sd_stop) (simp add: signalled_def)
  have 2: "shutdown_step order ?p1 ?p2" by (rule sd_close) (simp_all add: signalled_def)
  have 3: "shutdown_step order ?p2 (?p2\<lparr>wpPhase := Exited\<rparr>)" by (rule sd_exit [where cp = cp']) (simp_all add: assms)
  have "shutdown_steps order ?p0 (?p2\<lparr>wpPhase := Exited\<rparr>)"
    by (rule three_steps) (rule 1, rule 2, rule 3)
  then show "\<exists>q. shutdown_steps order ?p0 q \<and> wpPhase q = Exited \<and> wpPushes q = 0"
    by - (rule exI, intro conjI, assumption, simp_all add: signalled_def)
  assume "wuPusher u \<noteq> None"
  then have 4: "shutdown_step order ?p1 ?p3" by (intro sd_final) (simp_all add: signalled_def)
  have 5: "shutdown_step order ?p3 ?p4" by (rule sd_close) (simp_all add: signalled_def)
  have 6: "shutdown_step order ?p4 (?p4\<lparr>wpPhase := Exited\<rparr>)" by (rule sd_exit [where cp = cp']) (simp_all add: assms)
  have "shutdown_steps order ?p0 (?p4\<lparr>wpPhase := Exited\<rparr>)"
    by (rule converse_rtranclp_into_rtranclp, rule 1, rule three_steps) (rule 4, rule 5, rule 6)
  then show "\<exists>q. shutdown_steps order ?p0 q \<and> wpPhase q = Exited \<and> wpFinal q = 1"
    by - (rule exI, intro conjI, assumption, simp_all add: signalled_def)
qed

definition wit_up :: worker_up where
  "wit_up = (let w = \<lparr>wkPool = \<lparr>pools = Map.empty, closed = False\<rparr>, wkClient = new_wclient, wkPosts = []\<rparr>
     in \<lparr>wuWorker = w, wuSetup = [], wuPusher = StartPusher ''p'' [] [] 0, wuRun = (Waiting, w)\<rparr>)"

theorem last_push_not_awaited_witness:
  "\<exists>q. wuPusher wit_up \<noteq> None \<and> shutdown_steps [''c''] (signalled wit_up \<lparr>pools = Map.empty, closed = False\<rparr>) q
     \<and> wpPhase q = Exited \<and> wpPushes q = 0"
proof -
  have "Close_pool [''c''] \<lparr>pools = Map.empty, closed = False\<rparr> = Some \<lparr>pools = Map.empty, closed = True\<rparr>"
    by (simp add: Close_pool_def)
  from last_push_not_awaited [OF this, of wit_up] show ?thesis by (auto simp: wit_up_def StartPusher_def Let_def)
qed

end
