(* ===== verification/Spec2Isabelle.thy ===== *)
theory Spec2Isabelle
  imports Pool_Concurrency Weighted_RR Server_Start Locked_Files Meta_Races Ws_Heartbeat Metrics
    Async_Delivery Keep_Alive Run_Cancels Torn_Writes Smtp_Delivery Worker_Start
begin

text \<open>
  A verification development for codeRunner, a service that runs programs for others. A server
  (\<open>APP_MODE=server\<close>) takes programs over gRPC and HTTP, picks one of the workers connected to it
  over websockets, and sends them there; a worker runs them in a pool of Docker containers and
  answers. Around this core: an agent that talks to a visitor about an article and proposes programs
  to run, a browser login with GitHub, feedback by mail.

  How to read it. A Go struct is a record, an enumeration a datatype, an error a constructor of
  \<open>go_error\<close> (or of a component's own error type) in the left of \<open>result\<close>; a panic is \<open>None\<close> or a
  constructor of its own. Operations take the state and return it; code that runs in several
  goroutines is an inductive step relation over the state the goroutines share. Strings are lists
  of bytes. Integers are \<open>int\<close> with the wrap-around of 64 bits written out (\<open>i64\<close>) where the code
  computes with them. What is not in the repository (the Docker daemon, sockets, the clock, random
  sources, floating-point rounding, the JWT, YAML, agent and mail libraries, GitHub, etcd) is an
  argument of the definitions that use it; the laws assumed of it are hypotheses of the theorems.

  Theories and the code they model.

  \<^item> \<open>Prelude\<close>, \<open>Go_Channel\<close>, \<open>Go_Strings\<close>, \<open>Go_Path\<close>, \<open>Go_Json\<close>, \<open>Go_Encoding\<close>, \<open>Go_Errors\<close>: what the
    code uses of the language and its standard library: wrapping arithmetic, buffered channels
    (as a locale with its first-in-first-out laws), trimming, UTF-8, escaping, paths, JSON values,
    base64, the error values and texts of \<open>internal/infrastructure/common/errors\<close>.
  \<^item> \<open>Container_Pool\<close>, \<open>Pool_Concurrency\<close> (\<open>containerBasic/pool.go\<close>): the pool of containers per
    language and the interleavings of goroutines that take, return and replace them. No container is
    carried twice, and a return never blocks.
  \<^item> \<open>Docker_Exec\<close>, \<open>Docker_Client\<close> (\<open>containerBasic/container.go\<close>), \<open>Run_Code\<close> (\<open>runCode.go\<close>): the
    client's start, and one run of a program, from its language to its result; the slot is released
    exactly once on every path.
  \<^item> \<open>P2C_Balance\<close>, \<open>Weighted_RR\<close> (\<open>balanceStrategy\<close>): the two load balancers, behind one locale;
    the weighted one is fair over a round.
  \<^item> \<open>Client_Manager\<close> (\<open>internal/domain/server\<close>): the registry of workers, picks with retries, and
    the requests sent and not acknowledged.
  \<^item> \<open>Proto_Types\<close>, \<open>Ws_Server\<close>, \<open>Sync_Calls\<close> (\<open>websocket/protocol\<close>, \<open>websocket/server\<close>): the messages,
    the server's end of a connection, and synchronous calls that wait on it at the same time.
  \<^item> \<open>Server_Service\<close>, \<open>Server_Steps\<close>, \<open>Redispatch\<close>, \<open>Server_Controllers\<close> (\<open>application/service/server\<close>,
    \<open>interfaces/controller/server\<close>): executing, registering and losing workers; the interleavings
    of requests, which the operations are made of; where a lost worker's requests go; the gRPC and
    HTTP entry points.
  \<^item> \<open>Proto_Descriptors\<close>, \<open>Grpc_Stubs\<close> (\<open>api/proto\<close>, \<open>grpcRegistry.go\<close>): the generated code: descriptors,
    tags and getters, client stubs, method handlers, and the server that puts both services behind
    the interceptor.
  \<^item> \<open>Ws_Client\<close>, \<open>Ws_Heartbeat\<close>, \<open>Worker\<close> (\<open>websocket/client\<close>, \<open>application/service/client\<close>, \<open>domain/client\<close>): the
    worker's end of the connection with its reconnection, its read deadline and the load under which it
    keeps the connection, and one turn of its loop.
  \<^item> \<open>Async_Delivery\<close>: server and worker together for a request nobody waits for, from its dispatch
    to the posted response, with the acknowledgement in between.
  \<^item> \<open>Grpc_Auth\<close>, \<open>Browser_Auth\<close> (\<open>common/token\<close>, \<open>adapter/middleware\<close>, \<open>internal/auth\<close>): tokens of
    gRPC callers and of browsers; at the end of the latter, the interleavings of two token checks.
  \<^item> \<open>Rate_Limit\<close>, \<open>Limiter_Janitor\<close>, \<open>Feedback\<close>, \<open>Smtp_Delivery\<close>, \<open>Feedback_Service\<close> (\<open>ratelimit\<close>,
    \<open>feedback\<close>, \<open>mail\<close>): who may send a mail, the goroutine that drops idle buckets, what is in a mail,
    its delivery in a goroutine, and the endpoint with all of it wired together.
  \<^item> \<open>Prompt\<close>, \<open>Agent_Tools\<close>, \<open>Session_Store\<close>, \<open>Session_Locks\<close>, \<open>Locked_Appends\<close>, \<open>Locked_Files\<close>,
    \<open>Meta_Races\<close>, \<open>Checkpoint_Store\<close>, \<open>Cleanup\<close>, \<open>Torn_Writes\<close>, \<open>Agent_Config\<close>, \<open>Agent_Handlers\<close>
    (\<open>internal/agent\<close>): the system prompt and its neutralised tags, the tool that proposes a program,
    the files of a session (a locale of message logs and its refinement), its locks, appends that run
    at the same time and the bytes a reader finds among them, lookups without a lock, writes that fail
    half way, interrupted runs, the goroutines that clean both
    up (a locale of swept tables), the configuration, and the HTTP handlers.
  \<^item> \<open>Json_Text\<close>, \<open>Sse_Stream\<close>, \<open>Keep_Alive\<close> (\<open>handler/chat.go\<close>): the bytes of the event stream, with
    \<open>encoding/json\<close>'s text and what a browser reads of it, and the keep-alive goroutine beside the
    handler. \<open>Run_Cancels\<close>: runs and cancel requests of a session at the same time.
  \<^item> \<open>Observability\<close>, \<open>Metrics\<close>, \<open>App_Config\<close>, \<open>Startup\<close>, \<open>Server_Start\<close>, \<open>Worker_Start\<close>: logging, metrics and
    their pushing, registration with etcd, configuration, routes, wiring and the start of both
    processes; what holds of a started server from then on; the worker's weight on its way to the server, and its end on a signal.
  \<^item> this theory: a confirmed proposal from the visitor's click, through the server's synchronous
    execution, to the session's transcript.

  Groups of lemmas. Each component has its state invariant (\<open>registry_ok\<close>, \<open>logs_ok\<close>, the pool's and
  the servers' reachable-state invariants), a lemma per operation that it is kept, the operation's
  outcome on every branch, and where there is a contract a refinement: draining against a history
  of requests, the session files against a map of message lists, the checkpoint store against a map
  with times. Contracts are locales (\<open>fifo_channel\<close>, \<open>load_balancer\<close> and its extensions, \<open>session_log\<close>,
  \<open>tag_matcher\<close> and \<open>tag_rewriting\<close>, \<open>swept_table\<close>, \<open>rate_limiter\<close>), each interpreted on the model's own definitions.

  Bounds and fuel. \<open>pick_loop\<close> has the code's three attempts as its fuel, \<open>restartLoop\<close> and
  \<open>callback_loop\<close> their retry limits. Reconnection may dial for ever: its theorem gives the dials
  and pauses up to the first dial that succeeds. The other recursions are structural or have a
  measure.

  Not modelled. The protobuf runtime's reflection and message-state bookkeeping, and its marshalling,
  which is a parameter; the bodies of the other third-party libraries: what \<open>cors\<close> makes of its
  settings, the routing of gRPC, the rendering of metrics and of log lines, the chat models. The JSON
  of a streamed tool call is a parameter of the event stream (\<open>tcj\<close>), as it is the agent library's
  type.

  What the code does otherwise than it seems to mean is stated where it is proved: a session locked
  by one long message (\<open>Session_Store\<close>), a program executed twice by two confirmations
  (\<open>Agent_Handlers\<close>), requests lost when a worker's connection ends (\<open>Server_Service\<close>), a deleted
  session that a lookup brings back (\<open>Meta_Races\<close>), a mail reported as failed and delivered
  (\<open>Smtp_Delivery\<close>), a request the rate limiter forgets (\<open>Limiter_Janitor\<close>), a server that has
  stopped and is still listed (\<open>Server_Start\<close>), a
  healthy connection a busy worker loses (\<open>Ws_Heartbeat\<close>), a clock that
  two token checks stop (\<open>Browser_Auth\<close>), a comment written after its stream has ended
  (\<open>Keep_Alive\<close>), a run nothing can cancel (\<open>Run_Cancels\<close>), a last push of metrics nobody waits for
  (\<open>Worker_Start\<close>), and others.
\<close>

section \<open>A confirmed proposal, from the visitor's click to the transcript\<close>

text \<open>
  The agent's executor over the server's synchronous execution (\<open>NewCodeExecutor\<close>): errors become
  their texts, the clock readings, the connection's frames and the unmarshaller's error are those of
  the call.
\<close>

definition server_exec :: "float64_ops \<Rightarrow> get_in exec_env \<Rightarrow> frame list \<Rightarrow> string \<Rightarrow> agentExecuteRequest
    \<Rightarrow> P2CBalancer ClientManager \<Rightarrow> (string, ExecResult) result \<times> P2CBalancer ClientManager" where
  "server_exec F e arriving jerr =
     executor_Execute (\<lambda>req s. case ExecuteSync (p2c_lb F) e arriving jerr req s of
       (Inl err, s') \<Rightarrow> (Inl (err_text err), s') | (Inr resp, s') \<Rightarrow> (Inr resp, s'))"

lemma agent_loop_messages: "fst (snd (agent_loop typed cm sid evs ag)) = fst (snd (agent_loop typed cm sid evs ag'))"
proof (induction evs arbitrary: ag ag')
  case (Cons ev evs)
  show ?case
  proof (cases "evErr ev")
    case None
    with Cons.IH [of "snd (capture_interrupt typed sid (evInterrupted ev) ag)" "snd (capture_interrupt typed sid (evInterrupted ev) ag')"]
    show ?thesis by (simp add: split_beta)
  qed simp
qed simp

text \<open>The two messages a confirmed execution leaves in the transcript.\<close>

definition tool_exchange :: "(nat \<Rightarrow> bool) \<Rightarrow> ProposalInfo \<Rightarrow> string \<Rightarrow> message list" where
  "tool_exchange is_print p result =
     [\<lparr>msgRole = ''assistant'', msgContent = [],
       msgToolCalls = [\<lparr>tcID = prID p, tcType = ''function'', tcName = ''propose_execution'', tcArguments = proposal_arguments is_print p\<rparr>],
       msgToolCallID = [], msgToolName = []\<rparr>,
      ToolMessage result (prID p) ''propose_execution'']"

lemma append_remembered:
  assumes "logs_ok st" "list_all (storable env) ms" "feWritable env (jsonlPath st sid)" "history env st sid = Some past"
  shows "history env (snd (Append env t sid ms st)) sid = Some (past @ ms) \<and> logs_ok (snd (Append env t sid ms st))
    \<and> jsonlPath (snd (Append env t sid ms st)) sid = jsonlPath st sid"
proof -
  have "fst (Append env t sid ms st) = None" using assms(3) append_lines_storable [OF assms(2)] by (simp add: Append_def Let_def)
  moreover have "jsonlPath (snd (Append env t sid ms st)) sid = jsonlPath st sid"
    by (auto simp: Append_def touchMeta_def jsonlPath_def Let_def split: prod.splits option.splits)
  ultimately show ?thesis using file_store.hist_append [OF assms(1, 2) _ assms(4)] file_store.inv_append [OF assms(1)] by blast
qed

lemma confirm_finish_resumed:
  assumes "resume sid iid (result_text res) = Inr evs"
    and "agent_loop False cm sid evs (ag\<lparr>InterruptIDs := (InterruptIDs ag)(sid := None), Proposals := (Proposals ag)(sid := None),
      agStore := snd (Append env (atAppend clk) sid (tool_exchange ip p (result_text res)) (agStore ag))\<rparr>) = (out, ms, ag3)"
  shows "agStore (snd (confirm_finish env clk ip cm resume sid iid p res ag))
    = (if ms \<noteq> [] then snd (Append env (atAppend clk) sid ms (agStore ag3)) else agStore ag3)"
  using assms by (simp add: confirm_finish_def Let_def tool_exchange_def)

text \<open>
  C12. A confirmed proposal runs on a worker and is remembered: when the confirmation of the session's
  owner passes the checks and the server's synchronous execution of the proposal's code returns a
  response, the agent is resumed with that response's text, and the session's history afterwards is
  the old one, the call of the tool with the proposal, the response's text as its result, and
  whatever the agent went on to produce, in this order.
\<close>

theorem confirmed_run_remembered:
  assumes checks: "confirm_begin env clk tok body ag = (Inr (sid, iid, p), ag1)"
    and run: "ExecuteSync (p2c_lb F) e arr jerr
        (zeroRequest\<lparr>reqId := prID p, reqUid := 0, Language := prLanguage p, CodeBlock := prCode p\<rparr>) s = (Inr resp, s')"
    and result: "t = result_text (Inr \<lparr>erResult = Result resp, erErr = Err resp\<rparr>)"
    and resumed: "resume sid iid t = Inr evs" and produced: "produced = fst (snd (agent_loop False cm sid evs ag))"
    and store: "logs_ok (agStore ag)" "history env (agStore ag) sid = Some past"
    and fits: "list_all (storable env) (tool_exchange ip p t @ produced)" "feWritable env (jsonlPath (agStore ag1) sid)"
  shows "\<exists>out ag'. ConfirmHandler env clk ip cm resume (server_exec F e arr jerr) tok body ag s = (Stream out, ag', s')
     \<and> history env (agStore ag') sid = Some (past @ tool_exchange ip p t @ produced)"
proof -
  obtain meta where g: "GetMeta env (atLookup clk) sid (agStore ag) = (Some meta, agStore ag1)"
    using checks by (auto simp: confirm_begin_def Let_def split: option.splits prod.splits if_splits)
  have lo: "logs_ok (agStore ag1)" "history env (agStore ag1) sid = Some past"
    using GetMeta_logs_ok [OF g store(1)] GetMeta_histories [OF g] store(2) by simp_all
  let ?st1 = "snd (Append env (atAppend clk) sid (tool_exchange ip p t) (agStore ag1))"
  have ex: "list_all (storable env) (tool_exchange ip p t)" "list_all (storable env) produced" using fits(1) by simp_all
  note a1 = append_remembered [OF lo(1) ex(1) fits(2) lo(2), of "atAppend clk"]
  let ?ag2 = "ag1\<lparr>InterruptIDs := (InterruptIDs ag1)(sid := None), Proposals := (Proposals ag1)(sid := None), agStore := ?st1\<rparr>"
  obtain out ms ag3 where l: "agent_loop False cm sid evs ?ag2 = (out, ms, ag3)" by (metis prod_cases3)
  have ms: "ms = produced" using produced agent_loop_messages [of False cm sid evs ?ag2 ag] l by simp
  have st3: "agStore ag3 = ?st1" using agent_loop_frame [OF l] by simp
  let ?st4 = "if produced \<noteq> [] then snd (Append env (atAppend clk) sid produced ?st1) else ?st1"
  have h4: "history env ?st4 sid = Some (past @ tool_exchange ip p t @ produced)"
    using a1 append_remembered [of ?st1 env produced sid "past @ tool_exchange ip p t" "atAppend clk"] ex(2) fits(2) by auto
  have "server_exec F e arr jerr (confirm_request p) s = (Inr \<lparr>erResult = Result resp, erErr = Err resp\<rparr>, s')"
    using run by (simp add: server_exec_def executor_Execute_def confirm_request_def)
  moreover have "agStore (snd (confirm_finish env clk ip cm resume sid iid p (Inr \<lparr>erResult = Result resp, erErr = Err resp\<rparr>) ag1)) = ?st4"
    using confirm_finish_resumed [of resume sid iid "Inr \<lparr>erResult = Result resp, erErr = Err resp\<rparr>" evs cm env clk ip p ag1 out ms ag3]
      resumed l ms st3 by (simp add: result)
  moreover obtain x1 x2 where "confirm_finish env clk ip cm resume sid iid p (Inr \<lparr>erResult = Result resp, erErr = Err resp\<rparr>) ag1 = (x1, x2)"
    by fastforce
  moreover from this have "\<exists>out. x1 = Stream out"
    by (auto simp: confirm_finish_def Let_def split: sum.splits prod.splits)
  ultimately show ?thesis using h4 by (auto simp: ConfirmHandler_def checks)
qed

definition wit_text :: string where
  "wit_text = result_text (Inr \<lparr>erResult = [], erErr = []\<rparr>)"

text \<open>A log whose encoding of messages tells the two of the exchange apart.\<close>

definition wit_log_env :: "message file_env" where
  "wit_log_env = \<lparr>feWritable = (\<lambda>p. True), feTime = (\<lambda>t. Itoa t), feParseTime = (\<lambda>s. Some 0),
     feEnc = (\<lambda>m. Some (if msgRole m = ''assistant'' then ''c'' else ''r'')),
     feDec = (\<lambda>s. Some (tool_exchange (\<lambda>_. True) wit_proposal wit_text ! (if s = ''c'' then 0 else 1)))\<rparr>"

theorem confirmed_run_remembered_witness:
  "\<exists>out ag' s'. ConfirmHandler wit_log_env wit_clock (\<lambda>_. True) (\<lambda>_. None) (\<lambda>_ _ _. Inr [])
       (server_exec exact_float ok_env [MsgFrame \<lparr>msgType = MsgTypeResult, RequestID = ''p1'', Payload = response_json zeroResponse\<rparr>] [])
       7 (wit_confirm ''bob'') wit_agent one_worker = (Stream out, ag', s')
     \<and> history wit_log_env (agStore ag') ''a'' = Some (tool_exchange (\<lambda>_. True) wit_proposal wit_text)"
proof -
  let ?fs = "[MsgFrame \<lparr>msgType = MsgTypeResult, RequestID = ''p1'', Payload = response_json zeroResponse\<rparr>]"
  let ?req = "zeroRequest\<lparr>reqId := prID wit_proposal, reqUid := 0, Language := prLanguage wit_proposal, CodeBlock := prCode wit_proposal\<rparr>"
  have m: "GetMeta wit_log_env 1 ''a'' (agStore wit_agent) = (Some wit_meta, agStore wit_agent)"
    by (simp add: GetMeta_def wit_agent_def expired_def wit_store_def wit_meta_def)
  have t: "TrimSpace ''a'' = ''a''" "TrimSpace ''p1'' = ''p1''" by code_simp+
  have b: "confirm_begin wit_log_env wit_clock 7 (wit_confirm ''bob'') wit_agent
      = (Inr (''a'', ''i1'', wit_proposal), wit_agent\<lparr>Cancels := (Cancels wit_agent)(''a'' \<mapsto> 7)\<rparr>)"
    using m t by (simp add: confirm_begin_def wit_confirm_bind wit_clock_def owner_ok_def Let_def)
      (simp add: wit_agent_def wit_meta_def wit_proposal_def)
  have p: "parse_response (response_json zeroResponse) = Some zeroResponse"
    by (simp add: response_json_parses wire_response_def zeroResponse_def)
  have "prID wit_proposal = ''p1''" by (simp add: wit_proposal_def)
  then obtain s' where e: "ExecuteSync (p2c_lb exact_float) ok_env ?fs [] ?req one_worker = (Inr zeroResponse, s')"
    by (simp add: ExecuteSync_def ok_env_def one_worker_pick client_SendSync_def ws_SendSync_def
        sync_register_def sync_write_def ws_write_def read_turn_def chan_send_def sync_take_def chan_recv_def
        make_chan_def one_worker_clients NewWebsocketClientImpl_def zeroRequest_def p cm_Done_def)
  have r: "wit_text = result_text (Inr \<lparr>erResult = Result zeroResponse, erErr = Err zeroResponse\<rparr>)"
    by (simp add: wit_text_def zeroResponse_def)
  have l: "logs_ok (agStore wit_agent)" by (simp add: logs_ok_def wit_agent_def wit_store_def terminated_def)
  have h: "history wit_log_env (agStore wit_agent) ''a'' = Some []"
    by (simp add: history_read wit_agent_def wit_store_def jsonlPath_def read_log_def maxToken_def)
  have f: "list_all (storable wit_log_env) (tool_exchange (\<lambda>_. True) wit_proposal wit_text @ [])"
    by (simp add: storable_def wit_log_env_def tool_exchange_def ToolMessage_def Session_Store.newline_def maxToken_def)
  have w: "feWritable wit_log_env (jsonlPath (agStore (wit_agent\<lparr>Cancels := (Cancels wit_agent)(''a'' \<mapsto> 7)\<rparr>)) ''a'')"
    by (simp add: wit_log_env_def)
  from confirmed_run_remembered [OF b e r _ _ l h f w, of "\<lambda>_ _ _. Inr []" "[]" "\<lambda>_. None"] show ?thesis by auto
qed

end
